(* ===== verification/Prelude.thy ===== *)
theory Prelude
  imports Main "HOL-Library.Word"
begin

unbundle bit_operations_syntax

text \<open>
  Shared vocabulary of the development: Python \<open>bytes\<close> values, slices, indexing, the
  little-endian \<open>struct\<close> codecs, exceptions as values, and the two ways the components
  sequence fallible code (a pure result \<open>exn + 'a\<close>, and a state-passing action that keeps
  the state reached when an exception is raised, as Python does).

  An octet is an \<open>8 word\<close>, so that every value a model builds is a value Python's
  \<open>bytes\<close> can hold; \<open>bytes([n])\<close> and \<open>struct.pack\<close> on an out-of-range number are
  the exceptions \<open>ValueError\<close> and \<open>StructError\<close>. Python integers that cannot be
  negative are \<open>nat\<close>. Exception messages keep the format string of the source and the
  numbers it is applied to.
\<close>

section \<open>Octets, exceptions and results\<close>

type_synonym byte = "8 word"
type_synonym bytes = "byte list"

datatype exn =
    HciError string "nat list"
  | HciGone string
  | TransportError string "nat list"
  | TransportGone string
  | SelectionError string
  | PairingError string "nat list"
  | RuntimeError string "nat list"
  | StructError
  | IndexError
  | ValueError string
  | KeyError
  | TypeError
  | AssertionError string "nat list"

type_synonym 'a result = "exn + 'a"

named_theorems codec_simps
  "round-trip and length laws of the byte codecs"
named_theorems result_simps
  "unfolding rules of the sequencing combinators"

definition bind_r :: "'a result \<Rightarrow> ('a \<Rightarrow> 'b result) \<Rightarrow> 'b result" where
  "bind_r m f = (case m of Inl e \<Rightarrow> Inl e | Inr x \<Rightarrow> f x)"

lemma bind_r_simps [simp, result_simps]:
  "bind_r (Inl e) f = Inl e"
  "bind_r (Inr x) f = f x"
  by (simp_all add: bind_r_def)

lemma bind_r_Inr_iff:
  "bind_r m f = Inr y \<longleftrightarrow> (\<exists>x. m = Inr x \<and> f x = Inr y)"
  by (cases m) auto

lemma bind_r_Inl_iff:
  "bind_r m f = Inl e \<longleftrightarrow> m = Inl e \<or> (\<exists>x. m = Inr x \<and> f x = Inl e)"
  by (cases m) auto

lemmas bind_r_iff = bind_r_Inr_iff bind_r_Inl_iff

lemma bind_r_split:
  "P (bind_r m f) \<longleftrightarrow> (\<forall>e. m = Inl e \<longrightarrow> P (Inl e)) \<and> (\<forall>x. m = Inr x \<longrightarrow> P (f x))"
  by (cases m) auto

text \<open>A state-passing action: the exception or the value, and the state reached.\<close>

type_synonym ('s, 'a) action = "'s \<Rightarrow> 'a result \<times> 's"

definition ret :: "'a \<Rightarrow> ('s, 'a) action" where
  "ret x s = (Inr x, s)"

definition throw :: "exn \<Rightarrow> ('s, 'a) action" where
  "throw e s = (Inl e, s)"

definition bind_s :: "('s, 'a) action \<Rightarrow> ('a \<Rightarrow> ('s, 'b) action) \<Rightarrow> ('s, 'b) action" where
  "bind_s m f s = (case m s of (Inl e, s') \<Rightarrow> (Inl e, s') | (Inr x, s') \<Rightarrow> f x s')"

definition lift_r :: "'a result \<Rightarrow> ('s, 'a) action" where
  "lift_r m s = (m, s)"

lemma action_simps [simp, result_simps]:
  "ret x s = (Inr x, s)"
  "throw e s = (Inl e, s)"
  "lift_r m s = (m, s)"
  by (simp_all add: ret_def throw_def lift_r_def)

lemma bind_s_simps [simp]:
  "bind_s (ret x) f s = f x s"
  "bind_s (throw e) f s = (Inl e, s)"
  "bind_s (lift_r (Inr x)) f s = f x s"
  "bind_s (lift_r (Inl e)) f s = (Inl e, s)"
  by (simp_all add: bind_s_def)

lemma bind_lift_r:
  "bind_s (lift_r (Inr x)) f = f x"
  "bind_s (lift_r (Inl e)) f = throw e"
  by (auto simp: fun_eq_iff throw_def)

lemma bind_s_Inr_iff:
  "bind_s m f s = (Inr y, s2) \<longleftrightarrow> (\<exists>x s1. m s = (Inr x, s1) \<and> f x s1 = (Inr y, s2))"
  by (auto simp: bind_s_def split: prod.splits sum.splits)

text \<open>Reading and changing the state, and an action of a component that owns the second half of a
  shared state.\<close>

definition with_s :: "('s \<Rightarrow> ('s, 'a) action) \<Rightarrow> ('s, 'a) action" where
  "with_s f s = f s s"

definition modify_s :: "('s \<Rightarrow> 's) \<Rightarrow> ('s, unit) action" where
  "modify_s f s = (Inr (), f s)"

definition on_snd :: "('b, 'x) action \<Rightarrow> ('a \<times> 'b, 'x) action" where
  "on_snd m s = (case m (snd s) of (r, b) \<Rightarrow> (r, (fst s, b)))"

lemma state_action_simps [simp, result_simps]:
  "with_s f s = f s s"
  "modify_s g s = (Inr (), g s)"
  "on_snd m (a, b) = (fst (m b), (a, snd (m b)))"
  by (simp_all add: with_s_def modify_s_def on_snd_def split: prod.split)

lemma bind_modify [simp]: "bind_s (modify_s g) f s = f () (g s)"
  by (simp add: bind_s_def)

lemma bind_s_eqI: "m s = (Inr x, s1) \<Longrightarrow> bind_s m f s = f x s1"
  by (simp add: bind_s_def)

text \<open>\<open>try: m except: f\<close>, where \<open>f\<close> raises again what it does not handle, and the two exceptions
  the clients of the engine tell apart (neither is a subclass of the other).\<close>

definition catch_s :: "('s, 'a) action \<Rightarrow> (exn \<Rightarrow> ('s, 'a) action) \<Rightarrow> ('s, 'a) action" where
  "catch_s m f s = (case m s of (Inl e, s') \<Rightarrow> f e s' | (Inr x, s') \<Rightarrow> (Inr x, s'))"

definition is_HciError :: "exn \<Rightarrow> bool" where
  "is_HciError e = (case e of HciError _ _ \<Rightarrow> True | _ \<Rightarrow> False)"

definition is_HciGone :: "exn \<Rightarrow> bool" where
  "is_HciGone e = (case e of HciGone _ \<Rightarrow> True | _ \<Rightarrow> False)"

section \<open>Slices and indexing\<close>

text \<open>\<open>pslice i j xs\<close> is Python's \<open>xs[i:j]\<close> for non-negative bounds.\<close>

definition pslice :: "nat \<Rightarrow> nat \<Rightarrow> 'a list \<Rightarrow> 'a list" where
  "pslice i j xs = take (j - i) (drop i xs)"

definition byte_at :: "bytes \<Rightarrow> nat \<Rightarrow> byte result" where
  "byte_at xs i = (if i < length xs then Inr (xs ! i) else Inl IndexError)"

lemma length_pslice [simp]: "length (pslice i j xs) = min (j - i) (length xs - i)"
  by (simp add: pslice_def)

lemma pslice_append_left [simp]: "j \<le> length xs \<Longrightarrow> pslice i j (xs @ ys) = pslice i j xs"
  by (auto simp: pslice_def)

lemma pslice_append_right [simp]:
  "length xs \<le> i \<Longrightarrow> pslice i j (xs @ ys) = pslice (i - length xs) (j - length xs) ys"
  by (simp add: pslice_def)

lemma pslice_0 [simp]: "pslice 0 j xs = take j xs"
  by (simp add: pslice_def)

lemma pslice_Cons_Suc [simp]: "pslice (Suc i) (Suc j) (x # xs) = pslice i j xs"
  by (simp add: pslice_def)

lemma pslice_Cons_numeral [simp]:
  "pslice (numeral k) (numeral l) (x # xs) = pslice (pred_numeral k) (pred_numeral l) xs"
  "pslice (Suc i) (numeral l) (x # xs) = pslice i (pred_numeral l) xs"
  by (simp_all add: numeral_eq_Suc pslice_def)

lemma pslice_nil [simp]: "pslice i j [] = []"
  by (simp add: pslice_def)

section \<open>Little-endian numbers\<close>

text \<open>\<open>from_le\<close> is \<open>int.from_bytes(xs, "little")\<close>; \<open>to_le n v\<close> is
  \<open>v.to_bytes(n, "little")\<close> reduced to \<open>n\<close> octets.\<close>

fun from_le :: "bytes \<Rightarrow> nat" where
  "from_le [] = 0"
| "from_le (b # bs) = unat b + 256 * from_le bs"

fun to_le :: "nat \<Rightarrow> nat \<Rightarrow> bytes" where
  "to_le 0 v = []"
| "to_le (Suc n) v = of_nat v # to_le n (v div 256)"

text \<open>\<open>struct.pack\<close> and \<open>struct.unpack\<close> of one unsigned little-endian field of \<open>n\<close>
  octets (formats \<open>B\<close>, \<open>H\<close>, \<open>I\<close>), and \<open>bytes([v])\<close>.\<close>

definition pack_le :: "nat \<Rightarrow> nat \<Rightarrow> bytes result" where
  "pack_le n v = (if v < 256 ^ n then Inr (to_le n v) else Inl StructError)"

definition unpack_le :: "nat \<Rightarrow> bytes \<Rightarrow> nat result" where
  "unpack_le n xs = (if length xs = n then Inr (from_le xs) else Inl StructError)"

definition octet :: "nat \<Rightarrow> bytes result" where
  "octet v = (if v < 256 then Inr [of_nat v] else Inl (ValueError ''bytes must be in range(0, 256)''))"

abbreviation zeros :: "nat \<Rightarrow> bytes" where
  "zeros n \<equiv> replicate n 0"

lemma unat_byte_less [simp]: "unat (b :: byte) < 256"
  using unsigned_less [of b] by simp

lemma unat_of_nat_byte [simp]: "unat (of_nat v :: byte) = v mod 256"
  by (simp add: unat_of_nat)

lemma length_to_le [simp, codec_simps]: "length (to_le n v) = n"
  by (induction n arbitrary: v) auto

lemma from_le_less: "from_le bs < 256 ^ length bs"
proof (induction bs)
  case Nil
  then show ?case by simp
next
  case (Cons b bs)
  have "unat b + 256 * from_le bs < 256 * Suc (from_le bs)" by simp
  also from Cons have "256 * Suc (from_le bs) \<le> 256 * 256 ^ length bs"
    by (intro mult_le_mono2) simp
  finally show ?case by simp
qed

lemma from_to_le [codec_simps]: "from_le (to_le n v) = v mod 256 ^ n"
  by (induction n arbitrary: v) (simp_all add: mod_mult2_eq)

lemma to_from_le [codec_simps]: "to_le (length bs) (from_le bs) = bs"
proof (induction bs)
  case Nil
  then show ?case by simp
next
  case (Cons b bs)
  have "(256 :: byte) = 0" by simp
  then have "(of_nat (unat b + 256 * from_le bs) :: byte) = b"
    by (simp only: of_nat_add of_nat_mult of_nat_numeral mult_zero_left add_0_right) simp
  moreover have "(unat b + 256 * from_le bs) div 256 = from_le bs" by simp
  ultimately show ?case using Cons by simp
qed

lemma le16_join [simp]: "v mod 256 + 256 * (v div 256 mod 256) = v mod (65536 :: nat)"
  using mod_mult2_eq [of v 256 256] by simp

lemma to_le_2: "to_le 2 v = [of_nat v, of_nat (v div 256)]"
  by (simp add: numeral_2_eq_2)

lemma from_le_16 [simp]: "length bs \<le> 2 \<Longrightarrow> from_le bs < 65536"
  using from_le_less [of bs] power_increasing [of "length bs" 2 "256 :: nat"] by simp

lemma from_le_append: "from_le (xs @ ys) = from_le xs + 256 ^ length xs * from_le ys"
  by (induction xs) (simp_all add: algebra_simps)

lemma pack_unpack_le [codec_simps]: "pack_le n v = Inr bs \<Longrightarrow> unpack_le n bs = Inr v"
  by (auto simp: pack_le_def unpack_le_def from_to_le split: if_splits)

lemma unpack_pack_le [codec_simps]: "unpack_le n bs = Inr v \<Longrightarrow> pack_le n v = Inr bs"
  using from_le_less [of bs] by (auto simp: pack_le_def unpack_le_def to_from_le split: if_splits)

lemma pack_le_length: "pack_le n v = Inr bs \<Longrightarrow> length bs = n"
  by (auto simp: pack_le_def split: if_splits)

lemma unpack_le_bound: "unpack_le n bs = Inr v \<Longrightarrow> v < 256 ^ n"
  using from_le_less [of bs] by (auto simp: unpack_le_def split: if_splits)

text \<open>The handle mask of every HCI handle field.\<close>

lemma and_0xFFF [simp]: "(n :: nat) AND 4095 = n mod 4096"
  using take_bit_eq_mask [of 12 n] by (simp add: take_bit_eq_mod mask_eq_exp_minus_1)

lemma and_0x3FFF [simp]: "(n :: nat) AND 16383 = n mod 16384"
  using take_bit_eq_mask [of 14 n] by (simp add: take_bit_eq_mod mask_eq_exp_minus_1)

end
