(* ===== verification/Hci_Events.thy ===== *)
theory Hci_Events
  imports Prelude
begin

text \<open>
  \<open>python/hcicontroller/hci_events.py\<close>: the packet indicators, event codes, error names and
  the decoder of the three connection-complete events. The decoder is modelled with every
  index and \<open>struct.unpack\<close> that could raise, so that its documented promise (it returns
  \<open>None\<close> rather than raising) is a theorem and not a modelling choice.
\<close>

section \<open>Codes\<close>

abbreviation (input) H4_COMMAND :: byte where "H4_COMMAND \<equiv> 0x01"
abbreviation (input) H4_ACL :: byte where "H4_ACL \<equiv> 0x02"
abbreviation (input) H4_SCO :: byte where "H4_SCO \<equiv> 0x03"
abbreviation (input) H4_EVENT :: byte where "H4_EVENT \<equiv> 0x04"
abbreviation (input) H4_ISO :: byte where "H4_ISO \<equiv> 0x05"

abbreviation (input) EVT_DISCONNECTION_COMPLETE :: byte where "EVT_DISCONNECTION_COMPLETE \<equiv> 0x05"
abbreviation (input) EVT_ENCRYPTION_CHANGE :: byte where "EVT_ENCRYPTION_CHANGE \<equiv> 0x08"
abbreviation (input) EVT_COMMAND_COMPLETE :: byte where "EVT_COMMAND_COMPLETE \<equiv> 0x0E"
abbreviation (input) EVT_COMMAND_STATUS :: byte where "EVT_COMMAND_STATUS \<equiv> 0x0F"
abbreviation (input) EVT_NUM_COMPLETED_PACKETS :: byte where "EVT_NUM_COMPLETED_PACKETS \<equiv> 0x13"
abbreviation (input) EVT_LE_META :: byte where "EVT_LE_META \<equiv> 0x3E"

abbreviation (input) LE_CONNECTION_COMPLETE :: byte where "LE_CONNECTION_COMPLETE \<equiv> 0x01"
abbreviation (input) LE_ADVERTISING_REPORT :: byte where "LE_ADVERTISING_REPORT \<equiv> 0x02"
abbreviation (input) LE_LONG_TERM_KEY_REQUEST :: byte where "LE_LONG_TERM_KEY_REQUEST \<equiv> 0x05"
abbreviation (input) LE_ENHANCED_CONNECTION_COMPLETE :: byte where
  "LE_ENHANCED_CONNECTION_COMPLETE \<equiv> 0x0A"
abbreviation (input) LE_EXTENDED_ADVERTISING_REPORT :: byte where
  "LE_EXTENDED_ADVERTISING_REPORT \<equiv> 0x0D"
abbreviation (input) LE_ENHANCED_CONNECTION_COMPLETE_V2 :: byte where
  "LE_ENHANCED_CONNECTION_COMPLETE_V2 \<equiv> 0x29"

abbreviation (input) LE_CONNECTION_COMPLETE_LEN :: nat where "LE_CONNECTION_COMPLETE_LEN \<equiv> 18"
abbreviation (input) LE_ENHANCED_CONNECTION_COMPLETE_LEN :: nat where
  "LE_ENHANCED_CONNECTION_COMPLETE_LEN \<equiv> 30"

definition ERROR_NAMES :: "(nat \<times> string) list" where
  "ERROR_NAMES =
    [(0x00, ''Success''),
     (0x01, ''Unknown HCI Command''),
     (0x02, ''Unknown Connection Identifier''),
     (0x08, ''Connection Timeout''),
     (0x0C, ''Command Disallowed''),
     (0x11, ''Unsupported Feature or Parameter Value''),
     (0x12, ''Invalid HCI Command Parameters''),
     (0x13, ''Remote User Terminated Connection''),
     (0x16, ''Connection Terminated By Local Host''),
     (0x1A, ''Unsupported Remote Feature''),
     (0x3A, ''Controller Busy''),
     (0x3E, ''Connection Failed To Be Established''),
     (0x41, ''Unacceptable Connection Parameters''),
     (0x42, ''Unknown Advertising Identifier''),
     (0x43, ''Limit Reached''),
     (0x44, ''Operation Cancelled By Host'')]"

text \<open>\<open>"%0<w>X" % n\<close>: upper-case hexadecimal, padded with zeros to width \<open>w\<close>.\<close>

fun hex_upper :: "nat \<Rightarrow> string" where
  "hex_upper n = (if n < 16 then [''0123456789ABCDEF'' ! n]
                  else hex_upper (n div 16) @ [''0123456789ABCDEF'' ! (n mod 16)])"

declare hex_upper.simps [simp del]

definition hex_pad :: "nat \<Rightarrow> nat \<Rightarrow> string" where
  "hex_pad w n = replicate (w - length (hex_upper n)) CHR ''0'' @ hex_upper n"

definition status_text :: "nat \<Rightarrow> string" where
  "status_text status = ''0x'' @ hex_pad 2 status @ '' '' @
     (case map_of ERROR_NAMES status of None \<Rightarrow> '''' | Some name \<Rightarrow> name)"

section \<open>Connection complete\<close>

record connection =
  conn_status :: byte
  conn_handle :: nat
  conn_role :: byte
  conn_peer :: bytes
  conn_interval :: nat
  conn_latency :: nat
  conn_timeout :: nat

text \<open>\<open>struct.unpack("<HHH", xs)\<close>.\<close>

definition unpack_HHH :: "bytes \<Rightarrow> (nat \<times> nat \<times> nat) result" where
  "unpack_HHH xs =
     (if length xs = 6
      then Inr (from_le (pslice 0 2 xs), from_le (pslice 2 4 xs), from_le (pslice 4 6 xs))
      else Inl StructError)"

definition parse_connection :: "bytes \<Rightarrow> connection option result" where
  "parse_connection body =
     (if body = [] then Inr None
      else
        let sub = body ! 0;
            finish = (\<lambda>(interval, latency, timeout).
              bind_r (byte_at body 1) (\<lambda>status.
              bind_r (unpack_le 2 (pslice 2 4 body)) (\<lambda>h.
              bind_r (byte_at body 4) (\<lambda>role.
              Inr (Some \<lparr>conn_status = status, conn_handle = h AND 0x0FFF, conn_role = role,
                         conn_peer = pslice 6 12 body, conn_interval = interval,
                         conn_latency = latency, conn_timeout = timeout\<rparr>)))))
        in if sub = LE_CONNECTION_COMPLETE then
             (if length body < LE_CONNECTION_COMPLETE_LEN then Inr None
              else bind_r (unpack_HHH (pslice 12 18 body)) finish)
           else if sub = LE_ENHANCED_CONNECTION_COMPLETE
                 \<or> sub = LE_ENHANCED_CONNECTION_COMPLETE_V2 then
             (if length body < LE_ENHANCED_CONNECTION_COMPLETE_LEN then Inr None
              else bind_r (unpack_HHH (pslice 24 30 body)) finish)
           else Inr None)"

text \<open>
  The layouts of Vol 4 Part E 7.7.65.1 and 7.7.65.10 the decoder is meant for, written as
  encoders: the enhanced form has two resolvable private addresses between the peer address
  and the interval triple, and version 2 appends an advertising handle and a sync handle.
\<close>

definition encode_connection :: "byte \<Rightarrow> connection \<Rightarrow> byte \<Rightarrow> bytes \<Rightarrow> bytes \<Rightarrow> bytes" where
  "encode_connection sub c peer_type rpas tail =
     [sub, conn_status c] @ to_le 2 (conn_handle c) @ [conn_role c, peer_type] @ conn_peer c @ rpas
     @ to_le 2 (conn_interval c) @ to_le 2 (conn_latency c) @ to_le 2 (conn_timeout c) @ tail"

definition wf_connection :: "connection \<Rightarrow> bool" where
  "wf_connection c \<longleftrightarrow> conn_handle c < 4096 \<and> length (conn_peer c) = 6 \<and>
     conn_interval c < 65536 \<and> conn_latency c < 65536 \<and> conn_timeout c < 65536"

section \<open>Properties\<close>

lemma length_encode_connection:
  "wf_connection c \<Longrightarrow> length (encode_connection sub c pt rpas tail) = 18 + length rpas + length tail"
  by (simp add: encode_connection_def wf_connection_def)

lemma unpack_HHH_exact: "length xs = 6 \<Longrightarrow> \<exists>t. unpack_HHH xs = Inr t"
  by (simp add: unpack_HHH_def)

lemmas parse_connection_defs = parse_connection_def Let_def byte_at_def unpack_le_def unpack_HHH_def

text \<open>The decoder of connection-complete events never raises, whatever octets it is given (it is
  called on everything the controller sends), and what it returns has every field in its range. A
  body shorter than the shortest layout is refused.\<close>

lemma parse_connection_total:
  "\<exists>r. parse_connection body = Inr r \<and>
     (case r of None \<Rightarrow> True | Some c \<Rightarrow> wf_connection c \<and> 18 \<le> length body)"
  by (auto simp: parse_connection_defs wf_connection_def)

text \<open>Each of the three layouts of the specification decodes to the connection it encodes,
  whatever follows it and whatever is in the private addresses the decoder skips.\<close>

lemma parse_connection_roundtrip:
  assumes "wf_connection c"
    and "sub = LE_CONNECTION_COMPLETE \<and> rpas = [] \<or>
         (sub = LE_ENHANCED_CONNECTION_COMPLETE \<or> sub = LE_ENHANCED_CONNECTION_COMPLETE_V2)
           \<and> length rpas = 12"
  shows "parse_connection (encode_connection sub c peer_type rpas tail) = Inr (Some c)"
  using assms
  by (auto simp: parse_connection_defs encode_connection_def wf_connection_def to_le_2)

end
