(* ===== verification/Framing.thy ===== *)
theory Framing
  imports Hci_Events
begin

text \<open>
  Packet framing on byte streams. Both host transports of
  \<open>python/hcicontroller/hci_transport.py\<close> cut HCI packets out of a buffer that grows by
  arbitrary chunks: serial H:4 (\<open>SerialH4Transport._expected_length\<close>, \<open>_take_packet\<close>) and
  native USB (\<open>NativeUsbTransport._take_complete\<close> with one \<open>expected\<close> function and one
  parser per endpoint). What a client relies on is the same for all of them and is the locale
  \<open>framer\<close>: a cut that succeeds or fails does so whatever bytes follow, and a cut that does not
  succeed leaves the buffer alone. From that the packets a reader sees do not depend on how the
  stream was split into chunks, and, with an encoder, that they are exactly the packets written.
\<close>

type_synonym packet = "byte \<times> byte option \<times> bytes"
type_synonym 'p cutter = "bytes \<Rightarrow> 'p option result \<times> bytes"

section \<open>Repeated cutting, and feeding chunk by chunk\<close>

text \<open>\<open>drain\<close> cuts until the buffer holds no complete packet or the stream is broken: the
  packets, the exception if one was raised, and the buffer left. \<open>feed\<close> appends one chunk at a
  time and drains after each, as a reader does.\<close>

function drain :: "'p cutter \<Rightarrow> bytes \<Rightarrow> 'p list \<times> exn option \<times> bytes" where
  "drain cutp buf =
     (case cutp buf of
        (Inl e, rest) \<Rightarrow> ([], Some e, rest)
      | (Inr None, rest) \<Rightarrow> ([], None, rest)
      | (Inr (Some p), rest) \<Rightarrow>
          if length rest < length buf
          then (case drain cutp rest of (ps, e, r) \<Rightarrow> (p # ps, e, r))
          else ([p], None, rest))"
  by pat_completeness auto
termination
  by (relation "measure (\<lambda>(_, buf). length buf)") auto

declare drain.simps [simp del]

fun feed :: "'p cutter \<Rightarrow> bytes \<Rightarrow> bytes list \<Rightarrow> 'p list \<times> exn option \<times> bytes" where
  "feed cutp buf [] = ([], None, buf)"
| "feed cutp buf (c # cs) =
     (case drain cutp (buf @ c) of
        (ps, Some e, r) \<Rightarrow> (ps, Some e, r)
      | (ps, None, r) \<Rightarrow> (case feed cutp r cs of (qs, e, r') \<Rightarrow> (ps @ qs, e, r')))"

section \<open>The contract of a framer\<close>

locale framer =
  fixes cutp :: "'p cutter"
  assumes cutp_Nil: "cutp [] = (Inr None, [])"
    and cutp_None: "cutp buf = (Inr None, rest) \<Longrightarrow> rest = buf"
    and cutp_Some: "cutp buf = (Inr (Some p), rest) \<Longrightarrow>
      length rest < length buf \<and> (\<forall>suf. cutp (buf @ suf) = (Inr (Some p), rest @ suf))"
    and cutp_Err: "cutp buf = (Inl e, rest) \<Longrightarrow> \<forall>suf. \<exists>r. cutp (buf @ suf) = (Inl e, r)"
begin

lemma drain_Nil: "drain cutp [] = ([], None, [])"
  by (simp add: drain.simps [of cutp] cutp_Nil)

lemma drain_cases:
  obtains (Err) e rest where "cutp buf = (Inl e, rest)" "drain cutp buf = ([], Some e, rest)"
        "\<And>suf. \<exists>r. cutp (buf @ suf) = (Inl e, r)"
    | (Stop) "cutp buf = (Inr None, buf)" "drain cutp buf = ([], None, buf)"
    | (Go) p rest ps e r where "cutp buf = (Inr (Some p), rest)" "length rest < length buf"
        "\<And>suf. cutp (buf @ suf) = (Inr (Some p), rest @ suf)"
        "drain cutp rest = (ps, e, r)" "drain cutp buf = (p # ps, e, r)"
proof -
  obtain out rest where c: "cutp buf = (out, rest)" by fastforce
  show ?thesis
  proof (cases out)
    case (Inl e)
    with c cutp_Err [of buf e rest] show ?thesis
      by (intro Err [of e rest]) (auto simp: drain.simps [of cutp buf])
  next
    case (Inr po)
    show ?thesis
    proof (cases po)
      case None
      with c Inr cutp_None [of buf rest] show ?thesis
        by (intro Stop) (auto simp: drain.simps [of cutp buf])
    next
      case (Some p)
      obtain ps e r where "drain cutp rest = (ps, e, r)" by (metis prod_cases3)
      with c Inr Some cutp_Some [of buf p rest] show ?thesis
        by (intro Go [of p rest ps e r]) (auto simp: drain.simps [of cutp buf])
    qed
  qed
qed

lemma drain_extend_None:
  "drain cutp buf = (ps, None, r) \<Longrightarrow>
   drain cutp (buf @ suf) = (case drain cutp (r @ suf) of (qs, e, r') \<Rightarrow> (ps @ qs, e, r'))"
proof (induction buf arbitrary: ps rule: length_induct)
  case (1 buf)
  show ?case
  proof (cases rule: drain_cases [of buf])
    case (Go p rest ps' e r0)
    with 1 have "drain cutp (rest @ suf)
        = (case drain cutp (r @ suf) of (qs, e, r') \<Rightarrow> (ps' @ qs, e, r'))" by auto
    with Go 1(2) show ?thesis
      by (auto simp: drain.simps [of cutp "buf @ suf"] split: prod.splits)
  qed (use 1(2) in \<open>auto split: prod.splits\<close>)
qed

lemma drain_extend_Some:
  "drain cutp buf = (ps, Some e, r) \<Longrightarrow> \<exists>r'. drain cutp (buf @ suf) = (ps, Some e, r')"
proof (induction buf arbitrary: ps rule: length_induct)
  case (1 buf)
  show ?case
  proof (cases rule: drain_cases [of buf])
    case (Err e' rest)
    from Err(3) obtain r' where "cutp (buf @ suf) = (Inl e', r')" by blast
    with Err 1(2) show ?thesis
      by (simp add: drain.simps [of cutp "buf @ suf"])
  next
    case (Go p rest ps' e' r0)
    with 1 obtain r' where "drain cutp (rest @ suf) = (ps', Some e, r')" by fastforce
    with Go 1(2) show ?thesis
      by (auto simp: drain.simps [of cutp "buf @ suf"])
  qed (use 1(2) in auto)
qed

lemma drain_residual: "drain cutp buf = (ps, None, r) \<Longrightarrow> drain cutp r = ([], None, r)"
proof (induction buf arbitrary: ps rule: length_induct)
  case (1 buf)
  show ?case by (cases rule: drain_cases [of buf]) (use 1 in auto)
qed

text \<open>The packets delivered, and the exception if there is one, do not depend on how the
  stream is split.\<close>

lemma feed_drain:
  "drain cutp buf = ([], None, buf) \<Longrightarrow>
   \<exists>r'. drain cutp (buf @ concat cs) = (fst (feed cutp buf cs), fst (snd (feed cutp buf cs)), r')
      \<and> (fst (snd (feed cutp buf cs)) = None \<longrightarrow> snd (snd (feed cutp buf cs)) = r')"
proof (induction cs arbitrary: buf)
  case Nil
  then show ?case by simp
next
  case (Cons c cs)
  obtain ps e r where d: "drain cutp (buf @ c) = (ps, e, r)" by (metis prod_cases3)
  show ?case
  proof (cases e)
    case (Some x)
    with d drain_extend_Some [of "buf @ c" ps x r "concat cs"] show ?thesis by auto
  next
    case None
    with d have r: "drain cutp r = ([], None, r)" by (simp add: drain_residual)
    from drain_extend_None [of "buf @ c" ps r "concat cs"] d None Cons.IH [OF r]
    show ?thesis by (auto split: prod.splits)
  qed
qed

lemma chunking_independent:
  "\<exists>r'. drain cutp (concat cs) = (fst (feed cutp [] cs), fst (snd (feed cutp [] cs)), r')"
  using feed_drain [OF drain_Nil, of cs] by auto

end

section \<open>Framer with an encoder\<close>

locale codec_framer = framer cutp for cutp :: "'p cutter" +
  fixes enc :: "'p \<Rightarrow> bytes" and wf :: "'p \<Rightarrow> bool"
  assumes cutp_enc: "wf p \<Longrightarrow> cutp (enc p @ suf) = (Inr (Some p), suf)"
begin

lemma drain_encoded:
  "list_all wf ps \<Longrightarrow> drain cutp (concat (map enc ps)) = (ps, None, [])"
proof (induction ps)
  case Nil
  then show ?case by (simp add: drain_Nil)
next
  case (Cons p ps)
  then have c: "cutp (concat (map enc (p # ps))) = (Inr (Some p), concat (map enc ps))"
    by (simp add: cutp_enc)
  with cutp_Some [OF c] Cons show ?case
    by (simp add: drain.simps [of cutp "enc p @ concat (map enc ps)"])
qed

text \<open>Written packets come back exactly, whatever the chunking.\<close>

lemma transmit:
  assumes "list_all wf ps" and "concat cs = concat (map enc ps)"
  shows "feed cutp [] cs = (ps, None, [])"
proof -
  from feed_drain [OF drain_Nil, of cs] drain_encoded [OF assms(1)] assms(2)
  show ?thesis by (cases "feed cutp [] cs") auto
qed

end

end
