(* ===== verification/Serial_H4.thy ===== *)
theory Serial_H4
  imports Framing
begin

text \<open>
  \<open>SerialH4Transport\<close> of \<open>python/hcicontroller/hci_transport.py\<close>: the H:4 stream of a UART or
  CDC port. The transport keeps a receive buffer \<open>rx\<close>. The port is the environment: chunks of
  octets with the time (microseconds) they reach the host, and the time from which every access
  raises because the device has gone. \<open>read_packet\<close> polls it as the code does: cut a packet,
  else collect what is waiting, else sleep a millisecond or the time that is left.
\<close>

section \<open>Cutting packets\<close>

definition expected_length :: "bytes \<Rightarrow> nat option result" where
  "expected_length data =
     (if data = [] then Inr None
      else let kind = data ! 0 in
        if kind = H4_EVENT then
          (if length data < 3 then Inr None else Inr (Some (3 + unat (data ! 2))))
        else if kind = H4_ACL then
          (if length data < 5 then Inr None else Inr (Some (5 + from_le (pslice 3 5 data))))
        else if kind = H4_ISO then
          (if length data < 5 then Inr None
           else Inr (Some (5 + (from_le (pslice 3 5 data) AND 0x3FFF))))
        else Inl (TransportError ''bad H:4 packet indicator 0x%02X, stream out of sync'' [unat kind]))"

definition take_packet :: "packet cutter" where
  "take_packet rx =
     (case expected_length rx of
        Inl e \<Rightarrow> (Inl e, rx)
      | Inr None \<Rightarrow> (Inr None, rx)
      | Inr (Some expected) \<Rightarrow>
          if length rx < expected then (Inr None, rx)
          else let packet = take expected rx; kind = packet ! 0 in
            (Inr (Some (if kind = H4_EVENT then (kind, Some (packet ! 1), drop 3 packet)
                        else (kind, None, drop 1 packet))),
             drop expected rx))"

section \<open>The port\<close>

record serial =
  rx :: bytes
  port :: "(nat \<times> bytes) list"
  gone_at :: "nat option"
  now :: nat
  written :: "bytes list"

definition port_gone :: "serial \<Rightarrow> bool" where
  "port_gone s = (case gone_at s of None \<Rightarrow> False | Some t \<Rightarrow> t \<le> now s)"

text \<open>What \<open>ser.in_waiting\<close> counts and \<open>ser.read(waiting)\<close> returns.\<close>

definition arrived :: "serial \<Rightarrow> bytes" where
  "arrived s = concat (map snd (takeWhile (\<lambda>(t, _). t \<le> now s) (port s)))"

definition serial_write_packet :: "bytes \<Rightarrow> (serial, unit) action" where
  "serial_write_packet packet s =
     (if port_gone s then (Inl (TransportGone ''serial''), s)
      else (Inr (), s\<lparr>written := written s @ [packet]\<rparr>))"

definition serial_read_pending :: "(serial, bool) action" where
  "serial_read_pending s =
     (if port_gone s then (Inl (TransportGone ''serial''), s)
      else if length (arrived s) = 0 then (Inr False, s)
      else (Inr True, s\<lparr>rx := rx s @ arrived s,
                        port := dropWhile (\<lambda>(t, _). t \<le> now s) (port s)\<rparr>))"

lemma serial_read_pending_measure:
  "serial_read_pending s = (Inr True, s') \<Longrightarrow> length (port s') < length (port s) \<and> now s' = now s"
proof -
  assume "serial_read_pending s = (Inr True, s')"
  then have "arrived s \<noteq> []" and s': "s' = s\<lparr>rx := rx s @ arrived s,
      port := dropWhile (\<lambda>(t, _). t \<le> now s) (port s)\<rparr>"
    by (auto simp: serial_read_pending_def split: if_splits)
  then have "takeWhile (\<lambda>(t, _). t \<le> now s) (port s) \<noteq> []" by (auto simp: arrived_def)
  moreover have "length (port s) = length (takeWhile (\<lambda>(t, _). t \<le> now s) (port s))
      + length (dropWhile (\<lambda>(t, _). t \<le> now s) (port s))"
    by (metis length_append takeWhile_dropWhile_id)
  ultimately show ?thesis using s' by simp
qed

text \<open>The loop of \<open>read_packet\<close>, \<open>deadline\<close> and \<open>timeout\<close> in microseconds.\<close>

function serial_read_loop :: "nat \<Rightarrow> nat \<Rightarrow> (serial, packet option) action" where
  "serial_read_loop timeout deadline s =
     (case take_packet (rx s) of
        (Inl e, r) \<Rightarrow> (Inl e, s\<lparr>rx := r\<rparr>)
      | (Inr (Some p), r) \<Rightarrow> (Inr (Some p), s\<lparr>rx := r\<rparr>)
      | (Inr None, r) \<Rightarrow>
          (case serial_read_pending s of
             (Inl e, s') \<Rightarrow> (Inl e, s')
           | (Inr True, s') \<Rightarrow> serial_read_loop timeout deadline s'
           | (Inr False, s') \<Rightarrow>
               if timeout = 0 then (Inr None, s')
               else if deadline \<le> now s' then (Inr None, s')
               else serial_read_loop timeout deadline
                      (s'\<lparr>now := now s' + min 1000 (deadline - now s')\<rparr>)))"
  by pat_completeness auto
termination
proof (relation "measure (\<lambda>(_, deadline, s). length (port s) + (deadline - now s))", goal_cases)
  case (2 timeout deadline s)
  then show ?case using serial_read_pending_measure [of s] by auto
next
  case (3 timeout deadline s)
  then show ?case by (auto simp: serial_read_pending_def split: if_splits)
qed auto

declare serial_read_loop.simps [simp del]

definition serial_read_packet :: "nat \<Rightarrow> (serial, packet option) action" where
  "serial_read_packet timeout s = serial_read_loop timeout (now s + timeout) s"

definition serial_has_pending_input :: "serial \<Rightarrow> bool" where
  "serial_has_pending_input s =
     (if rx s \<noteq> [] then True
      else if port_gone s then False
      else length (arrived s) \<noteq> 0)"

section \<open>The H:4 encoding of a packet\<close>

fun h4_encode :: "packet \<Rightarrow> bytes" where
  "h4_encode (kind, Some code, body) = [kind, code, of_nat (length body)] @ body"
| "h4_encode (kind, None, body) = kind # body"

fun h4_wf :: "packet \<Rightarrow> bool" where
  "h4_wf (kind, Some code, body) = (kind = H4_EVENT \<and> length body < 256)"
| "h4_wf (kind, None, body) =
     (4 \<le> length body \<and>
      (kind = H4_ACL \<and> length body = 4 + from_le (pslice 2 4 body) \<or>
       kind = H4_ISO \<and> length body = 4 + (from_le (pslice 2 4 body) AND 0x3FFF)))"

section \<open>Framing laws\<close>

lemma expected_length_append:
  "expected_length buf = Inr (Some n) \<Longrightarrow> expected_length (buf @ suf) = Inr (Some n)"
  "expected_length buf = Inl e \<Longrightarrow> expected_length (buf @ suf) = Inl e"
  by (auto simp: expected_length_def Let_def nth_append split: if_splits)

lemma expected_length_pos: "expected_length buf = Inr (Some n) \<Longrightarrow> 0 < n \<and> buf \<noteq> []"
  by (auto simp: expected_length_def Let_def split: if_splits)

lemma take_packet_exact:
  "expected_length (frame @ suf) = Inr (Some (length frame)) \<Longrightarrow>
   take_packet (frame @ suf) =
     (Inr (Some (if frame ! 0 = H4_EVENT then (frame ! 0, Some (frame ! 1), drop 3 frame)
                 else (frame ! 0, None, drop 1 frame))), suf)"
  by (simp add: take_packet_def)

lemma expected_length_encode:
  "h4_wf p \<Longrightarrow> expected_length (h4_encode p @ suf) = Inr (Some (length (h4_encode p)))"
  by (cases p rule: h4_encode.cases) (auto simp: expected_length_def)

lemma take_packet_encode: "h4_wf p \<Longrightarrow> take_packet (h4_encode p @ suf) = (Inr (Some p), suf)"
  using take_packet_exact [OF expected_length_encode, of p suf]
  by (cases p rule: h4_encode.cases) auto

interpretation h4: codec_framer take_packet h4_encode h4_wf
proof (unfold_locales, goal_cases)
  case 1
  show ?case by (simp add: take_packet_def expected_length_def)
next
  case (2 buf rest)
  then show ?case by (auto simp: take_packet_def Let_def split: sum.splits option.splits if_splits)
next
  case (3 buf p rest)
  then obtain n where n: "expected_length buf = Inr (Some n)" and "n \<le> length buf"
    and rest: "rest = drop n buf"
    by (auto simp: take_packet_def Let_def split: sum.splits option.splits if_splits)
  with 3 expected_length_append(1) [OF n] expected_length_pos [OF n] show ?case
    by (auto simp: take_packet_def Let_def)
next
  case (4 buf e rest)
  then have "expected_length buf = Inl e"
    by (auto simp: take_packet_def Let_def split: sum.splits option.splits if_splits)
  then show ?case by (simp add: take_packet_def expected_length_append)
next
  case (5 p suf)
  then show ?case by (rule take_packet_encode)
qed

section \<open>Reading from the port\<close>

text \<open>All octets the transport still has to deliver, buffered or on their way, and the part of
  them that reaches the host by a given time.\<close>

definition serial_stream :: "serial \<Rightarrow> bytes" where
  "serial_stream s = rx s @ concat (map snd (port s))"

definition visible_by :: "nat \<Rightarrow> serial \<Rightarrow> bytes" where
  "visible_by t s = rx s @ concat (map snd (takeWhile (\<lambda>(a, _). a \<le> t) (port s)))"

lemma takeWhile_weaken:
  "(\<And>x. P x \<Longrightarrow> Q x) \<Longrightarrow> takeWhile Q xs = takeWhile P xs @ takeWhile Q (dropWhile P xs)"
  by (induction xs) auto

lemma serial_read_pending_cases:
  obtains (Gone) "serial_read_pending s = (Inl (TransportGone ''serial''), s)" "port_gone s"
    | (Idle) "serial_read_pending s = (Inr False, s)" "arrived s = []"
    | (Data) s' where "serial_read_pending s = (Inr True, s')" "now s' = now s"
        "gone_at s' = gone_at s" "serial_stream s' = serial_stream s"
        "\<And>t. now s \<le> t \<Longrightarrow> visible_by t s' = visible_by t s"
proof -
  let ?s' = "s\<lparr>rx := rx s @ arrived s, port := dropWhile (\<lambda>(t, _). t \<le> now s) (port s)\<rparr>"
  have "serial_stream ?s' = serial_stream s"
    by (simp add: serial_stream_def arrived_def flip: concat_append map_append)
  moreover have "visible_by t ?s' = visible_by t s" if "now s \<le> t" for t
  proof -
    have "takeWhile (\<lambda>(a, _). a \<le> t) (port s) = takeWhile (\<lambda>(a, _). a \<le> now s) (port s)
        @ takeWhile (\<lambda>(a, _). a \<le> t) (dropWhile (\<lambda>(a, _). a \<le> now s) (port s))"
      using that by (intro takeWhile_weaken) auto
    then show ?thesis by (simp add: visible_by_def arrived_def)
  qed
  ultimately show ?thesis
    using Gone Idle Data [of ?s'] by (cases "port_gone s"; cases "arrived s = []")
      (auto simp: serial_read_pending_def)
qed

definition read_budget :: "nat \<Rightarrow> serial \<Rightarrow> nat" where
  "read_budget deadline s = length (port s) + (deadline - now s)"

text \<open>One turn of the loop: it ends with a packet, an exception or a timeout, or goes round with
  a smaller budget and the same stream.\<close>

lemma serial_read_loop_cases:
  obtains (Broken) e r where "take_packet (rx s) = (Inl e, r)"
        "serial_read_loop timeout deadline s = (Inl e, s\<lparr>rx := r\<rparr>)"
    | (Packet) p r where "take_packet (rx s) = (Inr (Some p), r)"
        "serial_read_loop timeout deadline s = (Inr (Some p), s\<lparr>rx := r\<rparr>)"
    | (Gone) "serial_read_loop timeout deadline s = (Inl (TransportGone ''serial''), s)" "port_gone s"
    | (Timeout) "serial_read_loop timeout deadline s = (Inr None, s)" "timeout = 0 \<or> deadline \<le> now s"
        "take_packet (rx s) = (Inr None, rx s)" "arrived s = []"
    | (Turn) s' where "serial_read_loop timeout deadline s = serial_read_loop timeout deadline s'"
        "read_budget deadline s' < read_budget deadline s" "gone_at s' = gone_at s"
        "serial_stream s' = serial_stream s" "now s \<le> now s'" "now s' \<le> max (now s) deadline"
        "\<And>t. now s \<le> t \<Longrightarrow> visible_by t s' = visible_by t s"
proof -
  consider (B) e r where "take_packet (rx s) = (Inl e, r)"
    | (P) p r where "take_packet (rx s) = (Inr (Some p), r)"
    | (N) "take_packet (rx s) = (Inr None, rx s)"
    using h4.drain_cases [of "rx s"] by metis
  then show ?thesis
  proof cases
    case N
    note step = serial_read_loop.simps [of timeout deadline s]
    show ?thesis
    proof (cases rule: serial_read_pending_cases [of s])
      case (Data s')
      then show ?thesis
        using N step serial_read_pending_measure [of s s'] by (intro Turn [of s']) (auto simp: read_budget_def)
    next
      case Idle
      let ?s' = "s\<lparr>now := now s + min 1000 (deadline - now s)\<rparr>"
      show ?thesis
      proof (cases "timeout = 0 \<or> deadline \<le> now s")
        case False
        with Idle N step show ?thesis
          by (intro Turn [of ?s']) (auto simp: read_budget_def serial_stream_def visible_by_def)
      qed (use Idle N step in \<open>auto intro!: Timeout\<close>)
    qed (use N step in \<open>auto intro!: Gone\<close>)
  qed (auto simp: serial_read_loop.simps [of timeout deadline s] intro: Broken Packet)
qed

text \<open>Timing does not change what is read: the packet returned is the first packet of the
  stream, and what is left is the rest of the stream.\<close>

lemma serial_read_loop_stream:
  "case serial_read_loop timeout deadline s of
     (Inr (Some p), s') \<Rightarrow> take_packet (serial_stream s) = (Inr (Some p), serial_stream s')
   | (Inr None, s') \<Rightarrow> serial_stream s' = serial_stream s
   | (Inl e, s') \<Rightarrow> e = TransportGone ''serial'' \<or> (\<exists>r. take_packet (serial_stream s) = (Inl e, r))"
proof (induction "read_budget deadline s" arbitrary: s rule: less_induct)
  case less
  show ?case
  proof (cases rule: serial_read_loop_cases [of s timeout deadline])
    case (Broken e r)
    with h4.cutp_Err [of "rx s" e r] show ?thesis by (simp add: serial_stream_def)
  next
    case (Packet p r)
    with h4.cutp_Some [of "rx s" p r] show ?thesis by (simp add: serial_stream_def)
  next
    case (Turn s')
    from less [OF Turn(2)] Turn(1,4) show ?thesis
      by (simp split: prod.splits sum.splits option.splits)
  qed simp_all
qed

lemma serial_read_loop_time:
  "now s \<le> now (snd (serial_read_loop timeout deadline s)) \<and>
   now (snd (serial_read_loop timeout deadline s)) \<le> max (now s) deadline"
proof (induction "read_budget deadline s" arbitrary: s rule: less_induct)
  case less
  show ?case
  proof (cases rule: serial_read_loop_cases [of s timeout deadline])
    case (Turn s')
    from less [OF Turn(2)] Turn(5,6) show ?thesis unfolding Turn(1) by linarith
  qed simp_all
qed

lemma serial_read_loop_delivers:
  assumes "gone_at s = None" and "0 < timeout" and "now s \<le> deadline"
    and "take_packet (visible_by deadline s) = (Inr (Some p), r)"
  shows "fst (serial_read_loop timeout deadline s) = Inr (Some p)"
  using assms
proof (induction "read_budget deadline s" arbitrary: s rule: less_induct)
  case less
  note vis = visible_by_def [of deadline s]
  show ?case
  proof (cases rule: serial_read_loop_cases [of s timeout deadline])
    case (Broken e r')
    from h4.cutp_Err [OF Broken(1)] obtain r''
      where "take_packet (visible_by deadline s) = (Inl e, r'')" unfolding vis by blast
    with less.prems(4) show ?thesis by simp
  next
    case (Packet q r')
    with h4.cutp_Some [of "rx s" q r'] less.prems(4) show ?thesis by (auto simp: vis)
  next
    case Gone
    with less.prems(1) show ?thesis by (simp add: port_gone_def)
  next
    case Timeout
    with less.prems have "now s = deadline" by simp
    with Timeout(4) have "visible_by deadline s = rx s" by (simp add: vis arrived_def)
    with Timeout(3) less.prems(4) show ?thesis by simp
  next
    case (Turn s')
    with less.prems less.hyps [OF Turn(2)] show ?thesis by simp
  qed
qed

section \<open>Properties of the serial transport\<close>

text \<open>H:4 framing round trip: the octets of any sequence of well-formed packets, split into chunks
  in any way, are cut back into exactly those packets with nothing left over; and for any octets at
  all, what is cut does not depend on the chunking.\<close>

lemma h4_framing_exact:
  "(list_all h4_wf ps \<and> concat cs = concat (map h4_encode ps) \<longrightarrow>
      feed take_packet [] cs = (ps, None, [])) \<and>
   (concat cs = concat ds \<longrightarrow> fst (feed take_packet [] cs) = fst (feed take_packet [] ds) \<and>
      fst (snd (feed take_packet [] cs)) = fst (snd (feed take_packet [] ds)))"
  using h4.transmit h4.chunking_independent [of cs] h4.chunking_independent [of ds] by auto

text \<open>C9. \<open>read_packet\<close> returns the first packet of the stream and keeps the rest, whatever the
  timing; a timeout loses nothing; it raises only when the port is gone or the stream is broken; and
  it always ends between now and its deadline.\<close>

theorem serial_read_packet_sound:
  "case serial_read_packet timeout s of
     (Inr (Some p), s') \<Rightarrow> take_packet (serial_stream s) = (Inr (Some p), serial_stream s') \<and>
        now s \<le> now s' \<and> now s' \<le> now s + timeout
   | (Inr None, s') \<Rightarrow> serial_stream s' = serial_stream s \<and> now s \<le> now s' \<and> now s' \<le> now s + timeout
   | (Inl e, s') \<Rightarrow> e = TransportGone ''serial'' \<or> (\<exists>r. take_packet (serial_stream s) = (Inl e, r))"
  using serial_read_loop_stream [where s = s and timeout = timeout and deadline = "now s + timeout"]
    serial_read_loop_time [where s = s and timeout = timeout and deadline = "now s + timeout"]
  by (auto simp: serial_read_packet_def split: prod.splits sum.splits option.splits)

text \<open>C10. Liveness: if the octets of a packet arrive before the deadline on a port that stays, then
  \<open>read_packet\<close> returns that packet.\<close>

theorem serial_read_packet_delivers:
  assumes "gone_at s = None" "0 < timeout"
    "take_packet (visible_by (now s + timeout) s) = (Inr (Some p), r)"
  shows "fst (serial_read_packet timeout s) = Inr (Some p)"
  using serial_read_loop_delivers [of s timeout "now s + timeout" p r] assms
  by (simp add: serial_read_packet_def)

theorem serial_read_packet_delivers_witness:
  "fst (serial_read_packet 1000000 \<lparr>rx = [4, 0x0E], port = [(5, [1]), (700000, [9]), (2000000, [4])],
     gone_at = None, now = 0, written = []\<rparr>) = Inr (Some (4, Some 0x0E, [9]))"
  by (rule serial_read_packet_delivers [where r = "[]"])
    (simp_all add: visible_by_def take_packet_def expected_length_def)

end
