(* ===== verification/Usb_Framing.thy ===== *)
theory Usb_Framing
  imports Serial_H4
begin

text \<open>
  The packet side of \<open>NativeUsbTransport\<close> (\<open>python/hcicontroller/hci_transport.py\<close>): the length
  functions, the cut \<open>_take_complete\<close> with its size limit, and the parsers of the three
  endpoint formats. Legacy Bluetooth USB carries events and ACL packets on separate endpoints
  without a packet indicator; Bulk Serialization carries everything on one endpoint with the H:4
  indicator in front.
\<close>

section \<open>Lengths\<close>

definition event_expected :: "bytes \<Rightarrow> nat option result" where
  "event_expected data = (if length data < 2 then Inr None else Inr (Some (unat (data ! 1) + 2)))"

definition acl_expected :: "bytes \<Rightarrow> nat option result" where
  "acl_expected data =
     (if length data < 4 then Inr None else Inr (Some (from_le (pslice 2 4 data) + 4)))"

definition serialized_expected :: "bytes \<Rightarrow> nat option result" where
  "serialized_expected data =
     (if data = [] then Inr None
      else let kind = data ! 0; body = drop 1 data in
        bind_r
          (if kind = H4_EVENT then event_expected body
           else if kind = H4_ACL then acl_expected body
           else if kind = H4_ISO then
             (if length body < 4 then Inr None
              else Inr (Some ((from_le (pslice 2 4 body) AND 0x3FFF) + 4)))
           else Inl (TransportError ''unexpected USB Bulk Serialization indicator 0x%02X'' [unat kind]))
          (\<lambda>expected. Inr (map_option (\<lambda>n. n + 1) expected)))"

section \<open>Cutting\<close>

definition take_complete :: "(bytes \<Rightarrow> nat option result) \<Rightarrow> nat \<Rightarrow> bytes cutter" where
  "take_complete expected_fn maximum buffer =
     (case expected_fn buffer of
        Inl e \<Rightarrow> (Inl e, buffer)
      | Inr None \<Rightarrow> (Inr None, buffer)
      | Inr (Some expected) \<Rightarrow>
          if maximum < expected
          then (Inl (TransportError ''%s length %d exceeds %d'' [expected, maximum]), [])
          else if length buffer < expected then (Inr None, buffer)
          else (Inr (Some (take expected buffer)), drop expected buffer))"

section \<open>Parsers\<close>

definition usb_parse_event :: "bytes \<Rightarrow> packet result" where
  "usb_parse_event data =
     (if length data < 2 then Inl (TransportError ''short native USB event'' [])
      else let n = unat (data ! 1) in
        if length data \<noteq> n + 2
        then Inl (TransportError ''native USB event length %d, expected %d'' [length data, n + 2])
        else Inr (H4_EVENT, Some (data ! 0), drop 2 data))"

definition usb_parse_acl :: "bytes \<Rightarrow> packet result" where
  "usb_parse_acl data =
     (if length data < 4 then Inl (TransportError ''short native USB ACL packet'' [])
      else let n = from_le (pslice 2 4 data) in
        if length data \<noteq> n + 4
        then Inl (TransportError ''native USB ACL length %d, expected %d'' [length data, n + 4])
        else Inr (H4_ACL, None, data))"

definition usb_parse_iso :: "bytes \<Rightarrow> packet result" where
  "usb_parse_iso data =
     (if length data < 4 then Inl (TransportError ''short native USB ISO packet'' [])
      else let n = from_le (pslice 2 4 data) AND 0x3FFF in
        if length data \<noteq> n + 4
        then Inl (TransportError ''native USB ISO length %d, expected %d'' [length data, n + 4])
        else Inr (H4_ISO, None, data))"

definition usb_parse_serialized :: "bytes \<Rightarrow> packet result" where
  "usb_parse_serialized data =
     (if data = [] then Inl (TransportError ''empty USB Bulk Serialization packet'' [])
      else let kind = data ! 0; body = drop 1 data in
        if kind = H4_EVENT then usb_parse_event body
        else if kind = H4_ACL then usb_parse_acl body
        else if kind = H4_ISO then usb_parse_iso body
        else Inl (TransportError ''unexpected USB Bulk Serialization indicator 0x%02X'' [unat kind]))"

section \<open>One endpoint: cut, then parse\<close>

text \<open>What one turn of \<open>_reader_loop\<close> publishes: the next complete transfer, parsed.\<close>

definition usb_cut :: "(bytes \<Rightarrow> nat option result) \<Rightarrow> nat \<Rightarrow> (bytes \<Rightarrow> packet result) \<Rightarrow> packet cutter" where
  "usb_cut expected_fn maximum parser buffer =
     (case take_complete expected_fn maximum buffer of
        (Inl e, r) \<Rightarrow> (Inl e, r)
      | (Inr None, r) \<Rightarrow> (Inr None, r)
      | (Inr (Some data), r) \<Rightarrow> (bind_r (parser data) (\<lambda>p. Inr (Some p)), r))"

abbreviation event_cut :: "packet cutter" where
  "event_cut \<equiv> usb_cut event_expected 257 usb_parse_event"
abbreviation acl_cut :: "packet cutter" where
  "acl_cut \<equiv> usb_cut acl_expected 1024 usb_parse_acl"
abbreviation serialized_cut :: "packet cutter" where
  "serialized_cut \<equiv> usb_cut serialized_expected 1025 usb_parse_serialized"

section \<open>Framing laws\<close>

lemma event_expected_append:
  "event_expected buf = Inr (Some n) \<Longrightarrow> 0 < n \<and> event_expected (buf @ suf) = Inr (Some n)"
  "event_expected buf \<noteq> Inl e"
  by (auto simp: event_expected_def nth_append split: if_splits)

lemma acl_expected_append:
  "acl_expected buf = Inr (Some n) \<Longrightarrow> 0 < n \<and> acl_expected (buf @ suf) = Inr (Some n)"
  "acl_expected buf \<noteq> Inl e"
  by (auto simp: acl_expected_def split: if_splits)

lemma serialized_expected_append:
  "serialized_expected buf = Inr (Some n) \<Longrightarrow> 0 < n \<and> serialized_expected (buf @ suf) = Inr (Some n)"
  "serialized_expected buf = Inl e \<Longrightarrow> serialized_expected (buf @ suf) = Inl e"
  by (auto simp: serialized_expected_def Let_def nth_append bind_r_iff
        event_expected_append acl_expected_append split: if_splits)

text \<open>A length function whose answers are final makes the endpoint a framer; a packet whose
  encoding announces its own length and parses back is delivered.\<close>

locale usb_endpoint =
  fixes expected_fn :: "bytes \<Rightarrow> nat option result" and maximum :: nat
    and parser :: "bytes \<Rightarrow> packet result"
  assumes expected_Nil: "expected_fn [] = Inr None"
    and expected_Some: "expected_fn buf = Inr (Some n) \<Longrightarrow> 0 < n \<and> expected_fn (buf @ suf) = Inr (Some n)"
    and expected_Err: "expected_fn buf = Inl e \<Longrightarrow> expected_fn (buf @ suf) = Inl e"
begin

lemma cut_exact:
  "expected_fn frame = Inr (Some (length frame)) \<Longrightarrow> length frame \<le> maximum \<Longrightarrow> parser frame = Inr p
   \<Longrightarrow> usb_cut expected_fn maximum parser (frame @ suf) = (Inr (Some p), suf)"
  using expected_Some [of frame "length frame" suf] by (simp add: usb_cut_def take_complete_def)

lemma take_complete_append:
  "take_complete expected_fn maximum buf = (Inr (Some d), b) \<Longrightarrow>
   take_complete expected_fn maximum (buf @ suf) = (Inr (Some d), b @ suf) \<and> length b < length buf"
  using expected_Some [of buf _ suf]
  by (auto simp: take_complete_def split: sum.splits option.splits if_splits)

end

sublocale usb_endpoint \<subseteq> ep: framer "usb_cut expected_fn maximum parser"
proof (unfold_locales, goal_cases)
  case 1
  show ?case by (simp add: usb_cut_def take_complete_def expected_Nil)
next
  case (2 buf rest)
  then show ?case
    by (auto simp: usb_cut_def take_complete_def bind_r_iff split: sum.splits option.splits if_splits)
next
  case (3 buf p rest)
  then obtain n where n: "expected_fn buf = Inr (Some n)" "\<not> maximum < n" "n \<le> length buf"
    "rest = drop n buf" "parser (take n buf) = Inr p"
    by (auto simp: usb_cut_def take_complete_def bind_r_iff split: sum.splits option.splits if_splits)
  then have "length rest < length buf" using expected_Some [of buf n "[]"] by simp
  moreover have "usb_cut expected_fn maximum parser (buf @ suf) = (Inr (Some p), rest @ suf)" for suf
    using n expected_Some [of buf n suf] by (simp add: usb_cut_def take_complete_def)
  ultimately show ?case by blast
next
  case (4 buf e rest)
  show ?case
  proof (cases "expected_fn buf")
    case (Inl e')
    with 4 expected_Err [of buf e'] show ?thesis by (auto simp: usb_cut_def take_complete_def)
  next
    case (Inr no)
    with 4 obtain n where n: "expected_fn buf = Inr (Some n)"
      and "maximum < n \<and> e = TransportError ''%s length %d exceeds %d'' [n, maximum] \<or>
           \<not> maximum < n \<and> n \<le> length buf \<and> parser (take n buf) = Inl e"
      by (auto simp: usb_cut_def take_complete_def bind_r_iff split: sum.splits option.splits if_splits)
    with expected_Some [OF n] show ?thesis by (auto simp: usb_cut_def take_complete_def)
  qed
qed

context usb_endpoint
begin

text \<open>A complete transfer is the next packet of the stream, or its parser's failure is the end of
  the stream; an incomplete one leaves nothing to cut.\<close>

lemma drain_take_complete:
  "take_complete expected_fn maximum buf = (Inr (Some d), b) \<Longrightarrow>
   drain (usb_cut expected_fn maximum parser) (buf @ suf) =
     (case parser d of Inl e \<Rightarrow> ([], Some e, b @ suf)
      | Inr p \<Rightarrow> (case drain (usb_cut expected_fn maximum parser) (b @ suf) of
                   (qs, e, r) \<Rightarrow> (p # qs, e, r)))"
  using take_complete_append [of buf d b suf]
  by (auto simp: drain.simps [of _ "buf @ suf"] usb_cut_def split: sum.splits)

lemma drain_incomplete:
  "take_complete expected_fn maximum buf = (Inr None, b) \<Longrightarrow>
   b = buf \<and> drain (usb_cut expected_fn maximum parser) buf = ([], None, buf)"
  by (auto simp: drain.simps [of _ buf] usb_cut_def take_complete_def
      split: sum.splits option.splits if_splits)

end

interpretation event_ep: usb_endpoint event_expected 257 usb_parse_event
proof unfold_locales
  show "event_expected [] = Inr None" by (simp add: event_expected_def)
qed (simp_all add: event_expected_append)

interpretation acl_ep: usb_endpoint acl_expected 1024 usb_parse_acl
proof unfold_locales
  show "acl_expected [] = Inr None" by (simp add: acl_expected_def)
qed (simp_all add: acl_expected_append)

interpretation serialized_ep: usb_endpoint serialized_expected 1025 usb_parse_serialized
proof unfold_locales
  show "serialized_expected [] = Inr None" by (simp add: serialized_expected_def)
qed (simp_all add: serialized_expected_append)

section \<open>Encodings\<close>

text \<open>What the controller puts on each endpoint: legacy events and ACL packets without the
  indicator, serialized packets as H:4.\<close>

fun usb_event_wf :: "packet \<Rightarrow> bool" where
  "usb_event_wf (kind, code, body) = (kind = H4_EVENT \<and> h4_wf (kind, code, body))"

fun usb_acl_wf :: "packet \<Rightarrow> bool" where
  "usb_acl_wf (kind, code, body) = (kind = H4_ACL \<and> h4_wf (kind, code, body) \<and> length body \<le> 1024)"

fun usb_serialized_wf :: "packet \<Rightarrow> bool" where
  "usb_serialized_wf (kind, code, body) = (h4_wf (kind, code, body) \<and> length body \<le> 1024)"

interpretation event_codec: codec_framer event_cut "\<lambda>p. tl (h4_encode p)" usb_event_wf
proof (unfold_locales, goal_cases)
  case (1 p suf)
  then show ?case
    by (intro event_ep.cut_exact; cases p rule: h4_encode.cases)
      (auto simp: event_expected_def usb_parse_event_def)
qed

interpretation acl_codec: codec_framer acl_cut "\<lambda>p. tl (h4_encode p)" usb_acl_wf
proof (unfold_locales, goal_cases)
  case (1 p suf)
  then show ?case
    by (intro acl_ep.cut_exact; cases p rule: h4_encode.cases)
      (auto simp: acl_expected_def usb_parse_acl_def)
qed

interpretation serialized_codec: codec_framer serialized_cut h4_encode usb_serialized_wf
proof (unfold_locales, goal_cases)
  case (1 p suf)
  then show ?case
    by (intro serialized_ep.cut_exact; cases p rule: h4_encode.cases)
      (auto simp: serialized_expected_def usb_parse_serialized_def event_expected_def
         acl_expected_def usb_parse_event_def usb_parse_acl_def usb_parse_iso_def Let_def)
qed

end
