(* ===== verification/Usb_Transport.thy ===== *)
theory Usb_Transport
  imports Usb_Framing "HOL-Library.Sublist"
begin

text \<open>
  The threads of \<open>NativeUsbTransport\<close> (\<open>python/hcicontroller/hci_transport.py\<close>). One background
  reader per IN endpoint cuts packets out of its private buffer and publishes them on a shared
  queue; the first failure is kept and stops every reader; the client takes packets from a
  one-element prefetch list, then from the queue, and only then sees the failure. Each atomic
  section of the code is a function here; \<open>usb_step\<close> is the interleaving of the readers, the
  client and \<open>close()\<close>. The condition variable only decides when a blocked client looks again, so
  waiting is a scheduling choice. The fields \<open>raw\<close>, \<open>published\<close> and \<open>consumed\<close> record the history
  the properties are about.
\<close>

section \<open>State\<close>

datatype reader = EventReader | AclReader | SerializedReader

text \<open>Where a reader thread is: at the loop test, inside \<open>endpoint.read\<close>, holding a complete
  transfer it has not published yet, or finished.\<close>

datatype phase = Head | Blocked | Have bytes | Dead

record usb =
  bulk_serialization :: bool
  prefetched :: "packet list"
  event_rx :: bytes
  bulk_rx :: bytes
  reader_packets :: "packet list"
  reader_error :: "exn option"
  reader_stop :: bool
  phases :: "reader \<Rightarrow> phase"
  raw :: "reader \<Rightarrow> bytes"
  published :: "(reader \<times> packet) list"
  consumed :: "packet list"

text \<open>The arguments \<open>_start_readers\<close> passes to each thread.\<close>

fun reader_expected :: "reader \<Rightarrow> bytes \<Rightarrow> nat option result" where
  "reader_expected EventReader = event_expected"
| "reader_expected AclReader = acl_expected"
| "reader_expected SerializedReader = serialized_expected"

fun reader_maximum :: "reader \<Rightarrow> nat" where
  "reader_maximum EventReader = 257"
| "reader_maximum AclReader = 1024"
| "reader_maximum SerializedReader = 1025"

fun reader_parser :: "reader \<Rightarrow> bytes \<Rightarrow> packet result" where
  "reader_parser EventReader = usb_parse_event"
| "reader_parser AclReader = usb_parse_acl"
| "reader_parser SerializedReader = usb_parse_serialized"

fun rx_of :: "reader \<Rightarrow> usb \<Rightarrow> bytes" where
  "rx_of EventReader u = event_rx u"
| "rx_of AclReader u = bulk_rx u"
| "rx_of SerializedReader u = bulk_rx u"

fun set_rx :: "reader \<Rightarrow> bytes \<Rightarrow> usb \<Rightarrow> usb" where
  "set_rx EventReader b u = u\<lparr>event_rx := b\<rparr>"
| "set_rx AclReader b u = u\<lparr>bulk_rx := b\<rparr>"
| "set_rx SerializedReader b u = u\<lparr>bulk_rx := b\<rparr>"

definition start_readers :: "bool \<Rightarrow> usb" where
  "start_readers bulk = \<lparr>bulk_serialization = bulk, prefetched = [], event_rx = [], bulk_rx = [],
     reader_packets = [], reader_error = None, reader_stop = False,
     phases = (\<lambda>r. if bulk then (if r = SerializedReader then Head else Dead)
                   else (if r = SerializedReader then Dead else Head)),
     raw = (\<lambda>_. []), published = [], consumed = []\<rparr>"

section \<open>Operations\<close>

definition set_phase :: "reader \<Rightarrow> phase \<Rightarrow> usb \<Rightarrow> usb" where
  "set_phase r ph u = u\<lparr>phases := (phases u)(r := ph)\<rparr>"

definition queue_reader_packet :: "reader \<Rightarrow> packet \<Rightarrow> usb \<Rightarrow> usb" where
  "queue_reader_packet r packet u =
     u\<lparr>reader_packets := reader_packets u @ [packet], published := published u @ [(r, packet)]\<rparr>"

definition fail_reader :: "exn \<Rightarrow> usb \<Rightarrow> usb" where
  "fail_reader err u =
     u\<lparr>reader_error := (if reader_error u = None then Some err else reader_error u),
       reader_stop := True\<rparr>"

text \<open>The exception handlers of \<open>_reader_loop\<close>: a reader that is being stopped leaves quietly,
  otherwise the failure is kept; either way the thread ends.\<close>

definition reader_except :: "reader \<Rightarrow> exn \<Rightarrow> usb \<Rightarrow> usb" where
  "reader_except r err u =
     set_phase r Dead (if reader_stop u then u else fail_reader err u)"

text \<open>One \<open>_take_complete\<close> on the reader's buffer; \<open>idle\<close> is the phase it goes to when the
  buffer holds no complete transfer.\<close>

definition reader_take :: "reader \<Rightarrow> phase \<Rightarrow> usb \<Rightarrow> usb" where
  "reader_take r idle u =
     (case take_complete (reader_expected r) (reader_maximum r) (rx_of r u) of
        (Inl e, b) \<Rightarrow> reader_except r e (set_rx r b u)
      | (Inr None, b) \<Rightarrow> set_phase r idle (set_rx r b u)
      | (Inr (Some data), b) \<Rightarrow> set_phase r (Have data) (set_rx r b u))"

text \<open>The loop test, then the first half of \<open>_read_complete\<close>.\<close>

definition reader_head :: "reader \<Rightarrow> usb \<Rightarrow> usb" where
  "reader_head r u = (if reader_stop u then set_phase r Dead u else reader_take r Blocked u)"

text \<open>\<open>_read_endpoint\<close> returns: an exception, a timeout, or a transfer that is appended to the
  buffer before the second \<open>_take_complete\<close>.\<close>

definition reader_transfer :: "reader \<Rightarrow> bytes option result \<Rightarrow> usb \<Rightarrow> usb" where
  "reader_transfer r outcome u =
     (case outcome of
        Inl e \<Rightarrow> reader_except r e u
      | Inr None \<Rightarrow> set_phase r Head u
      | Inr (Some data) \<Rightarrow>
          reader_take r Head (set_rx r (rx_of r u @ data)
            (u\<lparr>raw := (raw u)(r := raw u r @ data)\<rparr>)))"

definition reader_deliver :: "reader \<Rightarrow> bytes \<Rightarrow> usb \<Rightarrow> usb" where
  "reader_deliver r data u =
     (if reader_stop u then set_phase r Dead u
      else case reader_parser r data of
             Inl e \<Rightarrow> reader_except r e u
           | Inr packet \<Rightarrow> set_phase r Head (queue_reader_packet r packet u))"

text \<open>The client: \<open>read_packet\<close> with what is there when it looks, and \<open>has_pending_input\<close>.\<close>

definition take_queued :: "(usb, packet option) action" where
  "take_queued u =
     (case reader_packets u of
        p # ps \<Rightarrow> (Inr (Some p), u\<lparr>reader_packets := ps\<rparr>)
      | [] \<Rightarrow> (case reader_error u of Some e \<Rightarrow> (Inl e, u) | None \<Rightarrow> (Inr None, u)))"

definition usb_read_packet :: "(usb, packet option) action" where
  "usb_read_packet u =
     (case prefetched u of
        p # ps \<Rightarrow> (Inr (Some p), u\<lparr>prefetched := ps, consumed := consumed u @ [p]\<rparr>)
      | [] \<Rightarrow> (case take_queued u of
                (Inr (Some p), u') \<Rightarrow> (Inr (Some p), u'\<lparr>consumed := consumed u' @ [p]\<rparr>)
              | other \<Rightarrow> other))"

definition usb_has_pending_input :: "(usb, bool) action" where
  "usb_has_pending_input u =
     (if prefetched u \<noteq> [] then (Inr True, u)
      else case take_queued u of
             (Inl e, u') \<Rightarrow> (Inl e, u')
           | (Inr None, u') \<Rightarrow> (Inr False, u')
           | (Inr (Some p), u') \<Rightarrow> (Inr True, u'\<lparr>prefetched := prefetched u' @ [p]\<rparr>))"

definition stop_readers :: "usb \<Rightarrow> usb" where
  "stop_readers u = u\<lparr>reader_stop := True\<rparr>"

section \<open>Interleaving\<close>

inductive usb_step :: "usb \<Rightarrow> usb \<Rightarrow> bool" where
  head: "phases u r = Head \<Longrightarrow> usb_step u (reader_head r u)"
| transfer: "phases u r = Blocked \<Longrightarrow> usb_step u (reader_transfer r outcome u)"
| deliver: "phases u r = Have data \<Longrightarrow> usb_step u (reader_deliver r data u)"
| read: "usb_step u (snd (usb_read_packet u))"
| probe: "usb_step u (snd (usb_has_pending_input u))"
| stop: "usb_step u (stop_readers u)"

inductive usb_reachable :: "usb \<Rightarrow> bool" where
  start: "usb_reachable (start_readers bulk)"
| step: "usb_reachable u \<Longrightarrow> usb_step u u' \<Longrightarrow> usb_reachable u'"

section \<open>What the readers and the queue keep true\<close>

definition reader_cut :: "reader \<Rightarrow> packet cutter" where
  "reader_cut r = usb_cut (reader_expected r) (reader_maximum r) (reader_parser r)"

definition published_by :: "reader \<Rightarrow> usb \<Rightarrow> packet list" where
  "published_by r u = map snd (filter (\<lambda>(q, _). q = r) (published u))"

text \<open>\<open>resumes c ps buf stream\<close>: after publishing \<open>ps\<close> and keeping \<open>buf\<close>, the reader is exactly
  where a reader of the whole stream would be, whatever arrives next.\<close>

definition resumes :: "packet cutter \<Rightarrow> packet list \<Rightarrow> bytes \<Rightarrow> bytes \<Rightarrow> bool" where
  "resumes c ps buf stream \<longleftrightarrow>
     (\<forall>suf. drain c (stream @ suf) = (case drain c (buf @ suf) of (qs, e, b) \<Rightarrow> (ps @ qs, e, b)))"

definition holds :: "packet cutter \<Rightarrow> packet list \<Rightarrow> packet result \<Rightarrow> bytes \<Rightarrow> bytes \<Rightarrow> bool" where
  "holds c ps pr buf stream \<longleftrightarrow>
     (\<forall>suf. drain c (stream @ suf) =
        (case pr of Inl e \<Rightarrow> (ps, Some e, buf @ suf)
         | Inr p \<Rightarrow> (case drain c (buf @ suf) of (qs, e, b) \<Rightarrow> (ps @ p # qs, e, b))))"

definition reader_inv :: "reader \<Rightarrow> usb \<Rightarrow> bool" where
  "reader_inv r u \<longleftrightarrow>
     (case phases u r of
        Head \<Rightarrow> resumes (reader_cut r) (published_by r u) (rx_of r u) (raw u r)
      | Blocked \<Rightarrow> resumes (reader_cut r) (published_by r u) (rx_of r u) (raw u r)
          \<and> drain (reader_cut r) (rx_of r u) = ([], None, rx_of r u)
      | Have d \<Rightarrow> holds (reader_cut r) (published_by r u) (reader_parser r d) (rx_of r u) (raw u r)
      | Dead \<Rightarrow> prefix (published_by r u) (fst (drain (reader_cut r) (raw u r))))"

definition queue_inv :: "usb \<Rightarrow> bool" where
  "queue_inv u \<longleftrightarrow> map snd (published u) = consumed u @ prefetched u @ reader_packets u
     \<and> length (prefetched u) \<le> 1"

definition usb_inv :: "usb \<Rightarrow> bool" where
  "usb_inv u \<longleftrightarrow> queue_inv u \<and> (\<forall>r. reader_inv r u)
     \<and> (phases u AclReader = Dead \<or> phases u SerializedReader = Dead)"

lemma usb_endpoint_reader: "usb_endpoint (reader_expected r)"
  by (cases r) (simp_all add: event_ep.usb_endpoint_axioms acl_ep.usb_endpoint_axioms
      serialized_ep.usb_endpoint_axioms)

lemma resumes_prefix: "resumes c ps buf stream \<Longrightarrow> prefix ps (fst (drain c stream))"
  unfolding resumes_def by (drule spec [of _ "[]"]) (auto split: prod.splits)

lemma holds_prefix: "holds c ps pr buf stream \<Longrightarrow> prefix ps (fst (drain c stream))"
  unfolding holds_def by (drule spec [of _ "[]"]) (auto split: prod.splits sum.splits)

lemma resumes_more: "resumes c ps buf stream \<Longrightarrow> resumes c ps (buf @ x) (stream @ x)"
  by (simp add: resumes_def)

lemma holds_publish: "holds c ps (Inr p) buf stream \<Longrightarrow> resumes c (ps @ [p]) buf stream"
  by (simp add: resumes_def holds_def)

lemma resumes_take:
  assumes "resumes (reader_cut r) ps buf stream"
    and "take_complete (reader_expected r) (reader_maximum r) buf = (Inr (Some d), b)"
  shows "holds (reader_cut r) ps (reader_parser r d) b stream"
  using assms usb_endpoint.drain_take_complete [OF usb_endpoint_reader assms(2), of "reader_parser r"]
  by (auto simp: resumes_def holds_def reader_cut_def split: sum.splits prod.splits)

section \<open>Preservation\<close>

lemma set_rx_fields [simp]:
  "phases (set_rx r b u) = phases u" "raw (set_rx r b u) = raw u"
  "published (set_rx r b u) = published u" "consumed (set_rx r b u) = consumed u"
  "prefetched (set_rx r b u) = prefetched u" "reader_packets (set_rx r b u) = reader_packets u"
  "rx_of r (set_rx r b u) = b" "reader_stop (set_rx r b u) = reader_stop u"
  "reader_error (set_rx r b u) = reader_error u"
  by (cases r; simp)+

lemma set_phase_fields [simp]:
  "phases (set_phase r ph u) = (phases u)(r := ph)" "raw (set_phase r ph u) = raw u"
  "published (set_phase r ph u) = published u" "consumed (set_phase r ph u) = consumed u"
  "prefetched (set_phase r ph u) = prefetched u"
  "reader_packets (set_phase r ph u) = reader_packets u"
  "rx_of q (set_phase r ph u) = rx_of q u"
  by (simp_all add: set_phase_def, cases q, simp_all)

lemma rx_of_update [simp]:
  "rx_of r (u\<lparr>raw := x\<rparr>) = rx_of r u" "rx_of r (u\<lparr>reader_packets := y\<rparr>) = rx_of r u"
  "rx_of r (u\<lparr>published := z\<rparr>) = rx_of r u" "rx_of r (u\<lparr>consumed := v\<rparr>) = rx_of r u"
  "rx_of r (u\<lparr>prefetched := v\<rparr>) = rx_of r u" "rx_of r (u\<lparr>reader_stop := b\<rparr>) = rx_of r u"
  "rx_of r (u\<lparr>reader_error := e\<rparr>) = rx_of r u"
  by (cases r; simp)+

lemma fail_reader_fields [simp]:
  "phases (fail_reader e u) = phases u" "raw (fail_reader e u) = raw u"
  "published (fail_reader e u) = published u" "consumed (fail_reader e u) = consumed u"
  "prefetched (fail_reader e u) = prefetched u" "reader_packets (fail_reader e u) = reader_packets u"
  "rx_of r (fail_reader e u) = rx_of r u"
  by (simp_all add: fail_reader_def)

lemma reader_except_fields [simp]:
  "phases (reader_except r e u) = (phases u)(r := Dead)" "raw (reader_except r e u) = raw u"
  "published (reader_except r e u) = published u" "consumed (reader_except r e u) = consumed u"
  "prefetched (reader_except r e u) = prefetched u"
  "reader_packets (reader_except r e u) = reader_packets u"
  "rx_of q (reader_except r e u) = rx_of q u"
  by (simp_all add: reader_except_def)

text \<open>The frame rule: a step keeps the invariant of every reader whose thread, history and (if it
  is alive) buffer it does not touch.\<close>

lemma reader_inv_frame:
  assumes "reader_inv r u" "phases u' r = phases u r" "raw u' r = raw u r"
    "published_by r u' = published_by r u" "phases u r \<noteq> Dead \<Longrightarrow> rx_of r u' = rx_of r u"
  shows "reader_inv r u'"
  using assms by (cases "phases u r") (auto simp: reader_inv_def)

text \<open>The effect of one reader's step: nothing outside its own phase, history and buffer.\<close>

definition own_step :: "reader \<Rightarrow> usb \<Rightarrow> usb \<Rightarrow> bool" where
  "own_step r u u' \<longleftrightarrow>
     (\<forall>q. q \<noteq> r \<longrightarrow> phases u' q = phases u q \<and> raw u' q = raw u q \<and> published_by q u' = published_by q u
        \<and> (rx_of q u' = rx_of q u \<or> q \<noteq> EventReader \<and> r \<noteq> EventReader))"

lemma own_step_inv:
  assumes "usb_inv u" "phases u r \<noteq> Dead" "own_step r u u'" "reader_inv r u'" "queue_inv u'"
  shows "usb_inv u'"
proof -
  from assms(1) have excl: "phases u AclReader = Dead \<or> phases u SerializedReader = Dead"
    and inv: "\<And>q. reader_inv q u" by (simp_all add: usb_inv_def)
  have "reader_inv q u'" if q: "q \<noteq> r" for q
  proof (rule reader_inv_frame [OF inv])
    from assms(3) q show "phases u' q = phases u q" "raw u' q = raw u q"
      "published_by q u' = published_by q u" by (simp_all add: own_step_def)
    assume "phases u q \<noteq> Dead"
    with assms(2) excl q have "q = EventReader \<or> r = EventReader" by (cases q; cases r) auto
    with assms(3) q show "rx_of q u' = rx_of q u" by (auto simp: own_step_def)
  qed
  with assms(4) have "reader_inv q u'" for q by (cases "q = r") auto
  moreover have "phases u' AclReader = Dead \<or> phases u' SerializedReader = Dead"
    using excl assms(2,3) by (cases r) (simp_all add: own_step_def)
  ultimately show ?thesis using assms(5) by (simp add: usb_inv_def)
qed

lemma own_step_trans: "own_step r u v \<Longrightarrow> own_step r v w \<Longrightarrow> own_step r u w"
  unfolding own_step_def by metis

lemma rx_of_set_rx_other:
  "q \<noteq> r \<Longrightarrow> rx_of q (set_rx r b u) = rx_of q u \<or> q \<noteq> EventReader \<and> r \<noteq> EventReader"
  by (cases q; cases r) auto

lemma reader_take_own:
  "own_step r u (reader_take r idle u)"
  "published (reader_take r idle u) = published u"
  "queue_inv (reader_take r idle u) = queue_inv u"
  using rx_of_set_rx_other [of _ r _ u]
  by (simp_all add: reader_take_def own_step_def published_by_def queue_inv_def
      split: prod.splits sum.splits option.splits)

lemma reader_take_inv:
  assumes "resumes (reader_cut r) (published_by r u) (rx_of r u) (raw u r)"
    and "idle = Head \<or> idle = Blocked"
  shows "reader_inv r (reader_take r idle u)"
proof -
  obtain out b where t: "take_complete (reader_expected r) (reader_maximum r) (rx_of r u) = (out, b)"
    by fastforce
  show ?thesis
  proof (cases out)
    case (Inl e)
    with t resumes_prefix [OF assms(1)] show ?thesis
      by (simp add: reader_take_def reader_inv_def published_by_def)
  next
    case (Inr po)
    show ?thesis
    proof (cases po)
      case None
      with t Inr have "take_complete (reader_expected r) (reader_maximum r) (rx_of r u) = (Inr None, b)"
        by simp
      from this usb_endpoint.drain_incomplete [OF usb_endpoint_reader this, of "reader_parser r"] assms
      show ?thesis by (auto simp: reader_take_def reader_inv_def published_by_def reader_cut_def)
    next
      case (Some d)
      with t Inr resumes_take [OF assms(1)] show ?thesis
        by (simp add: reader_take_def reader_inv_def published_by_def)
    qed
  qed
qed

lemma reader_head_inv:
  assumes "usb_inv u" "phases u r = Head"
  shows "usb_inv (reader_head r u)"
proof (rule own_step_inv [OF assms(1)])
  from assms have res: "resumes (reader_cut r) (published_by r u) (rx_of r u) (raw u r)"
    by (auto simp: usb_inv_def reader_inv_def dest: spec [of _ r])
  then show "reader_inv r (reader_head r u)"
    using reader_take_inv [OF res] resumes_prefix [OF res]
    by (simp add: reader_head_def) (simp add: reader_inv_def published_by_def)
  show "own_step r u (reader_head r u)" "queue_inv (reader_head r u)"
    using assms(1) reader_take_own [where r = r and u = u and idle = Blocked]
    by (simp_all add: reader_head_def usb_inv_def, simp_all add: own_step_def published_by_def queue_inv_def)
qed (simp add: assms)

lemma reader_transfer_inv:
  assumes "usb_inv u" "phases u r = Blocked"
  shows "usb_inv (reader_transfer r outcome u)"
proof (rule own_step_inv [OF assms(1)])
  from assms have res: "resumes (reader_cut r) (published_by r u) (rx_of r u) (raw u r)"
    by (auto simp: usb_inv_def reader_inv_def dest: spec [of _ r])
  let ?u = "\<lambda>d. set_rx r (rx_of r u @ d) (u\<lparr>raw := (raw u)(r := raw u r @ d)\<rparr>)"
  have "reader_inv r (reader_take r Head (?u d))" for d
    using resumes_more [OF res, of d] by (intro reader_take_inv) (simp_all add: published_by_def)
  with res resumes_prefix [OF res] show "reader_inv r (reader_transfer r outcome u)"
    by (simp add: reader_transfer_def split: sum.splits option.splits)
      (simp add: reader_inv_def published_by_def)
  have "own_step r u (?u d)" for d
    using rx_of_set_rx_other [of _ r "rx_of r u @ d" "u\<lparr>raw := (raw u)(r := raw u r @ d)\<rparr>"]
    by (simp add: own_step_def published_by_def)
  then have "own_step r u (reader_take r Head (?u d))" for d
    using reader_take_own(1) [where r = r and u = "?u d"] by (rule own_step_trans)
  then show "own_step r u (reader_transfer r outcome u)"
    by (simp add: reader_transfer_def split: sum.splits option.splits)
      (simp add: own_step_def published_by_def)
  show "queue_inv (reader_transfer r outcome u)"
    using assms(1) by (simp add: reader_transfer_def reader_take_own(3) usb_inv_def
        split: sum.splits option.splits) (simp add: queue_inv_def)
qed (simp add: assms)

lemma reader_deliver_inv:
  assumes "usb_inv u" "phases u r = Have data"
  shows "usb_inv (reader_deliver r data u)"
proof (rule own_step_inv [OF assms(1)])
  from assms have h: "holds (reader_cut r) (published_by r u) (reader_parser r data) (rx_of r u) (raw u r)"
    by (auto simp: usb_inv_def reader_inv_def dest: spec [of _ r])
  then show "reader_inv r (reader_deliver r data u)"
    using holds_prefix [OF h]
    by (auto simp: reader_deliver_def reader_inv_def published_by_def queue_reader_packet_def
        intro: holds_publish split: sum.splits)
  show "own_step r u (reader_deliver r data u)" "queue_inv (reader_deliver r data u)"
    using assms(1)
    by (auto simp: reader_deliver_def own_step_def published_by_def queue_reader_packet_def
        usb_inv_def queue_inv_def split: sum.splits)
qed (simp add: assms)

text \<open>A client step touches no reader.\<close>

lemma client_step_inv:
  assumes "usb_inv u" "phases u' = phases u" "raw u' = raw u" "published u' = published u"
    "\<And>r. rx_of r u' = rx_of r u" "queue_inv u'"
  shows "usb_inv u'"
proof -
  from assms(1) have "reader_inv r u" for r by (simp add: usb_inv_def)
  then have "reader_inv r u'" for r
    by (rule reader_inv_frame) (simp_all only: assms(2-5) published_by_def)
  with assms(1,2,6) show ?thesis by (simp add: usb_inv_def)
qed

lemma usb_read_packet_inv: "usb_inv u \<Longrightarrow> usb_inv (snd (usb_read_packet u))"
  by (rule client_step_inv [of u])
    (auto simp: usb_read_packet_def take_queued_def usb_inv_def queue_inv_def
      split: list.splits option.splits)

lemma usb_has_pending_input_inv: "usb_inv u \<Longrightarrow> usb_inv (snd (usb_has_pending_input u))"
  by (rule client_step_inv [of u])
    (auto simp: usb_has_pending_input_def take_queued_def usb_inv_def queue_inv_def
      split: list.splits option.splits)

lemma stop_readers_inv: "usb_inv u \<Longrightarrow> usb_inv (stop_readers u)"
  by (rule client_step_inv [of u]) (auto simp: stop_readers_def usb_inv_def queue_inv_def)

lemma start_readers_inv: "usb_inv (start_readers bulk)"
proof -
  have "reader_inv r (start_readers bulk)" for r
    by (cases bulk; cases r) (simp_all add: reader_inv_def start_readers_def published_by_def
        resumes_def split: prod.splits)
  then show ?thesis by (simp add: usb_inv_def queue_inv_def) (simp add: start_readers_def)
qed

lemma usb_step_inv: "usb_step u u' \<Longrightarrow> usb_inv u \<Longrightarrow> usb_inv u'"
  by (induction rule: usb_step.induct)
    (simp_all add: reader_head_inv reader_transfer_inv reader_deliver_inv usb_read_packet_inv
      usb_has_pending_input_inv stop_readers_inv)

lemma usb_reachable_inv: "usb_reachable u \<Longrightarrow> usb_inv u"
  by (induction rule: usb_reachable.induct) (simp_all add: start_readers_inv usb_step_inv)

text \<open>The failure is shown only when nothing that was published before it is left to read.\<close>

lemma usb_read_packet_error:
  "fst (usb_read_packet u) = Inl e \<Longrightarrow>
   prefetched u = [] \<and> reader_packets u = [] \<and> reader_error u = Some e \<and> snd (usb_read_packet u) = u"
  by (auto simp: usb_read_packet_def take_queued_def split: list.splits option.splits)

section \<open>Properties of the USB transport\<close>

text \<open>C4. However the endpoint threads, the client and \<open>close()\<close> interleave, and whatever the endpoints
  deliver: the client receives exactly the published packets, in publication order and without loss
  or duplication (consumed, then prefetched, then queued); what an endpoint published is a prefix of
  the packets framed in the octets that endpoint received; and a reader that is waiting for its
  endpoint has published all of them.\<close>

theorem usb_order_preserved:
  assumes "usb_reachable u"
  shows "map snd (published u) = consumed u @ prefetched u @ reader_packets u \<and>
    prefix (published_by r u) (fst (drain (reader_cut r) (raw u r))) \<and>
    (phases u r = Blocked \<longrightarrow> published_by r u = fst (drain (reader_cut r) (raw u r)))"
proof (intro conjI impI)
  note inv = usb_reachable_inv [OF assms]
  then show "map snd (published u) = consumed u @ prefetched u @ reader_packets u"
    by (simp add: usb_inv_def queue_inv_def)
  from inv have r: "reader_inv r u" by (simp add: usb_inv_def)
  then show "prefix (published_by r u) (fst (drain (reader_cut r) (raw u r)))"
    by (cases "phases u r") (auto simp: reader_inv_def intro: resumes_prefix holds_prefix)
  assume "phases u r = Blocked"
  with r have res: "resumes (reader_cut r) (published_by r u) (rx_of r u) (raw u r)"
    "drain (reader_cut r) (rx_of r u) = ([], None, rx_of r u)"
    by (simp_all add: reader_inv_def)
  from res(1) have "drain (reader_cut r) (raw u r @ []) =
    (case drain (reader_cut r) (rx_of r u @ []) of (qs, e, b) \<Rightarrow> (published_by r u @ qs, e, b))"
    unfolding resumes_def by blast
  with res(2) show "published_by r u = fst (drain (reader_cut r) (raw u r))" by simp
qed

text \<open>A run of the event reader over one endpoint transfer, then the client.\<close>

definition usb_demo :: usb where
  "usb_demo = snd (usb_read_packet
     (reader_deliver EventReader [0x0E, 1, 9]
       (reader_transfer EventReader (Inr (Some [0x0E, 1, 9])) (reader_head EventReader (start_readers False)))))"

lemma usb_demo_reachable: "usb_reachable usb_demo"
proof -
  let ?s = "start_readers False" and ?h = "reader_head EventReader (start_readers False)"
  let ?t = "reader_transfer EventReader (Inr (Some [0x0E, 1, 9])) ?h"
  have "usb_reachable ?h"
    by (rule usb_reachable.step [OF usb_reachable.start usb_step.head]) (simp add: start_readers_def)
  moreover have "phases ?h EventReader = Blocked"
    by (simp add: reader_head_def reader_take_def start_readers_def take_complete_def event_expected_def)
  ultimately have "usb_reachable ?t" by (blast intro: usb_reachable.step usb_step.transfer)
  moreover have "phases ?t EventReader = Have [0x0E, 1, 9]"
    by (simp add: reader_transfer_def reader_head_def reader_take_def start_readers_def
        take_complete_def event_expected_def set_phase_def)
  ultimately have "usb_reachable (reader_deliver EventReader [0x0E, 1, 9] ?t)"
    by (blast intro: usb_reachable.step usb_step.deliver)
  then show ?thesis unfolding usb_demo_def by (blast intro: usb_reachable.step usb_step.read)
qed

theorem usb_order_preserved_witness:
  "map snd (published usb_demo) = consumed usb_demo @ prefetched usb_demo @ reader_packets usb_demo"
  using usb_order_preserved [OF usb_demo_reachable] by blast



text \<open>C11. Each USB endpoint's framing round trip: well-formed packets encoded onto an endpoint, split
  into transfers in any way, are cut back into exactly those packets.\<close>

theorem usb_framing_exact:
  "(list_all usb_event_wf ps \<and> concat cs = concat (map (\<lambda>p. tl (h4_encode p)) ps) \<longrightarrow>
      feed (reader_cut EventReader) [] cs = (ps, None, [])) \<and>
   (list_all usb_acl_wf ps \<and> concat cs = concat (map (\<lambda>p. tl (h4_encode p)) ps) \<longrightarrow>
      feed (reader_cut AclReader) [] cs = (ps, None, [])) \<and>
   (list_all usb_serialized_wf ps \<and> concat cs = concat (map h4_encode ps) \<longrightarrow>
      feed (reader_cut SerializedReader) [] cs = (ps, None, []))"
  using event_codec.transmit acl_codec.transmit serialized_codec.transmit
  by (simp_all add: reader_cut_def)

theorem usb_framing_exact_witness:
  "feed (reader_cut EventReader) [] [[0x0E], [2, 1], [7, 0x0F, 0]] =
     ([(4, Some 0x0E, [1, 7]), (4, Some 0x0F, [])], None, [])"
  using usb_framing_exact [of "[(4, Some 0x0E, [1, 7]), (4, Some 0x0F, [])]"
      "[[0x0E], [2, 1], [7, 0x0F, 0]]"] by simp

end
