(* ===== verification/Smp.thy ===== *)
theory Smp
  imports Hci_Events "HOL-Library.Sublist"
begin

text \<open>
  \<open>python/hcicontroller/smp_central.py\<close>: LE Secure Connections pairing, both roles, as state machines
  without I/O. The toolbox functions f4, f5, f6 and g2 are defined over AES-CMAC, and the key pair
  over P-256; both come from the \<open>cryptography\<close> package, which is not part of the repository, so they
  are the argument \<open>K\<close> of every definition that uses them. A PDU handed to the \<open>send\<close> callback is
  appended to \<open>out\<close>; \<open>rng\<close> gets the index of the call, so that no two calls are assumed to agree.
\<close>

section \<open>The cryptography package\<close>

text \<open>\<open>cmac key message\<close>, both most significant octet first; \<open>public_numbers d\<close> of the private
  key \<open>d\<close>; \<open>exchange d x y\<close>, with \<open>None\<close> where the package raises \<open>ValueError\<close> because the
  point is not on the curve.\<close>

record crypto =
  cmac :: "bytes \<Rightarrow> bytes \<Rightarrow> bytes"
  public_numbers :: "nat \<Rightarrow> nat \<times> nat"
  exchange :: "nat \<Rightarrow> nat \<Rightarrow> nat \<Rightarrow> bytes option"

section \<open>Constants\<close>

abbreviation (input) SMP_PAIRING_REQUEST :: byte where "SMP_PAIRING_REQUEST \<equiv> 0x01"
abbreviation (input) SMP_PAIRING_RESPONSE :: byte where "SMP_PAIRING_RESPONSE \<equiv> 0x02"
abbreviation (input) SMP_PAIRING_CONFIRM :: byte where "SMP_PAIRING_CONFIRM \<equiv> 0x03"
abbreviation (input) SMP_PAIRING_RANDOM :: byte where "SMP_PAIRING_RANDOM \<equiv> 0x04"
abbreviation (input) SMP_PAIRING_FAILED :: byte where "SMP_PAIRING_FAILED \<equiv> 0x05"
abbreviation (input) SMP_PAIRING_PUBLIC_KEY :: byte where "SMP_PAIRING_PUBLIC_KEY \<equiv> 0x0C"
abbreviation (input) SMP_PAIRING_DHKEY_CHECK :: byte where "SMP_PAIRING_DHKEY_CHECK \<equiv> 0x0D"

abbreviation (input) AUTH_BONDING :: nat where "AUTH_BONDING \<equiv> 0x01"
abbreviation (input) AUTH_MITM :: nat where "AUTH_MITM \<equiv> 0x04"
abbreviation (input) AUTH_SC :: nat where "AUTH_SC \<equiv> 0x08"

definition FAILED_NAMES :: "(nat \<times> string) list" where
  "FAILED_NAMES =
    [(0x01, ''Passkey Entry Failed''),
     (0x02, ''OOB Not Available''),
     (0x03, ''Authentication Requirements''),
     (0x04, ''Confirm Value Failed''),
     (0x05, ''Pairing Not Supported''),
     (0x06, ''Encryption Key Size''),
     (0x07, ''Command Not Supported''),
     (0x08, ''Unspecified Reason''),
     (0x09, ''Repeated Attempts''),
     (0x0A, ''Invalid Parameters''),
     (0x0B, ''DHKey Check Failed''),
     (0x0C, ''Numeric Comparison Failed''),
     (0x0D, ''BR/EDR Pairing In Progress''),
     (0x0E, ''Cross-transport Key Derivation Not Allowed'')]"

datatype smp_method = METHOD_JUST_WORKS | METHOD_NUMERIC | METHOD_PASSKEY

abbreviation (input) "JW \<equiv> METHOD_JUST_WORKS"
abbreviation (input) "NC \<equiv> METHOD_NUMERIC"
abbreviation (input) "PE \<equiv> METHOD_PASSKEY"

text \<open>Row: the initiator's IO capability, column: the responder's.\<close>

definition SC_METHOD :: "smp_method list list" where
  "SC_METHOD =
    [[JW, JW, PE, JW, PE],
     [JW, NC, PE, JW, NC],
     [PE, PE, PE, JW, PE],
     [JW, JW, JW, JW, JW],
     [PE, NC, PE, JW, NC]]"

text \<open>\<open>_SC_METHOD[i][j]\<close>: a tuple index out of range raises.\<close>

definition sc_method :: "nat \<Rightarrow> nat \<Rightarrow> smp_method result" where
  "sc_method i j =
     (if i < length SC_METHOD \<and> j < length (SC_METHOD ! i) then Inr (SC_METHOD ! i ! j)
      else Inl IndexError)"

section \<open>The toolbox\<close>

definition f4 :: "crypto \<Rightarrow> bytes \<Rightarrow> bytes \<Rightarrow> bytes \<Rightarrow> bytes \<Rightarrow> bytes" where
  "f4 K u v x z = rev (cmac K (rev x) (rev u @ rev v @ z))"

definition SALT :: bytes where
  "SALT = [0x6C, 0x88, 0x83, 0x91, 0xAA, 0xF5, 0xA5, 0x38, 0x60, 0x37, 0x0B, 0xDB, 0x5A, 0x60, 0x83, 0xBE]"

definition KEY_ID :: bytes where
  "KEY_ID = [0x62, 0x74, 0x6C, 0x65]"

definition f5 :: "crypto \<Rightarrow> bytes \<Rightarrow> bytes \<Rightarrow> bytes \<Rightarrow> bytes \<Rightarrow> bytes \<Rightarrow> bytes \<times> bytes" where
  "f5 K w n1 n2 a1 a2 =
     (let t = cmac K SALT (rev w);
          block = (\<lambda>counter. cmac K t ([counter] @ KEY_ID @ rev n1 @ rev n2 @ rev a1 @ rev a2
                                       @ [0x01, 0x00]))
      in (rev (block 0), rev (block 1)))"

definition f6 ::
  "crypto \<Rightarrow> bytes \<Rightarrow> bytes \<Rightarrow> bytes \<Rightarrow> bytes \<Rightarrow> bytes \<Rightarrow> bytes \<Rightarrow> bytes \<Rightarrow> bytes" where
  "f6 K w n1 n2 r io_cap a1 a2 =
     rev (cmac K (rev w) (rev n1 @ rev n2 @ rev r @ rev io_cap @ rev a1 @ rev a2))"

text \<open>\<open>int.from_bytes(value[-4:], "big") % 1000000\<close>.\<close>

definition g2 :: "crypto \<Rightarrow> bytes \<Rightarrow> bytes \<Rightarrow> bytes \<Rightarrow> bytes \<Rightarrow> nat" where
  "g2 K u v x y =
     (let value = cmac K (rev x) (rev u @ rev v @ rev y)
      in from_le (rev (drop (length value - 4) value)) mod 1000000)"

definition address_form :: "bytes \<Rightarrow> byte \<Rightarrow> bytes" where
  "address_form address address_type = address @ [address_type]"

section \<open>P-256\<close>

definition key_x :: "crypto \<Rightarrow> nat \<Rightarrow> bytes" where
  "key_x K private = to_le 32 (fst (public_numbers K private))"

definition key_y :: "crypto \<Rightarrow> nat \<Rightarrow> bytes" where
  "key_y K private = to_le 32 (snd (public_numbers K private))"

definition shared_secret :: "crypto \<Rightarrow> nat \<Rightarrow> bytes \<Rightarrow> bytes \<Rightarrow> bytes option" where
  "shared_secret K private peer_x peer_y =
     map_option rev (exchange K private (from_le peer_x) (from_le peer_y))"

section \<open>What the two roles share\<close>

record smp_side =
  rng :: "nat \<Rightarrow> nat \<Rightarrow> bytes"
  rng_calls :: nat
  local_address :: bytes
  local_type :: byte
  peer_address :: bytes
  peer_type :: byte
  io_cap :: nat
  auth_req :: nat
  key_size :: nat
  init_keys :: nat
  resp_keys :: nat
  keypair :: nat
  "method" :: "smp_method option"
  failure :: "(string \<times> nat list) option"
  peer_failure :: "byte option"
  numeric_value :: "nat option"
  ltk :: "bytes option"
  mac_key :: "bytes option"
  dhkey :: "bytes option"
  preq :: "bytes option"
  pres :: "bytes option"
  na :: "bytes option"
  nb :: "bytes option"
  peer_x :: "bytes option"
  peer_y :: "bytes option"
  user_accepted :: "bool option"
  out :: "bytes list"

text \<open>Reading an attribute that is still \<open>None\<close> where octets are needed raises \<open>TypeError\<close>.\<close>

definition need :: "('s \<Rightarrow> 'a option) \<Rightarrow> ('s, 'a) action" where
  "need sel s = (case sel s of None \<Rightarrow> (Inl TypeError, s) | Some x \<Rightarrow> (Inr x, s))"

definition emit :: "bytes \<Rightarrow> ('a smp_side_scheme, unit) action" where
  "emit pdu s = (Inr (), s\<lparr>out := out s @ [pdu]\<rparr>)"

definition modify :: "('s \<Rightarrow> 's) \<Rightarrow> ('s, unit) action" where
  "modify f s = (Inr (), f s)"

text \<open>\<open>bytes((a, b, ...))\<close>.\<close>

fun octets :: "nat list \<Rightarrow> bytes result" where
  "octets [] = Inr []"
| "octets (v # vs) = bind_r (octet v) (\<lambda>b. bind_r (octets vs) (\<lambda>bs. Inr (b @ bs)))"

definition own_form :: "'a smp_side_scheme \<Rightarrow> bytes" where
  "own_form s = address_form (local_address s) (local_type s)"

definition peer_form :: "'a smp_side_scheme \<Rightarrow> bytes" where
  "peer_form s = address_form (peer_address s) (peer_type s)"

text \<open>The text after \<open>sent Pairing Failed,\<close>: the name of the reason, or the number.\<close>

definition failed_text :: "byte option \<Rightarrow> string" where
  "failed_text reason =
     (let n = (case reason of None \<Rightarrow> 0 | Some b \<Rightarrow> unat b) in
      case (reason, map_of FAILED_NAMES n) of
        (Some _, Some name) \<Rightarrow> name
      | _ \<Rightarrow> ''reason 0x'' @ hex_pad 2 n)"

section \<open>The initiator, \<open>SmpCentral\<close>\<close>

datatype cstate =
    IDLE | WAIT_RESPONSE | WAIT_PUBLIC_KEY | WAIT_CONFIRM | WAIT_RANDOM | WAIT_USER
  | WAIT_DHKEY_CHECK | COMPLETE | FAILED

record central = smp_side +
  state :: cstate
  peer_io_cap :: "byte option"
  peer_auth_req :: "byte option"
  confirm :: "bytes option"
  dhkey_check :: "bytes option"

definition central_init ::
  "(nat \<Rightarrow> nat \<Rightarrow> bytes) \<Rightarrow> bytes \<Rightarrow> byte \<Rightarrow> bytes \<Rightarrow> byte \<Rightarrow> nat \<Rightarrow> nat \<Rightarrow> nat \<Rightarrow> nat \<Rightarrow> nat \<Rightarrow> nat
   \<Rightarrow> central" where
  "central_init random la lt pa pt io auth ksize ikeys rkeys kp =
     \<lparr>rng = random, rng_calls = 0, local_address = la, local_type = lt, peer_address = pa,
      peer_type = pt, io_cap = io, auth_req = auth, key_size = ksize, init_keys = ikeys,
      resp_keys = rkeys, keypair = kp, method = None, failure = None, peer_failure = None,
      numeric_value = None, ltk = None, mac_key = None, dhkey = None, preq = None, pres = None,
      na = None, nb = None, peer_x = None, peer_y = None, user_accepted = None, out = [],
      state = IDLE, peer_io_cap = None, peer_auth_req = None, confirm = None, dhkey_check = None\<rparr>"

definition central_done :: "central \<Rightarrow> bool" where
  "central_done c \<longleftrightarrow> state c = COMPLETE \<or> state c = FAILED"

definition central_fail :: "string \<Rightarrow> nat list \<Rightarrow> byte option \<Rightarrow> (central, unit) action" where
  "central_fail msg args reason =
     bind_s (modify (\<lambda>c. c\<lparr>failure := Some (msg, args), state := FAILED\<rparr>)) (\<lambda>_.
     case reason of None \<Rightarrow> ret () | Some r \<Rightarrow> emit [SMP_PAIRING_FAILED, r])"

definition central_start :: "(central, unit) action" where
  "central_start c =
     (if state c \<noteq> IDLE then throw (PairingError ''pairing already started'' []) c
      else bind_s (lift_r (octets [1, io_cap c, 0, auth_req c, key_size c, init_keys c, resp_keys c]))
        (\<lambda>req. bind_s (modify (\<lambda>c. c\<lparr>preq := Some req, state := WAIT_RESPONSE\<rparr>)) (\<lambda>_. emit req)) c)"

definition central_on_response :: "crypto \<Rightarrow> bytes \<Rightarrow> (central, unit) action" where
  "central_on_response K pdu c0 =
     (if state c0 \<noteq> WAIT_RESPONSE then throw (PairingError ''unexpected Pairing Response'' []) c0
      else if length pdu \<noteq> 7
      then throw (PairingError ''Pairing Response is %d octets'' [length pdu]) c0
      else
        let c = c0\<lparr>pres := Some pdu, peer_io_cap := Some (pdu ! 1), peer_auth_req := Some (pdu ! 3)\<rparr>;
            peer_auth = unat (pdu ! 3); peer_key_size = unat (pdu ! 4); peer_io = unat (pdu ! 1)
        in
          if \<not> (auth_req c AND AUTH_SC \<noteq> 0 \<and> peer_auth AND AUTH_SC \<noteq> 0)
          then central_fail ''the peer answered without Secure Connections, so this is legacy pairing, which this initiator does not do'' [] (Some 0x05) c
          else if pdu ! 2 \<noteq> 0
          then central_fail ''the peer offers out of band data'' [] (Some 0x02) c
          else if peer_key_size < 7 \<or> peer_key_size > 16
          then central_fail ''key size %d'' [peer_key_size] (Some 0x06) c
          else if io_cap c > 4 \<or> peer_io > 4
          then central_fail ''io capability out of range'' [] (Some 0x0A) c
          else
            let mitm = (auth_req c AND AUTH_MITM \<noteq> 0 \<or> peer_auth AND AUTH_MITM \<noteq> 0) in
            bind_s (lift_r (if mitm then sc_method (io_cap c) peer_io else Inr METHOD_JUST_WORKS))
              (\<lambda>m. bind_s (modify (\<lambda>c. c\<lparr>method := Some m\<rparr>)) (\<lambda>_.
                if m = METHOD_PASSKEY
                then central_fail ''Passkey Entry is not implemented here; use io cap 1 (display yes/no) or 3 (no input no output)'' [] (Some 0x05)
                else bind_s (modify (\<lambda>c. c\<lparr>state := WAIT_PUBLIC_KEY\<rparr>)) (\<lambda>_.
                  emit ([SMP_PAIRING_PUBLIC_KEY] @ key_x K (keypair c) @ key_y K (keypair c))))) c)"

definition central_on_public_key :: "crypto \<Rightarrow> bytes \<Rightarrow> (central, unit) action" where
  "central_on_public_key K pdu c0 =
     (if state c0 \<noteq> WAIT_PUBLIC_KEY then throw (PairingError ''unexpected Pairing Public Key'' []) c0
      else if length pdu \<noteq> 65
      then throw (PairingError ''Pairing Public Key is %d octets'' [length pdu]) c0
      else
        let px = pslice 1 33 pdu; py = pslice 33 65 pdu;
            c = c0\<lparr>peer_x := Some px, peer_y := Some py\<rparr>
        in
          if px = key_x K (keypair c) \<and> py = key_y K (keypair c)
          then throw (PairingError ''peer returned our own public key'' []) c
          else (case shared_secret K (keypair c) px py of
                  None \<Rightarrow> throw (PairingError ''peer public key is not on the curve'' []) c
                | Some secret \<Rightarrow> ret () (c\<lparr>dhkey := Some secret, state := WAIT_CONFIRM\<rparr>)))"

definition central_on_confirm :: "bytes \<Rightarrow> (central, unit) action" where
  "central_on_confirm pdu c0 =
     (if state c0 \<noteq> WAIT_CONFIRM then throw (PairingError ''unexpected Pairing Confirm'' []) c0
      else if length pdu \<noteq> 17
      then throw (PairingError ''Pairing Confirm is %d octets'' [length pdu]) c0
      else
        let n = rng c0 (rng_calls c0) 16;
            c = c0\<lparr>confirm := Some (pslice 1 17 pdu), na := Some n, rng_calls := Suc (rng_calls c0),
                   state := WAIT_RANDOM\<rparr>
        in emit ([SMP_PAIRING_RANDOM] @ n) c)"

definition central_send_dhkey_check :: "crypto \<Rightarrow> (central, unit) action" where
  "central_send_dhkey_check K =
     bind_s (need preq) (\<lambda>req. bind_s (need pres) (\<lambda>res.
     bind_s (need mac_key) (\<lambda>mk. bind_s (need na) (\<lambda>ra. bind_s (need nb) (\<lambda>rb. \<lambda>c.
       let io_a = pslice 1 4 req; io_b = pslice 1 4 res;
           ea = f6 K mk ra rb (zeros 16) io_a (own_form c) (peer_form c);
           eb = f6 K mk rb ra (zeros 16) io_b (peer_form c) (own_form c)
       in emit ([SMP_PAIRING_DHKEY_CHECK] @ ea)
            (c\<lparr>dhkey_check := Some eb, state := WAIT_DHKEY_CHECK\<rparr>))))))"

definition central_on_random :: "crypto \<Rightarrow> bytes \<Rightarrow> (central, unit) action" where
  "central_on_random K pdu c0 =
     (if state c0 \<noteq> WAIT_RANDOM then throw (PairingError ''unexpected Pairing Random'' []) c0
      else if length pdu \<noteq> 17
      then throw (PairingError ''Pairing Random is %d octets'' [length pdu]) c0
      else
        let rb = pslice 1 17 pdu in
        bind_s (modify (\<lambda>c. c\<lparr>nb := Some rb\<rparr>)) (\<lambda>_.
        bind_s (need peer_x) (\<lambda>px. \<lambda>c.
          if Some (f4 K px (key_x K (keypair c)) rb (zeros 1)) \<noteq> confirm c
          then central_fail ''confirm value check failed: the peer's Pairing Confirm does not match f4 of its random'' [] (Some 0x04) c
          else bind_s (need dhkey) (\<lambda>dh. bind_s (need na) (\<lambda>ra. \<lambda>c.
            case f5 K dh ra rb (own_form c) (peer_form c) of (mk, key) \<Rightarrow>
              let c = c\<lparr>mac_key := Some mk, ltk := Some key\<rparr> in
              if method c = Some METHOD_NUMERIC
              then ret () (c\<lparr>numeric_value := Some (g2 K (key_x K (keypair c)) px ra rb),
                             state := WAIT_USER\<rparr>)
              else central_send_dhkey_check K c)) c)) c0)"

definition central_on_dhkey_check :: "bytes \<Rightarrow> (central, unit) action" where
  "central_on_dhkey_check pdu c =
     (if state c \<noteq> WAIT_DHKEY_CHECK
      then throw (PairingError ''unexpected Pairing DHKey Check'' []) c
      else if length pdu \<noteq> 17
      then throw (PairingError ''Pairing DHKey Check is %d octets'' [length pdu]) c
      else if Some (pslice 1 17 pdu) \<noteq> dhkey_check c
      then central_fail ''the peer's DHKey Check does not match'' [] (Some 0x0B) c
      else ret () (c\<lparr>state := COMPLETE\<rparr>))"

definition central_handler :: "crypto \<Rightarrow> byte \<Rightarrow> (bytes \<Rightarrow> (central, unit) action) option" where
  "central_handler K code =
     (if code = SMP_PAIRING_RESPONSE then Some (central_on_response K)
      else if code = SMP_PAIRING_PUBLIC_KEY then Some (central_on_public_key K)
      else if code = SMP_PAIRING_CONFIRM then Some central_on_confirm
      else if code = SMP_PAIRING_RANDOM then Some (central_on_random K)
      else if code = SMP_PAIRING_DHKEY_CHECK then Some central_on_dhkey_check
      else None)"

text \<open>\<open>try: handler(pdu) except PairingError as err: self._fail(str(err), 0x0A)\<close>; any other
  exception leaves \<open>feed\<close>.\<close>

definition catch_pairing ::
  "(string \<Rightarrow> nat list \<Rightarrow> byte option \<Rightarrow> ('s, unit) action) \<Rightarrow> ('s, unit) action
   \<Rightarrow> ('s, unit) action" where
  "catch_pairing fail m s =
     (case m s of
        (Inl (PairingError msg args), s') \<Rightarrow> fail msg args (Some 0x0A) s'
      | r \<Rightarrow> r)"

definition central_feed :: "crypto \<Rightarrow> bytes \<Rightarrow> (central, unit) action" where
  "central_feed K pdu c =
     (if central_done c \<or> pdu = [] then (Inr (), c)
      else
        let code = pdu ! 0 in
        if code = SMP_PAIRING_FAILED
        then
          let reason = (if 1 < length pdu then Some (pdu ! 1) else None)
          in central_fail (''peer sent Pairing Failed, '' @ failed_text reason) [] None
               (c\<lparr>peer_failure := reason\<rparr>)
        else (case central_handler K code of
                None \<Rightarrow> (Inr (), c)
              | Some handler \<Rightarrow> catch_pairing central_fail (handler pdu) c))"

definition central_user_confirm :: "crypto \<Rightarrow> bool \<Rightarrow> (central, unit) action" where
  "central_user_confirm K accepted c =
     (if state c \<noteq> WAIT_USER then throw (PairingError ''no comparison is waiting'' []) c
      else
        let c = c\<lparr>user_accepted := Some accepted\<rparr> in
        if \<not> accepted then central_fail ''numeric comparison rejected here'' [] (Some 0x0C) c
        else central_send_dhkey_check K c)"

section \<open>The responder, \<open>SmpResponder\<close>\<close>

datatype rstate =
    R_IDLE | R_WAIT_PUBLIC_KEY | R_WAIT_RANDOM | R_WAIT_USER_OR_CHECK | R_COMPLETE | R_FAILED

record responder = smp_side +
  accept_init_keys :: nat
  rstate :: rstate
  ea :: "bytes option"
  request :: "(string \<times> byte) list"

definition responder_init ::
  "(nat \<Rightarrow> nat \<Rightarrow> bytes) \<Rightarrow> bytes \<Rightarrow> byte \<Rightarrow> bytes \<Rightarrow> byte \<Rightarrow> nat \<Rightarrow> nat \<Rightarrow> nat \<Rightarrow> nat \<Rightarrow> nat \<Rightarrow> nat
   \<Rightarrow> responder" where
  "responder_init random la lt pa pt io auth ksize accept rkeys kp =
     \<lparr>rng = random, rng_calls = 1, local_address = la, local_type = lt, peer_address = pa,
      peer_type = pt, io_cap = io, auth_req = auth, key_size = ksize, init_keys = 0,
      resp_keys = rkeys, keypair = kp, method = None, failure = None, peer_failure = None,
      numeric_value = None, ltk = None, mac_key = None, dhkey = None, preq = None, pres = None,
      na = None, nb = Some (random 0 16), peer_x = None, peer_y = None, user_accepted = None,
      out = [], accept_init_keys = accept, rstate = R_IDLE, ea = None, request = []\<rparr>"

definition responder_done :: "responder \<Rightarrow> bool" where
  "responder_done r \<longleftrightarrow> rstate r = R_COMPLETE \<or> rstate r = R_FAILED"

definition responder_fail :: "string \<Rightarrow> nat list \<Rightarrow> byte option \<Rightarrow> (responder, unit) action" where
  "responder_fail msg args reason =
     bind_s (modify (\<lambda>r. r\<lparr>failure := Some (msg, args), rstate := R_FAILED\<rparr>)) (\<lambda>_.
     case reason of None \<Rightarrow> ret () | Some b \<Rightarrow> emit [SMP_PAIRING_FAILED, b])"

definition responder_on_request :: "bytes \<Rightarrow> (responder, unit) action" where
  "responder_on_request pdu r0 =
     (if rstate r0 \<noteq> R_IDLE then throw (PairingError ''unexpected Pairing Request'' []) r0
      else if length pdu \<noteq> 7
      then throw (PairingError ''Pairing Request is %d octets'' [length pdu]) r0
      else
        let io = unat (pdu ! 1); auth = unat (pdu ! 3); init = unat (pdu ! 5); resp = unat (pdu ! 6);
            r = r0\<lparr>preq := Some pdu,
                   request := zip [''io_cap'', ''oob'', ''auth_req'', ''key_size'', ''init_keys'',
                                   ''resp_keys''] (pslice 1 7 pdu)\<rparr>
        in
          if \<not> (auth AND AUTH_SC \<noteq> 0 \<and> auth_req r AND AUTH_SC \<noteq> 0)
          then responder_fail ''the central did not ask for Secure Connections, so this is legacy pairing, which this responder does not do'' [] (Some 0x05) r
          else if io > 4
          then responder_fail ''io capability out of range'' [] (Some 0x0A) r
          else
            let mitm = (auth AND AUTH_MITM \<noteq> 0 \<or> auth_req r AND AUTH_MITM \<noteq> 0) in
            bind_s (lift_r (if mitm then sc_method io (io_cap r) else Inr METHOD_JUST_WORKS))
              (\<lambda>m. bind_s (modify (\<lambda>r. r\<lparr>method := Some m\<rparr>)) (\<lambda>_.
                if m = METHOD_PASSKEY
                then responder_fail ''Passkey Entry is not implemented here'' [] (Some 0x05)
                else
                  bind_s (modify (\<lambda>r. r\<lparr>init_keys := init AND accept_init_keys r\<rparr>)) (\<lambda>_. \<lambda>r.
                  bind_s (lift_r (octets [2, io_cap r, 0, auth_req r, min (key_size r) 16, init_keys r,
                                          resp AND resp_keys r]))
                    (\<lambda>res. bind_s (modify (\<lambda>r. r\<lparr>pres := Some res, rstate := R_WAIT_PUBLIC_KEY\<rparr>))
                      (\<lambda>_. emit res)) r))) r)"

definition responder_on_public_key :: "crypto \<Rightarrow> bytes \<Rightarrow> (responder, unit) action" where
  "responder_on_public_key K pdu r0 =
     (if rstate r0 \<noteq> R_WAIT_PUBLIC_KEY then throw (PairingError ''unexpected Pairing Public Key'' []) r0
      else if length pdu \<noteq> 65
      then throw (PairingError ''Pairing Public Key is %d octets'' [length pdu]) r0
      else
        let px = pslice 1 33 pdu; py = pslice 33 65 pdu;
            r = r0\<lparr>peer_x := Some px, peer_y := Some py\<rparr>
        in case shared_secret K (keypair r) px py of
             None \<Rightarrow> throw (PairingError ''central public key is not on the curve'' []) r
           | Some secret \<Rightarrow>
               bind_s (modify (\<lambda>r. r\<lparr>dhkey := Some secret\<rparr>)) (\<lambda>_.
               bind_s (emit ([SMP_PAIRING_PUBLIC_KEY] @ key_x K (keypair r) @ key_y K (keypair r))) (\<lambda>_.
               bind_s (need nb) (\<lambda>rb.
               let value = f4 K (key_x K (keypair r)) px rb (zeros 1) in
               bind_s (modify (\<lambda>r. r\<lparr>rstate := R_WAIT_RANDOM\<rparr>)) (\<lambda>_.
               emit ([SMP_PAIRING_CONFIRM] @ value))))) r)"

definition responder_on_random :: "crypto \<Rightarrow> bytes \<Rightarrow> (responder, unit) action" where
  "responder_on_random K pdu r0 =
     (if rstate r0 \<noteq> R_WAIT_RANDOM then throw (PairingError ''unexpected Pairing Random'' []) r0
      else if length pdu \<noteq> 17
      then throw (PairingError ''Pairing Random is %d octets'' [length pdu]) r0
      else
        let ra = pslice 1 17 pdu in
        bind_s (modify (\<lambda>r. r\<lparr>na := Some ra\<rparr>)) (\<lambda>_.
        bind_s (need nb) (\<lambda>rb.
        bind_s (emit ([SMP_PAIRING_RANDOM] @ rb)) (\<lambda>_.
        bind_s (need dhkey) (\<lambda>dh. \<lambda>r.
          case f5 K dh ra rb (peer_form r) (own_form r) of (mk, key) \<Rightarrow>
            let r = r\<lparr>mac_key := Some mk, ltk := Some key, rstate := R_WAIT_USER_OR_CHECK\<rparr> in
            if method r = Some METHOD_NUMERIC
            then bind_s (need peer_x) (\<lambda>px. \<lambda>r. ret ()
                   (r\<lparr>numeric_value := Some (g2 K px (key_x K (keypair r)) ra rb)\<rparr>)) r
            else ret () (r\<lparr>user_accepted := Some True\<rparr>))))) r0)"

definition responder_finish :: "crypto \<Rightarrow> (responder, unit) action" where
  "responder_finish K r0 =
     (if ea r0 = None \<or> user_accepted r0 \<noteq> Some True then (Inr (), r0)
      else
        bind_s (need mac_key) (\<lambda>mk. bind_s (need na) (\<lambda>ra. bind_s (need nb) (\<lambda>rb.
        bind_s (need preq) (\<lambda>req. \<lambda>r.
          if Some (f6 K mk ra rb (zeros 16) (pslice 1 4 req) (peer_form r) (own_form r)) \<noteq> ea r
          then responder_fail ''the central's DHKey Check does not match'' [] (Some 0x0B) r
          else bind_s (need pres) (\<lambda>res.
            bind_s (emit ([SMP_PAIRING_DHKEY_CHECK] @
                f6 K mk rb ra (zeros 16) (pslice 1 4 res) (own_form r) (peer_form r))) (\<lambda>_.
            modify (\<lambda>r. r\<lparr>rstate := R_COMPLETE\<rparr>))) r)))) r0)"

definition responder_user_confirm :: "crypto \<Rightarrow> bool \<Rightarrow> (responder, unit) action" where
  "responder_user_confirm K accepted r =
     (if rstate r \<noteq> R_WAIT_USER_OR_CHECK then throw (PairingError ''no comparison is waiting'' []) r
      else
        let r = r\<lparr>user_accepted := Some accepted\<rparr> in
        if \<not> accepted then responder_fail ''numeric comparison rejected here'' [] (Some 0x0C) r
        else responder_finish K r)"

definition responder_on_dhkey_check :: "crypto \<Rightarrow> bytes \<Rightarrow> (responder, unit) action" where
  "responder_on_dhkey_check K pdu r =
     (if rstate r \<noteq> R_WAIT_USER_OR_CHECK
      then throw (PairingError ''unexpected Pairing DHKey Check'' []) r
      else if length pdu \<noteq> 17
      then throw (PairingError ''Pairing DHKey Check is %d octets'' [length pdu]) r
      else responder_finish K (r\<lparr>ea := Some (pslice 1 17 pdu)\<rparr>))"

definition responder_handler :: "crypto \<Rightarrow> byte \<Rightarrow> (bytes \<Rightarrow> (responder, unit) action) option" where
  "responder_handler K code =
     (if code = SMP_PAIRING_REQUEST then Some responder_on_request
      else if code = SMP_PAIRING_PUBLIC_KEY then Some (responder_on_public_key K)
      else if code = SMP_PAIRING_RANDOM then Some (responder_on_random K)
      else if code = SMP_PAIRING_DHKEY_CHECK then Some (responder_on_dhkey_check K)
      else None)"

definition responder_feed :: "crypto \<Rightarrow> bytes \<Rightarrow> (responder, unit) action" where
  "responder_feed K pdu r =
     (if responder_done r \<or> pdu = [] then (Inr (), r)
      else
        let code = pdu ! 0 in
        if code = SMP_PAIRING_FAILED
        then
          let reason = (if 1 < length pdu then Some (pdu ! 1) else None)
          in responder_fail (''central sent Pairing Failed, '' @ failed_text reason) [] None
               (r\<lparr>peer_failure := reason\<rparr>)
        else (case responder_handler K code of
                None \<Rightarrow> (Inr (), r)
              | Some handler \<Rightarrow> catch_pairing responder_fail (handler pdu) r))"

end
