(* ===== verification/Smp_Safety.thy ===== *)
theory Smp_Safety
  imports Smp
begin

text \<open>
  What the two pairing state machines guarantee against an arbitrary peer: the machines are driven
  by any sequence of PDUs and user answers, and whenever one reports completion, every check of the
  protocol was made on values the peer really sent. Also that the input cannot make a machine raise.
\<close>

section \<open>Driving the initiator\<close>

datatype smp_event = Start | Feed bytes | User bool

fun central_step :: "crypto \<Rightarrow> smp_event \<Rightarrow> central \<Rightarrow> unit result \<times> central" where
  "central_step K Start c = central_start c"
| "central_step K (Feed pdu) c = central_feed K pdu c"
| "central_step K (User a) c = central_user_confirm K a c"

definition central_run :: "crypto \<Rightarrow> smp_event list \<Rightarrow> central \<Rightarrow> central" where
  "central_run K evs c = fold (\<lambda>ev c. snd (central_step K ev c)) evs c"

lemma central_run_snoc:
  "central_run K (evs @ [ev]) c = snd (central_step K ev (central_run K evs c))"
  by (simp add: central_run_def)

fun progress :: "cstate \<Rightarrow> nat" where
  "progress IDLE = 0"
| "progress WAIT_RESPONSE = 1"
| "progress WAIT_PUBLIC_KEY = 2"
| "progress WAIT_CONFIRM = 3"
| "progress WAIT_RANDOM = 4"
| "progress WAIT_USER = 5"
| "progress WAIT_DHKEY_CHECK = 6"
| "progress COMPLETE = 7"
| "progress FAILED = 0"

definition config where
  "config s = (rng s, (local_address s, local_type s, peer_address s, peer_type s),
               io_cap s, auth_req s, key_size s, resp_keys s, keypair s)"

text \<open>What has been established by the time the machine is in each state, over the values of the
  attributes involved; \<open>evs\<close> is everything that happened, so \<open>Feed p \<in> set evs\<close> says that the peer
  sent \<open>p\<close>.\<close>

definition agreed :: "smp_event list \<Rightarrow> nat \<Rightarrow> bytes option \<Rightarrow> smp_method option \<Rightarrow> bool" where
  "agreed evs auth res m \<longleftrightarrow>
     (\<exists>p. res = Some p \<and> Feed p \<in> set evs \<and> length p = 7 \<and>
        auth AND AUTH_SC \<noteq> 0 \<and> unat (p ! 3) AND AUTH_SC \<noteq> 0 \<and>
        7 \<le> unat (p ! 4) \<and> unat (p ! 4) \<le> 16) \<and>
     (m = Some METHOD_JUST_WORKS \<or> m = Some METHOD_NUMERIC)"

definition keyed ::
  "crypto \<Rightarrow> smp_event list \<Rightarrow> nat \<Rightarrow> bytes option \<Rightarrow> bytes option \<Rightarrow> bytes option \<Rightarrow> bool" where
  "keyed K evs kp x y dh \<longleftrightarrow>
     (\<exists>px py k. x = Some px \<and> y = Some py \<and> dh = Some k \<and> length px = 32 \<and> length py = 32 \<and>
        Feed ([SMP_PAIRING_PUBLIC_KEY] @ px @ py) \<in> set evs \<and>
        \<not> (px = key_x K kp \<and> py = key_y K kp) \<and> shared_secret K kp px py = Some k)"

definition committed :: "smp_event list \<Rightarrow> bytes option \<Rightarrow> bytes option \<Rightarrow> bool" where
  "committed evs v ra \<longleftrightarrow> ra \<noteq> None \<and>
     (\<exists>cv. v = Some cv \<and> Feed ([SMP_PAIRING_CONFIRM] @ cv) \<in> set evs)"

definition derived ::
  "crypto \<Rightarrow> smp_event list \<Rightarrow> nat \<Rightarrow> bytes \<Rightarrow> bytes \<Rightarrow> smp_method option \<Rightarrow> bytes option \<Rightarrow> bytes option
   \<Rightarrow> bytes option \<Rightarrow> bytes option \<Rightarrow> bytes option \<Rightarrow> bytes option \<Rightarrow> bytes option \<Rightarrow> nat option \<Rightarrow> bool"
  where
  "derived K evs kp own peer m x dh v ra rb mk key num \<longleftrightarrow>
     (\<exists>n. rb = Some n \<and> Feed ([SMP_PAIRING_RANDOM] @ n) \<in> set evs \<and>
        v = Some (f4 K (the x) (key_x K kp) n (zeros 1)) \<and>
        mk = Some (fst (f5 K (the dh) (the ra) n own peer)) \<and>
        key = Some (snd (f5 K (the dh) (the ra) n own peer)) \<and>
        (m = Some METHOD_NUMERIC \<longrightarrow> num = Some (g2 K (key_x K kp) (the x) (the ra) n)))"

definition answered ::
  "crypto \<Rightarrow> smp_event list \<Rightarrow> bytes \<Rightarrow> bytes \<Rightarrow> smp_method option \<Rightarrow> bytes option \<Rightarrow> bytes option
   \<Rightarrow> bytes option \<Rightarrow> bytes option \<Rightarrow> bytes option \<Rightarrow> bool" where
  "answered K evs own peer m res ra rb mk check \<longleftrightarrow>
     check = Some (f6 K (the mk) (the rb) (the ra) (zeros 16) (pslice 1 4 (the res)) peer own) \<and>
     (m = Some METHOD_NUMERIC \<longrightarrow> User True \<in> set evs)"

definition central_inv :: "crypto \<Rightarrow> smp_event list \<Rightarrow> central \<Rightarrow> bool" where
  "central_inv K evs c \<longleftrightarrow>
     (1 \<le> progress (state c) \<longrightarrow> preq c \<noteq> None) \<and>
     (2 \<le> progress (state c) \<longrightarrow> agreed evs (auth_req c) (pres c) (method c)) \<and>
     (3 \<le> progress (state c) \<longrightarrow> keyed K evs (keypair c) (peer_x c) (peer_y c) (dhkey c)) \<and>
     (4 \<le> progress (state c) \<longrightarrow> committed evs (confirm c) (na c)) \<and>
     (5 \<le> progress (state c) \<longrightarrow>
        derived K evs (keypair c) (own_form c) (peer_form c) (method c) (peer_x c) (dhkey c)
          (confirm c) (na c) (nb c) (mac_key c) (ltk c) (numeric_value c)) \<and>
     (state c = WAIT_USER \<longrightarrow> method c = Some METHOD_NUMERIC) \<and>
     (6 \<le> progress (state c) \<longrightarrow>
        answered K evs (own_form c) (peer_form c) (method c) (pres c) (na c) (nb c) (mac_key c)
          (dhkey_check c)) \<and>
     (7 \<le> progress (state c) \<longrightarrow>
        Feed ([SMP_PAIRING_DHKEY_CHECK] @ the (dhkey_check c)) \<in> set evs)"

lemma stage_mono:
  "agreed evs auth res m \<Longrightarrow> agreed (evs @ [ev]) auth res m"
  "keyed K evs kp x y dh \<Longrightarrow> keyed K (evs @ [ev]) kp x y dh"
  "committed evs v ra \<Longrightarrow> committed (evs @ [ev]) v ra"
  "derived K evs kp own peer m x dh v ra rb mk key num \<Longrightarrow>
     derived K (evs @ [ev]) kp own peer m x dh v ra rb mk key num"
  "answered K evs own peer m res ra rb mk check \<Longrightarrow>
     answered K (evs @ [ev]) own peer m res ra rb mk check"
  by (auto simp: agreed_def keyed_def committed_def derived_def answered_def)

lemma stage_values:
  "agreed evs auth res m \<Longrightarrow> res \<noteq> None"
  "keyed K evs kp x y dh \<Longrightarrow> x \<noteq> None" "keyed K evs kp x y dh \<Longrightarrow> dh \<noteq> None"
  "committed evs v ra \<Longrightarrow> ra \<noteq> None"
  "derived K evs kp own peer m x dh v ra rb mk key num \<Longrightarrow> rb \<noteq> None"
  "derived K evs kp own peer m x dh v ra rb mk key num \<Longrightarrow> mk \<noteq> None"
  by (auto simp: agreed_def keyed_def committed_def derived_def)

text \<open>The contract of one handler: it succeeds into a state that satisfies the invariant, or raises
  the one exception \<open>feed\<close> turns into a failed pairing.\<close>

definition handler_ok ::
  "('s \<Rightarrow> bool) \<Rightarrow> unit result \<times> 's \<Rightarrow> bool" where
  "handler_ok P r = (case r of
      (Inr _, s) \<Rightarrow> P s
    | (Inl (PairingError _ _), s) \<Rightarrow> True
    | _ \<Rightarrow> False)"

lemma smp_step_simps [simp]:
  "bind_s (modify f) g s = g () (f s)"
  "bind_s (emit p) h t = h () (t\<lparr>out := out t @ [p]\<rparr>)"
  "sel s = Some x \<Longrightarrow> bind_s (need sel) k s = k x s"
  "modify f s = (Inr (), f s)"
  "emit p t = (Inr (), t\<lparr>out := out t @ [p]\<rparr>)"
  by (simp_all add: bind_s_def modify_def emit_def need_def)

lemma handler_ok_simps [simp]:
  "handler_ok P (Inr u, s) = P s"
  "handler_ok P (Inl (PairingError m a), s)"
  by (simp_all add: handler_ok_def)

lemma fail_result:
  "central_fail m a r c =
     (Inr (), c\<lparr>failure := Some (m, a), state := FAILED,
       out := out c @ (case r of None \<Rightarrow> [] | Some b \<Rightarrow> [[SMP_PAIRING_FAILED, b]])\<rparr>)"
  "responder_fail m a r d =
     (Inr (), d\<lparr>failure := Some (m, a), rstate := R_FAILED,
       out := out d @ (case r of None \<Rightarrow> [] | Some b \<Rightarrow> [[SMP_PAIRING_FAILED, b]])\<rparr>)"
  by (simp_all add: central_fail_def responder_fail_def split: option.split)

lemma pdu_split: "length pdu = Suc n \<Longrightarrow> pdu ! 0 = b \<Longrightarrow> b # pslice 1 (Suc n) pdu = pdu"
  by (cases pdu) simp_all

lemma pdu_split2: "length pdu = 65 \<Longrightarrow> pdu ! 0 = b \<Longrightarrow> b # pslice 1 33 pdu @ pslice 33 65 pdu = pdu"
proof (cases pdu)
  case (Cons a xs)
  assume "length pdu = 65" "pdu ! 0 = b"
  with Cons have "take 32 xs @ take 32 (drop 32 xs) = xs" "a = b" by simp_all
  with Cons show ?thesis by (simp add: pslice_def)
qed simp

lemma central_inv_failed [simp]: "state c = FAILED \<Longrightarrow> central_inv K evs c"
  by (simp add: central_inv_def)

lemma central_fail_ok [simp]: "handler_ok (central_inv K evs) (central_fail m a r c)"
  by (simp add: fail_result)

lemma sc_method_ok: "i \<le> 4 \<Longrightarrow> j \<le> 4 \<Longrightarrow> \<exists>m. sc_method i j = Inr m"
  by (auto simp: sc_method_def SC_METHOD_def nth_Cons split: nat.splits)

lemma central_inv_mono: "central_inv K evs c \<Longrightarrow> central_inv K (evs @ [ev]) c"
  unfolding central_inv_def by (simp add: stage_mono)

lemma on_response_inv:
  assumes "central_inv K evs c"
  shows "handler_ok (central_inv K (evs @ [Feed pdu])) (central_on_response K pdu c)"
proof (cases "state c = WAIT_RESPONSE \<and> length pdu = 7 \<and> io_cap c \<le> 4 \<and> unat (pdu ! 1) \<le> 4")
  case True
  then obtain m where m: "sc_method (io_cap c) (unat (pdu ! 1)) = Inr m" using sc_method_ok by blast
  from True assms have "preq c \<noteq> None" by (simp add: central_inv_def)
  with True m show ?thesis
    by (cases m) (simp_all add: central_on_response_def central_inv_def agreed_def Let_def)
qed (auto simp: central_on_response_def Let_def)

lemma on_public_key_inv:
  assumes "central_inv K evs c" "pdu ! 0 = SMP_PAIRING_PUBLIC_KEY"
  shows "handler_ok (central_inv K (evs @ [Feed pdu])) (central_on_public_key K pdu c)"
proof (cases "state c = WAIT_PUBLIC_KEY \<and> length pdu = 65")
  case True
  note fed = pdu_split2 [of pdu, OF conjunct2 [OF True] assms(2)]
  from True assms(1) have "preq c \<noteq> None" "agreed evs (auth_req c) (pres c) (method c)"
    by (simp_all add: central_inv_def)
  with True fed show ?thesis
    by (auto simp: central_on_public_key_def central_inv_def keyed_def Let_def stage_mono
        split: option.split)
qed (auto simp: central_on_public_key_def)

lemma on_confirm_inv:
  assumes "central_inv K evs c" "pdu ! 0 = SMP_PAIRING_CONFIRM"
  shows "handler_ok (central_inv K (evs @ [Feed pdu])) (central_on_confirm pdu c)"
proof (cases "state c = WAIT_CONFIRM \<and> length pdu = 17")
  case True
  then have "SMP_PAIRING_CONFIRM # pslice 1 17 pdu = pdu" using pdu_split [of pdu 16] assms(2) by simp
  with True assms(1) show ?thesis
    by (simp add: central_on_confirm_def central_inv_def committed_def Let_def stage_mono)
qed (auto simp: central_on_confirm_def)

lemma send_dhkey_check_inv:
  assumes "preq c \<noteq> None" "agreed evs (auth_req c) (pres c) (method c)"
    "keyed K evs (keypair c) (peer_x c) (peer_y c) (dhkey c)" "committed evs (confirm c) (na c)"
    "derived K evs (keypair c) (own_form c) (peer_form c) (method c) (peer_x c) (dhkey c)
          (confirm c) (na c) (nb c) (mac_key c) (ltk c) (numeric_value c)"
    "method c = Some METHOD_NUMERIC \<Longrightarrow> User True \<in> set evs"
  shows "handler_ok (central_inv K evs) (central_send_dhkey_check K c)"
proof -
  from assms stage_values obtain req res mk ra rb where vals:
    "preq c = Some req" "pres c = Some res" "mac_key c = Some mk" "na c = Some ra" "nb c = Some rb"
    by (metis not_None_eq)
  with assms show ?thesis
    by (simp add: central_send_dhkey_check_def central_inv_def Let_def answered_def
        own_form_def peer_form_def)
qed

lemma on_random_inv:
  assumes "central_inv K evs c" "pdu ! 0 = SMP_PAIRING_RANDOM"
  shows "handler_ok (central_inv K (evs @ [Feed pdu])) (central_on_random K pdu c)"
proof (cases "state c = WAIT_RANDOM \<and> length pdu = 17")
  case True
  let ?evs = "evs @ [Feed pdu]" and ?rb = "pslice 1 17 pdu"
  from True have fed: "SMP_PAIRING_RANDOM # ?rb = pdu" using pdu_split [of pdu 16] assms(2) by simp
  from True assms(1) have st: "preq c \<noteq> None" "agreed ?evs (auth_req c) (pres c) (method c)"
    "keyed K ?evs (keypair c) (peer_x c) (peer_y c) (dhkey c)" "committed ?evs (confirm c) (na c)"
    by (simp_all add: central_inv_def stage_mono)
  then obtain px dh ra where vals: "peer_x c = Some px" "dhkey c = Some dh" "na c = Some ra"
    by (metis stage_values not_None_eq)
  obtain mk key where f5: "f5 K dh ra ?rb (own_form c) (peer_form c) = (mk, key)" by fastforce
  let ?c = "c\<lparr>nb := Some ?rb, mac_key := Some mk, ltk := Some key\<rparr>"
  show ?thesis
  proof (cases "confirm c = Some (f4 K px (key_x K (keypair c)) ?rb (zeros 1))")
    case False
    with True vals show ?thesis by (simp add: central_on_random_def Let_def)
  next
    case conf: True
    show ?thesis
    proof (cases "method c = Some METHOD_NUMERIC")
      case num: True
      with True conf vals f5 fed st show ?thesis
        by (simp add: central_on_random_def central_inv_def derived_def Let_def
            own_form_def peer_form_def)
    next
      case False
      have "handler_ok (central_inv K ?evs) (central_send_dhkey_check K ?c)"
        by (rule send_dhkey_check_inv)
          (use False st vals conf fed f5 in \<open>simp_all add: derived_def own_form_def peer_form_def\<close>)
      with True conf vals f5 fed False show ?thesis
        by (simp add: central_on_random_def Let_def own_form_def peer_form_def)
    qed
  qed
qed (auto simp: central_on_random_def)

lemma on_dhkey_check_inv:
  assumes "central_inv K evs c" "pdu ! 0 = SMP_PAIRING_DHKEY_CHECK"
  shows "handler_ok (central_inv K (evs @ [Feed pdu])) (central_on_dhkey_check pdu c)"
proof (cases "state c = WAIT_DHKEY_CHECK \<and> length pdu = 17")
  case True
  then have fed: "SMP_PAIRING_DHKEY_CHECK # pslice 1 17 pdu = pdu"
    using pdu_split [of pdu 16] assms(2) by simp
  with True assms(1) show ?thesis
    by (simp add: central_on_dhkey_check_def central_inv_def stage_mono own_form_def peer_form_def)
      (metis option.sel)
qed (auto simp: central_on_dhkey_check_def)

lemma catch_pairing_ok:
  assumes "handler_ok P (m s)" "\<And>msg args s'. handler_ok P (fail msg args (Some 0x0A) s') \<and>
    fst (fail msg args (Some 0x0A) s') = Inr ()"
  shows "fst (catch_pairing fail m s) = Inr () \<and> P (snd (catch_pairing fail m s))"
proof -
  obtain o1 s1 where m: "m s = (o1, s1)" by fastforce
  show ?thesis
  proof (cases o1)
    case (Inr u)
    with m assms(1) show ?thesis by (simp add: catch_pairing_def)
  next
    case (Inl e)
    with m assms(1) obtain msg args where e: "e = PairingError msg args"
      by (cases e) (simp_all add: handler_ok_def)
    with assms(2) [of msg args s1] m Inl show ?thesis
      by (cases "fail msg args (Some 0x0A) s1") (auto simp: catch_pairing_def)
  qed
qed

lemma central_feed_inv:
  assumes "central_inv K evs c"
  shows "fst (central_feed K pdu c) = Inr () \<and>
    central_inv K (evs @ [Feed pdu]) (snd (central_feed K pdu c))"
proof (cases "central_done c \<or> pdu = [] \<or> pdu ! 0 = SMP_PAIRING_FAILED")
  case True
  with central_inv_mono [OF assms] show ?thesis
    by (auto simp: central_feed_def fail_result Let_def)
next
  case False
  show ?thesis
  proof (cases "central_handler K (pdu ! 0)")
    case None
    with False central_inv_mono [OF assms] show ?thesis by (simp add: central_feed_def Let_def)
  next
    case (Some handler)
    have "handler_ok (central_inv K (evs @ [Feed pdu])) (handler pdu c)"
      using Some assms on_response_inv on_public_key_inv on_confirm_inv on_random_inv
        on_dhkey_check_inv
      by (auto simp: central_handler_def split: if_splits)
    then have "fst (catch_pairing central_fail (handler pdu) c) = Inr () \<and>
      central_inv K (evs @ [Feed pdu]) (snd (catch_pairing central_fail (handler pdu) c))"
      by (rule catch_pairing_ok) (simp add: fail_result)
    with False Some show ?thesis by (simp add: central_feed_def Let_def)
  qed
qed

lemma central_user_confirm_inv:
  assumes "central_inv K evs c"
  shows "central_inv K (evs @ [User a]) (snd (central_user_confirm K a c))"
    and "state c = WAIT_USER \<Longrightarrow> fst (central_user_confirm K a c) = Inr ()"
proof -
  let ?evs = "evs @ [User a]" and ?c = "c\<lparr>user_accepted := Some a\<rparr>"
  have ok: "handler_ok (central_inv K ?evs) (central_send_dhkey_check K ?c)"
    if "state c = WAIT_USER" a
    by (rule send_dhkey_check_inv)
      (use that assms in \<open>auto simp: central_inv_def own_form_def peer_form_def intro: stage_mono\<close>)
  have res: "fst (central_send_dhkey_check K ?c) = Inr ()" if "state c = WAIT_USER"
  proof -
    have "preq ?c \<noteq> None" "pres ?c \<noteq> None" "mac_key ?c \<noteq> None" "na ?c \<noteq> None" "nb ?c \<noteq> None"
      using assms that stage_values(1,4,5,6) by (auto simp: central_inv_def)
    then show ?thesis by (auto simp: central_send_dhkey_check_def Let_def)
  qed
  show "central_inv K ?evs (snd (central_user_confirm K a c))"
  proof (cases "state c = WAIT_USER \<and> a")
    case True
    with ok res show ?thesis
      by (cases "central_send_dhkey_check K ?c") (auto simp: central_user_confirm_def Let_def)
  next
    case False
    with central_inv_mono [OF assms] show ?thesis
      by (auto simp: central_user_confirm_def fail_result Let_def)
  qed
  show "state c = WAIT_USER \<Longrightarrow> fst (central_user_confirm K a c) = Inr ()"
    using res by (cases a) (simp_all add: central_user_confirm_def fail_result Let_def)
qed

lemma central_start_inv: "central_inv K evs c \<Longrightarrow> central_inv K (evs @ [Start]) (snd (central_start c))"
  using central_inv_mono [of K evs c Start]
  by (cases "octets [1, io_cap c, 0, auth_req c, key_size c, init_keys c, resp_keys c]")
    (auto simp: central_start_def central_inv_def simp del: octets.simps)

lemma central_run_inv:
  "central_inv K evs (central_run K evs (central_init random la lt pa pt io auth ksize ik rk kp))"
proof (induction evs rule: rev_induct)
  case Nil
  then show ?case by (simp add: central_run_def central_inv_def central_init_def)
next
  case (snoc ev evs)
  then show ?case
    by (cases ev) (simp_all add: central_run_snoc central_start_inv central_feed_inv
        central_user_confirm_inv)
qed

text \<open>Nothing the peer sends changes the configuration.\<close>

lemma config_update [simp]:
  "config (c\<lparr>state := s\<rparr>) = config c" "config (c\<lparr>confirm := v\<rparr>) = config c"
  "config (c\<lparr>peer_io_cap := b\<rparr>) = config c" "config (c\<lparr>peer_auth_req := b\<rparr>) = config c"
  "config (c\<lparr>dhkey_check := v\<rparr>) = config c"
  "config (t\<lparr>method := m\<rparr>) = config t" "config (t\<lparr>failure := f\<rparr>) = config t"
  "config (t\<lparr>peer_failure := b\<rparr>) = config t" "config (t\<lparr>numeric_value := n\<rparr>) = config t"
  "config (t\<lparr>ltk := v\<rparr>) = config t" "config (t\<lparr>mac_key := v\<rparr>) = config t"
  "config (t\<lparr>dhkey := v\<rparr>) = config t" "config (t\<lparr>preq := v\<rparr>) = config t"
  "config (t\<lparr>pres := v\<rparr>) = config t" "config (t\<lparr>na := v\<rparr>) = config t"
  "config (t\<lparr>nb := v\<rparr>) = config t" "config (t\<lparr>peer_x := v\<rparr>) = config t"
  "config (t\<lparr>peer_y := v\<rparr>) = config t" "config (t\<lparr>user_accepted := u\<rparr>) = config t"
  "config (t\<lparr>out := os\<rparr>) = config t" "config (t\<lparr>rng_calls := k\<rparr>) = config t"
  "config (t\<lparr>init_keys := k\<rparr>) = config t"
  "config (r\<lparr>rstate := z\<rparr>) = config r" "config (r\<lparr>ea := v\<rparr>) = config r"
  "config (r\<lparr>request := q\<rparr>) = config r"
  by (simp_all add: config_def)

lemma config_bind:
  "config t = g \<Longrightarrow> config (snd (m t)) = config t \<Longrightarrow> (\<And>x t. config (snd (f x t)) = config t) \<Longrightarrow>
   config (snd (bind_s m f t)) = g"
  by (auto simp: bind_s_def split: prod.splits sum.splits)

lemma config_need [simp]: "config (snd (need sel t)) = config t"
  by (simp add: need_def split: option.split)

lemma config_fail [simp]:
  "config (snd (central_fail m a r c)) = config c"
  "config (snd (responder_fail m a r d)) = config d"
  by (simp_all add: fail_result)

lemma config_handlers [simp]:
  "config (snd (central_on_response K pdu c)) = config c"
  "config (snd (central_on_public_key K pdu c)) = config c"
  "config (snd (central_on_confirm pdu c)) = config c"
  "config (snd (central_send_dhkey_check K c)) = config c"
  "config (snd (central_on_dhkey_check pdu c)) = config c"
  by (auto simp: central_on_response_def central_on_public_key_def central_on_confirm_def
      central_send_dhkey_check_def central_on_dhkey_check_def Let_def
      intro!: config_bind split: option.split sum.split)

lemma config_on_random [simp]: "config (snd (central_on_random K pdu c)) = config c"
  by (auto simp: central_on_random_def Let_def intro!: config_bind split: prod.split)

lemma config_catch [simp]:
  assumes "config (snd (m s)) = config s" "\<And>msg a r s. config (snd (fail msg a r s)) = config s"
  shows "config (snd (catch_pairing fail m s)) = config s"
  using assms by (auto simp: catch_pairing_def split: prod.splits sum.splits exn.splits)

lemma config_central_step [simp]: "config (snd (central_step K ev c)) = config c"
proof (cases ev)
  case Start
  then show ?thesis
    by (auto simp: central_start_def simp del: octets.simps intro!: config_bind)
next
  case (Feed pdu)
  then show ?thesis
    by (auto simp: central_feed_def central_handler_def Let_def split: option.split)
next
  case (User a)
  then show ?thesis by (auto simp: central_user_confirm_def Let_def)
qed

lemma config_central_run: "config (central_run K evs c) = config c"
  by (induction evs rule: rev_induct) (simp_all add: central_run_snoc, simp add: central_run_def)

section \<open>The initiator against an arbitrary peer\<close>

text \<open>C2. Whatever a peer sends, in whatever order it is interleaved with user answers, the
  initiator reports completion only if: the peer answered with Secure Connections and a key size of
  7 to 16 octets; the peer's public key was received, is on the curve and is not our own reflected;
  its Pairing Confirm is f4 of its Pairing Random; its DHKey Check is the f6 value computed from the
  MacKey of this very exchange; the long term key is the f5 value of the same inputs; and, for
  numeric comparison, the user accepted.\<close>

theorem central_complete_authenticated:
  assumes "c = central_run K evs (central_init random la lt pa pt io auth ksize ik rk kp)"
    "state c = COMPLETE"
  shows "\<exists>res px py rb ra dh mk key check.
     pres c = Some res \<and> peer_x c = Some px \<and> na c = Some ra \<and> nb c = Some rb \<and> ltk c = Some key \<and>
     {Feed res, Feed ([SMP_PAIRING_PUBLIC_KEY] @ px @ py),
      Feed ([SMP_PAIRING_CONFIRM] @ f4 K px (key_x K kp) rb (zeros 1)),
      Feed ([SMP_PAIRING_RANDOM] @ rb), Feed ([SMP_PAIRING_DHKEY_CHECK] @ check)} \<subseteq> set evs \<and>
     length res = 7 \<and> auth AND AUTH_SC \<noteq> 0 \<and> unat (res ! 3) AND AUTH_SC \<noteq> 0 \<and>
     unat (res ! 4) \<in> {7..16} \<and>
     (px, py) \<noteq> (key_x K kp, key_y K kp) \<and> shared_secret K kp px py = Some dh \<and>
     f5 K dh ra rb (address_form la lt) (address_form pa pt) = (mk, key) \<and>
     check = f6 K mk rb ra (zeros 16) (pslice 1 4 res) (address_form pa pt) (address_form la lt) \<and>
     (method c = Some METHOD_JUST_WORKS \<or>
      method c = Some METHOD_NUMERIC \<and> User True \<in> set evs \<and>
      numeric_value c = Some (g2 K (key_x K kp) px ra rb))"
proof -
  have inv: "central_inv K evs c" unfolding assms(1) by (rule central_run_inv)
  have "config c = config (central_init random la lt pa pt io auth ksize ik rk kp)"
    unfolding assms(1) by (rule config_central_run)
  then have cfg: "auth_req c = auth" "keypair c = kp" "own_form c = address_form la lt"
    "peer_form c = address_form pa pt"
    by (simp_all add: config_def central_init_def own_form_def peer_form_def)
  from inv assms(2) obtain res where res: "pres c = Some res" "Feed res \<in> set evs" "length res = 7"
    "auth AND AUTH_SC \<noteq> 0" "unat (res ! 3) AND AUTH_SC \<noteq> 0" "unat (res ! 4) \<in> {7..16}"
    "method c = Some METHOD_JUST_WORKS \<or> method c = Some METHOD_NUMERIC"
    by (auto simp: central_inv_def agreed_def cfg)
  from inv assms(2) obtain px py dh where key: "peer_x c = Some px" "dhkey c = Some dh"
    "Feed ([SMP_PAIRING_PUBLIC_KEY] @ px @ py) \<in> set evs"
    "(px, py) \<noteq> (key_x K kp, key_y K kp)" "shared_secret K kp px py = Some dh"
    by (auto simp: central_inv_def keyed_def cfg)
  from inv assms(2) obtain ra cv where conf: "na c = Some ra" "confirm c = Some cv"
    "Feed ([SMP_PAIRING_CONFIRM] @ cv) \<in> set evs"
    by (auto simp: central_inv_def committed_def)
  from inv assms(2) obtain rb where der: "nb c = Some rb" "Feed ([SMP_PAIRING_RANDOM] @ rb) \<in> set evs"
    "cv = f4 K px (key_x K kp) rb (zeros 1)"
    "mac_key c = Some (fst (f5 K dh ra rb (address_form la lt) (address_form pa pt)))"
    "ltk c = Some (snd (f5 K dh ra rb (address_form la lt) (address_form pa pt)))"
    "method c = Some METHOD_NUMERIC \<longrightarrow> numeric_value c = Some (g2 K (key_x K kp) px ra rb)"
    by (auto simp: central_inv_def derived_def cfg key conf)
  from inv assms(2) have fin: "Feed ([SMP_PAIRING_DHKEY_CHECK] @
      f6 K (the (mac_key c)) rb ra (zeros 16) (pslice 1 4 res) (address_form pa pt) (address_form la lt))
      \<in> set evs" "method c = Some METHOD_NUMERIC \<longrightarrow> User True \<in> set evs"
    by (auto simp: central_inv_def answered_def cfg res(1) conf(1) der(1))
  obtain mk ky where f5: "f5 K dh ra rb (address_form la lt) (address_form pa pt) = (mk, ky)" by fastforce
  show ?thesis
    by (rule exI [of _ res], rule exI [of _ px], rule exI [of _ py], rule exI [of _ rb],
        rule exI [of _ ra], rule exI [of _ dh], rule exI [of _ mk], rule exI [of _ ky], rule exI)
      (use res key conf der fin f5 in auto)
qed

text \<open>C8. No input crashes the initiator: in every state it can reach, \<open>feed\<close> returns normally on
  every octet string, and \<open>user_confirm\<close> raises only its documented error, exactly when no
  comparison is waiting. Once it is done, nothing changes any more.\<close>

theorem central_never_raises:
  fixes random la lt pa pt io auth ksize ik rk kp evs K
  defines "c \<equiv> central_run K evs (central_init random la lt pa pt io auth ksize ik rk kp)"
  shows "fst (central_feed K pdu c) = Inr () \<and>
    fst (central_user_confirm K a c) =
      (if state c = WAIT_USER then Inr () else Inl (PairingError ''no comparison is waiting'' [])) \<and>
    (central_done c \<longrightarrow> central_run K evs' c = c)"
proof (intro conjI impI)
  have inv: "central_inv K evs c" unfolding c_def by (rule central_run_inv)
  then show "fst (central_feed K pdu c) = Inr ()" using central_feed_inv by blast
  show "fst (central_user_confirm K a c) =
      (if state c = WAIT_USER then Inr () else Inl (PairingError ''no comparison is waiting'' []))"
    using central_user_confirm_inv(2) [OF inv] by (simp add: central_user_confirm_def)
  show "central_done c \<Longrightarrow> central_run K evs' c = c"
  proof (induction evs' rule: rev_induct)
    case (snoc ev evs')
    then show ?case
      by (cases ev) (auto simp: central_run_snoc central_feed_def central_user_confirm_def
          central_start_def central_done_def)
  qed (simp add: central_run_def)
qed

end
