(* ===== verification/Smp_Responder.thy ===== *)
theory Smp_Responder
  imports Smp_Safety
begin

text \<open>
  The responder of \<open>python/hcicontroller/smp_central.py\<close> against an arbitrary central, by the same
  staged invariant as the initiator: what holds in each state, over the values of the attributes.
\<close>

fun responder_step :: "crypto \<Rightarrow> smp_event \<Rightarrow> responder \<Rightarrow> unit result \<times> responder" where
  "responder_step K Start r = (Inr (), r)"
| "responder_step K (Feed pdu) r = responder_feed K pdu r"
| "responder_step K (User a) r = responder_user_confirm K a r"

definition responder_run :: "crypto \<Rightarrow> smp_event list \<Rightarrow> responder \<Rightarrow> responder" where
  "responder_run K evs r = fold (\<lambda>ev r. snd (responder_step K ev r)) evs r"

lemma responder_run_snoc:
  "responder_run K (evs @ [ev]) r = snd (responder_step K ev (responder_run K evs r))"
  by (simp add: responder_run_def)

fun rprogress :: "rstate \<Rightarrow> nat" where
  "rprogress R_IDLE = 0"
| "rprogress R_WAIT_PUBLIC_KEY = 1"
| "rprogress R_WAIT_RANDOM = 2"
| "rprogress R_WAIT_USER_OR_CHECK = 3"
| "rprogress R_COMPLETE = 4"
| "rprogress R_FAILED = 0"

definition requested :: "smp_event list \<Rightarrow> nat \<Rightarrow> bytes option \<Rightarrow> bytes option \<Rightarrow> smp_method option \<Rightarrow> bool"
  where
  "requested evs auth req res m \<longleftrightarrow>
     (\<exists>p. req = Some p \<and> Feed p \<in> set evs \<and> length p = 7 \<and>
        auth AND AUTH_SC \<noteq> 0 \<and> unat (p ! 3) AND AUTH_SC \<noteq> 0) \<and> res \<noteq> None \<and>
     (m = Some METHOD_JUST_WORKS \<or> m = Some METHOD_NUMERIC)"

definition rkeyed ::
  "crypto \<Rightarrow> smp_event list \<Rightarrow> nat \<Rightarrow> bytes option \<Rightarrow> bytes option \<Rightarrow> bytes option \<Rightarrow> bool" where
  "rkeyed K evs kp x y dh \<longleftrightarrow>
     (\<exists>px py k. x = Some px \<and> y = Some py \<and> dh = Some k \<and>
        Feed ([SMP_PAIRING_PUBLIC_KEY] @ px @ py) \<in> set evs \<and> shared_secret K kp px py = Some k)"

definition rderived ::
  "crypto \<Rightarrow> smp_event list \<Rightarrow> nat \<Rightarrow> bytes \<Rightarrow> bytes \<Rightarrow> smp_method option \<Rightarrow> bytes option \<Rightarrow> bytes option
   \<Rightarrow> bytes option \<Rightarrow> bytes option \<Rightarrow> bytes option \<Rightarrow> bytes option \<Rightarrow> nat option \<Rightarrow> bool"
  where
  "rderived K evs kp own peer m x dh ra rb mk key num \<longleftrightarrow>
     (\<exists>n. ra = Some n \<and> Feed ([SMP_PAIRING_RANDOM] @ n) \<in> set evs \<and>
        mk = Some (fst (f5 K (the dh) n (the rb) peer own)) \<and>
        key = Some (snd (f5 K (the dh) n (the rb) peer own)) \<and>
        (m = Some METHOD_NUMERIC \<longrightarrow> num = Some (g2 K (the x) (key_x K kp) n (the rb))))"

definition consented ::
  "smp_event list \<Rightarrow> smp_method option \<Rightarrow> bool option \<Rightarrow> bytes option \<Rightarrow> bool" where
  "consented evs m u e \<longleftrightarrow>
     (m = Some METHOD_NUMERIC \<and> u = Some True \<longrightarrow> User True \<in> set evs) \<and>
     (\<forall>v. e = Some v \<longrightarrow> Feed ([SMP_PAIRING_DHKEY_CHECK] @ v) \<in> set evs)"

definition responder_inv :: "crypto \<Rightarrow> smp_event list \<Rightarrow> responder \<Rightarrow> bool" where
  "responder_inv K evs r \<longleftrightarrow>
     (rstate r \<in> {R_IDLE, R_WAIT_PUBLIC_KEY, R_WAIT_RANDOM} \<longrightarrow> user_accepted r = None \<and> ea r = None) \<and>
     (1 \<le> rprogress (rstate r) \<longrightarrow> requested evs (auth_req r) (preq r) (pres r) (method r)) \<and>
     (2 \<le> rprogress (rstate r) \<longrightarrow> rkeyed K evs (keypair r) (peer_x r) (peer_y r) (dhkey r)) \<and>
     (3 \<le> rprogress (rstate r) \<longrightarrow>
        rderived K evs (keypair r) (own_form r) (peer_form r) (method r) (peer_x r) (dhkey r)
          (na r) (nb r) (mac_key r) (ltk r) (numeric_value r) \<and>
        consented evs (method r) (user_accepted r) (ea r)) \<and>
     (4 \<le> rprogress (rstate r) \<longrightarrow> user_accepted r = Some True \<and>
        ea r = Some (f6 K (the (mac_key r)) (the (na r)) (the (nb r)) (zeros 16)
          (pslice 1 4 (the (preq r))) (peer_form r) (own_form r)))"

lemma rstage_mono:
  "requested evs auth req res m \<Longrightarrow> requested (evs @ [ev]) auth req res m"
  "rkeyed K evs kp x y dh \<Longrightarrow> rkeyed K (evs @ [ev]) kp x y dh"
  "rderived K evs kp own peer m x dh ra rb mk key num \<Longrightarrow>
     rderived K (evs @ [ev]) kp own peer m x dh ra rb mk key num"
  "consented evs m u e \<Longrightarrow> consented (evs @ [ev]) m u e"
  by (auto simp: requested_def rkeyed_def rderived_def consented_def)

lemma rstage_values:
  "requested evs auth req res m \<Longrightarrow> req \<noteq> None" "requested evs auth req res m \<Longrightarrow> res \<noteq> None"
  "rkeyed K evs kp x y dh \<Longrightarrow> x \<noteq> None" "rkeyed K evs kp x y dh \<Longrightarrow> dh \<noteq> None"
  "rderived K evs kp own peer m x dh ra rb mk key num \<Longrightarrow> ra \<noteq> None"
  "rderived K evs kp own peer m x dh ra rb mk key num \<Longrightarrow> mk \<noteq> None"
  by (auto simp: requested_def rkeyed_def rderived_def)

lemma responder_inv_mono: "responder_inv K evs r \<Longrightarrow> responder_inv K (evs @ [ev]) r"
  unfolding responder_inv_def by (auto intro: rstage_mono)

lemma responder_inv_failed [simp]: "rstate r = R_FAILED \<Longrightarrow> responder_inv K evs r"
  by (simp add: responder_inv_def)

lemma responder_fail_ok [simp]:
  "handler_ok (responder_inv K evs) (responder_fail m a r d)"
  by (simp add: fail_result responder_inv_def)

text \<open>A responder whose configuration fits its one-octet fields and the method table.\<close>

definition responder_config_ok :: "responder \<Rightarrow> bool" where
  "responder_config_ok r \<longleftrightarrow> io_cap r \<le> 4 \<and> auth_req r < 256"

lemma octets_ok: "(\<forall>v \<in> set vs. v < 256) \<Longrightarrow> \<exists>bs. octets vs = Inr bs"
  by (induction vs) (auto simp: octet_def)

lemma and_byte_less: "n < 256 \<Longrightarrow> n AND m < (256 :: nat)"
proof -
  assume "n < 256"
  have "int n AND int m \<le> int n" by (rule AND_upper1) simp
  with \<open>n < 256\<close> show ?thesis unfolding and_nat_def by linarith
qed

lemma on_request_inv:
  assumes "responder_inv K evs r" "responder_config_ok r"
  shows "handler_ok (responder_inv K (evs @ [Feed pdu])) (responder_on_request pdu r)"
proof (cases "rstate r = R_IDLE \<and> length pdu = 7 \<and> unat (pdu ! 1) \<le> 4")
  case True
  then obtain m where m: "sc_method (unat (pdu ! 1)) (io_cap r) = Inr m"
    using sc_method_ok assms(2) by (auto simp: responder_config_ok_def)
  let ?fields = "[2, io_cap r, 0, auth_req r, min (key_size r) 16,
      unat (pdu ! 5) AND accept_init_keys r, unat (pdu ! 6) AND resp_keys r]"
  have "\<forall>v \<in> set ?fields. v < 256"
    using assms(2) by (auto simp: responder_config_ok_def and_byte_less min_def)
  then obtain res where res: "octets ?fields = Inr res" using octets_ok by blast
  from True assms(1) have "user_accepted r = None" "ea r = None"
    by (simp_all add: responder_inv_def)
  with True m res show ?thesis
    by (cases m) (simp_all add: responder_on_request_def responder_inv_def requested_def Let_def
        del: octets.simps)
next
  case False
  with assms(1) show ?thesis by (auto simp: responder_on_request_def responder_inv_def Let_def)
qed

lemma r_on_public_key_inv:
  assumes "responder_inv K evs r" "pdu ! 0 = SMP_PAIRING_PUBLIC_KEY" "nb r = Some n"
  shows "handler_ok (responder_inv K (evs @ [Feed pdu])) (responder_on_public_key K pdu r)"
proof (cases "rstate r = R_WAIT_PUBLIC_KEY \<and> length pdu = 65")
  case True
  note fed = pdu_split2 [of pdu, OF conjunct2 [OF True] assms(2)]
  from True assms(1) have "requested evs (auth_req r) (preq r) (pres r) (method r)"
    "user_accepted r = None" "ea r = None"
    by (simp_all add: responder_inv_def)
  with True fed assms(3) show ?thesis
    by (auto simp: responder_on_public_key_def responder_inv_def rkeyed_def Let_def rstage_mono
        split: option.split)
qed (auto simp: responder_on_public_key_def)

lemma r_on_random_inv:
  assumes "responder_inv K evs r" "pdu ! 0 = SMP_PAIRING_RANDOM" "nb r = Some n"
  shows "handler_ok (responder_inv K (evs @ [Feed pdu])) (responder_on_random K pdu r)"
proof (cases "rstate r = R_WAIT_RANDOM \<and> length pdu = 17")
  case True
  let ?evs = "evs @ [Feed pdu]" and ?ra = "pslice 1 17 pdu"
  from True have fed: "SMP_PAIRING_RANDOM # ?ra = pdu" using pdu_split [of pdu 16] assms(2) by simp
  from True assms(1) have st: "requested ?evs (auth_req r) (preq r) (pres r) (method r)"
    "rkeyed K ?evs (keypair r) (peer_x r) (peer_y r) (dhkey r)"
    "user_accepted r = None" "ea r = None"
    by (simp_all add: responder_inv_def rstage_mono)
  then obtain px dh where vals: "peer_x r = Some px" "dhkey r = Some dh"
    by (metis rstage_values not_None_eq)
  obtain mk key where f5: "f5 K dh ?ra n (peer_form r) (own_form r) = (mk, key)" by fastforce
  with True st vals fed assms(3) show ?thesis
    by (auto simp: responder_on_random_def responder_inv_def rderived_def consented_def Let_def
        own_form_def peer_form_def)
qed (auto simp: responder_on_random_def)

lemma responder_finish_inv:
  assumes "rstate r = R_WAIT_USER_OR_CHECK" "nb r = Some n"
    "requested evs (auth_req r) (preq r) (pres r) (method r)"
    "rkeyed K evs (keypair r) (peer_x r) (peer_y r) (dhkey r)"
    "rderived K evs (keypair r) (own_form r) (peer_form r) (method r) (peer_x r) (dhkey r)
          (na r) (nb r) (mac_key r) (ltk r) (numeric_value r)"
    "consented evs (method r) (user_accepted r) (ea r)"
  shows "fst (responder_finish K r) = Inr () \<and> responder_inv K evs (snd (responder_finish K r))"
proof -
  from assms rstage_values obtain req res mk ra where vals:
    "preq r = Some req" "pres r = Some res" "mac_key r = Some mk" "na r = Some ra"
    by (metis not_None_eq)
  with assms show ?thesis
    by (auto simp: responder_finish_def responder_inv_def fail_result own_form_def peer_form_def)
qed

lemma r_on_dhkey_check_inv:
  assumes "responder_inv K evs r" "pdu ! 0 = SMP_PAIRING_DHKEY_CHECK" "nb r = Some n"
  shows "handler_ok (responder_inv K (evs @ [Feed pdu])) (responder_on_dhkey_check K pdu r)"
proof (cases "rstate r = R_WAIT_USER_OR_CHECK \<and> length pdu = 17")
  case True
  let ?r = "r\<lparr>ea := Some (pslice 1 17 pdu)\<rparr>"
  from True have fed: "SMP_PAIRING_DHKEY_CHECK # pslice 1 17 pdu = pdu"
    using pdu_split [of pdu 16] assms(2) by simp
  have "fst (responder_finish K ?r) = Inr () \<and>
    responder_inv K (evs @ [Feed pdu]) (snd (responder_finish K ?r))"
    by (rule responder_finish_inv)
      (use True assms(1,3) fed in \<open>auto simp: responder_inv_def consented_def own_form_def peer_form_def
         intro: rstage_mono\<close>)
  with True show ?thesis
    by (cases "responder_finish K ?r") (auto simp: responder_on_dhkey_check_def)
qed (auto simp: responder_on_dhkey_check_def)

lemma responder_feed_inv:
  assumes "responder_inv K evs r" "responder_config_ok r" "nb r = Some n"
  shows "fst (responder_feed K pdu r) = Inr () \<and>
    responder_inv K (evs @ [Feed pdu]) (snd (responder_feed K pdu r))"
proof (cases "responder_done r \<or> pdu = [] \<or> pdu ! 0 = SMP_PAIRING_FAILED")
  case True
  with True responder_inv_mono [OF assms(1)] show ?thesis
    by (auto simp: responder_feed_def fail_result Let_def)
next
  case False
  show ?thesis
  proof (cases "responder_handler K (pdu ! 0)")
    case None
    with False responder_inv_mono [OF assms(1)] show ?thesis by (simp add: responder_feed_def Let_def)
  next
    case (Some handler)
    have "handler_ok (responder_inv K (evs @ [Feed pdu])) (handler pdu r)"
      using Some assms on_request_inv r_on_public_key_inv r_on_random_inv r_on_dhkey_check_inv
      by (auto simp: responder_handler_def split: if_splits)
    then have "fst (catch_pairing responder_fail (handler pdu) r) = Inr () \<and>
      responder_inv K (evs @ [Feed pdu]) (snd (catch_pairing responder_fail (handler pdu) r))"
      by (rule catch_pairing_ok) (simp add: fail_result)
    with False Some show ?thesis by (simp add: responder_feed_def Let_def)
  qed
qed

lemma responder_user_confirm_inv:
  assumes "responder_inv K evs r" "nb r = Some n"
  shows "responder_inv K (evs @ [User a]) (snd (responder_user_confirm K a r))"
    and "rstate r = R_WAIT_USER_OR_CHECK \<Longrightarrow> fst (responder_user_confirm K a r) = Inr ()"
proof -
  let ?r = "r\<lparr>user_accepted := Some a\<rparr>"
  have fin: "fst (responder_finish K ?r) = Inr () \<and>
    responder_inv K (evs @ [User a]) (snd (responder_finish K ?r))"
    if "rstate r = R_WAIT_USER_OR_CHECK" a
    by (rule responder_finish_inv)
      (use that assms in \<open>auto simp: responder_inv_def consented_def own_form_def peer_form_def
         intro: rstage_mono\<close>)
  from fin responder_inv_mono [OF assms(1)]
  show "responder_inv K (evs @ [User a]) (snd (responder_user_confirm K a r))"
    by (cases a) (auto simp: responder_user_confirm_def fail_result Let_def)
  from fin show "rstate r = R_WAIT_USER_OR_CHECK \<Longrightarrow> fst (responder_user_confirm K a r) = Inr ()"
    by (cases a) (auto simp: responder_user_confirm_def fail_result Let_def)
qed

text \<open>The configuration and the responder's own random are never changed.\<close>

definition fixed :: "responder \<Rightarrow> _" where
  "fixed r = (config r, nb r)"

lemma fixed_update [simp]:
  "fixed (r\<lparr>rstate := z\<rparr>) = fixed r" "fixed (r\<lparr>ea := v\<rparr>) = fixed r"
  "fixed (r\<lparr>request := q\<rparr>) = fixed r"
  "fixed (r\<lparr>method := m\<rparr>) = fixed r" "fixed (r\<lparr>failure := f\<rparr>) = fixed r"
  "fixed (r\<lparr>peer_failure := b\<rparr>) = fixed r" "fixed (r\<lparr>numeric_value := k\<rparr>) = fixed r"
  "fixed (r\<lparr>ltk := v\<rparr>) = fixed r" "fixed (r\<lparr>mac_key := v\<rparr>) = fixed r"
  "fixed (r\<lparr>dhkey := v\<rparr>) = fixed r" "fixed (r\<lparr>preq := v\<rparr>) = fixed r"
  "fixed (r\<lparr>pres := v\<rparr>) = fixed r" "fixed (r\<lparr>na := v\<rparr>) = fixed r"
  "fixed (r\<lparr>peer_x := v\<rparr>) = fixed r" "fixed (r\<lparr>peer_y := v\<rparr>) = fixed r"
  "fixed (r\<lparr>user_accepted := u\<rparr>) = fixed r" "fixed (r\<lparr>out := os\<rparr>) = fixed r"
  "fixed (r\<lparr>init_keys := ik\<rparr>) = fixed r"
  by (simp_all add: fixed_def)

lemma fixed_bind:
  "fixed t = g \<Longrightarrow> fixed (snd (m t)) = fixed t \<Longrightarrow> (\<And>x t. fixed (snd (f x t)) = fixed t) \<Longrightarrow>
   fixed (snd (bind_s m f t)) = g"
  by (auto simp: bind_s_def split: prod.splits sum.splits)

lemma fixed_need [simp]: "fixed (snd (need sel t)) = fixed t"
  by (simp add: need_def split: option.split)

lemma fixed_fail [simp]: "fixed (snd (responder_fail m a b d)) = fixed d"
  by (simp add: fail_result)

lemma fixed_handlers [simp]:
  "fixed (snd (responder_on_request pdu r)) = fixed r"
  "fixed (snd (responder_on_public_key K pdu r)) = fixed r"
  "fixed (snd (responder_on_random K pdu r)) = fixed r"
  "fixed (snd (responder_finish K r)) = fixed r"
  by (auto simp: responder_on_request_def responder_on_public_key_def responder_on_random_def
      responder_finish_def Let_def simp del: octets.simps
      intro!: fixed_bind split: option.split prod.split)

lemma fixed_catch [simp]:
  assumes "fixed (snd (m s)) = fixed s" "\<And>msg a r s. fixed (snd (fail msg a r s)) = fixed s"
  shows "fixed (snd (catch_pairing fail m s)) = fixed s"
  using assms by (auto simp: catch_pairing_def split: prod.splits sum.splits exn.splits)

lemma fixed_run: "fixed (responder_run K evs r) = fixed r"
proof (induction evs rule: rev_induct)
  case (snoc ev evs)
  have "fixed (snd (responder_step K ev d)) = fixed d" for d
    by (cases ev) (auto simp: responder_feed_def responder_handler_def responder_user_confirm_def
        responder_on_dhkey_check_def Let_def split: option.split)
  with snoc show ?case by (simp add: responder_run_snoc)
qed (simp add: responder_run_def)

lemma responder_run_inv:
  assumes "io \<le> 4" "auth < 256"
    "r0 = responder_init random la lt pa pt io auth ksize acc rk kp"
  shows "responder_inv K evs (responder_run K evs r0) \<and>
    responder_config_ok (responder_run K evs r0) \<and> nb (responder_run K evs r0) = Some (random 0 16)"
proof -
  have st: "responder_config_ok (responder_run K evs r0) \<and> nb (responder_run K evs r0) = Some (random 0 16)"
    for evs using fixed_run [of K evs r0] assms
    by (auto simp: fixed_def config_def responder_init_def responder_config_ok_def)
  have "responder_inv K evs (responder_run K evs r0)"
  proof (induction evs rule: rev_induct)
    case Nil
    then show ?case by (simp add: responder_run_def responder_inv_def responder_init_def assms(3))
  next
    case (snoc ev evs)
    with st [of evs] show ?case
      by (cases ev) (auto simp: responder_run_snoc responder_feed_inv responder_user_confirm_inv
          responder_inv_mono)
  qed
  with st show ?thesis by blast
qed

section \<open>The responder against an arbitrary central\<close>

text \<open>C5. Whatever a central sends, the responder reports completion only if Secure Connections was
  requested, the central's public key is on the curve, its DHKey Check is the f6 value of this
  exchange, the long term key is the f5 value of the same inputs, and, for numeric comparison, the
  user accepted; and it never raises as long as its own configuration is in range.\<close>

theorem responder_complete_authenticated:
  assumes "io \<le> 4" "auth < 256"
    "r = responder_run K evs (responder_init random la lt pa pt io auth ksize acc rk kp)"
  shows "fst (responder_feed K pdu r) = Inr () \<and> (rstate r = R_COMPLETE \<longrightarrow> (\<exists>req px py ra dh mk key.
     preq r = Some req \<and> peer_x r = Some px \<and> na r = Some ra \<and> ltk r = Some key \<and>
     {Feed req, Feed ([SMP_PAIRING_PUBLIC_KEY] @ px @ py), Feed ([SMP_PAIRING_RANDOM] @ ra),
      Feed ([SMP_PAIRING_DHKEY_CHECK] @ f6 K mk ra (random 0 16) (zeros 16) (pslice 1 4 req)
              (address_form pa pt) (address_form la lt))} \<subseteq> set evs \<and>
     auth AND AUTH_SC \<noteq> 0 \<and> unat (req ! 3) AND AUTH_SC \<noteq> 0 \<and> shared_secret K kp px py = Some dh \<and>
     f5 K dh ra (random 0 16) (address_form pa pt) (address_form la lt) = (mk, key) \<and>
     (method r = Some METHOD_JUST_WORKS \<or>
      method r = Some METHOD_NUMERIC \<and> User True \<in> set evs \<and>
      numeric_value r = Some (g2 K px (key_x K kp) ra (random 0 16)))))"
proof (intro conjI impI)
  note run = responder_run_inv [OF assms(1,2) refl, of K evs random la lt pa pt ksize acc rk kp,
      folded assms(3)]
  then have inv: "responder_inv K evs r" and nb: "nb r = Some (random 0 16)" by blast+
  from run show "fst (responder_feed K pdu r) = Inr ()" using responder_feed_inv by blast
  have "fixed r = fixed (responder_init random la lt pa pt io auth ksize acc rk kp)"
    unfolding assms(3) by (rule fixed_run)
  then have cfg: "auth_req r = auth" "keypair r = kp" "own_form r = address_form la lt"
    "peer_form r = address_form pa pt"
    by (simp_all add: fixed_def config_def responder_init_def own_form_def peer_form_def)
  assume "rstate r = R_COMPLETE"
  with inv have st: "requested evs auth (preq r) (pres r) (method r)"
    "rkeyed K evs kp (peer_x r) (peer_y r) (dhkey r)"
    "rderived K evs kp (address_form la lt) (address_form pa pt) (method r) (peer_x r) (dhkey r)
       (na r) (nb r) (mac_key r) (ltk r) (numeric_value r)"
    "consented evs (method r) (user_accepted r) (ea r)" "user_accepted r = Some True"
    "ea r = Some (f6 K (the (mac_key r)) (the (na r)) (the (nb r)) (zeros 16)
          (pslice 1 4 (the (preq r))) (address_form pa pt) (address_form la lt))"
    by (auto simp: responder_inv_def cfg)
  from st(1) obtain req where req: "preq r = Some req" "Feed req \<in> set evs" "auth AND AUTH_SC \<noteq> 0"
    "unat (req ! 3) AND AUTH_SC \<noteq> 0" "method r = Some METHOD_JUST_WORKS \<or> method r = Some METHOD_NUMERIC"
    by (auto simp: requested_def)
  from st(2) obtain px py dh where key: "peer_x r = Some px" "dhkey r = Some dh"
    "Feed ([SMP_PAIRING_PUBLIC_KEY] @ px @ py) \<in> set evs" "shared_secret K kp px py = Some dh"
    by (auto simp: rkeyed_def)
  from st(3) obtain ra where der: "na r = Some ra" "Feed ([SMP_PAIRING_RANDOM] @ ra) \<in> set evs"
    "mac_key r = Some (fst (f5 K dh ra (random 0 16) (address_form pa pt) (address_form la lt)))"
    "ltk r = Some (snd (f5 K dh ra (random 0 16) (address_form pa pt) (address_form la lt)))"
    "method r = Some METHOD_NUMERIC \<longrightarrow> numeric_value r = Some (g2 K px (key_x K kp) ra (random 0 16))"
    by (auto simp: rderived_def key nb)
  obtain mk ky where f5: "f5 K dh ra (random 0 16) (address_form pa pt) (address_form la lt) = (mk, ky)"
    by fastforce
  show "\<exists>req px py ra dh mk key.
     preq r = Some req \<and> peer_x r = Some px \<and> na r = Some ra \<and> ltk r = Some key \<and>
     {Feed req, Feed ([SMP_PAIRING_PUBLIC_KEY] @ px @ py), Feed ([SMP_PAIRING_RANDOM] @ ra),
      Feed ([SMP_PAIRING_DHKEY_CHECK] @ f6 K mk ra (random 0 16) (zeros 16) (pslice 1 4 req)
              (address_form pa pt) (address_form la lt))} \<subseteq> set evs \<and>
     auth AND AUTH_SC \<noteq> 0 \<and> unat (req ! 3) AND AUTH_SC \<noteq> 0 \<and> shared_secret K kp px py = Some dh \<and>
     f5 K dh ra (random 0 16) (address_form pa pt) (address_form la lt) = (mk, key) \<and>
     (method r = Some METHOD_JUST_WORKS \<or>
      method r = Some METHOD_NUMERIC \<and> User True \<in> set evs \<and>
      numeric_value r = Some (g2 K px (key_x K kp) ra (random 0 16)))"
    by (rule exI [of _ req], rule exI [of _ px], rule exI [of _ py], rule exI [of _ ra],
        rule exI [of _ dh], rule exI [of _ mk], rule exI [of _ ky])
      (use req key der f5 nb st(4-6) in \<open>auto simp: consented_def\<close>)
qed

text \<open>The responder finishes once the user has accepted and the central's check value has
  arrived, in whichever order those happen: both orders lead to the same state, with the same PDUs
  sent.\<close>

lemma responder_order_irrelevant:
  assumes "io \<le> 4" "auth < 256"
    "r = responder_run K evs (responder_init random la lt pa pt io auth ksize acc rk kp)"
    "rstate r = R_WAIT_USER_OR_CHECK" "ea r = None" "user_accepted r \<noteq> Some True"
    "length v = 16"
  shows "responder_run K [User True, Feed ([SMP_PAIRING_DHKEY_CHECK] @ v)] r
       = responder_run K [Feed ([SMP_PAIRING_DHKEY_CHECK] @ v), User True] r \<and>
    rstate (responder_run K [User True, Feed ([SMP_PAIRING_DHKEY_CHECK] @ v)] r)
       \<in> {R_COMPLETE, R_FAILED}"
proof (intro conjI)
  note run = responder_run_inv [OF assms(1,2) refl, of K evs random la lt pa pt ksize acc rk kp,
      folded assms(3)]
  then have inv: "responder_inv K evs r" by blast
  then have "requested evs (auth_req r) (preq r) (pres r) (method r)"
    "rderived K evs (keypair r) (own_form r) (peer_form r) (method r) (peer_x r) (dhkey r)
       (na r) (nb r) (mac_key r) (ltk r) (numeric_value r)"
    using assms(4) by (simp_all add: responder_inv_def)
  then obtain req res mk ra where vals:
    "preq r = Some req" "pres r = Some res" "mac_key r = Some mk" "na r = Some ra"
    by (metis rstage_values not_None_eq)
  have arrive: "responder_feed K ([SMP_PAIRING_DHKEY_CHECK] @ v) d = responder_finish K (d\<lparr>ea := Some v\<rparr>)"
    if "rstate d = R_WAIT_USER_OR_CHECK" "fst (responder_finish K (d\<lparr>ea := Some v\<rparr>)) = Inr ()" for d
    using that assms(7)
    by (cases "responder_finish K (d\<lparr>ea := Some v\<rparr>)")
      (auto simp: responder_feed_def responder_done_def responder_handler_def catch_pairing_def
        responder_on_dhkey_check_def)
  have accept: "responder_user_confirm K True d = responder_finish K (d\<lparr>user_accepted := Some True\<rparr>)"
    if "rstate d = R_WAIT_USER_OR_CHECK" for d
    using that by (simp add: responder_user_confirm_def)
  have wait: "responder_finish K (r\<lparr>user_accepted := Some True\<rparr>) = (Inr (), r\<lparr>user_accepted := Some True\<rparr>)"
    "responder_finish K (r\<lparr>ea := Some v\<rparr>) = (Inr (), r\<lparr>ea := Some v\<rparr>)"
    using assms(5,6) by (simp_all add: responder_finish_def)
  let ?r = "r\<lparr>user_accepted := Some True, ea := Some v\<rparr>"
  have comm: "r\<lparr>ea := Some v, user_accepted := Some True\<rparr> = ?r" by simp
  have fin: "fst (responder_finish K ?r) = Inr ()" "rstate (snd (responder_finish K ?r)) \<in> {R_COMPLETE, R_FAILED}"
    using vals run by (simp_all add: responder_finish_def fail_result)
  show "responder_run K [User True, Feed ([SMP_PAIRING_DHKEY_CHECK] @ v)] r
       = responder_run K [Feed ([SMP_PAIRING_DHKEY_CHECK] @ v), User True] r"
    and "rstate (responder_run K [User True, Feed ([SMP_PAIRING_DHKEY_CHECK] @ v)] r)
       \<in> {R_COMPLETE, R_FAILED}"
    using arrive [of r] arrive [of "r\<lparr>user_accepted := Some True\<rparr>"] accept [of r]
      accept [of "r\<lparr>ea := Some v\<rparr>"] wait fin comm assms(4)
    by (simp_all add: responder_run_def)
qed

end
