(* ===== verification/Smp_Pairing.thy ===== *)
theory Smp_Pairing
  imports Smp_Responder
begin

text \<open>
  The two roles of \<open>python/hcicontroller/smp_central.py\<close> facing each other: every PDU one side hands to
  its \<open>send\<close> callback is fed to the other, as the test programs do over L2CAP channel 6. With an
  honest channel and users who accept, both sides complete with the same long term key.
\<close>

text \<open>\<open>i\<close> and \<open>j\<close> count the PDUs already delivered in each direction.\<close>

fun pump ::
  "nat \<Rightarrow> crypto \<Rightarrow> central \<Rightarrow> nat \<Rightarrow> responder \<Rightarrow> nat \<Rightarrow> central \<times> nat \<times> responder \<times> nat" where
  "pump 0 K c i r j = (c, i, r, j)"
| "pump (Suc k) K c i r j =
     (if i < length (out c) then pump k K c (Suc i) (snd (responder_feed K (out c ! i) r)) j
      else if j < length (out r) then pump k K (snd (central_feed K (out r ! j) c)) i r (Suc j)
      else (c, i, r, j))"

definition pair_up :: "crypto \<Rightarrow> central \<Rightarrow> responder \<Rightarrow> central \<times> responder" where
  "pair_up K c r =
     (case pump 20 K (snd (central_start c)) 0 r 0 of (c, i, r, j) \<Rightarrow>
      case pump 20 K (snd (central_user_confirm K True c)) i (snd (responder_user_confirm K True r)) j
      of (c, i, r, j) \<Rightarrow> (c, r))"

lemma pump_to_responder:
  "i < length (out c) \<Longrightarrow> responder_feed K (out c ! i) r = (u, r') \<Longrightarrow>
     pump (Suc k) K c i r j = pump k K c (Suc i) r' j"
  by simp

lemma pump_to_central:
  "i = length (out c) \<Longrightarrow> j < length (out r) \<Longrightarrow> central_feed K (out r ! j) c = (u, c') \<Longrightarrow>
     pump (Suc k) K c i r j = pump k K c' i r (Suc j)"
  by simp

lemma pump_quiet: "i = length (out c) \<Longrightarrow> j = length (out r) \<Longrightarrow> pump k K c i r j = (c, i, r, j)"
  by (cases k) simp_all

section \<open>What the two parties have to agree on\<close>

text \<open>Documented behaviour of the primitives: CMAC gives 16 octets, coordinates of a P-256 point fit
  32 octets, and ECDH on each other's public key gives both parties the same secret.\<close>

definition crypto_agrees :: "crypto \<Rightarrow> nat \<Rightarrow> nat \<Rightarrow> bool" where
  "crypto_agrees K a b \<longleftrightarrow>
     (\<forall>k m. length (cmac K k m) = 16) \<and>
     (\<forall>d \<in> {a, b}. fst (public_numbers K d) < 256 ^ 32 \<and> snd (public_numbers K d) < 256 ^ 32) \<and>
     public_numbers K a \<noteq> public_numbers K b \<and>
     (\<exists>s. exchange K a (fst (public_numbers K b)) (snd (public_numbers K b)) = Some s \<and>
          exchange K b (fst (public_numbers K a)) (snd (public_numbers K a)) = Some s)"

definition chosen_method :: "nat \<Rightarrow> nat \<Rightarrow> nat \<Rightarrow> nat \<Rightarrow> smp_method" where
  "chosen_method io_c auth_c io_r auth_r =
     (if auth_c AND AUTH_MITM \<noteq> 0 \<or> auth_r AND AUTH_MITM \<noteq> 0 then SC_METHOD ! io_c ! io_r
      else METHOD_JUST_WORKS)"

lemma agreed_secret:
  assumes "crypto_agrees K a b"
  obtains dh where "shared_secret K a (key_x K b) (key_y K b) = Some dh"
    "shared_secret K b (key_x K a) (key_y K a) = Some dh"
    "\<not> (key_x K b = key_x K a \<and> key_y K b = key_y K a)"
proof -
  from assms obtain s where
    "exchange K a (fst (public_numbers K b)) (snd (public_numbers K b)) = Some s"
    "exchange K b (fst (public_numbers K a)) (snd (public_numbers K a)) = Some s"
    by (auto simp: crypto_agrees_def)
  moreover have x: "from_le (key_x K d) = fst (public_numbers K d)"
    "from_le (key_y K d) = snd (public_numbers K d)" if "d \<in> {a, b}" for d
    using assms that by (auto simp: crypto_agrees_def key_x_def key_y_def from_to_le)
  moreover have "\<not> (key_x K b = key_x K a \<and> key_y K b = key_y K a)"
  proof
    assume "key_x K b = key_x K a \<and> key_y K b = key_y K a"
    with x [of a] x [of b] have "public_numbers K a = public_numbers K b"
      by (metis insertCI prod.collapse)
    with assms show False by (simp add: crypto_agrees_def)
  qed
  ultimately show ?thesis by (intro that [of "rev s"]) (simp_all add: shared_secret_def)
qed

lemma sc_method_chosen:
  "i \<le> 4 \<Longrightarrow> j \<le> 4 \<Longrightarrow> sc_method i j = Inr (SC_METHOD ! i ! j)"
  by (auto simp: sc_method_def SC_METHOD_def nth_Cons split: nat.splits)

lemma length_key [simp]: "length (key_x K d) = 32" "length (key_y K d) = 32"
  by (simp_all add: key_x_def key_y_def)

lemma length_toolbox:
  assumes "\<And>k m. length (cmac K k m) = 16"
  shows "length (f4 K u v x z) = 16" "length (f6 K w n1 n2 r i a1 a2) = 16"
  using assms by (simp_all add: f4_def f6_def)

lemma octets_7:
  "\<forall>v \<in> set vs. v < 256 \<Longrightarrow> octets vs = Inr (map of_nat vs)"
  by (induction vs) (auto simp: octet_def)

section \<open>Each step on the honest path\<close>

lemma central_dispatch:
  assumes "\<not> central_done c" "pdu \<noteq> []" "pdu ! 0 \<noteq> SMP_PAIRING_FAILED"
    "central_handler K (pdu ! 0) = Some h" "h pdu c = (Inr u, c')"
  shows "central_feed K pdu c = (Inr u, c')"
  using assms by (simp add: central_feed_def Let_def catch_pairing_def)

lemma responder_dispatch:
  assumes "\<not> responder_done r" "pdu \<noteq> []" "pdu ! 0 \<noteq> SMP_PAIRING_FAILED"
    "responder_handler K (pdu ! 0) = Some h" "h pdu r = (Inr u, r')"
  shows "responder_feed K pdu r = (Inr u, r')"
  using assms by (simp add: responder_feed_def Let_def catch_pairing_def)

lemma step_request:
  assumes "rstate r = R_IDLE" "pdu = [1, i, oob, au, ks, ini, res]"
    "unat au AND AUTH_SC \<noteq> 0" "auth_req r AND AUTH_SC \<noteq> 0" "unat i \<le> 4" "io_cap r \<le> 4"
    "auth_req r < 256" "chosen_method (unat i) (unat au) (io_cap r) (auth_req r) \<noteq> METHOD_PASSKEY"
  shows "\<exists>rq. responder_feed K pdu r =
    (Inr (), r\<lparr>preq := Some pdu, request := rq,
       method := Some (chosen_method (unat i) (unat au) (io_cap r) (auth_req r)),
       init_keys := unat ini AND accept_init_keys r,
       pres := Some (map of_nat [2, io_cap r, 0, auth_req r, min (key_size r) 16,
                 unat ini AND accept_init_keys r, unat res AND resp_keys r]),
       rstate := R_WAIT_PUBLIC_KEY,
       out := out r @ [map of_nat [2, io_cap r, 0, auth_req r, min (key_size r) 16,
                 unat ini AND accept_init_keys r, unat res AND resp_keys r]]\<rparr>)"
proof -
  have "octets [2, io_cap r, 0, auth_req r, min (key_size r) 16,
      unat ini AND accept_init_keys r, unat res AND resp_keys r] =
    Inr (map of_nat [2, io_cap r, 0, auth_req r, min (key_size r) 16,
      unat ini AND accept_init_keys r, unat res AND resp_keys r])"
    using assms(6,7) by (intro octets_7) (auto simp: and_byte_less min_def)
  with assms show ?thesis
    by (intro exI [of _ "zip [''io_cap'', ''oob'', ''auth_req'', ''key_size'', ''init_keys'', ''resp_keys'']
          (pslice 1 7 pdu)"] responder_dispatch [where h = responder_on_request])
      (auto simp: responder_done_def responder_handler_def responder_on_request_def Let_def
        sc_method_chosen chosen_method_def simp del: octets.simps)
qed

lemma step_response:
  assumes "state c = WAIT_RESPONSE" "pdu = [2, i, 0, au, ks, ini, res]"
    "auth_req c AND AUTH_SC \<noteq> 0" "unat au AND AUTH_SC \<noteq> 0" "7 \<le> unat ks" "unat ks \<le> 16"
    "io_cap c \<le> 4" "unat i \<le> 4"
    "chosen_method (io_cap c) (auth_req c) (unat i) (unat au) \<noteq> METHOD_PASSKEY"
  shows "central_feed K pdu c =
    (Inr (), c\<lparr>pres := Some pdu, peer_io_cap := Some i, peer_auth_req := Some au,
       method := Some (chosen_method (io_cap c) (auth_req c) (unat i) (unat au)),
       state := WAIT_PUBLIC_KEY,
       out := out c @ [[SMP_PAIRING_PUBLIC_KEY] @ key_x K (keypair c) @ key_y K (keypair c)]\<rparr>)"
  using assms
  by (intro central_dispatch [where h = "central_on_response K"])
    (auto simp: central_done_def central_handler_def central_on_response_def Let_def
      sc_method_chosen chosen_method_def)

lemma key_slices [simp]:
  "pslice (Suc 0) 33 (b # key_x K d @ key_y K d) = key_x K d"
  "pslice 33 65 (b # key_x K d @ key_y K d) = key_y K d"
  by (simp_all add: pslice_def)

lemma value_slice [simp]: "length v = 16 \<Longrightarrow> pslice (Suc 0) 17 (b # v) = v"
  by (simp add: pslice_def)

lemma step_public_key_r:
  assumes "rstate r = R_WAIT_PUBLIC_KEY" "pdu = [SMP_PAIRING_PUBLIC_KEY] @ key_x K a @ key_y K a"
    "shared_secret K (keypair r) (key_x K a) (key_y K a) = Some dh" "nb r = Some rb"
  shows "responder_feed K pdu r =
    (Inr (), r\<lparr>peer_x := Some (key_x K a), peer_y := Some (key_y K a), dhkey := Some dh,
       rstate := R_WAIT_RANDOM,
       out := out r @ [[SMP_PAIRING_PUBLIC_KEY] @ key_x K (keypair r) @ key_y K (keypair r),
         [SMP_PAIRING_CONFIRM] @ f4 K (key_x K (keypair r)) (key_x K a) rb (zeros 1)]\<rparr>)"
  using assms
  by (intro responder_dispatch [where h = "responder_on_public_key K"])
    (auto simp: responder_done_def responder_handler_def responder_on_public_key_def Let_def)

lemma step_public_key_c:
  assumes "state c = WAIT_PUBLIC_KEY" "pdu = [SMP_PAIRING_PUBLIC_KEY] @ key_x K b @ key_y K b"
    "shared_secret K (keypair c) (key_x K b) (key_y K b) = Some dh"
    "\<not> (key_x K b = key_x K (keypair c) \<and> key_y K b = key_y K (keypair c))"
  shows "central_feed K pdu c =
    (Inr (), c\<lparr>peer_x := Some (key_x K b), peer_y := Some (key_y K b), dhkey := Some dh,
       state := WAIT_CONFIRM\<rparr>)"
  using assms
  by (intro central_dispatch [where h = "central_on_public_key K"])
    (auto simp: central_done_def central_handler_def central_on_public_key_def Let_def)

lemma step_confirm:
  assumes "state c = WAIT_CONFIRM" "pdu = [SMP_PAIRING_CONFIRM] @ v" "length v = 16"
  shows "central_feed K pdu c =
    (Inr (), c\<lparr>confirm := Some v, na := Some (rng c (rng_calls c) 16), rng_calls := Suc (rng_calls c),
       state := WAIT_RANDOM, out := out c @ [[SMP_PAIRING_RANDOM] @ rng c (rng_calls c) 16]\<rparr>)"
  using assms
  by (intro central_dispatch [where h = central_on_confirm])
    (auto simp: central_done_def central_handler_def central_on_confirm_def Let_def)

lemma step_random_r:
  assumes "rstate r = R_WAIT_RANDOM" "pdu = [SMP_PAIRING_RANDOM] @ ra" "length ra = 16"
    "nb r = Some rb" "dhkey r = Some dh" "peer_x r = Some px"
    "f5 K dh ra rb (peer_form r) (own_form r) = (mk, key)"
  shows "responder_feed K pdu r =
    (Inr (), let r' = r\<lparr>na := Some ra, out := out r @ [[SMP_PAIRING_RANDOM] @ rb], mac_key := Some mk,
                   ltk := Some key, rstate := R_WAIT_USER_OR_CHECK\<rparr>
             in if method r = Some METHOD_NUMERIC
                then r'\<lparr>numeric_value := Some (g2 K px (key_x K (keypair r)) ra rb)\<rparr>
                else r'\<lparr>user_accepted := Some True\<rparr>)"
  using assms
  by (intro responder_dispatch [where h = "responder_on_random K"])
    (auto simp: responder_done_def responder_handler_def responder_on_random_def Let_def
      own_form_def peer_form_def)

lemma step_random_c:
  assumes "state c = WAIT_RANDOM" "pdu = [SMP_PAIRING_RANDOM] @ rb" "length rb = 16"
    "na c = Some ra" "dhkey c = Some dh" "peer_x c = Some px"
    "confirm c = Some (f4 K px (key_x K (keypair c)) rb (zeros 1))"
    "f5 K dh ra rb (own_form c) (peer_form c) = (mk, key)"
  shows "central_feed K pdu c =
    (let c' = c\<lparr>nb := Some rb, mac_key := Some mk, ltk := Some key\<rparr>
     in if method c = Some METHOD_NUMERIC
        then (Inr (), c'\<lparr>numeric_value := Some (g2 K (key_x K (keypair c)) px ra rb),
                         state := WAIT_USER\<rparr>)
        else catch_pairing central_fail (central_send_dhkey_check K) c')"
proof -
  have forms: "own_form (c\<lparr>nb := Some rb\<rparr>) = own_form c" "peer_form (c\<lparr>nb := Some rb\<rparr>) = peer_form c"
    by (simp_all add: own_form_def peer_form_def)
  have "central_on_random K pdu c =
    (let c' = c\<lparr>nb := Some rb, mac_key := Some mk, ltk := Some key\<rparr>
     in if method c = Some METHOD_NUMERIC
        then (Inr (), c'\<lparr>numeric_value := Some (g2 K (key_x K (keypair c)) px ra rb),
                         state := WAIT_USER\<rparr>)
        else central_send_dhkey_check K c')"
    using assms by (simp add: central_on_random_def Let_def forms)
  with assms(1,2) show ?thesis
    by (simp add: central_feed_def central_done_def central_handler_def catch_pairing_def Let_def)
qed

lemma step_send_check:
  assumes "preq c = Some req" "pres c = Some res" "mac_key c = Some mk" "na c = Some ra" "nb c = Some rb"
  shows "central_send_dhkey_check K c =
    (Inr (), c\<lparr>dhkey_check := Some (f6 K mk rb ra (zeros 16) (pslice 1 4 res) (peer_form c) (own_form c)),
       state := WAIT_DHKEY_CHECK,
       out := out c @ [[SMP_PAIRING_DHKEY_CHECK] @
         f6 K mk ra rb (zeros 16) (pslice 1 4 req) (own_form c) (peer_form c)]\<rparr>)"
  using assms by (simp add: central_send_dhkey_check_def Let_def)

lemma step_check_r:
  assumes "rstate r = R_WAIT_USER_OR_CHECK" "pdu = [SMP_PAIRING_DHKEY_CHECK] @ v" "length v = 16"
    "user_accepted r = Some True" "preq r = Some req" "pres r = Some res" "mac_key r = Some mk"
    "na r = Some ra" "nb r = Some rb"
    "v = f6 K mk ra rb (zeros 16) (pslice 1 4 req) (peer_form r) (own_form r)"
  shows "responder_feed K pdu r =
    (Inr (), r\<lparr>ea := Some v, out := out r @ [[SMP_PAIRING_DHKEY_CHECK] @
         f6 K mk rb ra (zeros 16) (pslice 1 4 res) (own_form r) (peer_form r)],
       rstate := R_COMPLETE\<rparr>)"
  using assms
  by (intro responder_dispatch [where h = "responder_on_dhkey_check K"])
    (auto simp: responder_done_def responder_handler_def responder_on_dhkey_check_def
      responder_finish_def own_form_def peer_form_def)

lemma step_check_c:
  assumes "state c = WAIT_DHKEY_CHECK" "pdu = [SMP_PAIRING_DHKEY_CHECK] @ v" "length v = 16"
    "dhkey_check c = Some v"
  shows "central_feed K pdu c = (Inr (), c\<lparr>state := COMPLETE\<rparr>)"
  using assms
  by (intro central_dispatch [where h = central_on_dhkey_check])
    (auto simp: central_done_def central_handler_def central_on_dhkey_check_def)

section \<open>Honest pairing\<close>

lemma central_start_ok:
  assumes "state c = IDLE" "io_cap c < 256" "auth_req c < 256" "key_size c < 256" "init_keys c < 256"
    "resp_keys c < 256"
  shows "central_start c = (Inr (), c\<lparr>
      preq := Some (map of_nat [1, io_cap c, 0, auth_req c, key_size c, init_keys c, resp_keys c]),
      state := WAIT_RESPONSE,
      out := out c @ [map of_nat [1, io_cap c, 0, auth_req c, key_size c, init_keys c, resp_keys c]]\<rparr>)"
  using assms octets_7 [of "[1, io_cap c, 0, auth_req c, key_size c, init_keys c, resp_keys c]"]
  by (simp add: central_start_def del: octets.simps)

text \<open>The configurations the theorem is about: values that fit their octets, both sides with Secure
  Connections, addresses that name each other, and IO capabilities that do not select Passkey Entry.\<close>

definition honest_pair :: "crypto \<Rightarrow> central \<Rightarrow> responder \<Rightarrow> bool" where
  "honest_pair K c r \<longleftrightarrow>
     state c = IDLE \<and> out c = [] \<and> rstate r = R_IDLE \<and> out r = [] \<and> user_accepted r = None \<and>
     ea r = None \<and> crypto_agrees K (keypair c) (keypair r) \<and>
     peer_form c = own_form r \<and> peer_form r = own_form c \<and>
     io_cap c \<le> 4 \<and> io_cap r \<le> 4 \<and> auth_req c < 256 \<and> auth_req r < 256 \<and>
     auth_req c AND AUTH_SC \<noteq> 0 \<and> auth_req r AND AUTH_SC \<noteq> 0 \<and>
     key_size c < 256 \<and> 7 \<le> key_size r \<and> init_keys c < 256 \<and> resp_keys c < 256 \<and>
     chosen_method (io_cap c) (auth_req c) (io_cap r) (auth_req r) \<noteq> METHOD_PASSKEY \<and>
     length (rng c (rng_calls c) 16) = 16 \<and> (\<exists>n. nb r = Some n \<and> length n = 16)"

text \<open>The feature exchange: request, response, and the initiator's public key.\<close>

definition negotiated ::
  "crypto \<Rightarrow> central \<Rightarrow> responder \<Rightarrow> central \<Rightarrow> responder \<Rightarrow> bytes \<Rightarrow> bytes \<Rightarrow> smp_method \<Rightarrow> bool" where
  "negotiated K c0 r0 c r req res m \<longleftrightarrow>
     config c = config c0 \<and> config r = config r0 \<and> nb r = nb r0 \<and> rng_calls c = rng_calls c0 \<and>
     preq c = Some req \<and> preq r = Some req \<and> pres c = Some res \<and> pres r = Some res \<and>
     method c = Some m \<and> method r = Some m \<and> ea r = None \<and> user_accepted r = None"

abbreviation (input) key_pdu :: "crypto \<Rightarrow> nat \<Rightarrow> bytes" where
  "key_pdu K d \<equiv> [SMP_PAIRING_PUBLIC_KEY] @ key_x K d @ key_y K d"

lemma pump_features:
  assumes hp: "honest_pair K c0 r0"
    and m: "m = chosen_method (io_cap c0) (auth_req c0) (io_cap r0) (auth_req r0)"
  shows "\<exists>c r req res. pump 20 K (snd (central_start c0)) 0 r0 0 = pump 18 K c 1 r 1 \<and>
    negotiated K c0 r0 c r req res m \<and> state c = WAIT_PUBLIC_KEY \<and> rstate r = R_WAIT_PUBLIC_KEY \<and>
    out c = [req, key_pdu K (keypair c0)] \<and> out r = [res]"
proof -
  note hp = hp [unfolded honest_pair_def]
  have le: "unat (of_nat n :: byte) = n" if "n < 256" for n using that by simp
  define req :: bytes where
    "req = map of_nat [1, io_cap c0, 0, auth_req c0, key_size c0, init_keys c0, resp_keys c0]"
  define res :: bytes where "res = map of_nat [2, io_cap r0, 0, auth_req r0, min (key_size r0) 16,
    init_keys c0 AND accept_init_keys r0, resp_keys c0 AND resp_keys r0]"
  define c1 where "c1 = c0\<lparr>preq := Some req, state := WAIT_RESPONSE, out := [req]\<rparr>"
  have start: "central_start c0 = (Inr (), c1)"
    using central_start_ok [of c0] hp by (simp add: req_def c1_def)
  obtain rq where rq: "responder_feed K req r0 = (Inr (), r0\<lparr>preq := Some req, request := rq,
      method := Some m, init_keys := init_keys c0 AND accept_init_keys r0, pres := Some res,
      rstate := R_WAIT_PUBLIC_KEY, out := [res]\<rparr>)" (is "_ = (_, ?r1)")
    using step_request [of r0 req "of_nat (io_cap c0)" 0 "of_nat (auth_req c0)" "of_nat (key_size c0)"
        "of_nat (init_keys c0)" "of_nat (resp_keys c0)" K] hp
    by (auto simp: req_def res_def m le)
  define c2 where "c2 = c1\<lparr>pres := Some res, peer_io_cap := Some (of_nat (io_cap r0)),
      peer_auth_req := Some (of_nat (auth_req r0)), method := Some m, state := WAIT_PUBLIC_KEY,
      out := [req, key_pdu K (keypair c0)]\<rparr>"
  have resp: "central_feed K res c1 = (Inr (), c2)"
    using step_response [of c1 res "of_nat (io_cap r0)" "of_nat (auth_req r0)" "of_nat (min (key_size r0) 16)"
        "of_nat (init_keys c0 AND accept_init_keys r0)" "of_nat (resp_keys c0 AND resp_keys r0)" K] hp
    by (simp add: c1_def c2_def res_def m le)
  have "pump (Suc 19) K (snd (central_start c0)) 0 r0 0 = pump 19 K c1 1 ?r1 0"
    using pump_to_responder [of 0 c1 K r0 "Inr ()" ?r1 19 0] rq start by (simp add: c1_def)
  also have "\<dots> = pump 18 K c2 1 ?r1 1"
    using pump_to_central [of 1 c1 0 ?r1 K "Inr ()" c2 18] resp by (simp add: c1_def)
  finally have "pump 20 K (snd (central_start c0)) 0 r0 0 = pump 18 K c2 1 ?r1 1" by simp
  moreover have "negotiated K c0 r0 c2 ?r1 req res m"
    using hp by (simp add: negotiated_def c2_def c1_def)
  ultimately show ?thesis
    by (intro exI [of _ c2] exI [of _ ?r1] exI [of _ req] exI [of _ res]) (simp add: c2_def)
qed

text \<open>The key exchange, the responder's commitment, and both randoms on their way.\<close>

lemma pump_keys:
  assumes hp: "honest_pair K c0 r0" and neg: "negotiated K c0 r0 c r req res m"
    and st: "state c = WAIT_PUBLIC_KEY" "rstate r = R_WAIT_PUBLIC_KEY"
      "out c = [req, key_pdu K (keypair c0)]" "out r = [res]"
  shows "\<exists>c' r' ra rb dh cv. pump 18 K c 1 r 1 = pump 15 K c' 2 r' 3 \<and>
    negotiated K c0 r0 (c'\<lparr>rng_calls := rng_calls c0\<rparr>) r' req res m \<and>
    state c' = WAIT_RANDOM \<and> rstate r' = R_WAIT_RANDOM \<and>
    out c' = [req, key_pdu K (keypair c0), [SMP_PAIRING_RANDOM] @ ra] \<and>
    out r' = [res, key_pdu K (keypair r0), [SMP_PAIRING_CONFIRM] @ cv] \<and>
    cv = f4 K (key_x K (keypair r0)) (key_x K (keypair c0)) rb (zeros 1) \<and> confirm c' = Some cv \<and>
    na c' = Some ra \<and> nb r0 = Some rb \<and> length ra = 16 \<and> length rb = 16 \<and>
    peer_x c' = Some (key_x K (keypair r0)) \<and> peer_x r' = Some (key_x K (keypair c0)) \<and>
    dhkey c' = Some dh \<and> dhkey r' = Some dh"
proof -
  let ?a = "keypair c0" and ?b = "keypair r0"
  obtain dh where dh: "shared_secret K ?a (key_x K ?b) (key_y K ?b) = Some dh"
    "shared_secret K ?b (key_x K ?a) (key_y K ?a) = Some dh"
    "\<not> (key_x K ?b = key_x K ?a \<and> key_y K ?b = key_y K ?a)"
    using agreed_secret hp unfolding honest_pair_def by blast
  obtain rb where rb: "nb r0 = Some rb" "length rb = 16" using hp by (auto simp: honest_pair_def)
  define ra where "ra = rng c0 (rng_calls c0) 16"
  have ra: "length ra = 16" using hp by (simp add: ra_def honest_pair_def)
  have cfg: "keypair c = ?a" "keypair r = ?b" "rng c = rng c0" "rng_calls c = rng_calls c0" "nb r = Some rb"
    using neg rb by (simp_all add: negotiated_def config_def)
  define cv where "cv = f4 K (key_x K ?b) (key_x K ?a) rb (zeros 1)"
  have cv: "length cv = 16" using hp by (simp add: cv_def length_toolbox honest_pair_def crypto_agrees_def)
  define r2 where "r2 = r\<lparr>peer_x := Some (key_x K ?a), peer_y := Some (key_y K ?a), dhkey := Some dh,
      rstate := R_WAIT_RANDOM, out := [res, key_pdu K ?b, [SMP_PAIRING_CONFIRM] @ cv]\<rparr>"
  have s3: "responder_feed K (key_pdu K ?a) r = (Inr (), r2)"
    using step_public_key_r [of r "key_pdu K ?a" K ?a dh rb] dh(2) st cfg by (simp add: r2_def cv_def)
  define c3 where "c3 = c\<lparr>peer_x := Some (key_x K ?b), peer_y := Some (key_y K ?b), dhkey := Some dh,
      state := WAIT_CONFIRM\<rparr>"
  have s4: "central_feed K (key_pdu K ?b) c = (Inr (), c3)"
    using step_public_key_c [of c "key_pdu K ?b" K ?b dh] dh(1,3) st cfg by (simp add: c3_def)
  define c4 where "c4 = c3\<lparr>confirm := Some cv, na := Some ra, rng_calls := Suc (rng_calls c0),
      state := WAIT_RANDOM, out := [req, key_pdu K ?a, [SMP_PAIRING_RANDOM] @ ra]\<rparr>"
  have s5: "central_feed K ([SMP_PAIRING_CONFIRM] @ cv) c3 = (Inr (), c4)"
    using step_confirm [of c3 "[SMP_PAIRING_CONFIRM] @ cv" cv K] cv st cfg
    by (simp add: c3_def c4_def ra_def)
  have "pump (Suc 17) K c 1 r 1 = pump 17 K c 2 r2 1"
    using pump_to_responder [of 1 c K r "Inr ()" r2 17 1] s3 st by (simp add: numeral_2_eq_2)
  also have "\<dots> = pump 16 K c3 2 r2 2"
    using pump_to_central [of 2 c 1 r2 K "Inr ()" c3 16] s4 st by (simp add: r2_def numeral_2_eq_2)
  also have "\<dots> = pump 15 K c4 2 r2 3"
    using pump_to_central [of 2 c3 2 r2 K "Inr ()" c4 15] s5 st by (simp add: c3_def r2_def)
  finally have "pump 18 K c 1 r 1 = pump 15 K c4 2 r2 3" by simp
  moreover have "negotiated K c0 r0 (c4\<lparr>rng_calls := rng_calls c0\<rparr>) r2 req res m"
    using neg by (simp add: negotiated_def c4_def c3_def r2_def)
  ultimately show ?thesis
    by (intro exI [of _ c4] exI [of _ r2] exI [of _ ra] exI [of _ rb] exI [of _ dh] exI [of _ cv])
      (simp add: c4_def c3_def r2_def cv_def ra rb)
qed

text \<open>The two check values, once both sides have accepted.\<close>

lemma pump_final:
  assumes st: "state c = WAIT_DHKEY_CHECK" "rstate r = R_WAIT_USER_OR_CHECK" "user_accepted r = Some True"
    and ln: "\<And>k x. length (cmac K k x) = 16" and io: "length (out c) = Suc i" "length (out r) = j"
    and forms: "own_form r = peer_form c" "peer_form r = own_form c"
    and vals: "preq r = Some req" "pres r = Some res" "mac_key r = Some mk" "na r = Some ra" "nb r = Some rb"
    and chk: "out c ! i = [SMP_PAIRING_DHKEY_CHECK] @
        f6 K mk ra rb (zeros 16) (pslice 1 4 req) (own_form c) (peer_form c)"
      "dhkey_check c = Some (f6 K mk rb ra (zeros 16) (pslice 1 4 res) (peer_form c) (own_form c))"
  shows "\<exists>r'. pump (Suc (Suc k)) K c i r j = (c\<lparr>state := COMPLETE\<rparr>, Suc i, r', Suc j) \<and>
    rstate r' = R_COMPLETE \<and> ltk r' = ltk r \<and> numeric_value r' = numeric_value r \<and> method r' = method r \<and>
    length (out r') = Suc j"
proof -
  let ?ea = "f6 K mk ra rb (zeros 16) (pslice 1 4 req) (own_form c) (peer_form c)"
  let ?eb = "f6 K mk rb ra (zeros 16) (pslice 1 4 res) (peer_form c) (own_form c)"
  let ?r = "r\<lparr>ea := Some ?ea, out := out r @ [[SMP_PAIRING_DHKEY_CHECK] @ ?eb], rstate := R_COMPLETE\<rparr>"
  have "responder_feed K (out c ! i) r = (Inr (), ?r)"
    using step_check_r [of r "out c ! i" ?ea req res mk ra rb K] st vals chk length_toolbox [OF ln]
    by (simp add: forms)
  then have "pump (Suc (Suc k)) K c i r j = pump (Suc k) K c (Suc i) ?r j"
    by (intro pump_to_responder) (simp_all add: io)
  also have "\<dots> = pump k K (c\<lparr>state := COMPLETE\<rparr>) (Suc i) ?r (Suc j)"
    using step_check_c [of c "[SMP_PAIRING_DHKEY_CHECK] @ ?eb" ?eb K] st chk length_toolbox [OF ln] io
    by (intro pump_to_central) (simp_all add: nth_append)
  also have "\<dots> = (c\<lparr>state := COMPLETE\<rparr>, Suc i, ?r, Suc j)"
    using io by (intro pump_quiet) simp_all
  finally show ?thesis using io by (intro exI [of _ ?r]) simp
qed

lemma user_confirm_done:
  "state c = COMPLETE \<Longrightarrow> snd (central_user_confirm K a c) = c"
  "rstate r = R_COMPLETE \<Longrightarrow> snd (responder_user_confirm K a r) = r"
  by (simp_all add: central_user_confirm_def responder_user_confirm_def)

text \<open>The randoms cross, and both sides derive the same keys.\<close>

lemma pump_randoms:
  assumes neg: "negotiated K c0 r0 (c\<lparr>rng_calls := rng_calls c0\<rparr>) r req res m"
    and forms: "peer_form c0 = own_form r0" "peer_form r0 = own_form c0"
    and st: "state c = WAIT_RANDOM" "rstate r = R_WAIT_RANDOM"
      "out c = [req, key_pdu K (keypair c0), [SMP_PAIRING_RANDOM] @ ra]"
      "out r = [res, key_pdu K (keypair r0), [SMP_PAIRING_CONFIRM] @ cv]"
      "confirm c = Some (f4 K (key_x K (keypair r0)) (key_x K (keypair c0)) rb (zeros 1))"
      "na c = Some ra" "nb r0 = Some rb" "length ra = 16" "length rb = 16"
      "peer_x c = Some (key_x K (keypair r0))" "peer_x r = Some (key_x K (keypair c0))"
      "dhkey c = Some dh" "dhkey r = Some dh"
  shows "\<exists>c' r' mk key num. pump 15 K c 2 r 3 = pump 13 K c' 3 r' 4 \<and>
    own_form c' = own_form c0 \<and> peer_form c' = peer_form c0 \<and> own_form r' = own_form r0 \<and>
    peer_form r' = peer_form r0 \<and> preq c' = Some req \<and> pres c' = Some res \<and> preq r' = Some req \<and>
    pres r' = Some res \<and> na r' = Some ra \<and> nb r' = Some rb \<and> mac_key r' = Some mk \<and>
    ltk c' = Some key \<and> ltk r' = Some key \<and> method c' = Some m \<and> method r' = Some m \<and>
    length (out r') = 4 \<and> ea r' = None \<and> rstate r' = R_WAIT_USER_OR_CHECK \<and>
    na c' = Some ra \<and> nb c' = Some rb \<and> mac_key c' = Some mk \<and>
    (if m = METHOD_NUMERIC then state c' = WAIT_USER \<and> numeric_value c' = Some num \<and>
        numeric_value r' = Some num \<and> length (out c') = 3
     else user_accepted r' = Some True \<and> state c' = WAIT_DHKEY_CHECK \<and> length (out c') = 4 \<and>
       out c' ! 3 = [SMP_PAIRING_DHKEY_CHECK] @
         f6 K mk ra rb (zeros 16) (pslice 1 4 req) (own_form c0) (peer_form c0) \<and>
       dhkey_check c' = Some (f6 K mk rb ra (zeros 16) (pslice 1 4 res) (peer_form c0) (own_form c0)))"
proof -
  have cfg: "own_form c = own_form c0" "peer_form c = peer_form c0" "own_form r = own_form r0"
    "peer_form r = peer_form r0" "keypair c = keypair c0" "keypair r = keypair r0" "nb r = Some rb"
    "method c = Some m" "method r = Some m" "preq c = Some req" "pres c = Some res" "preq r = Some req"
    "pres r = Some res" "ea r = None"
    using neg st by (simp_all add: negotiated_def config_def own_form_def peer_form_def)
  obtain mk key where f5: "f5 K dh ra rb (own_form c0) (peer_form c0) = (mk, key)" by fastforce
  define num where "num = g2 K (key_x K (keypair c0)) (key_x K (keypair r0)) ra rb"
  let ?r' = "r\<lparr>na := Some ra, out := out r @ [[SMP_PAIRING_RANDOM] @ rb], mac_key := Some mk,
                   ltk := Some key, rstate := R_WAIT_USER_OR_CHECK\<rparr>"
  define r3 where "r3 = (if m = METHOD_NUMERIC then ?r'\<lparr>numeric_value := Some num\<rparr>
                         else ?r'\<lparr>user_accepted := Some True\<rparr>)"
  have s6: "responder_feed K ([SMP_PAIRING_RANDOM] @ ra) r = (Inr (), r3)"
    using step_random_r [of r "[SMP_PAIRING_RANDOM] @ ra" ra rb dh "key_x K (keypair c0)" K mk key] st f5
    by (simp add: r3_def cfg forms num_def Let_def)
  let ?c' = "c\<lparr>nb := Some rb, mac_key := Some mk, ltk := Some key\<rparr>"
  define c5 where "c5 = (if m = METHOD_NUMERIC then ?c'\<lparr>numeric_value := Some num, state := WAIT_USER\<rparr>
     else ?c'\<lparr>dhkey_check := Some (f6 K mk rb ra (zeros 16) (pslice 1 4 res) (peer_form c0) (own_form c0)),
       state := WAIT_DHKEY_CHECK, out := out c @ [[SMP_PAIRING_DHKEY_CHECK] @
         f6 K mk ra rb (zeros 16) (pslice 1 4 req) (own_form c0) (peer_form c0)]\<rparr>)"
  have f': "own_form ?c' = own_form c0" "peer_form ?c' = peer_form c0"
    using cfg by (simp_all add: own_form_def peer_form_def)
  have s7: "central_feed K ([SMP_PAIRING_RANDOM] @ rb) c = (Inr (), c5)"
    using step_random_c [of c "[SMP_PAIRING_RANDOM] @ rb" rb ra dh "key_x K (keypair r0)" K mk key] st f5
      step_send_check [of ?c' req res mk ra rb K] f'
    by (simp add: c5_def cfg num_def Let_def catch_pairing_def)
  have "pump (Suc 14) K c 2 r 3 = pump 14 K c 3 r3 3"
    using pump_to_responder [of 2 c K r "Inr ()" r3 14 3] s6 st by (simp add: numeral_eq_Suc)
  also have "\<dots> = pump 13 K c5 3 r3 4"
    using pump_to_central [of 3 c 3 r3 K "Inr ()" c5 13] s7 st by (simp add: r3_def numeral_eq_Suc)
  finally have "pump 15 K c 2 r 3 = pump 13 K c5 3 r3 4" by simp
  then show ?thesis
    by (intro exI [of _ c5] exI [of _ r3] exI [of _ mk] exI [of _ key] exI [of _ num])
      (use st cfg f' in \<open>simp add: c5_def r3_def own_form_def peer_form_def\<close>)
qed

section \<open>Both sides complete with the same key\<close>

text \<open>C1. An initiator and a responder connected to each other, with Secure Connections on both sides
  and any IO capabilities that do not select Passkey Entry, both complete: with the same long term
  key, the method of the specification's table on both, and for numeric comparison the same six
  digits shown to both users (who accept). The hypotheses on the primitives are what AES-CMAC and
  ECDH promise.\<close>

theorem honest_pairing_completes:
  assumes hp: "honest_pair K c0 r0"
    and m: "m = chosen_method (io_cap c0) (auth_req c0) (io_cap r0) (auth_req r0)"
  shows "\<exists>c r key. pair_up K c0 r0 = (c, r) \<and> state c = COMPLETE \<and> rstate r = R_COMPLETE \<and>
    ltk c = Some key \<and> ltk r = Some key \<and> method c = Some m \<and> method r = Some m \<and>
    (m = METHOD_NUMERIC \<longrightarrow> (\<exists>n. numeric_value c = Some n \<and> numeric_value r = Some n))"
proof -
  obtain c1 r1 req res where p1: "pump 20 K (snd (central_start c0)) 0 r0 0 = pump 18 K c1 1 r1 1"
    and n1: "negotiated K c0 r0 c1 r1 req res m" and s1: "state c1 = WAIT_PUBLIC_KEY"
      "rstate r1 = R_WAIT_PUBLIC_KEY" "out c1 = [req, key_pdu K (keypair c0)]" "out r1 = [res]"
    using pump_features [OF hp m] by metis
  obtain c2 r2 ra rb dh cv where p2: "pump 18 K c1 1 r1 1 = pump 15 K c2 2 r2 3"
    and n2: "negotiated K c0 r0 (c2\<lparr>rng_calls := rng_calls c0\<rparr>) r2 req res m" and s2: "state c2 = WAIT_RANDOM"
      "rstate r2 = R_WAIT_RANDOM" "out c2 = [req, key_pdu K (keypair c0), [SMP_PAIRING_RANDOM] @ ra]"
      "out r2 = [res, key_pdu K (keypair r0), [SMP_PAIRING_CONFIRM] @ cv]"
      "confirm c2 = Some (f4 K (key_x K (keypair r0)) (key_x K (keypair c0)) rb (zeros 1))"
      "na c2 = Some ra" "nb r0 = Some rb" "length ra = 16" "length rb = 16"
      "peer_x c2 = Some (key_x K (keypair r0))" "peer_x r2 = Some (key_x K (keypair c0))"
      "dhkey c2 = Some dh" "dhkey r2 = Some dh"
    using pump_keys [OF hp n1 s1] by metis
  have forms: "peer_form c0 = own_form r0" "peer_form r0 = own_form c0"
    and ln: "\<And>k x. length (cmac K k x) = 16"
    using hp by (simp_all add: honest_pair_def crypto_agrees_def)
  obtain c r mk key num where p3: "pump 15 K c2 2 r2 3 = pump 13 K c 3 r 4"
    and s3: "own_form c = own_form c0" "peer_form c = peer_form c0" "own_form r = own_form r0"
      "peer_form r = peer_form r0" "preq c = Some req" "pres c = Some res" "preq r = Some req"
      "pres r = Some res" "na r = Some ra" "nb r = Some rb" "mac_key r = Some mk" "ltk c = Some key"
      "ltk r = Some key" "method c = Some m" "method r = Some m" "length (out r) = 4" "ea r = None"
      "rstate r = R_WAIT_USER_OR_CHECK" "na c = Some ra" "nb c = Some rb" "mac_key c = Some mk"
    and q: "if m = METHOD_NUMERIC then state c = WAIT_USER \<and> numeric_value c = Some num \<and>
        numeric_value r = Some num \<and> length (out c) = 3
     else user_accepted r = Some True \<and> state c = WAIT_DHKEY_CHECK \<and> length (out c) = 4 \<and>
       out c ! 3 = [SMP_PAIRING_DHKEY_CHECK] @
         f6 K mk ra rb (zeros 16) (pslice 1 4 req) (own_form c0) (peer_form c0) \<and>
       dhkey_check c = Some (f6 K mk rb ra (zeros 16) (pslice 1 4 res) (peer_form c0) (own_form c0))"
    using pump_randoms [OF n2 forms s2] by metis
  note p = p1 [unfolded p2 p3]
  show ?thesis
  proof (cases "m = METHOD_NUMERIC")
    case False
    have "\<exists>r'. pump (Suc (Suc 11)) K c 3 r 4 = (c\<lparr>state := COMPLETE\<rparr>, Suc 3, r', Suc 4) \<and>
      rstate r' = R_COMPLETE \<and> ltk r' = ltk r \<and> numeric_value r' = numeric_value r \<and>
      method r' = method r \<and> length (out r') = Suc 4"
      by (rule pump_final [of c r K 3 4 req res mk ra rb 11]) (use False q s3 ln forms in simp_all)
    then obtain r' where f: "pump 13 K c 3 r 4 = (c\<lparr>state := COMPLETE\<rparr>, 4, r', 5)"
      "rstate r' = R_COMPLETE" "ltk r' = ltk r" "method r' = method r" "length (out r') = 5"
      by auto
    have "pump 20 K (c\<lparr>state := COMPLETE\<rparr>) 4 r' 5 = (c\<lparr>state := COMPLETE\<rparr>, 4, r', 5)"
      using f False q by (intro pump_quiet) simp_all
    with p f False s3 show ?thesis by (simp add: pair_up_def user_confirm_done)
  next
    case True
    let ?r = "r\<lparr>user_accepted := Some True\<rparr>" and ?u = "c\<lparr>user_accepted := Some True\<rparr>"
    let ?c = "?u\<lparr>dhkey_check := Some (f6 K mk rb ra (zeros 16) (pslice 1 4 res) (peer_form c0) (own_form c0)),
       state := WAIT_DHKEY_CHECK, out := out c @ [[SMP_PAIRING_DHKEY_CHECK] @
         f6 K mk ra rb (zeros 16) (pslice 1 4 req) (own_form c0) (peer_form c0)]\<rparr>"
    have fu: "own_form ?u = own_form c0" "peer_form ?u = peer_form c0" "own_form ?c = own_form c0"
      "peer_form ?c = peer_form c0" "own_form ?r = own_form r0" "peer_form ?r = peer_form r0"
      using s3(1-4) by (simp_all add: own_form_def peer_form_def)
    have uc: "central_user_confirm K True c = (Inr (), ?c)" "responder_user_confirm K True r = (Inr (), ?r)"
      using True q s3 step_send_check [of ?u req res mk ra rb K] fu
      by (simp_all add: central_user_confirm_def responder_user_confirm_def responder_finish_def)
    have quiet: "pump 13 K c 3 r 4 = (c, 3, r, 4)" using True q s3 by (intro pump_quiet) simp_all
    have "\<exists>r'. pump (Suc (Suc 18)) K ?c 3 ?r 4 = (?c\<lparr>state := COMPLETE\<rparr>, Suc 3, r', Suc 4) \<and>
      rstate r' = R_COMPLETE \<and> ltk r' = ltk ?r \<and> numeric_value r' = numeric_value ?r \<and>
      method r' = method ?r \<and> length (out r') = Suc 4"
      by (rule pump_final [of ?c ?r K 3 4 req res mk ra rb 18])
        (use ln forms True q s3 fu in \<open>simp_all add: nth_append\<close>)
    then obtain r' where f: "pump 20 K ?c 3 ?r 4 = (?c\<lparr>state := COMPLETE\<rparr>, 4, r', 5)"
      "rstate r' = R_COMPLETE" "ltk r' = ltk r" "method r' = method r" "numeric_value r' = numeric_value r"
      by auto
    with p quiet uc True q s3 show ?thesis by (simp add: pair_up_def)
  qed
qed

section \<open>A concrete instance\<close>

text \<open>A stand-in for the primitives that satisfies what the theorems assume of them, and two parties
  with numeric comparison.\<close>

definition toy :: crypto where
  "toy = \<lparr>cmac = (\<lambda>k m. zeros 16), public_numbers = (\<lambda>d. (d, d + 1)),
     exchange = (\<lambda>d x y. if y = x + 1 then Some (to_le 32 (d * x)) else None)\<rparr>"

definition toy_central :: central where
  "toy_central = central_init (\<lambda>i n. zeros n) [1,2,3,4,5,6] 0 [6,5,4,3,2,1] 1 1 13 16 0 0 5"

definition toy_responder :: responder where
  "toy_responder = responder_init (\<lambda>i n. zeros n) [6,5,4,3,2,1] 1 [1,2,3,4,5,6] 0 1 13 16 3 0 7"

definition toy_evs :: "smp_event list" where
  "toy_evs = [Start, Feed [2, 1, 0, 13, 16, 0, 0], Feed (key_pdu toy 7),
     Feed ([SMP_PAIRING_CONFIRM] @ zeros 16), Feed ([SMP_PAIRING_RANDOM] @ zeros 16), User True,
     Feed ([SMP_PAIRING_DHKEY_CHECK] @ zeros 16)]"

lemma toy_agrees: "crypto_agrees toy 5 7"
  by (simp add: crypto_agrees_def toy_def)

lemma and_13 [simp]: "(13 :: nat) AND 8 = 8" "(13 :: nat) AND 4 = 4"
  by (simp_all add: and_nat_def)

lemma toy_method: "chosen_method 1 13 1 13 = METHOD_NUMERIC"
  by (simp add: chosen_method_def SC_METHOD_def)

lemma toy_honest: "honest_pair toy toy_central toy_responder"
  using toy_agrees toy_method
  by (simp add: honest_pair_def toy_central_def toy_responder_def central_init_def responder_init_def
      own_form_def peer_form_def address_form_def)

lemma toy_values [simp]: "f4 toy u v x z = zeros 16" "f6 toy w n1 n2 r io a1 a2 = zeros 16"
  "f5 toy dh n1 n2 a1 a2 = (zeros 16, zeros 16)"
  by (simp_all add: f4_def f6_def f5_def toy_def)

lemma toy_complete: "state (central_run toy toy_evs toy_central) = COMPLETE"
proof -
  obtain dh where dh: "shared_secret toy 5 (key_x toy 7) (key_y toy 7) = Some dh"
    "\<not> (key_x toy 7 = key_x toy 5 \<and> key_y toy 7 = key_y toy 5)"
    using agreed_secret [OF toy_agrees] by metis
  have resp: "state c = WAIT_RESPONSE \<Longrightarrow> auth_req c = 13 \<Longrightarrow> io_cap c = 1 \<Longrightarrow>
    central_feed toy [2, 1, 0, 13, 16, 0, 0] c = (Inr (), c\<lparr>pres := Some [2, 1, 0, 13, 16, 0, 0],
      peer_io_cap := Some 1, peer_auth_req := Some 13, method := Some METHOD_NUMERIC,
      state := WAIT_PUBLIC_KEY, out := out c @ [key_pdu toy (keypair c)]\<rparr>)" for c
    using step_response [of c _ 1 13 16 0 0 toy] toy_method by simp
  have pk: "state c = WAIT_PUBLIC_KEY \<Longrightarrow> keypair c = 5 \<Longrightarrow> central_feed toy (key_pdu toy 7) c =
    (Inr (), c\<lparr>peer_x := Some (key_x toy 7), peer_y := Some (key_y toy 7), dhkey := Some dh,
       state := WAIT_CONFIRM\<rparr>)" for c
    using step_public_key_c [of c _ toy 7 dh] dh by simp
  show ?thesis
    using central_start_ok [of toy_central]
    by (simp add: central_run_def toy_evs_def resp pk step_confirm step_random_c step_check_c
       central_user_confirm_def step_send_check toy_central_def central_init_def Let_def
       del: append_Cons)
qed

definition toy_revs :: "smp_event list" where
  "toy_revs = [Feed [1, 1, 0, 13, 16, 0, 0], Feed (key_pdu toy 5), Feed ([SMP_PAIRING_RANDOM] @ zeros 16)]"

lemma toy_responder_waits:
  defines "r \<equiv> responder_run toy toy_revs toy_responder"
  shows "rstate r = R_WAIT_USER_OR_CHECK \<and> ea r = None \<and> user_accepted r = None \<and>
    preq r = Some [1, 1, 0, 13, 16, 0, 0] \<and> pres r = Some [2, 1, 0, 13, 16, 0, 0] \<and>
    mac_key r = Some (zeros 16) \<and> na r = Some (zeros 16) \<and> nb r = Some (zeros 16)"
proof -
  obtain dh where dh: "shared_secret toy 7 (key_x toy 5) (key_y toy 5) = Some dh"
    using agreed_secret [OF toy_agrees] by metis
  have "\<exists>rq. responder_feed toy [1, 1, 0, 13, 16, 0, 0] toy_responder = (Inr (), toy_responder\<lparr>
      preq := Some [1, 1, 0, 13, 16, 0, 0], request := rq, method := Some METHOD_NUMERIC,
      init_keys := 0, pres := Some [2, 1, 0, 13, 16, 0, 0], rstate := R_WAIT_PUBLIC_KEY,
      out := [[2, 1, 0, 13, 16, 0, 0]]\<rparr>)"
    using step_request [of toy_responder _ 1 0 13 16 0 0 toy] toy_method
    by (simp add: toy_responder_def responder_init_def)
  then obtain rq where req: "responder_feed toy [1, 1, 0, 13, 16, 0, 0] toy_responder = (Inr (),
      toy_responder\<lparr>preq := Some [1, 1, 0, 13, 16, 0, 0], request := rq, method := Some METHOD_NUMERIC,
      init_keys := 0, pres := Some [2, 1, 0, 13, 16, 0, 0], rstate := R_WAIT_PUBLIC_KEY,
      out := [[2, 1, 0, 13, 16, 0, 0]]\<rparr>)" ..
  have pk: "rstate r = R_WAIT_PUBLIC_KEY \<Longrightarrow> keypair r = 7 \<Longrightarrow> nb r = Some rb \<Longrightarrow>
    responder_feed toy (key_pdu toy 5) r = (Inr (), r\<lparr>peer_x := Some (key_x toy 5),
      peer_y := Some (key_y toy 5), dhkey := Some dh, rstate := R_WAIT_RANDOM,
      out := out r @ [key_pdu toy 7, [SMP_PAIRING_CONFIRM] @ zeros 16]\<rparr>)" for r rb
    using step_public_key_r [of r _ toy 5 dh rb] dh by simp
  show ?thesis
    using req unfolding r_def
    by (simp add: responder_run_def toy_revs_def pk step_random_r toy_responder_def responder_init_def
        Let_def del: append_Cons)
qed

lemma toy_responder_completes:
  "rstate (responder_run toy (toy_revs @ [User True, Feed ([SMP_PAIRING_DHKEY_CHECK] @ zeros 16)])
     toy_responder) = R_COMPLETE"
proof -
  let ?r = "responder_run toy toy_revs toy_responder"
  have acc: "responder_user_confirm toy True ?r = (Inr (), ?r\<lparr>user_accepted := Some True\<rparr>)"
    using toy_responder_waits by (simp add: responder_user_confirm_def responder_finish_def)
  have chk: "\<exists>r'. responder_feed toy ([SMP_PAIRING_DHKEY_CHECK] @ zeros 16) (?r\<lparr>user_accepted := Some True\<rparr>)
      = (Inr (), r') \<and> rstate r' = R_COMPLETE"
    using toy_responder_waits
      step_check_r [of "?r\<lparr>user_accepted := Some True\<rparr>" "[SMP_PAIRING_DHKEY_CHECK] @ zeros 16" "zeros 16"]
    by simp
  have "responder_run toy (toy_revs @ [User True, Feed ([SMP_PAIRING_DHKEY_CHECK] @ zeros 16)]) toy_responder
    = snd (responder_feed toy ([SMP_PAIRING_DHKEY_CHECK] @ zeros 16) (snd (responder_user_confirm toy True ?r)))"
    by (simp add: responder_run_def)
  with acc chk show ?thesis by auto
qed

section \<open>The hypotheses can be met\<close>

theorem honest_pairing_completes_witness:
  "\<exists>c r key n. pair_up toy toy_central toy_responder = (c, r) \<and> state c = COMPLETE \<and>
     rstate r = R_COMPLETE \<and> ltk c = Some key \<and> ltk r = Some key \<and> numeric_value c = Some n \<and>
     numeric_value r = Some n"
proof -
  have "io_cap toy_central = 1" "auth_req toy_central = 13" "io_cap toy_responder = 1"
    "auth_req toy_responder = 13"
    by (simp_all add: toy_central_def toy_responder_def central_init_def responder_init_def)
  with honest_pairing_completes [OF toy_honest refl] toy_method show ?thesis by auto
qed

theorem central_complete_authenticated_witness:
  defines "c \<equiv> central_run toy toy_evs toy_central"
  shows "state c = COMPLETE \<and> (\<exists>res px py rb. pres c = Some res \<and> peer_x c = Some px \<and> nb c = Some rb \<and>
    {Feed res, Feed ([SMP_PAIRING_PUBLIC_KEY] @ px @ py), Feed ([SMP_PAIRING_RANDOM] @ rb)} \<subseteq> set toy_evs \<and>
    unat (res ! 4) \<in> {7..16})"
proof -
  have c: "c = central_run toy toy_evs
      (central_init (\<lambda>i n. zeros n) [1,2,3,4,5,6] 0 [6,5,4,3,2,1] 1 1 13 16 0 0 5)"
    by (simp add: c_def toy_central_def)
  have "state c = COMPLETE" by (simp add: c_def toy_complete)
  with central_complete_authenticated [OF c this] show ?thesis by blast
qed

theorem central_never_raises_witness:
  "central_run toy [Feed [5, 8]] (central_run toy toy_evs
      (central_init (\<lambda>i n. zeros n) [1,2,3,4,5,6] 0 [6,5,4,3,2,1] 1 1 13 16 0 0 5)) =
   central_run toy toy_evs (central_init (\<lambda>i n. zeros n) [1,2,3,4,5,6] 0 [6,5,4,3,2,1] 1 1 13 16 0 0 5)"
proof -
  have "central_done (central_run toy toy_evs
      (central_init (\<lambda>i n. zeros n) [1,2,3,4,5,6] 0 [6,5,4,3,2,1] 1 1 13 16 0 0 5))"
    using toy_complete by (simp add: central_done_def toy_central_def)
  with central_never_raises [where K = toy and evs = toy_evs and evs' = "[Feed [5, 8]]"]
  show ?thesis by blast
qed

theorem responder_complete_authenticated_witness:
  "\<exists>req key. preq (responder_run toy (toy_revs @ [User True, Feed ([SMP_PAIRING_DHKEY_CHECK] @ zeros 16)])
       toy_responder) = Some req \<and> Feed req \<in> set toy_revs \<and>
     ltk (responder_run toy (toy_revs @ [User True, Feed ([SMP_PAIRING_DHKEY_CHECK] @ zeros 16)])
       toy_responder) = Some key"
proof -
  let ?evs = "toy_revs @ [User True, Feed ([SMP_PAIRING_DHKEY_CHECK] @ zeros 16)]"
  have r: "responder_run toy ?evs toy_responder = responder_run toy ?evs
      (responder_init (\<lambda>i n. zeros n) [6,5,4,3,2,1] 1 [1,2,3,4,5,6] 0 1 13 16 3 0 7)"
    by (simp add: toy_responder_def)
  from responder_complete_authenticated [OF _ _ r, where pdu = "[]"] toy_responder_completes
  obtain req key where "preq (responder_run toy ?evs toy_responder) = Some req" "Feed req \<in> set ?evs"
    "ltk (responder_run toy ?evs toy_responder) = Some key" "unat (req ! 3) AND AUTH_SC \<noteq> 0" by auto
  moreover from this have "req \<noteq> [SMP_PAIRING_DHKEY_CHECK] @ zeros 16" by auto
  ultimately show ?thesis by auto
qed

theorem responder_order_irrelevant_witness:
  "responder_run toy [User True, Feed ([SMP_PAIRING_DHKEY_CHECK] @ zeros 16)]
      (responder_run toy toy_revs toy_responder)
   = responder_run toy [Feed ([SMP_PAIRING_DHKEY_CHECK] @ zeros 16), User True]
      (responder_run toy toy_revs toy_responder)"
  by (rule responder_order_irrelevant [THEN conjunct1, of 1 13 _ toy toy_revs "\<lambda>i n. zeros n" "[6,5,4,3,2,1]" 1
        "[1,2,3,4,5,6]" 0 16 3 0 7])
    (use toy_responder_waits in \<open>simp_all add: toy_responder_def\<close>)

end
