(* ===== verification/Hci_Engine.thy ===== *)
theory Hci_Engine
  imports Framing "HOL-Library.Sublist"
begin

text \<open>
  The HCI engine every procedure runs on: class \<open>Hci\<close> of
  \<open>python/hcicontroller/hci_ble_test_impl.py\<close> with the transport wrapper of
  \<open>python/hcicontroller/hci_ble_test.py\<close> (the subclass the package exports).

  The controller is the environment. \<open>wire\<close> is what \<open>transport.read_packet\<close> will produce: each
  entry has the delay in microseconds after the previous one and either a packet or the exception
  the transport raises; \<open>tx_faults\<close> is what the next \<open>transport.write_packet\<close> calls do. Both are
  arbitrary, so a statement about every \<open>wire\<close> covers every controller, however it reacts.
  \<open>clock\<close> is \<open>time.time()\<close> in microseconds and \<open>sent\<close> the packets written so far.
\<close>

section \<open>State\<close>

record hci =
  pending :: "packet list"
  ltk_request :: "nat option"
  encryption :: "(byte \<times> byte) option"
  acl_credits :: int
  acl_advertised :: nat
  acl_completed :: nat
  link_down :: "(byte \<times> nat \<times> byte) option"
  acl_size :: nat
  unsupported :: "(string \<times> string) list"
  wire :: "(nat \<times> packet result) list"
  clock :: nat
  tx_faults :: "exn option list"
  sent :: "bytes list"

definition hci_init :: "(nat \<times> packet result) list \<Rightarrow> exn option list \<Rightarrow> nat \<Rightarrow> hci" where
  "hci_init w f t = \<lparr>pending = [], ltk_request = None, encryption = None, acl_credits = 0,
     acl_advertised = 0, acl_completed = 0, link_down = None, acl_size = 27, unsupported = [],
     wire = w, clock = t, tx_faults = f, sent = []\<rparr>"

section \<open>Transport wrapper\<close>

text \<open>\<open>TransportGone\<close> becomes \<open>HciGone\<close>, \<open>TransportError\<close> becomes \<open>HciError\<close>.\<close>

fun wrap_exn :: "exn \<Rightarrow> exn" where
  "wrap_exn (TransportGone m) = HciGone m"
| "wrap_exn (TransportError m args) = HciError m args"
| "wrap_exn e = e"

definition hci_write_packet :: "bytes \<Rightarrow> (hci, unit) action" where
  "hci_write_packet data h =
     (case tx_faults h of
        Some e # fs \<Rightarrow> (Inl (wrap_exn e), h\<lparr>tx_faults := fs\<rparr>)
      | None # fs \<Rightarrow> (Inr (), h\<lparr>tx_faults := fs, sent := sent h @ [data]\<rparr>)
      | [] \<Rightarrow> (Inr (), h\<lparr>sent := sent h @ [data]\<rparr>))"

text \<open>The loop over the completed-packet counts of event 0x13: entry \<open>i\<close> of \<open>n\<close>.\<close>

function credit_loop :: "nat \<Rightarrow> nat \<Rightarrow> bytes \<Rightarrow> (hci, unit) action" where
  "credit_loop n i body h =
     (if n \<le> i then (Inr (), h)
      else let off = 1 + i * 4 in
        case unpack_le 2 (pslice (off + 2) (off + 4) body) of
          Inl e \<Rightarrow> (Inl e, h)
        | Inr done \<Rightarrow>
            credit_loop n (Suc i) body
              (h\<lparr>acl_credits := acl_credits h + int done, acl_completed := acl_completed h + done\<rparr>))"
  by pat_completeness auto
termination
  by (relation "measure (\<lambda>(n, i, _, _). n - i)") auto

declare credit_loop.simps [simp del]

definition on_event :: "byte \<Rightarrow> bytes \<Rightarrow> (hci, unit) action" where
  "on_event code body h0 =
     (let h1 = (if code = EVT_DISCONNECTION_COMPLETE \<and> 4 \<le> length body
                then h0\<lparr>link_down := Some (body ! 0, from_le (pslice 1 3 body), body ! 3)\<rparr> else h0);
          h2 = (if code = EVT_LE_META \<and> 3 \<le> length body \<and> body ! 0 = LE_LONG_TERM_KEY_REQUEST
                then h1\<lparr>ltk_request := Some (from_le (pslice 1 3 body))\<rparr> else h1);
          h3 = (if code = EVT_ENCRYPTION_CHANGE \<and> 4 \<le> length body
                then h2\<lparr>encryption := Some (body ! 0, body ! 3)\<rparr> else h2)
      in if code = EVT_NUM_COMPLETED_PACKETS \<and> 1 \<le> length body
         then credit_loop (unat (body ! 0)) 0 body h3
         else (Inr (), h3))"

definition read_wire :: "nat \<Rightarrow> (hci, packet option) action" where
  "read_wire timeout h =
     (case wire h of
        [] \<Rightarrow> (Inr None, h\<lparr>clock := clock h + timeout\<rparr>)
      | (delay, outcome) # rest \<Rightarrow>
          if timeout < delay
          then (Inr None, h\<lparr>clock := clock h + timeout, wire := (delay - timeout, outcome) # rest\<rparr>)
          else let h' = h\<lparr>clock := clock h + delay, wire := rest\<rparr> in
            case outcome of
              Inl e \<Rightarrow> (Inl (wrap_exn e), h')
            | Inr (kind, code, body) \<Rightarrow>
                (case (kind = H4_EVENT, code) of
                   (True, Some c) \<Rightarrow>
                     bind_s (on_event c body) (\<lambda>_. ret (Some (kind, code, body))) h'
                 | _ \<Rightarrow> (Inr (Some (kind, code, body)), h')))"

definition hci_read_packet :: "nat \<Rightarrow> (hci, packet option) action" where
  "hci_read_packet timeout h =
     (case pending h of
        p # ps \<Rightarrow> (Inr (Some p), h\<lparr>pending := ps\<rparr>)
      | [] \<Rightarrow> read_wire timeout h)"

section \<open>Every read makes progress\<close>

text \<open>What a loop with a deadline consumes: queued packets, wire entries, or time.\<close>

definition budget :: "nat \<Rightarrow> hci \<Rightarrow> nat" where
  "budget deadline h = length (pending h) + length (wire h) + (deadline - clock h)"

lemma credit_loop_frame [simp]:
  "pending (snd (credit_loop n i body h)) = pending h"
  "wire (snd (credit_loop n i body h)) = wire h"
  "clock (snd (credit_loop n i body h)) = clock h"
  "sent (snd (credit_loop n i body h)) = sent h"
  "link_down (snd (credit_loop n i body h)) = link_down h"
  by (induction n i body h rule: credit_loop.induct)
    (subst credit_loop.simps; simp add: Let_def split: sum.splits)+

lemma on_event_frame [simp]:
  "pending (snd (on_event c body h)) = pending h"
  "wire (snd (on_event c body h)) = wire h"
  "clock (snd (on_event c body h)) = clock h"
  "sent (snd (on_event c body h)) = sent h"
  by (simp_all add: on_event_def Let_def)

text \<open>The packets still on the wire, in order.\<close>

fun packets_of :: "(nat \<times> packet result) list \<Rightarrow> packet list" where
  "packets_of [] = []"
| "packets_of ((_, Inr p) # w) = p # packets_of w"
| "packets_of ((_, Inl e) # w) = packets_of w"

lemma read_wire_spec:
  "case read_wire timeout h of
     (Inr None, h') \<Rightarrow> pending h' = pending h \<and> packets_of (wire h') = packets_of (wire h) \<and>
        length (wire h') = length (wire h) \<and> clock h' = clock h + timeout \<and> sent h' = sent h
   | (Inr (Some p), h') \<Rightarrow> pending h' = pending h \<and> packets_of (wire h) = p # packets_of (wire h') \<and>
        length (wire h) = Suc (length (wire h')) \<and> clock h \<le> clock h' \<and>
        clock h' \<le> clock h + timeout \<and> sent h' = sent h
   | (Inl e, h') \<Rightarrow> pending h' = pending h \<and> sent h' = sent h"
proof (cases "wire h")
  case Nil
  then show ?thesis by (simp add: read_wire_def)
next
  case (Cons x rest)
  obtain delay outcome where x: "x = (delay, outcome)" by fastforce
  show ?thesis
  proof (cases "timeout < delay")
    case True
    with Cons x show ?thesis by (cases outcome) (simp_all add: read_wire_def)
  next
    case False
    show ?thesis
    proof (cases outcome)
      case (Inl e)
      with Cons x False show ?thesis by (simp add: read_wire_def Let_def)
    next
      case (Inr p)
      obtain kind code body where p: "p = (kind, code, body)" by (metis prod_cases3)
      let ?h = "h\<lparr>clock := clock h + delay, wire := rest\<rparr>"
      show ?thesis
        using Cons x False Inr p on_event_frame [of "the code" body ?h]
        by (cases "on_event (the code) body ?h"; cases "fst (on_event (the code) body ?h)")
          (auto simp: read_wire_def Let_def bind_s_def split: option.splits bool.splits)
    qed
  qed
qed

lemma hci_read_packet_budget:
  assumes "hci_read_packet timeout h = (Inr out, h')" "0 < timeout" "clock h < deadline"
  shows "budget deadline h' < budget deadline h"
proof (cases "pending h")
  case Nil
  with assms(1) have "read_wire timeout h = (Inr out, h')" by (simp add: hci_read_packet_def)
  with read_wire_spec [of h timeout] assms(2,3) show ?thesis
    by (cases out) (auto simp: budget_def)
next
  case (Cons p ps)
  with assms show ?thesis by (auto simp: hci_read_packet_def budget_def)
qed

section \<open>Commands\<close>

definition command_header :: "nat \<Rightarrow> bytes \<Rightarrow> bytes result" where
  "command_header opcode payload =
     bind_r (pack_le 2 opcode) (\<lambda>op.
     bind_r (pack_le 1 (length payload)) (\<lambda>len.
     Inr ([H4_COMMAND] @ op @ len @ payload)))"

text \<open>The test each packet read by \<open>command\<close> is put to. \<open>None\<close>: not the answer, defer it.
  Otherwise the message of the failure it would be, the status and the return parameters. The opcode field is unpacked only after the event
  code matched, and unpacking a short event raises.\<close>

definition command_answer :: "nat \<Rightarrow> packet \<Rightarrow> (string \<times> byte \<times> bytes) option result" where
  "command_answer opcode p =
     (case p of (kind, code, body) \<Rightarrow>
        if kind = H4_EVENT \<and> code = Some EVT_COMMAND_COMPLETE then
          bind_r (unpack_le 2 (pslice 1 3 body)) (\<lambda>op.
            if op = opcode
            then Inr (Some (''opcode 0x%04X returned 0x%02X %s'',
                            if 3 < length body then body ! 3 else 0, drop 4 body))
            else Inr None)
        else if kind = H4_EVENT \<and> code = Some EVT_COMMAND_STATUS then
          bind_r (unpack_le 2 (pslice 2 4 body)) (\<lambda>op.
            if op = opcode
            then bind_r (byte_at body 0) (\<lambda>status.
              Inr (Some (''opcode 0x%04X status 0x%02X %s'', status, [])))
            else Inr None)
        else Inr None)"

function command_loop ::
  "nat \<Rightarrow> bool \<Rightarrow> nat \<Rightarrow> packet list \<Rightarrow> (hci, byte \<times> bytes) action" where
  "command_loop opcode allow_fail deadline deferred h =
     (if clock h < deadline then
        (case hci_read_packet 200000 h of
           (Inl e, h') \<Rightarrow> (Inl e, h')
         | (Inr None, h') \<Rightarrow> command_loop opcode allow_fail deadline deferred h'
         | (Inr (Some p), h') \<Rightarrow>
             (case command_answer opcode p of
                Inl e \<Rightarrow> (Inl e, h')
              | Inr None \<Rightarrow> command_loop opcode allow_fail deadline (deferred @ [p]) h'
              | Inr (Some (msg, status, data)) \<Rightarrow>
                  let h'' = h'\<lparr>pending := pending h' @ deferred\<rparr> in
                  if status \<noteq> 0 \<and> \<not> allow_fail
                  then (Inl (HciError msg [opcode, unat status]), h'')
                  else (Inr (status, data), h'')))
      else (Inl (HciError ''no event for opcode 0x%04X'' [opcode]),
            h\<lparr>pending := pending h @ deferred\<rparr>))"
  by pat_completeness auto
termination
  by (relation "measure (\<lambda>(_, _, deadline, _, h). budget deadline h)")
    (auto intro: hci_read_packet_budget [OF sym])

declare command_loop.simps [simp del]

definition command :: "nat \<Rightarrow> bytes \<Rightarrow> nat \<Rightarrow> bool \<Rightarrow> (hci, byte \<times> bytes) action" where
  "command opcode payload timeout allow_fail =
     bind_s (lift_r (command_header opcode payload)) (\<lambda>packet.
     bind_s (hci_write_packet packet) (\<lambda>_. \<lambda>h.
     command_loop opcode allow_fail (clock h + timeout) [] h))"

section \<open>The other operations of the engine\<close>

abbreviation (input) OP_DISCONNECT :: nat where "OP_DISCONNECT \<equiv> 0x0406"
abbreviation (input) OP_RESET :: nat where "OP_RESET \<equiv> 0x0C03"
abbreviation (input) OP_SET_EVENT_MASK :: nat where "OP_SET_EVENT_MASK \<equiv> 0x0C01"
abbreviation (input) OP_READ_BD_ADDR :: nat where "OP_READ_BD_ADDR \<equiv> 0x1009"
abbreviation (input) OP_LE_SET_EVENT_MASK :: nat where "OP_LE_SET_EVENT_MASK \<equiv> 0x2001"
abbreviation (input) OP_LE_READ_BUFFER_SIZE :: nat where "OP_LE_READ_BUFFER_SIZE \<equiv> 0x2002"
abbreviation (input) OP_LE_SET_RANDOM_ADDRESS :: nat where "OP_LE_SET_RANDOM_ADDRESS \<equiv> 0x2005"
abbreviation (input) OP_VS_READ_STATIC_ADDRESSES :: nat where
  "OP_VS_READ_STATIC_ADDRESSES \<equiv> 0xFC09"
abbreviation (input) OP_VS_READ_COUNTERS :: nat where "OP_VS_READ_COUNTERS \<equiv> 0xFFF0"

text \<open>\<open>command(opcode, payload)\<close> with the default timeout of three seconds.\<close>

abbreviation (input) command3 :: "nat \<Rightarrow> bytes \<Rightarrow> (hci, byte \<times> bytes) action" where
  "command3 opcode payload \<equiv> command opcode payload 3000000 False"

definition send_acl :: "nat \<Rightarrow> nat \<Rightarrow> bytes \<Rightarrow> (hci, unit) action" where
  "send_acl handle cid payload =
     bind_s (lift_r (pack_le 2 (length payload))) (\<lambda>len.
     bind_s (lift_r (pack_le 2 cid)) (\<lambda>channel.
     let l2cap = len @ channel @ payload in
     bind_s (lift_r (pack_le 2 handle)) (\<lambda>hd16.
     bind_s (lift_r (pack_le 2 (length l2cap))) (\<lambda>total.
     bind_s (hci_write_packet ([H4_ACL] @ hd16 @ total @ l2cap)) (\<lambda>_. \<lambda>h.
     (Inr (), h\<lparr>acl_credits := acl_credits h - 1\<rparr>))))))"

fun counter_words :: "nat \<Rightarrow> nat \<Rightarrow> bytes \<Rightarrow> nat list result" where
  "counter_words i 0 data = Inr []"
| "counter_words i (Suc n) data =
     bind_r (unpack_le 4 (pslice (1 + i * 4) (1 + i * 4 + 4) data)) (\<lambda>v.
     bind_r (counter_words (Suc i) n data) (\<lambda>vs. Inr (v # vs)))"

definition read_counters :: "(hci, nat list option) action" where
  "read_counters =
     bind_s (command OP_VS_READ_COUNTERS [] 3000000 True) (\<lambda>(status, data).
       if status \<noteq> 0 \<or> data = [] then ret None
       else bind_s (lift_r (counter_words 0 ((length data - 1) div 4) data)) (\<lambda>vs. ret (Some vs)))"

definition hci_setup :: "(hci, unit) action" where
  "hci_setup =
     bind_s (command3 OP_RESET []) (\<lambda>_.
     bind_s (command3 OP_SET_EVENT_MASK [0xff, 0xff, 0xff, 0xff, 0xff, 0xff, 0xff, 0x3f]) (\<lambda>_.
     bind_s (command3 OP_LE_SET_EVENT_MASK [0xff, 0xff, 0, 0, 0, 0, 0, 0]) (\<lambda>_.
     bind_s (command3 OP_LE_READ_BUFFER_SIZE []) (\<lambda>(_, data).
     if length data < 3 then throw StructError
     else let size = from_le (take 2 data); count = unat (data ! 2) in
       (\<lambda>h. (Inr (), if size = 0 then h
                     else h\<lparr>acl_size := size, acl_credits := int count, acl_advertised := count\<rparr>))))))"

definition identity :: "bytes option \<Rightarrow> (hci, bytes \<times> byte \<times> string) action" where
  "identity override =
     (if override \<noteq> None \<and> override \<noteq> Some []
      then ret (the override, 0x01, ''assigned on the command line'')
      else
        bind_s (command3 OP_READ_BD_ADDR []) (\<lambda>(_, data).
        if take 6 data \<noteq> zeros 6
        then ret (take 6 data, 0x00, ''public, programmed in the controller'')
        else
          bind_s (command OP_VS_READ_STATIC_ADDRESSES [] 3000000 True) (\<lambda>(status, data).
          if status = 0 \<and> data \<noteq> [] \<and> data ! 0 \<noteq> 0
          then ret (pslice 1 7 data, 0x01, ''static random, from the controller'')
          else (\<lambda>h.
            let h' = (if status = 0x01
                      then h\<lparr>unsupported := unsupported h
                               @ [(''0xFC09'', ''VS Read Static Addresses'')]\<rparr> else h)
            in (Inr (to_le 4 (clock h div 1000000) @ [0x5A, 0xC0 OR 0x2A], 0x01,
                     ''static random, assigned by this script''), h')))))"

section \<open>Addresses as text\<close>

text \<open>\<open>sep.join(ds)\<close>.\<close>

definition join_text :: "char \<Rightarrow> string list \<Rightarrow> string" where
  "join_text sep ds = (case ds of [] \<Rightarrow> '''' | d # ds \<Rightarrow> d @ concat (map (\<lambda>x. sep # x) ds))"

definition addr_str :: "bytes \<Rightarrow> string" where
  "addr_str raw = join_text CHR '':'' (map (\<lambda>b. hex_pad 2 (unat b)) (rev raw))"

text \<open>\<open>int(c, 16)\<close> of one character, and \<open>bytes.fromhex\<close> on a string of even length without
  blanks (the blanks are removed first, and the length is checked first).\<close>

definition hex_digit :: "char \<Rightarrow> nat option" where
  "hex_digit c =
     (let n = of_char c :: nat in
      if 48 \<le> n \<and> n \<le> 57 then Some (n - 48)
      else if 65 \<le> n \<and> n \<le> 70 then Some (n - 55)
      else if 97 \<le> n \<and> n \<le> 102 then Some (n - 87)
      else None)"

fun fromhex :: "string \<Rightarrow> bytes option" where
  "fromhex [] = Some []"
| "fromhex [c] = None"
| "fromhex (c # d # cs) =
     (case (hex_digit c, hex_digit d, fromhex cs) of
        (Some a, Some b, Some bs) \<Rightarrow> Some (of_nat (16 * a + b) # bs)
      | _ \<Rightarrow> None)"

definition addr_bytes :: "string \<Rightarrow> bytes result" where
  "addr_bytes text =
     (let cleaned = filter (\<lambda>c. c \<notin> {CHR '':'', CHR ''-'', CHR '' ''}) text in
      if length cleaned \<noteq> 12
      then Inl (ValueError ''%r is not a six octet address. Give it as AA:BB:CC:DD:EE:FF, AA-BB-CC-DD-EE-FF or aabbccddeeff.'')
      else case fromhex cleaned of
             None \<Rightarrow> Inl (ValueError ''%r has a character that is not a hex digit'')
           | Some raw \<Rightarrow> Inr (rev raw))"

section \<open>The contract every procedure on the engine keeps\<close>

text \<open>How many ACL packets were written, and the credit balance: credits, less the completions the
  controller has reported, plus the packets sent. Flow control is right when it never changes.\<close>

definition acl_sent :: "hci \<Rightarrow> nat" where
  "acl_sent h = length (filter (\<lambda>p. take 1 p = [H4_ACL]) (sent h))"

definition acl_balance :: "hci \<Rightarrow> int" where
  "acl_balance h = acl_credits h - int (acl_completed h) + int (acl_sent h)"

text \<open>What a client may rely on, whatever the controller does and whether or not the procedure
  raised: time and the transmitted sequence only grow, the wire is only consumed, completions are
  only added, and the credit balance is kept.\<close>

definition later :: "hci \<Rightarrow> hci \<Rightarrow> bool" where
  "later h h' \<longleftrightarrow> clock h \<le> clock h' \<and> prefix (sent h) (sent h') \<and>
     length (wire h') \<le> length (wire h) \<and> acl_completed h \<le> acl_completed h' \<and>
     acl_advertised h' = acl_advertised h \<and> acl_size h' = acl_size h \<and>
     prefix (unsupported h) (unsupported h') \<and> acl_balance h' = acl_balance h"

lemma later_refl [simp, intro]: "later h h"
  by (simp add: later_def)

lemma later_trans: "later a b \<Longrightarrow> later b c \<Longrightarrow> later a c"
  by (auto simp: later_def)

locale hci_procedure =
  fixes act :: "(hci, 'a) action"
  assumes later: "later h (snd (act h))"
begin

lemma sent_extends: "\<exists>ps. sent (snd (act h)) = sent h @ ps"
  using later [of h] by (auto simp: later_def prefix_def)

lemma time_passes: "act h = (r, h') \<Longrightarrow> clock h \<le> clock h'"
  using later [of h] by (auto simp: later_def)

lemma credits_conserved: "act h = (r, h') \<Longrightarrow> acl_balance h' = acl_balance h"
  using later [of h] by (auto simp: later_def)

end

lemma procedure_ret [simp, intro]: "hci_procedure (ret x)"
  "hci_procedure (throw e)" "hci_procedure (lift_r m)"
  by (unfold_locales; simp)+

lemma procedure_bind [intro]:
  assumes "hci_procedure m" "\<And>x. hci_procedure (f x)"
  shows "hci_procedure (bind_s m f)"
proof
  fix h
  have "later h (snd (m h))" using assms(1) by (rule hci_procedure.later)
  moreover have "later h1 (snd (f x h1))" for x h1 using assms(2) by (rule hci_procedure.later)
  ultimately show "later h (snd (bind_s m f h))"
    by (auto simp: bind_s_def split: prod.splits sum.splits) (metis later_trans snd_conv)
qed

lemma procedure_if [intro]:
  "hci_procedure a \<Longrightarrow> hci_procedure b \<Longrightarrow> hci_procedure (if c then a else b)"
  by simp

lemma credit_loop_later: "later h (snd (credit_loop n i body h))"
proof (induction n i body h rule: credit_loop.induct)
  case (1 n i body h)
  show ?case
  proof (cases "n \<le> i")
    case True
    then show ?thesis by (simp add: credit_loop.simps)
  next
    case False
    let ?word = "unpack_le 2 (pslice (1 + i * 4 + 2) (1 + i * 4 + 4) body)"
    show ?thesis
    proof (cases ?word)
      case (Inl e)
      with False show ?thesis by (subst credit_loop.simps) (simp add: Let_def)
    next
      case (Inr d)
      let ?h = "h\<lparr>acl_credits := acl_credits h + int d, acl_completed := acl_completed h + d\<rparr>"
      have "later h ?h" by (simp add: later_def acl_balance_def acl_sent_def)
      with 1 [OF False refl Inr] later_trans False Inr show ?thesis
        by (subst credit_loop.simps) (auto simp: Let_def)
    qed
  qed
qed

lemma on_event_later: "later h (snd (on_event code body h))"
proof -
  have fields: "later h (h\<lparr>link_down := l, ltk_request := k, encryption := e\<rparr>)" for l k e
    by (simp add: later_def acl_balance_def acl_sent_def)
  have "later h h3 \<Longrightarrow> later h (snd (credit_loop n i body h3))" for h3 n i
    by (rule later_trans [OF _ credit_loop_later])
  moreover have "later h h1 \<Longrightarrow> later h (h1\<lparr>link_down := l\<rparr>)"
    "later h h1 \<Longrightarrow> later h (h1\<lparr>ltk_request := k\<rparr>)"
    "later h h1 \<Longrightarrow> later h (h1\<lparr>encryption := e\<rparr>)" for h1 l k e
    by (simp_all add: later_def acl_balance_def acl_sent_def)
  ultimately show ?thesis by (simp add: on_event_def Let_def)
qed

lemma hci_write_packet_later:
  "take 1 data \<noteq> [H4_ACL] \<Longrightarrow> later h (snd (hci_write_packet data h))"
  by (auto simp: hci_write_packet_def later_def acl_balance_def acl_sent_def
      split: list.splits option.splits)

lemma read_wire_later: "later h (snd (read_wire timeout h))"
proof -
  have step: "later h (h\<lparr>clock := clock h + d, wire := w\<rparr>)" if "length w \<le> length (wire h)" for d w
    using that by (simp add: later_def acl_balance_def acl_sent_def)
  have step': "later h (h\<lparr>clock := clock h + d\<rparr>)" for d
    by (simp add: later_def acl_balance_def acl_sent_def)
  have "later h (snd (on_event c body h1))" if "later h h1" for c body h1
    using that by (rule later_trans [OF _ on_event_later])
  then have ev: "later h (snd (bind_s (on_event c body) (\<lambda>_. ret x) h1))"
    if "later h h1" for c body x h1
    using that by (auto simp: bind_s_def split: prod.splits sum.splits) (metis snd_conv)+
  show ?thesis
    by (auto intro!: ev step step' simp: read_wire_def Let_def split: list.splits sum.splits bool.splits option.splits)
qed

lemma pending_later: "later h (h\<lparr>pending := ps\<rparr>)"
  by (simp add: later_def acl_balance_def acl_sent_def)

interpretation rd: hci_procedure "hci_read_packet timeout" for timeout
proof
  show "later h (snd (hci_read_packet timeout h))" for h
    by (cases "pending h") (simp_all add: hci_read_packet_def read_wire_later pending_later)
qed

lemma command_loop_later: "later h (snd (command_loop opcode af deadline ds h))"
proof (induction opcode af deadline ds h rule: command_loop.induct)
  case (1 opcode af deadline ds h)
  show ?case
  proof (cases "clock h < deadline")
    case False
    then show ?thesis by (simp add: command_loop.simps [of opcode] pending_later)
  next
    case True
    obtain out h' where rp: "hci_read_packet 200000 h = (out, h')" by fastforce
    have l: "later h h'" using rd.later [of h 200000] rp by simp
    note pl = later_trans [OF l pending_later]
    from 1 True rp l later_trans show ?thesis
      by (subst command_loop.simps)
        (auto simp: pl Let_def split: sum.splits option.splits prod.splits)
  qed
qed

interpretation cmd: hci_procedure "command opcode payload timeout allow_fail"
  for opcode payload timeout allow_fail
proof -
  have "hci_procedure (hci_write_packet data)" if "take 1 data \<noteq> [H4_ACL]" for data
    using that by unfold_locales (rule hci_write_packet_later)
  moreover have "hci_procedure (\<lambda>h. command_loop opcode allow_fail (clock h + timeout) [] h)"
    by unfold_locales (rule command_loop_later)
  moreover have "command_header opcode payload = Inr pkt \<Longrightarrow> take 1 pkt \<noteq> [H4_ACL]" for pkt
    by (auto simp: command_header_def bind_r_iff)
  ultimately show "hci_procedure (command opcode payload timeout allow_fail)"
    unfolding command_def
    by (cases "command_header opcode payload") (auto simp: bind_lift_r)
qed

lemma procedure_cases [intro]:
  "(\<And>a b. hci_procedure (f a b)) \<Longrightarrow> hci_procedure (case p of (a, b) \<Rightarrow> f a b)"
  "hci_procedure (g v) \<Longrightarrow> hci_procedure (Let v g)"
  "hci_procedure n \<Longrightarrow> (\<And>x. hci_procedure (s x)) \<Longrightarrow>
     hci_procedure (case z of None \<Rightarrow> n | Some x \<Rightarrow> s x)"
  by (simp_all split: prod.split option.split)

lemmas procedure_intros = procedure_ret procedure_bind procedure_if procedure_cases
  cmd.hci_procedure_axioms rd.hci_procedure_axioms

interpretation acl: hci_procedure "send_acl handle cid payload" for handle cid payload
proof
  fix h
  show "later h (snd (send_acl handle cid payload h))"
    by (auto simp: send_acl_def bind_s_def hci_write_packet_def later_def acl_balance_def acl_sent_def
        Let_def split: list.splits option.splits sum.splits prod.splits)
qed

interpretation counters: hci_procedure read_counters
  unfolding read_counters_def by (intro procedure_intros)

interpretation ident: hci_procedure "identity override" for override
proof -
  have "hci_procedure (\<lambda>h. (Inr (r h), if c then h\<lparr>unsupported := unsupported h @ us\<rparr> else h))"
    for r :: "hci \<Rightarrow> bytes \<times> byte \<times> string" and c us
    by unfold_locales (simp add: later_def acl_balance_def acl_sent_def)
  then show "hci_procedure (identity override)"
    unfolding identity_def Let_def by (intro procedure_intros)
qed

section \<open>What a command returns, and what it leaves behind\<close>

abbreviation (input) not_answer :: "nat \<Rightarrow> packet \<Rightarrow> bool" where
  "not_answer opcode p \<equiv> command_answer opcode p = Inr None"

lemma hci_read_packet_Some:
  assumes "hci_read_packet t h = (Inr (Some p), h')"
  shows "pending h @ packets_of (wire h) = p # pending h' @ packets_of (wire h')" "sent h' = sent h"
    "suffix (pending h') (pending h)"
  using assms read_wire_spec [of h t]
  by (cases "pending h"; auto simp: hci_read_packet_def suffix_def)+

lemma hci_read_packet_None:
  assumes "hci_read_packet t h = (Inr None, h')"
  shows "pending h = []" "pending h' = []" "packets_of (wire h') = packets_of (wire h)"
    "sent h' = sent h" "clock h' = clock h + t"
  using assms read_wire_spec [of h t]
  by (cases "pending h"; auto simp: hci_read_packet_def)+

text \<open>The four ways out of the loop.\<close>

inductive command_end ::
  "nat \<Rightarrow> bool \<Rightarrow> packet list \<Rightarrow> hci \<Rightarrow> (byte \<times> bytes) result \<Rightarrow> hci \<Rightarrow> bool"
  for opcode af ds h where
  answered: "command_end opcode af ds h r h'"
  if "pending h @ packets_of (wire h) = skipped @ ans # left @ packets_of (wire h')"
    "list_all (not_answer opcode) skipped" "command_answer opcode ans = Inr (Some (msg, status, data))"
    "r = (if status \<noteq> 0 \<and> \<not> af then Inl (HciError msg [opcode, unat status])
          else Inr (status, data))"
    "pending h' = left @ ds @ skipped" "suffix left (pending h)" "sent h' = sent h"
| timed_out: "command_end opcode af ds h (Inl (HciError ''no event for opcode 0x%04X'' [opcode])) h'"
  if "pending h @ packets_of (wire h) = skipped @ left @ packets_of (wire h')"
    "list_all (not_answer opcode) skipped"
    "pending h' = left @ ds @ skipped" "suffix left (pending h)" "sent h' = sent h"
| malformed: "command_end opcode af ds h (Inl e) h'"
  if "pending h @ packets_of (wire h) = skipped @ bad # pending h' @ packets_of (wire h')"
    "list_all (not_answer opcode) skipped" "command_answer opcode bad = Inl e" "sent h' = sent h"
| failed_read: "command_end opcode af ds h (Inl e) h'"
  if "pending h @ packets_of (wire h) = skipped @ packets_of (wire h1)"
    "list_all (not_answer opcode) skipped" "pending h1 = []" "read_wire 200000 h1 = (Inl e, h')"
    "sent h' = sent h"

inductive_cases command_endE: "command_end opcode af ds h r h'"

lemma hci_read_packet_Inl:
  "hci_read_packet t h = (Inl e, h') \<Longrightarrow>
     pending h = [] \<and> read_wire t h = (Inl e, h') \<and> sent h' = sent h"
  using read_wire_spec [of h t] by (cases "pending h") (auto simp: hci_read_packet_def)

lemma command_end_None:
  assumes "hci_read_packet t h = (Inr None, h1)" "command_end opcode af ds h1 r h'"
  shows "command_end opcode af ds h r h'"
  using assms(2) by (simp add: command_end.simps hci_read_packet_None [OF assms(1)])

lemma command_end_skip:
  assumes rd: "hci_read_packet t h = (Inr (Some p), h1)" and p: "not_answer opcode p"
    and "command_end opcode af (ds @ [p]) h1 r h'"
  shows "command_end opcode af ds h r h'"
  using assms(3)
proof cases
  case (answered skipped ans left msg status data)
  show ?thesis
    by (rule command_end.answered [where skipped = "p # skipped" and msg = msg and data = data and left = left])
      (use answered hci_read_packet_Some [OF rd] p in \<open>auto dest: suffix_order.trans\<close>)
next
  case (timed_out skipped left)
  show ?thesis unfolding timed_out(1)
    by (rule command_end.timed_out [where skipped = "p # skipped" and left = left])
      (use timed_out hci_read_packet_Some [OF rd] p in \<open>auto dest: suffix_order.trans\<close>)
next
  case (malformed skipped bad e)
  with hci_read_packet_Some [OF rd] p show ?thesis
    by (auto intro!: command_end.malformed [where skipped = "p # skipped"])
next
  case (failed_read skipped h2 e)
  with hci_read_packet_Some [OF rd] p show ?thesis
    by (auto intro!: command_end.failed_read [where skipped = "p # skipped"])
qed

lemma command_loop_end:
  "command_loop opcode af deadline ds h = (r, h') \<Longrightarrow> command_end opcode af ds h r h'"
proof (induction opcode af deadline ds h rule: command_loop.induct)
  case (1 opcode af deadline ds h)
  show ?case
  proof (cases "clock h < deadline")
    case False
    with 1(3) show ?thesis
      by (auto simp: command_loop.simps [of opcode]
          intro!: command_end.timed_out [where skipped = "[]" and left = "pending h"])
  next
    case True
    obtain out h1 where rp: "hci_read_packet 200000 h = (out, h1)" by fastforce
    note unfold = 1(3) True rp command_loop.simps [of opcode af deadline ds h]
    show ?thesis
    proof (cases out)
      case (Inl e)
      with unfold hci_read_packet_Inl [of 200000 h e h1] show ?thesis
        by (auto intro!: command_end.failed_read [where skipped = "[]" and ?h1.0 = h])
    next
      case (Inr po)
      show ?thesis
      proof (cases po)
        case None
        with 1(1) [OF True rp [symmetric] Inr None] unfold Inr command_end_None show ?thesis
          by auto
      next
        case (Some p)
        note rs = hci_read_packet_Some [OF rp [unfolded Inr Some]]
        consider (err) e where "command_answer opcode p = Inl e" | (skip) "not_answer opcode p"
          | (ans) msg status data where "command_answer opcode p = Inr (Some (msg, status, data))"
          by (cases "command_answer opcode p") (auto intro: that, metis option.exhaust prod_cases3)
        then show ?thesis
        proof cases
          case err
          with unfold Inr Some rs show ?thesis
            by (auto intro!: command_end.malformed [where skipped = "[]"])
        next
          case skip
          with 1(2) [OF True rp [symmetric] Inr Some skip] unfold Inr Some show ?thesis
            by (auto intro: command_end_skip [OF rp [unfolded Inr Some] skip])
        next
          case ans
          with unfold Inr Some rs show ?thesis
            by (intro command_end.answered [where skipped = "[]" and left = "pending h1"])
              (auto simp: Let_def split: if_splits)
        qed
      qed
    qed
  qed
qed

section \<open>A controller that answers in time is heard\<close>

text \<open>A packet whose bookkeeping cannot raise: a Number Of Completed Packets event carries as many
  entries as it counts.\<close>

definition event_ok :: "packet \<Rightarrow> bool" where
  "event_ok p = (case p of
      (kind, Some code, body) \<Rightarrow>
        \<not> (kind = H4_EVENT \<and> code = EVT_NUM_COMPLETED_PACKETS \<and> body \<noteq> [] \<and>
           length body < 1 + 4 * unat (body ! 0))
    | _ \<Rightarrow> True)"

lemma credit_loop_ok:
  "1 + 4 * n \<le> length body \<Longrightarrow> fst (credit_loop n i body h) = Inr ()"
proof (induction n i body h rule: credit_loop.induct)
  case (1 n i body h)
  show ?case
  proof (cases "n \<le> i")
    case False
    have "\<exists>d. unpack_le 2 (pslice (1 + i * 4 + 2) (1 + i * 4 + 4) body) = Inr d"
      using False 1(2) by (auto simp: unpack_le_def min_def)
    then obtain d where "unpack_le 2 (pslice (1 + i * 4 + 2) (1 + i * 4 + 4) body) = Inr d" ..
    with 1 False show ?thesis by (subst credit_loop.simps) (simp add: Let_def)
  qed (simp add: credit_loop.simps)
qed

lemma on_event_ok: "event_ok (H4_EVENT, Some c, body) \<Longrightarrow> fst (on_event c body h) = Inr ()"
  by (auto simp: event_ok_def on_event_def Let_def credit_loop_ok)

lemma credit_loop_tx_faults [simp]: "tx_faults (snd (credit_loop n i body h)) = tx_faults h"
  by (induction n i body h rule: credit_loop.induct)
    (subst credit_loop.simps; simp add: Let_def split: sum.splits)

lemma on_event_tx_faults [simp]: "tx_faults (snd (on_event c body h)) = tx_faults h"
  by (simp add: on_event_def Let_def)

lemma read_wire_head:
  assumes "wire h = (d, Inr p) # rest" "d \<le> t" "event_ok p"
  obtains h' where "read_wire t h = (Inr (Some p), h')" "wire h' = rest" "clock h' = clock h + d"
    "pending h' = pending h" "tx_faults h' = tx_faults h"
proof -
  obtain kind code body where p: "p = (kind, code, body)" by (metis prod_cases3)
  let ?h = "h\<lparr>clock := clock h + d, wire := rest\<rparr>"
  show ?thesis
  proof (cases "kind = H4_EVENT \<and> code \<noteq> None")
    case True
    then obtain c where c: "code = Some c" by blast
    with True assms(3) p have "fst (on_event c body ?h) = Inr ()" using on_event_ok by simp
    with assms(1,2) p c True on_event_frame [of c body ?h] on_event_tx_faults [of c body ?h]
    show ?thesis
      by (intro that [of "snd (on_event c body ?h)"])
        (auto simp: read_wire_def Let_def bind_s_def split: prod.splits)
  next
    case False
    with assms(1,2) p show ?thesis
      by (intro that [of ?h]) (auto simp: read_wire_def Let_def split: option.splits bool.splits)
  qed
qed

definition arriving :: "(nat \<times> packet) list \<Rightarrow> (nat \<times> packet result) list" where
  "arriving ws = map (\<lambda>(d, p). (d, Inr p)) ws"

lemma command_loop_hears:
  assumes "pending h = []" "wire h = arriving ws @ (d, Inr ans) # rest"
    "\<forall>p \<in> snd ` set ws. event_ok p \<and> not_answer opcode p"
    "event_ok ans" "command_answer opcode ans = Inr (Some (msg, status, data))"
    "status = 0 \<or> af" "clock h + sum_list (map fst ws) + d < deadline"
  shows "\<exists>h'. command_loop opcode af deadline ds h = (Inr (status, data), h') \<and>
           pending h' = ds @ map snd ws \<and> wire h' = rest"
  using assms
proof (induction opcode af deadline ds h arbitrary: ws d rule: command_loop.induct)
  case (1 opcode af deadline ds h)
  have rp: "hci_read_packet 200000 h = read_wire 200000 h" by (simp add: 1(3) hci_read_packet_def)
  have now: "clock h < deadline" using 1(9) by simp
  obtain d0 p0 w0 where head: "wire h = (d0, Inr p0) # w0" "event_ok p0"
    and d0: "ws = [] \<Longrightarrow> d0 = d \<and> p0 = ans \<and> w0 = rest"
      "ws \<noteq> [] \<Longrightarrow> ws = (d0, p0) # tl ws \<and> w0 = arriving (tl ws) @ (d, Inr ans) # rest"
    using 1(4-6) by (cases ws) (auto simp: arriving_def)
  show ?case
  proof (cases "200000 < d0")
    case True
    let ?h = "h\<lparr>clock := clock h + 200000, wire := (d0 - 200000, Inr p0) # w0\<rparr>"
    have rw: "hci_read_packet 200000 h = (Inr None, ?h)"
      using True head by (simp add: rp read_wire_def)
    have step: "command_loop opcode af deadline ds h = command_loop opcode af deadline ds ?h"
      using now rw by (subst command_loop.simps) simp
    show ?thesis
    proof (cases ws)
      case Nil
      have "\<exists>h'. command_loop opcode af deadline ds ?h = (Inr (status, data), h') \<and>
           pending h' = ds @ map snd ([] :: (nat \<times> packet) list) \<and> wire h' = rest"
        by (rule 1(1) [OF now rw [symmetric] refl refl, of "[]" "d - 200000"])
          (use 1 Nil d0 True in \<open>auto simp: arriving_def\<close>)
      then show ?thesis unfolding step using Nil by simp
    next
      case (Cons x xs)
      have x: "x = (d0, p0)" and w0: "w0 = arriving xs @ (d, Inr ans) # rest"
        using d0(2) Cons by auto
      have "\<exists>h'. command_loop opcode af deadline ds ?h = (Inr (status, data), h') \<and>
           pending h' = ds @ map snd ((d0 - 200000, p0) # xs) \<and> wire h' = rest"
        by (rule 1(1) [OF now rw [symmetric] refl refl, of "(d0 - 200000, p0) # xs" d])
          (use 1 Cons x w0 True in \<open>auto simp: arriving_def\<close>)
      then show ?thesis unfolding step using Cons x by simp
    qed
  next
    case False
    then obtain h1 where h1: "hci_read_packet 200000 h = (Inr (Some p0), h1)" "wire h1 = w0"
      "clock h1 = clock h + d0" "pending h1 = []"
      using read_wire_head [OF head(1) _ head(2), of 200000] 1(3) rp by (metis not_le)
    show ?thesis
    proof (cases ws)
      case Nil
      with 1 d0 h1 now show ?thesis by (subst command_loop.simps) (auto simp: Let_def)
    next
      case (Cons x xs)
      have x: "x = (d0, p0)" and w0: "w0 = arriving xs @ (d, Inr ans) # rest"
        using d0(2) Cons by auto
      have na: "not_answer opcode p0" using 1(5) Cons x by simp
      have "\<exists>h'. command_loop opcode af deadline (ds @ [p0]) h1 = (Inr (status, data), h') \<and>
           pending h' = (ds @ [p0]) @ map snd xs \<and> wire h' = rest"
        by (rule 1(2) [OF now h1(1) [symmetric] refl refl na, of xs d])
          (use 1 Cons x w0 h1 in auto)
      with now h1(1) na Cons x show ?thesis by (subst command_loop.simps) simp
    qed
  qed
qed

section \<open>Properties of the engine\<close>



text \<open>C3. Liveness: if the controller's answer arrives before the timeout, then, with nothing pending
  and nothing malformed ahead of it, the command returns that answer, the packets that came before
  it are pending in the order they arrived, and nothing behind it has been read.\<close>

theorem command_hears_the_answer:
  assumes "pending h = []" "tx_faults h = []"
    "wire h = arriving ws @ (d, Inr ans) # rest"
    "\<forall>p \<in> snd ` set ws. event_ok p \<and> not_answer opcode p"
    "event_ok ans" "command_answer opcode ans = Inr (Some (msg, status, data))"
    "status = 0 \<or> af" "sum_list (map fst ws) + d < timeout"
    "opcode < 65536" "length payload < 256"
  shows "\<exists>h'. command opcode payload timeout af h = (Inr (status, data), h') \<and>
           pending h' = map snd ws \<and> wire h' = rest"
proof -
  let ?pkt = "[H4_COMMAND] @ to_le 2 opcode @ to_le 1 (length payload) @ payload"
  have hd: "command_header opcode payload = Inr ?pkt"
    using assms(9,10) by (simp add: command_header_def pack_le_def)
  have wr: "hci_write_packet ?pkt h = (Inr (), h\<lparr>sent := sent h @ [?pkt]\<rparr>)"
    using assms(2) by (simp add: hci_write_packet_def)
  have "\<exists>h'. command_loop opcode af (clock h + timeout) [] (h\<lparr>sent := sent h @ [?pkt]\<rparr>)
      = (Inr (status, data), h') \<and> pending h' = [] @ map snd ws \<and> wire h' = rest"
    by (rule command_loop_hears [of _ ws d ans rest opcode msg])
      (use assms in simp_all)
  with hd wr show ?thesis by (simp add: command_def bind_s_def)
qed

theorem command_hears_the_answer_witness:
  "\<exists>h'. command OP_RESET [] 3000000 False
      (hci_init ([(900000, Inr (2, None, [1, 0, 0, 0])), (300000, Inr (4, Some 0x0E, [1, 3, 0x0C, 0]))])
         [] 0) = (Inr (0, []), h') \<and> pending h' = [(2, None, [1, 0, 0, 0])] \<and> wire h' = []"
  using command_hears_the_answer
    [where h = "hci_init ([(900000, Inr (2, None, [1, 0, 0, 0])),
         (300000, Inr (4, Some 0x0E, [1, 3, 0x0C, 0]))]) [] 0"
      and ws = "[(900000, (2, None, [1, 0, 0, 0]))]" and d = 300000 and rest = "[]"
      and ans = "(4, Some 0x0E, [1, 3, 0x0C, 0])" and opcode = OP_RESET and payload = "[]"
      and msg = "''opcode 0x%04X returned 0x%02X %s''" and status = 0 and data = "[]"
      and timeout = 3000000 and af = False]
  by (simp add: hci_init_def arriving_def event_ok_def command_answer_def unpack_le_def)

text \<open>The operations a client interleaves, and running any sequence of them. An operation that
  raises leaves the state it reached, and the sequence goes on from there.\<close>

datatype engine_op =
    Command nat bytes nat bool
  | Read nat
  | Send_Acl nat nat bytes
  | Read_Counters
  | Identity "bytes option"

fun engine_step :: "engine_op \<Rightarrow> hci \<Rightarrow> hci" where
  "engine_step (Command opcode payload timeout af) h = snd (command opcode payload timeout af h)"
| "engine_step (Read timeout) h = snd (hci_read_packet timeout h)"
| "engine_step (Send_Acl handle cid payload) h = snd (send_acl handle cid payload h)"
| "engine_step Read_Counters h = snd (read_counters h)"
| "engine_step (Identity override) h = snd (identity override h)"

lemma engine_steps_later: "later h (fold engine_step ops h)"
proof (induction ops arbitrary: h)
  case (Cons op ops)
  have "later h (engine_step op h)"
    by (cases op) (simp_all add: cmd.later rd.later acl.later counters.later ident.later)
  with Cons later_trans show ?case by (auto intro: later_trans)
qed simp


subsection \<open>Address text\<close>

lemma hex_pad_2:
  "hex_pad 2 (unat (b :: byte)) =
     [''0123456789ABCDEF'' ! (unat b div 16), ''0123456789ABCDEF'' ! (unat b mod 16)]"
proof -
  have "unat b div 16 < 16" using unat_byte_less [of b] by linarith
  then show ?thesis
    by (simp add: hex_pad_def hex_upper.simps [of "unat b"] hex_upper.simps [of "unat b div 16"]
        numeral_2_eq_2)
qed

lemma hex_digit_char: "n < 16 \<Longrightarrow> hex_digit (''0123456789ABCDEF'' ! n) = Some n"
proof -
  have "\<forall>n \<in> {..<16}. hex_digit (''0123456789ABCDEF'' ! n) = Some n" by code_simp
  then show "n < 16 \<Longrightarrow> hex_digit (''0123456789ABCDEF'' ! n) = Some n" by simp
qed

lemma hex_char_plain:
  "n < 16 \<Longrightarrow> ''0123456789ABCDEF'' ! n \<notin> {CHR '':'', CHR ''-'', CHR '' ''}"
  using hex_digit_char [of n] by (auto simp: hex_digit_def)

lemma fromhex_digits: "fromhex (concat (map (\<lambda>b. hex_pad 2 (unat b)) bs)) = Some bs"
proof (induction bs)
  case (Cons b bs)
  have "unat b div 16 < 16" using unat_byte_less [of b] by linarith
  with Cons show ?case by (simp add: hex_pad_2 hex_digit_char)
qed simp

lemma filter_join_text:
  assumes "\<not> P sep" "\<forall>d \<in> set ds. filter P d = d"
  shows "filter P (join_text sep ds) = concat ds"
proof -
  have "filter P (concat (map (\<lambda>x. sep # x) xs)) = concat xs" if "\<forall>d \<in> set xs. filter P d = d" for xs
    using that assms(1) by (induction xs) simp_all
  with assms(2) show ?thesis by (cases ds) (simp_all add: join_text_def)
qed

lemma length_concat_hex: "length (concat (map (\<lambda>b. hex_pad 2 (unat (b :: byte))) bs)) = 2 * length bs"
  by (induction bs) (simp_all add: hex_pad_2)

text \<open>Address text round trip: a six octet address printed with any of the separators the
  parser documents (colons as \<open>addr_str\<close> writes them, dashes, or blanks) parses back to the same
  octets, in the order HCI puts them on the wire.\<close>

lemma addr_text_roundtrip:
  assumes "length raw = 6" "sep \<in> {CHR '':'', CHR ''-'', CHR '' ''}"
  shows "addr_bytes (addr_str raw) = Inr raw \<and>
    addr_bytes (join_text sep (map (\<lambda>b. hex_pad 2 (unat b)) (rev raw))) = Inr raw \<and>
    addr_bytes (concat (map (\<lambda>b. hex_pad 2 (unat b)) (rev raw))) = Inr raw"
proof (intro conjI)
  let ?ds = "map (\<lambda>b. hex_pad 2 (unat b)) (rev raw)"
  let ?P = "\<lambda>c. c \<notin> {CHR '':'', CHR ''-'', CHR '' ''}"
  have digits: "filter ?P (hex_pad 2 (unat b)) = hex_pad 2 (unat b)" for b :: byte
  proof -
    have "unat b div 16 < 16" using unat_byte_less [of b] by linarith
    then show ?thesis using hex_char_plain by (simp add: hex_pad_2)
  qed
  have parse: "addr_bytes cs = Inr raw" if "filter ?P cs = concat ?ds" for cs
    unfolding addr_bytes_def Let_def that
    using assms(1) length_concat_hex [of "rev raw"] fromhex_digits [of "rev raw"] by simp
  have join: "filter ?P (join_text s ?ds) = concat ?ds" if "\<not> ?P s" for s
    using that digits by (intro filter_join_text) auto
  show "addr_bytes (join_text sep ?ds) = Inr raw" using parse join assms(2) by blast
  have "addr_str raw = join_text CHR '':'' ?ds" by (simp add: addr_str_def)
  with parse join show "addr_bytes (addr_str raw) = Inr raw" by simp
  have "filter ?P (concat ?ds) = concat ?ds"
    using digits by (auto simp: filter_concat map_idI comp_def)
  with parse show "addr_bytes (concat ?ds) = Inr raw" by blast
qed

lemma addr_text_roundtrip_witness:
  "addr_bytes ''11-22-33-44-55-66'' = Inr [0x66, 0x55, 0x44, 0x33, 0x22, 0x11]"
  using addr_text_roundtrip [of "[0x66, 0x55, 0x44, 0x33, 0x22, 0x11]" "CHR ''-''"]
  by (simp add: join_text_def hex_pad_2)

end
