(* ===== verification/Struct_Codec.thy ===== *)
theory Struct_Codec
  imports Prelude
begin

text \<open>
  \<open>struct.pack\<close> with several little-endian fields, \<open>bytes([...])\<close> on a list of numbers and the
  concatenation of such parts: how every parameter block of the library is put together. A value
  out of its field's range raises, as it does in Python.
\<close>

datatype field =
    FB nat          \<comment> \<open>format \<open>B\<close>\<close>
  | FH nat          \<comment> \<open>format \<open>H\<close>\<close>
  | FI nat          \<comment> \<open>format \<open>I\<close>\<close>
  | Fb int          \<comment> \<open>format \<open>b\<close>\<close>
  | Fh int          \<comment> \<open>format \<open>h\<close>\<close>
  | Fs nat bytes    \<comment> \<open>format \<open>ns\<close>: cut or padded with zeros to \<open>n\<close> octets\<close>

fun pack_field :: "field \<Rightarrow> bytes result" where
  "pack_field (FB v) = pack_le 1 v"
| "pack_field (FH v) = pack_le 2 v"
| "pack_field (FI v) = pack_le 4 v"
| "pack_field (Fb v) = (if - 128 \<le> v \<and> v < 128 then Inr [of_int v] else Inl StructError)"
| "pack_field (Fh v) =
     (if - 32768 \<le> v \<and> v < 32768 then Inr (to_le 2 (nat (v mod 65536))) else Inl StructError)"
| "pack_field (Fs n bs) = Inr (take n (bs @ zeros n))"

text \<open>\<open>a + b + \<dots>\<close> on byte strings, left to right.\<close>

fun cat :: "bytes result list \<Rightarrow> bytes result" where
  "cat [] = Inr []"
| "cat (r # rs) = bind_r r (\<lambda>a. bind_r (cat rs) (\<lambda>b. Inr (a @ b)))"

definition struct_pack :: "field list \<Rightarrow> bytes result" where
  "struct_pack fs = cat (map pack_field fs)"

definition bytes_of :: "nat list \<Rightarrow> bytes result" where
  "bytes_of ns = cat (map octet ns)"

definition u24 :: "nat \<Rightarrow> bytes result" where
  "u24 v = bind_r (struct_pack [FI v]) (\<lambda>bs. Inr (take 3 bs))"

section \<open>Sizes\<close>

text \<open>The size of a block that can be built: what a caller has to know to be sure that no exception
  is raised, without computing the octets.\<close>

definition size_of :: "bytes result \<Rightarrow> nat option" where
  "size_of r = (case r of Inl _ \<Rightarrow> None | Inr bs \<Rightarrow> Some (length bs))"

fun field_size :: "field \<Rightarrow> nat option" where
  "field_size (FB v) = (if v < 256 then Some 1 else None)"
| "field_size (FH v) = (if v < 65536 then Some 2 else None)"
| "field_size (FI v) = (if v < 4294967296 then Some 4 else None)"
| "field_size (Fb v) = (if - 128 \<le> v \<and> v < 128 then Some 1 else None)"
| "field_size (Fh v) = (if - 32768 \<le> v \<and> v < 32768 then Some 2 else None)"
| "field_size (Fs n bs) = Some n"

fun sum_sizes :: "nat option list \<Rightarrow> nat option" where
  "sum_sizes [] = Some 0"
| "sum_sizes (None # xs) = None"
| "sum_sizes (Some n # xs) = map_option ((+) n) (sum_sizes xs)"

named_theorems size_simps
  "sizes of parameter blocks"

lemma size_of_Inr [size_simps]: "size_of (Inr bs) = Some (length bs)"
  by (simp add: size_of_def)

lemma size_of_Inl [size_simps]: "size_of (Inl e) = None"
  by (simp add: size_of_def)

lemma size_of_Some: "size_of r = Some n \<longleftrightarrow> (\<exists>bs. r = Inr bs \<and> length bs = n)"
  by (auto simp: size_of_def split: sum.splits)

lemma size_of_cat [size_simps]: "size_of (cat rs) = sum_sizes (map size_of rs)"
proof (induction rs)
  case (Cons r rs)
  from Cons [symmetric] show ?case
    by (cases r; cases "cat rs") (simp_all add: size_simps)
qed (simp add: size_of_def)

lemma size_of_pack_field: "size_of (pack_field f) = field_size f"
  by (cases f) (auto simp: size_of_def pack_le_def)

lemma size_of_struct_pack [size_simps]: "size_of (struct_pack fs) = sum_sizes (map field_size fs)"
  by (simp add: struct_pack_def size_of_cat comp_def size_of_pack_field)

lemma size_of_bytes_of [size_simps]:
  "size_of (bytes_of ns) = (if list_all (\<lambda>n. n < 256) ns then Some (length ns) else None)"
proof -
  have "sum_sizes (map (size_of \<circ> octet) ns) = (if list_all (\<lambda>n. n < 256) ns then Some (length ns) else None)"
    by (induction ns) (auto simp: octet_def size_of_def)
  then show ?thesis by (simp add: bytes_of_def size_of_cat)
qed

lemma size_of_u24 [size_simps]: "size_of (u24 v) = (if v < 4294967296 then Some 3 else None)"
  by (simp add: u24_def struct_pack_def pack_le_def size_of_def)

lemma cat_append: "cat (xs @ ys) = bind_r (cat xs) (\<lambda>a. bind_r (cat ys) (\<lambda>b. Inr (a @ b)))"
proof (induction xs)
  case Nil
  then show ?case by (cases "cat ys") simp_all
next
  case (Cons x xs)
  then show ?case by (cases x; cases "cat xs"; cases "cat ys") simp_all
qed

text \<open>From here on \<open>cat\<close> is not unfolded by default: sizes are computed by \<open>size_simps\<close>.\<close>

declare cat.simps [simp del]

end
