(* ===== verification/Att_Server.thy ===== *)
theory Att_Server
  imports Hci_Engine Struct_Codec
begin

text \<open>
  The attribute server of \<open>python/hcicontroller/hci_ble_test_impl.py\<close>: class \<open>AttServer\<close> with its
  attribute table (Generic Access and the Nordic UART Service), the handler of every request it
  answers and notifications. The server and the engine it sends through are one state, a pair,
  because a send changes both. Lines it prints are not modelled.
\<close>

section \<open>State\<close>

record attribute =
  a_handle :: nat
  a_uuid :: bytes
  a_value :: bytes
  a_group_end :: "nat option"

definition Attribute :: "nat \<Rightarrow> bytes \<Rightarrow> bytes \<Rightarrow> nat option \<Rightarrow> attribute" where
  "Attribute handle uuid value group_end =
     \<lparr>a_handle = handle, a_uuid = uuid, a_value = value, a_group_end = group_end\<rparr>"

record att =
  att_conn :: nat
  att_mtu :: nat
  att_requests :: nat
  att_responses :: nat
  att_notifications :: nat
  att_written :: bytes
  att_cccd :: nat
  att_attrs :: "attribute list"

abbreviation (input) CID_ATT :: nat where "CID_ATT \<equiv> 4"
abbreviation (input) ATT_ERROR_RSP :: byte where "ATT_ERROR_RSP \<equiv> 0x01"
abbreviation (input) ATT_EXCHANGE_MTU_REQ :: byte where "ATT_EXCHANGE_MTU_REQ \<equiv> 0x02"
abbreviation (input) ATT_EXCHANGE_MTU_RSP :: byte where "ATT_EXCHANGE_MTU_RSP \<equiv> 0x03"
abbreviation (input) ATT_FIND_INFORMATION_REQ :: byte where "ATT_FIND_INFORMATION_REQ \<equiv> 0x04"
abbreviation (input) ATT_FIND_INFORMATION_RSP :: byte where "ATT_FIND_INFORMATION_RSP \<equiv> 0x05"
abbreviation (input) ATT_READ_BY_TYPE_REQ :: byte where "ATT_READ_BY_TYPE_REQ \<equiv> 0x08"
abbreviation (input) ATT_READ_BY_TYPE_RSP :: byte where "ATT_READ_BY_TYPE_RSP \<equiv> 0x09"
abbreviation (input) ATT_READ_REQ :: byte where "ATT_READ_REQ \<equiv> 0x0A"
abbreviation (input) ATT_READ_RSP :: byte where "ATT_READ_RSP \<equiv> 0x0B"
abbreviation (input) ATT_READ_BLOB_REQ :: byte where "ATT_READ_BLOB_REQ \<equiv> 0x0C"
abbreviation (input) ATT_READ_BLOB_RSP :: byte where "ATT_READ_BLOB_RSP \<equiv> 0x0D"
abbreviation (input) ATT_READ_BY_GROUP_TYPE_REQ :: byte where "ATT_READ_BY_GROUP_TYPE_REQ \<equiv> 0x10"
abbreviation (input) ATT_READ_BY_GROUP_TYPE_RSP :: byte where "ATT_READ_BY_GROUP_TYPE_RSP \<equiv> 0x11"
abbreviation (input) ATT_WRITE_REQ :: byte where "ATT_WRITE_REQ \<equiv> 0x12"
abbreviation (input) ATT_WRITE_RSP :: byte where "ATT_WRITE_RSP \<equiv> 0x13"
abbreviation (input) ATT_HANDLE_VALUE_NTF :: byte where "ATT_HANDLE_VALUE_NTF \<equiv> 0x1B"
abbreviation (input) ATT_WRITE_CMD :: byte where "ATT_WRITE_CMD \<equiv> 0x52"
abbreviation (input) ATT_ERR_INVALID_HANDLE :: byte where "ATT_ERR_INVALID_HANDLE \<equiv> 0x01"
abbreviation (input) ATT_ERR_REQUEST_NOT_SUPPORTED :: byte where "ATT_ERR_REQUEST_NOT_SUPPORTED \<equiv> 0x06"
abbreviation (input) ATT_ERR_INVALID_OFFSET :: byte where "ATT_ERR_INVALID_OFFSET \<equiv> 0x07"
abbreviation (input) ATT_ERR_ATTRIBUTE_NOT_FOUND :: byte where "ATT_ERR_ATTRIBUTE_NOT_FOUND \<equiv> 0x0A"

text \<open>\<open>u16\<close> is only applied to handles and UUIDs of the table, all below 2 to the 16.\<close>

definition att_u16 :: "nat \<Rightarrow> bytes" where
  "att_u16 v = to_le 2 v"

definition NUS_SERVICE :: bytes where
  "NUS_SERVICE = rev [0x6E, 0x40, 0x00, 0x01, 0xB5, 0xA3, 0xF3, 0x93, 0xE0, 0xA9, 0xE5, 0x0E, 0x24, 0xDC, 0xCA, 0x9E]"

definition NUS_RX :: bytes where
  "NUS_RX = rev [0x6E, 0x40, 0x00, 0x02, 0xB5, 0xA3, 0xF3, 0x93, 0xE0, 0xA9, 0xE5, 0x0E, 0x24, 0xDC, 0xCA, 0x9E]"

definition NUS_TX :: bytes where
  "NUS_TX = rev [0x6E, 0x40, 0x00, 0x03, 0xB5, 0xA3, 0xF3, 0x93, 0xE0, 0xA9, 0xE5, 0x0E, 0x24, 0xDC, 0xCA, 0x9E]"

definition att_build :: "bytes \<Rightarrow> attribute list" where
  "att_build name =
    [Attribute 0x0001 (att_u16 0x2800) (att_u16 0x1800) (Some 0x0005),
     Attribute 0x0002 (att_u16 0x2803) ([0x02] @ att_u16 0x0003 @ att_u16 0x2A00) None,
     Attribute 0x0003 (att_u16 0x2A00) name None,
     Attribute 0x0004 (att_u16 0x2803) ([0x02] @ att_u16 0x0005 @ att_u16 0x2A01) None,
     Attribute 0x0005 (att_u16 0x2A01) (att_u16 0x0000) None,
     Attribute 0x0010 (att_u16 0x2800) NUS_SERVICE (Some 0x0015),
     Attribute 0x0011 (att_u16 0x2803) ([0x0C] @ att_u16 0x0012 @ NUS_RX) None,
     Attribute 0x0012 NUS_RX [] None,
     Attribute 0x0013 (att_u16 0x2803) ([0x10] @ att_u16 0x0014 @ NUS_TX) None,
     Attribute 0x0014 NUS_TX [] None,
     Attribute 0x0015 (att_u16 0x2902) (att_u16 0x0000) None]"

text \<open>\<open>name\<close> is the encoded device name.\<close>

definition att_init :: "nat \<Rightarrow> bytes \<Rightarrow> att" where
  "att_init handle name = \<lparr>att_conn = handle, att_mtu = 23, att_requests = 0, att_responses = 0,
     att_notifications = 0, att_written = [], att_cccd = 0, att_attrs = att_build name\<rparr>"

section \<open>Sending\<close>

definition att_find :: "nat \<Rightarrow> att \<Rightarrow> attribute option" where
  "att_find handle a = find (\<lambda>x. a_handle x = handle) (att_attrs a)"

definition att_send :: "bytes \<Rightarrow> (att \<times> hci, unit) action" where
  "att_send pdu =
     with_s (\<lambda>(a, _).
     bind_s (on_snd (send_acl (att_conn a) CID_ATT (take (att_mtu a) pdu))) (\<lambda>_.
     modify_s (apfst (\<lambda>a. a\<lparr>att_responses := att_responses a + 1\<rparr>))))"

definition att_error :: "byte \<Rightarrow> nat \<Rightarrow> byte \<Rightarrow> (att \<times> hci, unit) action" where
  "att_error opcode handle code = att_send ([ATT_ERROR_RSP, opcode] @ to_le 2 handle @ [code])"

section \<open>Requests\<close>

text \<open>The loop all three discovery requests share: attributes outside the request are skipped, an
  entry of another kind (length or format) than the first ends the response, as does one that no
  longer fits. \<open>kind\<close> is the entry's length, or the format of its UUID.\<close>

fun att_collect ::
  "(attribute \<Rightarrow> bool) \<Rightarrow> (attribute \<Rightarrow> nat) \<Rightarrow> (attribute \<Rightarrow> bytes) \<Rightarrow> nat \<Rightarrow>
   attribute list \<Rightarrow> nat option \<Rightarrow> bytes list \<Rightarrow> nat option \<times> bytes list" where
  "att_collect want kind entry mtu [] k es = (k, es)"
| "att_collect want kind entry mtu (x # xs) k es =
     (if \<not> want x then att_collect want kind entry mtu xs k es
      else
        let k' = (case k of None \<Rightarrow> kind x | Some n \<Rightarrow> n) in
        if kind x \<noteq> k' then (Some k', es)
        else if mtu < 2 + (length es + 1) * length (entry x) then (Some k', es)
        else att_collect want kind entry mtu xs (Some k') (es @ [entry x]))"

text \<open>The answer: an error when nothing was collected, else the opcode, the length or format octet
  and the entries.\<close>

definition att_answer :: "byte \<Rightarrow> byte \<Rightarrow> nat \<Rightarrow> nat option \<times> bytes list \<Rightarrow> (att \<times> hci, unit) action" where
  "att_answer req rsp start found =
     (case found of (k, es) \<Rightarrow>
        if es = [] then att_error req start ATT_ERR_ATTRIBUTE_NOT_FOUND
        else bind_s (lift_r (octet (the k))) (\<lambda>kb. att_send ([rsp] @ kb @ concat es)))"

definition in_range :: "nat \<Rightarrow> nat \<Rightarrow> attribute \<Rightarrow> bool" where
  "in_range start stop x \<longleftrightarrow> start \<le> a_handle x \<and> a_handle x \<le> stop"

definition group_entry :: "attribute \<Rightarrow> bytes" where
  "group_entry x = att_u16 (a_handle x) @ att_u16 (the (a_group_end x)) @ a_value x"

definition type_entry :: "attribute \<Rightarrow> bytes" where
  "type_entry x = att_u16 (a_handle x) @ a_value x"

definition info_entry :: "attribute \<Rightarrow> bytes" where
  "info_entry x = att_u16 (a_handle x) @ a_uuid x"

definition uuid_format :: "attribute \<Rightarrow> nat" where
  "uuid_format x = (if length (a_uuid x) = 2 then 0x01 else 0x02)"

text \<open>\<open>struct.unpack("<HH", payload[1:5])\<close>.\<close>

definition unpack_range :: "bytes \<Rightarrow> (nat \<times> nat) result" where
  "unpack_range pdu = (if length pdu < 5 then Inl StructError
     else Inr (from_le (pslice 1 3 pdu), from_le (pslice 3 5 pdu)))"

definition read_by_group_type :: "bytes \<Rightarrow> (att \<times> hci, unit) action" where
  "read_by_group_type pdu =
     bind_s (lift_r (unpack_range pdu)) (\<lambda>(start, stop). with_s (\<lambda>(a, _).
     if drop 5 pdu \<noteq> att_u16 0x2800
     then att_error ATT_READ_BY_GROUP_TYPE_REQ start ATT_ERR_ATTRIBUTE_NOT_FOUND
     else att_answer ATT_READ_BY_GROUP_TYPE_REQ ATT_READ_BY_GROUP_TYPE_RSP start
       (att_collect (\<lambda>x. a_group_end x \<noteq> None \<and> in_range start stop x) (\<lambda>x. length (group_entry x))
          group_entry (att_mtu a) (att_attrs a) None [])))"

definition read_by_type :: "bytes \<Rightarrow> (att \<times> hci, unit) action" where
  "read_by_type pdu =
     bind_s (lift_r (unpack_range pdu)) (\<lambda>(start, stop). with_s (\<lambda>(a, _).
     att_answer ATT_READ_BY_TYPE_REQ ATT_READ_BY_TYPE_RSP start
       (att_collect (\<lambda>x. a_uuid x = drop 5 pdu \<and> in_range start stop x) (\<lambda>x. length (type_entry x))
          type_entry (att_mtu a) (att_attrs a) None [])))"

definition find_information :: "bytes \<Rightarrow> (att \<times> hci, unit) action" where
  "find_information pdu =
     bind_s (lift_r (unpack_range pdu)) (\<lambda>(start, stop). with_s (\<lambda>(a, _).
     att_answer ATT_FIND_INFORMATION_REQ ATT_FIND_INFORMATION_RSP start
       (att_collect (in_range start stop) uuid_format info_entry (att_mtu a) (att_attrs a) None [])))"

text \<open>\<open>attr.value = value\<close> on the object \<open>find\<close> returned: the first attribute of that handle.\<close>

fun write_value :: "nat \<Rightarrow> bytes \<Rightarrow> attribute list \<Rightarrow> attribute list" where
  "write_value handle v [] = []"
| "write_value handle v (x # xs) =
     (if a_handle x = handle then x\<lparr>a_value := v\<rparr> # xs else x # write_value handle v xs)"

definition att_write :: "nat \<Rightarrow> bytes \<Rightarrow> att \<Rightarrow> att" where
  "att_write handle v a0 =
     (let a = a0\<lparr>att_attrs := write_value handle v (att_attrs a0)\<rparr> in
      if handle = 0x0015 then a\<lparr>att_cccd := from_le (take 2 (v @ [0, 0]))\<rparr>
      else if handle = 0x0012 then a\<lparr>att_written := att_written a @ v\<rparr>
      else a)"

text \<open>\<open>feed\<close> after it has counted the request, and the whole of it.\<close>

definition att_request :: "bytes \<Rightarrow> (att \<times> hci, unit) action" where
  "att_request pdu =
     (let opcode = pdu ! 0 in
      if opcode = ATT_EXCHANGE_MTU_REQ then
        bind_s (lift_r (unpack_le 2 (pslice 1 3 pdu))) (\<lambda>peer.
        bind_s (modify_s (apfst (\<lambda>a. a\<lparr>att_mtu := max 23 (min peer 247)\<rparr>))) (\<lambda>_.
        with_s (\<lambda>(a, _). att_send ([ATT_EXCHANGE_MTU_RSP] @ to_le 2 (att_mtu a)))))
      else if opcode = ATT_READ_BY_GROUP_TYPE_REQ then read_by_group_type pdu
      else if opcode = ATT_READ_BY_TYPE_REQ then read_by_type pdu
      else if opcode = ATT_FIND_INFORMATION_REQ then find_information pdu
      else if opcode = ATT_READ_REQ then
        bind_s (lift_r (unpack_le 2 (pslice 1 3 pdu))) (\<lambda>handle. with_s (\<lambda>(a, _).
        case att_find handle a of
          None \<Rightarrow> att_error opcode handle ATT_ERR_INVALID_HANDLE
        | Some x \<Rightarrow> att_send ([ATT_READ_RSP] @ take (att_mtu a - 1) (a_value x))))
      else if opcode = ATT_READ_BLOB_REQ then
        bind_s (lift_r (unpack_range pdu)) (\<lambda>(handle, offset). with_s (\<lambda>(a, _).
        case att_find handle a of
          None \<Rightarrow> att_error opcode handle ATT_ERR_INVALID_HANDLE
        | Some x \<Rightarrow>
            if length (a_value x) < offset then att_error opcode handle ATT_ERR_INVALID_OFFSET
            else att_send ([ATT_READ_BLOB_RSP] @ take (att_mtu a - 1) (drop offset (a_value x)))))
      else if opcode = ATT_WRITE_REQ \<or> opcode = ATT_WRITE_CMD then
        bind_s (lift_r (unpack_le 2 (pslice 1 3 pdu))) (\<lambda>handle. with_s (\<lambda>(a, _).
        case att_find handle a of
          None \<Rightarrow> if opcode = ATT_WRITE_REQ then att_error opcode handle ATT_ERR_INVALID_HANDLE else ret ()
        | Some _ \<Rightarrow>
            bind_s (modify_s (apfst (att_write handle (drop 3 pdu)))) (\<lambda>_.
            if opcode = ATT_WRITE_REQ then att_send [ATT_WRITE_RSP] else ret ())))
      else if unat opcode mod 2 = 0 then att_error opcode 0x0000 ATT_ERR_REQUEST_NOT_SUPPORTED
      else ret ())"

definition att_feed :: "bytes \<Rightarrow> nat \<Rightarrow> (att \<times> hci, unit) action" where
  "att_feed pdu cid =
     (if cid \<noteq> CID_ATT \<or> pdu = [] then ret ()
      else bind_s (modify_s (apfst (\<lambda>a. a\<lparr>att_requests := att_requests a + 1\<rparr>))) (\<lambda>_. att_request pdu))"

definition att_notify :: "bytes \<Rightarrow> (att \<times> hci, bool) action" where
  "att_notify data =
     with_s (\<lambda>(a, _).
     if att_cccd a AND 1 = 0 then ret False
     else bind_s (on_snd (send_acl (att_conn a) CID_ATT
            (take (att_mtu a) ([ATT_HANDLE_VALUE_NTF] @ att_u16 0x0014 @ data)))) (\<lambda>_.
          bind_s (modify_s (apfst (\<lambda>a. a\<lparr>att_notifications := att_notifications a + 1\<rparr>))) (\<lambda>_.
          ret True)))"

section \<open>Contracts\<close>

text \<open>A component that sends through the engine changes the engine only as its contract allows.\<close>

locale link_procedure =
  fixes act :: "('s \<times> hci, 'a) action"
  assumes link_later: "later (snd s) (snd (snd (act s)))"

lemma link_ret [simp, intro]: "link_procedure (ret x)" "link_procedure (throw e)" "link_procedure (lift_r m)"
  by (unfold_locales; simp)+

lemma link_modify [simp, intro]: "link_procedure (modify_s (apfst f))"
  by unfold_locales (auto simp: apfst_def map_prod_def split: prod.split)

lemma link_bind [intro]:
  assumes "link_procedure m" "\<And>x. link_procedure (f x)"
  shows "link_procedure (bind_s m f)"
proof
  fix s :: "'a \<times> hci"
  have "later (snd s) (snd (snd (m s)))" using assms(1) by (rule link_procedure.link_later)
  moreover have "later (snd s1) (snd (snd (f x s1)))" for x s1 using assms(2) by (rule link_procedure.link_later)
  ultimately show "later (snd s) (snd (snd (bind_s m f s)))"
    by (auto simp: bind_s_def split: prod.splits sum.splits) (metis later_trans snd_conv)
qed

lemma link_with [intro]:
  assumes "\<And>s. link_procedure (f s)"
  shows "link_procedure (with_s f)"
  by unfold_locales (simp add: link_procedure.link_later [OF assms])

lemma link_on_snd [intro]:
  assumes "hci_procedure m"
  shows "link_procedure (on_snd m)"
  by unfold_locales (simp add: on_snd_def hci_procedure.later [OF assms] split: prod.split, metis assms hci_procedure.later snd_conv)

lemma link_cases [intro]:
  "link_procedure a \<Longrightarrow> link_procedure b \<Longrightarrow> link_procedure (if c then a else b)"
  "(\<And>a b. link_procedure (f a b)) \<Longrightarrow> link_procedure (case p of (a, b) \<Rightarrow> f a b)"
  "link_procedure n \<Longrightarrow> (\<And>x. link_procedure (g x)) \<Longrightarrow> link_procedure (case z of None \<Rightarrow> n | Some x \<Rightarrow> g x)"
  "link_procedure (k v) \<Longrightarrow> link_procedure (Let v k)"
  by (simp_all split: prod.split option.split)

lemmas link_intros = link_ret link_modify link_bind link_with link_on_snd link_cases
  acl.hci_procedure_axioms cmd.hci_procedure_axioms rd.hci_procedure_axioms

text \<open>What the owner of an L2CAP channel promises to whoever hands it the payloads of a link: it
  keeps the engine's contract and does not react to another channel.\<close>

locale l2cap_handler =
  fixes handle_pdu :: "bytes \<Rightarrow> nat \<Rightarrow> ('s \<times> hci, unit) action"
    and own_cid :: nat
  assumes handler_later: "later (snd s) (snd (snd (handle_pdu pdu cid s)))"
    and foreign_ignored: "cid \<noteq> own_cid \<Longrightarrow> handle_pdu pdu cid s = (Inr (), s)"
begin

lemma handler_procedure: "link_procedure (handle_pdu pdu cid)"
  by unfold_locales (rule handler_later)

lemma foreign_sends_nothing:
  "cid \<noteq> own_cid \<Longrightarrow> sent (snd (snd (handle_pdu pdu cid s))) = sent (snd s)"
  by (simp add: foreign_ignored)

end

interpretation att_tx: link_procedure "att_send pdu" for pdu
  unfolding att_send_def by (intro link_intros)

interpretation att_err: link_procedure "att_error opcode handle code" for opcode handle code
  unfolding att_error_def by (rule att_tx.link_procedure_axioms)

lemma att_answer_link: "link_procedure (att_answer req rsp start found)"
  unfolding att_answer_def
  by (intro link_intros att_tx.link_procedure_axioms att_err.link_procedure_axioms)

interpretation att_channel: l2cap_handler att_feed CID_ATT
proof
  have "link_procedure (att_feed pdu cid)" for pdu cid
    unfolding att_feed_def att_request_def read_by_group_type_def read_by_type_def find_information_def Let_def
    by (intro link_intros att_tx.link_procedure_axioms att_err.link_procedure_axioms att_answer_link)
  then show "later (snd s) (snd (snd (att_feed pdu cid s)))" for pdu cid s
    by (rule link_procedure.link_later)
  show "cid \<noteq> CID_ATT \<Longrightarrow> att_feed pdu cid s = (Inr (), s)" for pdu cid s
    by (simp add: att_feed_def)
qed

interpretation att_ntf: link_procedure "att_notify data" for data
  unfolding att_notify_def by (intro link_intros)

section \<open>Exactly one answer per request\<close>

definition acl_packet :: "nat \<Rightarrow> nat \<Rightarrow> bytes \<Rightarrow> bytes" where
  "acl_packet handle cid data =
     [H4_ACL] @ to_le 2 handle @ to_le 2 (4 + length data) @ to_le 2 (length data) @ to_le 2 cid @ data"

lemma send_acl_ok:
  assumes "tx_faults h = []" "handle < 65536" "cid < 65536" "length data < 65532"
  shows "send_acl handle cid data h =
    (Inr (), h\<lparr>sent := sent h @ [acl_packet handle cid data], acl_credits := acl_credits h - 1\<rparr>)"
  using assms
proof -
  have "length (to_le 2 (length data) @ to_le 2 cid @ data) = 4 + length data" by simp
  with assms show ?thesis
    by (simp add: send_acl_def pack_le_def hci_write_packet_def acl_packet_def bind_s_def Let_def del: length_append)
qed

text \<open>The invariant of the server: an MTU in the range it negotiates, and handles and group ends that
  fit their fields.\<close>

definition att_ok :: "att \<Rightarrow> bool" where
  "att_ok a \<longleftrightarrow> 23 \<le> att_mtu a \<and> att_mtu a \<le> 247 \<and> att_conn a < 65536"

lemma att_init_ok: "handle < 65536 \<Longrightarrow> att_ok (att_init handle name)"
  by (simp add: att_init_def att_ok_def)

text \<open>The state after one answer.\<close>

definition answered_with :: "bytes \<Rightarrow> att \<Rightarrow> hci \<Rightarrow> att \<times> hci" where
  "answered_with rsp a h =
     (a\<lparr>att_responses := att_responses a + 1\<rparr>,
      h\<lparr>sent := sent h @ [acl_packet (att_conn a) CID_ATT rsp], acl_credits := acl_credits h - 1\<rparr>)"

lemma att_send_ok:
  assumes "att_ok a" "tx_faults h = []"
  shows "att_send pdu (a, h) = (Inr (), answered_with (take (att_mtu a) pdu) a h)"
proof -
  have "send_acl (att_conn a) CID_ATT (take (att_mtu a) pdu) h =
      (Inr (), h\<lparr>sent := sent h @ [acl_packet (att_conn a) CID_ATT (take (att_mtu a) pdu)],
        acl_credits := acl_credits h - 1\<rparr>)"
    using assms by (intro send_acl_ok) (auto simp: att_ok_def)
  then show ?thesis by (simp add: att_send_def bind_s_def answered_with_def)
qed

lemma att_error_ok:
  assumes "att_ok a" "tx_faults h = []"
  shows "att_error opcode handle code (a, h) =
    (Inr (), answered_with ([ATT_ERROR_RSP, opcode] @ to_le 2 handle @ [code]) a h)"
proof -
  have "take (att_mtu a) ([ATT_ERROR_RSP, opcode] @ to_le 2 handle @ [code]) =
      [ATT_ERROR_RSP, opcode] @ to_le 2 handle @ [code]"
    using assms(1) by (intro take_all) (simp add: att_ok_def)
  then show ?thesis using att_send_ok [OF assms] by (simp add: att_error_def)
qed

text \<open>A response to \<open>opcode\<close>: not empty, within the MTU, and either the response of that request or
  an error response that names it.\<close>

definition response_for :: "nat \<Rightarrow> byte \<Rightarrow> bytes \<Rightarrow> bool" where
  "response_for mtu opcode rsp \<longleftrightarrow> rsp \<noteq> [] \<and> length rsp \<le> mtu \<and>
     (rsp ! 0 = opcode + 1 \<or> length rsp = 5 \<and> rsp ! 0 = ATT_ERROR_RSP \<and> rsp ! 1 = opcode)"

definition one_answer :: "byte \<Rightarrow> (att \<times> hci, unit) action \<Rightarrow> att \<Rightarrow> hci \<Rightarrow> bool" where
  "one_answer opcode act a h \<longleftrightarrow>
     (\<exists>rsp. act (a, h) = (Inr (), answered_with rsp a h) \<and> response_for (att_mtu a) opcode rsp)"

lemma one_answer_send:
  assumes "att_ok a" "tx_faults h = []" "rsp ! 0 = opcode + 1" "rsp \<noteq> []"
  shows "one_answer opcode (att_send rsp) a h"
  using assms att_send_ok [OF assms(1,2), of rsp]
  by (auto simp: one_answer_def response_for_def att_ok_def)

lemma one_answer_error:
  assumes "att_ok a" "tx_faults h = []"
  shows "one_answer opcode (att_error opcode handle code) a h"
  using assms att_error_ok [OF assms, of opcode handle code]
  by (auto simp: one_answer_def response_for_def att_ok_def)

lemma att_collect_kind:
  assumes "att_collect want kind entry mtu xs k es = (k', es')" "es' \<noteq> []" "es \<noteq> [] \<Longrightarrow> k \<noteq> None"
    "\<And>n. k = Some n \<Longrightarrow> es \<noteq> [] \<Longrightarrow> P n"
    "\<And>x. 2 + length (entry x) \<le> mtu \<Longrightarrow> P (kind x)"
  shows "\<exists>n. k' = Some n \<and> P n"
  using assms
proof (induction want kind entry mtu xs k es rule: att_collect.induct)
  case (2 want kind entry mtu x xs k es)
  show ?case
  proof (cases "want x")
    case False
    with 2(1,3-) show ?thesis by simp
  next
    case True
    let ?k = "case k of None \<Rightarrow> kind x | Some n \<Rightarrow> n"
    show ?thesis
    proof (cases "kind x = ?k \<and> \<not> mtu < 2 + (length es + 1) * length (entry x)")
      case go: True
      then have "2 + length (entry x) \<le> mtu" by (simp add: not_less)
      with go 2(7) have "P ?k" by metis
      with go True 2(2) [OF _ refl] 2(3-) show ?thesis by simp
    next
      case False
      with True 2(3-) show ?thesis by (auto simp: Let_def split: if_splits option.splits)
    qed
  qed
qed auto

lemma one_answer_collected:
  assumes "att_ok a" "tx_faults h = []" "rsp = req + 1"
    "\<And>x. 2 + length (entry x) \<le> att_mtu a \<Longrightarrow> kind x < 256"
  shows "one_answer req (att_answer req rsp start
     (att_collect want kind entry (att_mtu a) xs None [])) a h"
proof -
  obtain k es where c: "att_collect want kind entry (att_mtu a) xs None [] = (k, es)" by fastforce
  show ?thesis
  proof (cases "es = []")
    case True
    with c one_answer_error [OF assms(1,2)] show ?thesis by (simp add: att_answer_def)
  next
    case False
    have "\<exists>n. k = Some n \<and> n < 256"
      by (rule att_collect_kind [OF c False]) (simp_all add: assms(4))
    then obtain n where n: "k = Some n" "n < 256" by blast
    have "one_answer req (att_send ([rsp] @ [of_nat n] @ concat es)) a h"
      using assms(3) by (intro one_answer_send [OF assms(1,2)]) simp_all
    moreover have "att_answer req rsp start (k, es) = att_send ([rsp] @ [of_nat n] @ concat es)"
      using False n by (simp add: att_answer_def octet_def bind_lift_r)
    ultimately show ?thesis unfolding c by simp
  qed
qed

definition pdu_complete :: "bytes \<Rightarrow> bool" where
  "pdu_complete pdu \<longleftrightarrow> pdu \<noteq> [] \<and>
     (if pdu ! 0 \<in> {ATT_EXCHANGE_MTU_REQ, ATT_READ_REQ, ATT_WRITE_REQ, ATT_WRITE_CMD} then 3 \<le> length pdu
      else if pdu ! 0 \<in> {ATT_READ_BY_GROUP_TYPE_REQ, ATT_READ_BY_TYPE_REQ, ATT_FIND_INFORMATION_REQ, ATT_READ_BLOB_REQ}
      then 5 \<le> length pdu else True)"

lemma one_answer_range:
  assumes "5 \<le> length pdu" "\<And>x y. one_answer opcode (f (x, y)) a h"
  shows "one_answer opcode (bind_s (lift_r (unpack_range pdu)) f) a h"
  using assms by (simp add: unpack_range_def bind_lift_r)

lemma one_answer_with:
  assumes "one_answer opcode (f (a, h)) a h"
  shows "one_answer opcode (with_s f) a h"
  using assms by (simp add: one_answer_def)

lemma one_answer_if:
  "(c \<Longrightarrow> one_answer opcode f a h) \<Longrightarrow> (\<not> c \<Longrightarrow> one_answer opcode g a h) \<Longrightarrow>
     one_answer opcode (if c then f else g) a h"
  by simp

lemma discovery_answers:
  assumes "att_ok a" "tx_faults h = []" "5 \<le> length pdu"
  shows "one_answer ATT_READ_BY_GROUP_TYPE_REQ (read_by_group_type pdu) a h"
    "one_answer ATT_READ_BY_TYPE_REQ (read_by_type pdu) a h"
    "one_answer ATT_FIND_INFORMATION_REQ (find_information pdu) a h"
proof -
  have "att_mtu a \<le> 247" using assms(1) by (simp add: att_ok_def)
  then have len: "\<And>x. 2 + length (group_entry x) \<le> att_mtu a \<Longrightarrow> length (group_entry x) < 256"
    "\<And>x. 2 + length (type_entry x) \<le> att_mtu a \<Longrightarrow> length (type_entry x) < 256"
    "\<And>x. uuid_format x < 256"
    by (auto simp: uuid_format_def)
  note steps = one_answer_range [OF assms(3)] one_answer_with one_answer_if
    one_answer_collected [OF assms(1,2)] one_answer_error [OF assms(1,2)]
  show "one_answer ATT_READ_BY_GROUP_TYPE_REQ (read_by_group_type pdu) a h"
    unfolding read_by_group_type_def by (rule steps, unfold prod.case, intro steps, unfold prod.case, intro steps) (use len in auto)
  show "one_answer ATT_READ_BY_TYPE_REQ (read_by_type pdu) a h"
    unfolding read_by_type_def by (rule steps, unfold prod.case, intro steps, unfold prod.case, intro steps) (use len in auto)
  show "one_answer ATT_FIND_INFORMATION_REQ (find_information pdu) a h"
    unfolding find_information_def by (rule steps, unfold prod.case, intro steps, unfold prod.case, intro steps) (use len in auto)
qed

lemma unpack_handle:
  "3 \<le> length pdu \<Longrightarrow> unpack_le 2 (pslice (Suc 0) 3 pdu) = Inr (from_le (pslice (Suc 0) 3 pdu))"
  by (simp add: unpack_le_def)

lemma read_answers:
  assumes "att_ok a" "tx_faults h = []" "pdu_complete pdu"
    "unat (pdu ! 0) mod 2 = 0" "pdu ! 0 \<notin> {ATT_EXCHANGE_MTU_REQ, ATT_WRITE_REQ, ATT_WRITE_CMD}"
  shows "one_answer (pdu ! 0) (att_request pdu) a h"
proof -
  note ok = assms(1,2)
  note steps = one_answer_with one_answer_if one_answer_error [OF ok] one_answer_send [OF ok]
  have read: "one_answer ATT_READ_REQ (att_request pdu) a h" if "pdu ! 0 = ATT_READ_REQ"
  proof -
    have "3 \<le> length pdu" using that assms(3) by (simp add: pdu_complete_def)
    with that show ?thesis
      by (simp add: att_request_def unpack_handle bind_lift_r del: state_action_simps)
        (rule one_answer_with, simp split: option.split, intro conjI allI impI steps, simp_all)
  qed
  have blob: "one_answer ATT_READ_BLOB_REQ (att_request pdu) a h" if "pdu ! 0 = ATT_READ_BLOB_REQ"
  proof -
    have "5 \<le> length pdu" using that assms(3) by (simp add: pdu_complete_def)
    with that show ?thesis
      by (simp add: att_request_def del: state_action_simps)
        (rule one_answer_range, assumption, simp del: state_action_simps, rule one_answer_with, simp split: option.split,
          intro conjI allI impI steps, simp_all)
  qed
  have disc: "one_answer (pdu ! 0) (att_request pdu) a h"
    if "pdu ! 0 \<in> {ATT_READ_BY_GROUP_TYPE_REQ, ATT_READ_BY_TYPE_REQ, ATT_FIND_INFORMATION_REQ}"
  proof -
    have "5 \<le> length pdu" using that assms(3) by (auto simp: pdu_complete_def)
    from discovery_answers [OF ok this] that show ?thesis by (auto simp: att_request_def)
  qed
  have other: "one_answer (pdu ! 0) (att_request pdu) a h"
    if "pdu ! 0 \<notin> {ATT_READ_BY_GROUP_TYPE_REQ, ATT_READ_BY_TYPE_REQ, ATT_FIND_INFORMATION_REQ, ATT_READ_REQ, ATT_READ_BLOB_REQ}"
    using that assms(4,5) one_answer_error [OF ok] by (simp add: att_request_def)
  show ?thesis using disc other
    by (cases "pdu ! 0 = ATT_READ_REQ"; cases "pdu ! 0 = ATT_READ_BLOB_REQ") (auto dest: read blob)
qed

lemma att_write_fields [simp]:
  "att_mtu (att_write handle v a) = att_mtu a" "att_conn (att_write handle v a) = att_conn a"
  "att_requests (att_write handle v a) = att_requests a" "att_ok (att_write handle v a) = att_ok a"
  by (simp_all add: att_write_def att_ok_def Let_def)

text \<open>What one PDU does to the server: it may change the MTU or a value, and then answers at most once.\<close>

definition answers :: "bytes \<Rightarrow> bool" where
  "answers pdu \<longleftrightarrow> unat (pdu ! 0) mod 2 = 0 \<and> pdu ! 0 \<noteq> ATT_WRITE_CMD"

definition handled :: "bytes \<Rightarrow> att \<Rightarrow> hci \<Rightarrow> att \<Rightarrow> bool" where
  "handled pdu a h a' \<longleftrightarrow> att_ok a' \<and> att_requests a' = att_requests a \<and> att_conn a' = att_conn a \<and>
     (if answers pdu
      then \<exists>rsp. response_for (att_mtu a') (pdu ! 0) rsp \<and> att_request pdu (a, h) = (Inr (), answered_with rsp a' h)
      else att_request pdu (a, h) = (Inr (), (a', h)))"

lemma handled_mtu:
  assumes "att_ok a" "tx_faults h = []" "pdu_complete pdu" "pdu ! 0 = ATT_EXCHANGE_MTU_REQ"
  shows "\<exists>a'. handled pdu a h a'"
proof -
  have "3 \<le> length pdu" using assms(3,4) by (simp add: pdu_complete_def)
  define a' where "a' = a\<lparr>att_mtu := max 23 (min (from_le (pslice (Suc 0) 3 pdu)) 247)\<rparr>"
  have ok: "att_ok a'" using assms(1) by (simp add: a'_def att_ok_def)
  have "one_answer ATT_EXCHANGE_MTU_REQ (att_send ([ATT_EXCHANGE_MTU_RSP] @ to_le 2 (att_mtu a'))) a' h"
    by (rule one_answer_send [OF ok assms(2)]) simp_all
  moreover have "att_request pdu (a, h) = att_send ([ATT_EXCHANGE_MTU_RSP] @ to_le 2 (att_mtu a')) (a', h)"
    using assms(4) \<open>3 \<le> length pdu\<close> by (simp add: att_request_def unpack_handle bind_lift_r a'_def)
  moreover have "answers pdu" using assms(4) by (simp add: answers_def)
  ultimately show ?thesis using ok assms(4)
    by (intro exI [of _ a']) (auto simp: handled_def one_answer_def a'_def)
qed

lemma handled_write:
  assumes "att_ok a" "tx_faults h = []" "pdu_complete pdu" "pdu ! 0 = ATT_WRITE_REQ \<or> pdu ! 0 = ATT_WRITE_CMD"
  shows "\<exists>a'. handled pdu a h a'"
proof -
  have "3 \<le> length pdu" using assms(3,4) by (auto simp: pdu_complete_def)
  let ?hnd = "from_le (pslice (Suc 0) 3 pdu)"
  define a' where "a' = (if att_find ?hnd a = None then a else att_write ?hnd (drop 3 pdu) a)"
  have ok: "att_ok a'" using assms(1) by (simp add: a'_def)
  note tx = one_answer_send [OF ok assms(2), of "[ATT_WRITE_RSP]" ATT_WRITE_REQ]
    one_answer_error [OF ok assms(2), of ATT_WRITE_REQ ?hnd ATT_ERR_INVALID_HANDLE]
  from assms(4) have "handled pdu a h a'"
  proof
    assume w: "pdu ! 0 = ATT_WRITE_REQ"
    then have "att_request pdu (a, h) =
        (if att_find ?hnd a = None then att_error ATT_WRITE_REQ ?hnd ATT_ERR_INVALID_HANDLE
         else att_send [ATT_WRITE_RSP]) (a', h)"
      using \<open>3 \<le> length pdu\<close> by (auto simp: att_request_def unpack_handle bind_lift_r a'_def split: option.split)
    with tx w ok show ?thesis by (auto simp: handled_def answers_def one_answer_def a'_def)
  next
    assume w: "pdu ! 0 = ATT_WRITE_CMD"
    then have "att_request pdu (a, h) = (Inr (), (a', h))"
      using \<open>3 \<le> length pdu\<close> by (auto simp: att_request_def unpack_handle bind_lift_r a'_def split: option.split)
    with w ok show ?thesis by (simp add: handled_def answers_def a'_def)
  qed
  then show ?thesis ..
qed

lemma handled_any:
  assumes "att_ok a" "tx_faults h = []" "pdu_complete pdu"
  shows "\<exists>a'. handled pdu a h a'"
proof -
  consider (special) "pdu ! 0 \<in> {ATT_EXCHANGE_MTU_REQ, ATT_WRITE_REQ, ATT_WRITE_CMD}"
    | (read) "pdu ! 0 \<notin> {ATT_EXCHANGE_MTU_REQ, ATT_WRITE_REQ, ATT_WRITE_CMD}" "unat (pdu ! 0) mod 2 = 0"
    | (odd) "unat (pdu ! 0) mod 2 = 1" by linarith
  then show ?thesis
  proof cases
    case special
    with handled_mtu [OF assms] handled_write [OF assms] show ?thesis by blast
  next
    case read
    with read_answers [OF assms read(2,1)] assms(1) show ?thesis
      by (intro exI [of _ a]) (auto simp: handled_def answers_def one_answer_def)
  next
    case odd
    then have "pdu ! 0 \<notin> {0x02, 0x10, 0x08, 0x04, 0x0A, 0x0C, 0x12, 0x52}" by auto
    with odd assms(1) show ?thesis
      by (intro exI [of _ a]) (simp add: handled_def answers_def att_request_def)
  qed
qed



section \<open>Writing and reading back\<close>

lemma find_write_value:
  "find (\<lambda>x. a_handle x = handle') (write_value handle v xs) =
     (if handle' = handle then map_option (\<lambda>x. x\<lparr>a_value := v\<rparr>) (find (\<lambda>x. a_handle x = handle) xs)
      else find (\<lambda>x. a_handle x = handle') xs)"
  by (induction xs) auto

lemma att_find_write:
  "att_find handle' (att_write handle v a) =
     (if handle' = handle then map_option (\<lambda>x. x\<lparr>a_value := v\<rparr>) (att_find handle a) else att_find handle' a)"
  by (simp add: att_find_def att_write_def Let_def find_write_value)

lemma unpack_to_le [simp]: "v < 65536 \<Longrightarrow> unpack_le 2 (to_le 2 v) = Inr v"
  by (simp add: unpack_le_def from_to_le)

lemma write_request_state:
  assumes "att_ok a" "tx_faults h = []" "att_find handle a \<noteq> None" "handle < 65536"
  shows "att_feed ([ATT_WRITE_REQ] @ to_le 2 handle @ v) CID_ATT (a, h) =
    (Inr (), answered_with [ATT_WRITE_RSP] (att_write handle v (a\<lparr>att_requests := att_requests a + 1\<rparr>)) h)"
proof -
  let ?b = "att_write handle v (a\<lparr>att_requests := att_requests a + 1\<rparr>)"
  have "att_ok (a\<lparr>att_requests := att_requests a + 1\<rparr>)" using assms(1) by (simp add: att_ok_def)
  then have ok: "att_ok ?b" by simp
  have "take (att_mtu ?b) [ATT_WRITE_RSP] = [ATT_WRITE_RSP]"
    using ok by (intro take_all) (simp add: att_ok_def)
  then have "att_send [ATT_WRITE_RSP] (?b, h) = (Inr (), answered_with [ATT_WRITE_RSP] ?b h)"
    using att_send_ok [OF ok assms(2), of "[ATT_WRITE_RSP]"] by simp
  moreover have "drop 3 (ATT_WRITE_REQ # to_le 2 handle @ v) = v" by simp
  moreover have "att_find handle (a\<lparr>att_requests := att_requests a + 1\<rparr>) = att_find handle a"
    by (simp add: att_find_def)
  ultimately show ?thesis using assms(3,4)
    by (auto simp: att_feed_def att_request_def bind_lift_r)
qed

lemma read_request_state:
  assumes "att_ok a" "tx_faults h = []" "att_find handle a = Some x" "handle < 65536"
  shows "att_feed ([ATT_READ_REQ] @ to_le 2 handle) CID_ATT (a, h) =
    (Inr (), answered_with (ATT_READ_RSP # take (att_mtu a - 1) (a_value x))
       (a\<lparr>att_requests := att_requests a + 1\<rparr>) h)"
proof -
  let ?b = "a\<lparr>att_requests := att_requests a + 1\<rparr>"
  have ok: "att_ok ?b" using assms(1) by (simp add: att_ok_def)
  let ?rsp = "[ATT_READ_RSP] @ take (att_mtu ?b - 1) (a_value x)"
  have "take (att_mtu ?b) ?rsp = ?rsp" using ok by (intro take_all) (auto simp: att_ok_def)
  then have "att_send ?rsp (?b, h) = (Inr (), answered_with ?rsp ?b h)"
    using att_send_ok [OF ok assms(2), of ?rsp] by simp
  moreover have "att_find handle ?b = Some x" using assms(3) by (simp add: att_find_def)
  ultimately show ?thesis using assms(4)
    by (simp add: att_feed_def att_request_def bind_lift_r pslice_def)
qed

text \<open>Write then read: a value the peer writes to any attribute of the table is confirmed, and a
  read of that handle afterwards returns it, cut to the MTU; every other attribute reads as before.\<close>

lemma att_write_read:
  assumes "att_ok a" "tx_faults h = []" "att_find handle a \<noteq> None" "handle < 65536" "handle' < 65536"
    "att_find handle' a = Some x"
  shows "\<exists>a1 h1 a2 h2. att_feed ([ATT_WRITE_REQ] @ to_le 2 handle @ v) CID_ATT (a, h) = (Inr (), (a1, h1)) \<and>
    att_feed ([ATT_READ_REQ] @ to_le 2 handle') CID_ATT (a1, h1) = (Inr (), (a2, h2)) \<and>
    sent h2 = sent h @ [acl_packet (att_conn a) CID_ATT [ATT_WRITE_RSP],
      acl_packet (att_conn a) CID_ATT
        (ATT_READ_RSP # take (att_mtu a - 1) (if handle' = handle then v else a_value x))]"
proof -
  define b where "b = att_write handle v (a\<lparr>att_requests := att_requests a + 1\<rparr>)"
  define a1 where "a1 = fst (answered_with [ATT_WRITE_RSP] b h)"
  define h1 where "h1 = snd (answered_with [ATT_WRITE_RSP] b h)"
  have w: "att_feed ([ATT_WRITE_REQ] @ to_le 2 handle @ v) CID_ATT (a, h) = (Inr (), (a1, h1))"
    using write_request_state [OF assms(1-4)] by (simp add: a1_def h1_def b_def)
  have b: "att_ok b" "att_mtu b = att_mtu a" "att_conn b = att_conn a"
    using assms(1) by (simp_all add: b_def att_ok_def)
  then have "att_ok a1" "tx_faults h1 = []" using assms(2)
    by (simp_all add: a1_def h1_def answered_with_def att_ok_def)
  moreover have "att_find handle' a1 = Some (if handle' = handle then x\<lparr>a_value := v\<rparr> else x)"
  proof -
    have "att_find handle' a1 = att_find handle' b" by (simp add: a1_def answered_with_def att_find_def)
    also have "\<dots> = (if handle' = handle then map_option (\<lambda>x. x\<lparr>a_value := v\<rparr>) (att_find handle a) else att_find handle' a)"
      unfolding b_def att_find_write by (simp add: att_find_def)
    finally show ?thesis using assms(6) by auto
  qed
  moreover note assms(5)
  ultimately have r: "att_feed ([ATT_READ_REQ] @ to_le 2 handle') CID_ATT (a1, h1) =
      (Inr (), answered_with (ATT_READ_RSP # take (att_mtu a1 - 1)
        (a_value (if handle' = handle then x\<lparr>a_value := v\<rparr> else x))) (a1\<lparr>att_requests := att_requests a1 + 1\<rparr>) h1)"
    by (rule read_request_state)
  have v: "a_value (if handle' = handle then x\<lparr>a_value := v\<rparr> else x) = (if handle' = handle then v else a_value x)"
    by simp
  have "sent (snd (answered_with (ATT_READ_RSP # take (att_mtu a1 - 1)
        (if handle' = handle then v else a_value x)) (a1\<lparr>att_requests := att_requests a1 + 1\<rparr>) h1)) =
      sent h @ [acl_packet (att_conn a) CID_ATT [ATT_WRITE_RSP],
        acl_packet (att_conn a) CID_ATT (ATT_READ_RSP # take (att_mtu a - 1) (if handle' = handle then v else a_value x))]"
    using b by (simp add: answered_with_def a1_def h1_def)
  with w r [unfolded v] show ?thesis by (metis prod.collapse)
qed

section \<open>Discovery responses are as full as they can be\<close>

text \<open>The loop with the first entry's kind already known.\<close>

definition fills :: "(attribute \<Rightarrow> nat) \<Rightarrow> nat \<Rightarrow> nat \<Rightarrow> nat \<Rightarrow> nat \<Rightarrow> attribute list \<Rightarrow> nat \<Rightarrow> bool" where
  "fills kind mtu K L used ms n \<longleftrightarrow> n \<le> length ms \<and> (\<forall>x \<in> set (take n ms). kind x = K) \<and>
     (n = 0 \<or> 2 + (used + n) * L \<le> mtu) \<and>
     (n < length ms \<longrightarrow> kind (ms ! n) \<noteq> K \<or> mtu < 2 + (used + n + 1) * L)"

lemma collect_known:
  assumes "\<And>x. x \<in> set xs \<Longrightarrow> want x \<Longrightarrow> kind x = K \<Longrightarrow> length (entry x) = L"
  shows "\<exists>n. att_collect want kind entry mtu xs (Some K) (map entry ds) =
      (Some K, map entry (ds @ take n (filter want xs))) \<and> fills kind mtu K L (length ds) (filter want xs) n"
  using assms
proof (induction xs arbitrary: ds)
  case (Cons x xs)
  consider (skip) "\<not> want x" | (stop) "want x" "kind x \<noteq> K \<or> mtu < 2 + (length ds + 1) * L"
    | (go) "want x" "kind x = K" "2 + (length ds + 1) * L \<le> mtu" by linarith
  then show ?case
  proof cases
    case stop
    then show ?thesis using Cons.prems by (intro exI [of _ 0]) (auto simp: fills_def)
  next
    case go
    then have L: "length (entry x) = L" using Cons.prems by simp
    obtain n where n: "att_collect want kind entry mtu xs (Some K) (map entry (ds @ [x])) =
        (Some K, map entry ((ds @ [x]) @ take n (filter want xs)))"
      "fills kind mtu K L (length (ds @ [x])) (filter want xs) n"
      using Cons.IH [of "ds @ [x]"] Cons.prems by auto
    from n(2) go have "fills kind mtu K L (length ds) (filter want (x # xs)) (Suc n)"
      by (auto simp: fills_def)
    with n(1) go L show ?thesis by (intro exI [of _ "Suc n"]) simp
  qed (use Cons in auto)
qed (simp add: fills_def)

lemma collect_first:
  "att_collect want kind entry mtu xs None [] =
     (case filter want xs of [] \<Rightarrow> (None, [])
      | m # _ \<Rightarrow> att_collect want kind entry mtu xs (Some (kind m)) [])"
  by (induction xs) (simp_all split: list.split)



end
