(* ===== verification/Hci_Waits.thy ===== *)
theory Hci_Waits
  imports Hci_Engine
begin

text \<open>
  Waiting for one packet until a deadline. Every procedure of the library waits in the same way:
  \<open>while time.time() < deadline: packet = hci.read_packet(slice)\<close>, then a test that raises, returns
  or goes on to the next packet. The loops differ in the slice (a constant, or what is left of the
  timeout up to a constant) and in what they do with a packet that is not the one: drop it, or keep
  it and put it back in front of the queue (\<open>_restore\<close> of
  \<open>python/hcicontroller/connected_features.py\<close>). The loop is modelled once, with these as
  arguments, and what the procedures rely on is proved once.
\<close>

section \<open>The loop\<close>

definition restore :: "packet list \<Rightarrow> hci \<Rightarrow> hci" where
  "restore packets h = (if packets \<noteq> [] then h\<lparr>pending := packets @ pending h\<rparr> else h)"

text \<open>\<open>keep\<close>: put packets that do not match back; \<open>bounded\<close>: the slice is
  \<open>min(cap, deadline - time.time())\<close> rather than \<open>cap\<close>.\<close>

function read_until ::
  "bool \<Rightarrow> bool \<Rightarrow> nat \<Rightarrow> (packet \<Rightarrow> 'a option result) \<Rightarrow> nat \<Rightarrow> packet list \<Rightarrow> (hci, 'a option) action"
  where
  "read_until keep bounded cap judge deadline deferred h =
     (if clock h < deadline \<and> 0 < cap then
        (case hci_read_packet (if bounded then min cap (deadline - clock h) else cap) h of
           (Inl e, h') \<Rightarrow> (Inl e, h')
         | (Inr None, h') \<Rightarrow> read_until keep bounded cap judge deadline deferred h'
         | (Inr (Some p), h') \<Rightarrow>
             (case judge p of
                Inl e \<Rightarrow> (Inl e, h')
              | Inr (Some x) \<Rightarrow> (Inr (Some x), restore deferred h')
              | Inr None \<Rightarrow>
                  read_until keep bounded cap judge deadline (if keep then deferred @ [p] else deferred) h'))
      else (Inr None, restore deferred h))"
  by pat_completeness auto
termination
  by (relation "measure (\<lambda>(_, _, _, _, deadline, _, h). budget deadline h)")
    (auto intro!: hci_read_packet_budget [OF sym] split: if_splits)

declare read_until.simps [simp del]

lemma restore_later: "later h (restore ps h)"
  by (simp add: restore_def pending_later)

lemma read_until_later: "later h (snd (read_until keep bounded cap judge deadline ds h))"
proof (induction keep bounded cap judge deadline ds h rule: read_until.induct)
  case (1 keep bounded cap judge deadline ds h)
  show ?case
  proof (cases "clock h < deadline \<and> 0 < cap")
    case False
    then show ?thesis by (subst read_until.simps) (auto simp: restore_later)
  next
    case True
    let ?t = "if bounded then min cap (deadline - clock h) else cap"
    obtain out h' where rp: "hci_read_packet ?t h = (out, h')" by fastforce
    have l: "later h h'" using rd.later [of h ?t] rp by simp
    note rl = later_trans [OF l restore_later]
    from 1 True rp l later_trans show ?thesis
      by (subst read_until.simps)
        (auto simp: rl split: sum.splits option.splits prod.splits)
  qed
qed

interpretation wait: hci_procedure "\<lambda>h. read_until keep bounded cap judge (clock h + timeout) [] h"
  for keep bounded cap judge timeout
  by unfold_locales (rule read_until_later)

lemmas wait_procedure = wait.hci_procedure_axioms

section \<open>What a wait returns and leaves behind\<close>

text \<open>Read from the front of what is pending and then from the wire: \<open>skipped\<close> packets that do not
  match, and then the one that decided. Packets that were kept are in front again.\<close>

inductive wait_end ::
  "bool \<Rightarrow> (packet \<Rightarrow> 'a option result) \<Rightarrow> packet list \<Rightarrow> hci \<Rightarrow> 'a option result \<Rightarrow> hci \<Rightarrow> bool"
  for keep judge ds h where
  found: "wait_end keep judge ds h (Inr (Some x)) h'"
  if "pending h @ packets_of (wire h) = skipped @ p # left @ packets_of (wire h')"
    "list_all (\<lambda>q. judge q = Inr None) skipped" "judge p = Inr (Some x)"
    "pending h' = ds @ (if keep then skipped else []) @ left" "suffix left (pending h)" "sent h' = sent h"
| expired: "wait_end keep judge ds h (Inr None) h'"
  if "pending h @ packets_of (wire h) = skipped @ left @ packets_of (wire h')"
    "list_all (\<lambda>q. judge q = Inr None) skipped"
    "pending h' = ds @ (if keep then skipped else []) @ left" "suffix left (pending h)" "sent h' = sent h"
| refused: "wait_end keep judge ds h (Inl e) h'"
  if "pending h @ packets_of (wire h) = skipped @ p # pending h' @ packets_of (wire h')"
    "list_all (\<lambda>q. judge q = Inr None) skipped" "judge p = Inl e" "sent h' = sent h"
| broken: "wait_end keep judge ds h (Inl e) h'"
  if "pending h @ packets_of (wire h) = skipped @ packets_of (wire h1)"
    "list_all (\<lambda>q. judge q = Inr None) skipped" "pending h1 = []" "read_wire t h1 = (Inl e, h')"
    "sent h' = sent h"

inductive_cases wait_end_foundE: "wait_end keep judge ds h (Inr (Some x)) h'"
inductive_cases wait_end_expiredE: "wait_end keep judge ds h (Inr None) h'"

lemma restore_fields [simp]:
  "pending (restore ps h) = ps @ pending h" "wire (restore ps h) = wire h" "sent (restore ps h) = sent h"
  "clock (restore ps h) = clock h"
  by (simp_all add: restore_def)

lemma wait_end_None:
  assumes "hci_read_packet t h = (Inr None, h1)" "wait_end keep judge ds h1 r h'"
  shows "wait_end keep judge ds h r h'"
  using assms(2) by (simp add: wait_end.simps hci_read_packet_None [OF assms(1)])

lemma wait_end_skip:
  assumes rd: "hci_read_packet t h = (Inr (Some p), h1)" and p: "judge p = Inr None"
    and "wait_end keep judge (if keep then ds @ [p] else ds) h1 r h'"
  shows "wait_end keep judge ds h r h'"
  using assms(3)
proof cases
  case (found skipped q left x)
  show ?thesis unfolding found(1)
    by (rule wait_end.found [where skipped = "p # skipped" and p = q and left = left])
      (use found hci_read_packet_Some [OF rd] p in \<open>auto dest: suffix_order.trans split: if_splits\<close>)
next
  case (expired skipped left)
  show ?thesis unfolding expired(1)
    by (rule wait_end.expired [where skipped = "p # skipped" and left = left])
      (use expired hci_read_packet_Some [OF rd] p in \<open>auto dest: suffix_order.trans split: if_splits\<close>)
next
  case (refused skipped q e)
  show ?thesis unfolding refused(1)
    by (rule wait_end.refused [where skipped = "p # skipped" and p = q])
      (use refused hci_read_packet_Some [OF rd] p in auto)
next
  case (broken skipped h2 t' e)
  show ?thesis unfolding broken(1)
    by (rule wait_end.broken [where skipped = "p # skipped" and ?h1.0 = h2 and t = t'])
      (use broken hci_read_packet_Some [OF rd] p in auto)
qed

lemma read_until_end:
  "read_until keep bounded cap judge deadline ds h = (r, h') \<Longrightarrow> wait_end keep judge ds h r h'"
proof (induction keep bounded cap judge deadline ds h rule: read_until.induct)
  case (1 keep bounded cap judge deadline ds h)
  show ?case
  proof (cases "clock h < deadline \<and> 0 < cap")
    case False
    with 1(3) show ?thesis
      by (auto simp: read_until.simps [of keep]
          intro!: wait_end.expired [where skipped = "[]" and left = "pending h"])
  next
    case True
    let ?t = "if bounded then min cap (deadline - clock h) else cap"
    obtain out h1 where rp: "hci_read_packet ?t h = (out, h1)" by fastforce
    note unfold = 1(3) True rp read_until.simps [of keep bounded cap judge deadline ds h]
    show ?thesis
    proof (cases out)
      case (Inl e)
      with unfold hci_read_packet_Inl [of ?t h e h1] show ?thesis
        by (auto intro!: wait_end.broken [where skipped = "[]" and ?h1.0 = h and t = ?t])
    next
      case (Inr po)
      show ?thesis
      proof (cases po)
        case None
        with 1(1) [OF True rp [symmetric] Inr None] unfold Inr wait_end_None show ?thesis by auto
      next
        case (Some p)
        note rs = hci_read_packet_Some [OF rp [unfolded Inr Some]]
        consider (err) e where "judge p = Inl e" | (skip) "judge p = Inr None"
          | (hit) x where "judge p = Inr (Some x)"
          by (cases "judge p", blast, metis option.exhaust)
        then show ?thesis
        proof cases
          case err
          with unfold Inr Some have "r = Inl e" "h' = h1" by auto
          with err rs show ?thesis
            by (auto intro: wait_end.refused [where skipped = "[]" and p = p and e = e])
        next
          case skip
          with 1(2) [OF True rp [symmetric] Inr Some skip] unfold Inr Some show ?thesis
            using wait_end_skip [where judge = judge, OF rp [unfolded Inr Some] skip] by auto
        next
          case hit
          with unfold Inr Some have "r = Inr (Some x)" "h' = restore ds h1" by auto
          with hit rs show ?thesis
            by (auto intro: wait_end.found [where skipped = "[]" and p = p and left = "pending h1" and x = x])
        qed
      qed
    qed
  qed
qed

section \<open>What arrives in time is found\<close>

lemma read_until_hears:
  assumes "pending h = []" "wire h = arriving ws @ (d, Inr p) # rest"
    "\<forall>q \<in> snd ` set ws. event_ok q \<and> judge q = Inr None"
    "event_ok p" "judge p = Inr (Some x)" "0 < cap"
    "clock h + sum_list (map fst ws) + d < deadline"
  shows "\<exists>h'. read_until keep bounded cap judge deadline ds h = (Inr (Some x), h') \<and>
           pending h' = ds @ (if keep then map snd ws else []) \<and> wire h' = rest"
  using assms
proof (induction keep bounded cap judge deadline ds h arbitrary: ws d rule: read_until.induct)
  case (1 keep bounded cap judge deadline ds h)
  let ?t = "if bounded then min cap (deadline - clock h) else cap"
  have rp: "hci_read_packet ?t h = read_wire ?t h" by (simp add: 1(3) hci_read_packet_def)
  have now: "clock h < deadline \<and> 0 < cap" using 1(8,9) by simp
  obtain d0 p0 w0 where head: "wire h = (d0, Inr p0) # w0" "event_ok p0"
    and d0: "ws = [] \<Longrightarrow> d0 = d \<and> p0 = p \<and> w0 = rest"
      "ws \<noteq> [] \<Longrightarrow> ws = (d0, p0) # tl ws \<and> w0 = arriving (tl ws) @ (d, Inr p) # rest"
    using 1(4-6) by (cases ws) (auto simp: arriving_def)
  have d0_le: "clock h + d0 < deadline" using 1(9) d0 by (cases ws) auto
  show ?case
  proof (cases "?t < d0")
    case True
    let ?h = "h\<lparr>clock := clock h + ?t, wire := (d0 - ?t, Inr p0) # w0\<rparr>"
    have rw: "hci_read_packet ?t h = (Inr None, ?h)"
      using True head by (simp add: rp read_wire_def)
    have step: "read_until keep bounded cap judge deadline ds h = read_until keep bounded cap judge deadline ds ?h"
      using now rw by (subst read_until.simps) (simp del: if_split)
    let ?ws = "if ws = [] then [] else (d0 - ?t, p0) # tl ws" and ?d = "if ws = [] then d - ?t else d"
    have sm: "sum_list (map fst ?ws) + ?d + ?t = sum_list (map fst ws) + d"
      using True d0 by (cases ws) auto
    have eq: "map snd ?ws = map snd ws" using d0 by (cases ws) auto
    have "\<exists>h'. read_until keep bounded cap judge deadline ds ?h = (Inr (Some x), h') \<and>
           pending h' = ds @ (if keep then map snd ?ws else []) \<and> wire h' = rest"
    proof (rule 1(1) [OF now rw [symmetric] refl refl, of ?ws ?d])
      show "wire ?h = arriving ?ws @ (?d, Inr p) # rest"
        using d0 by (cases ws) (auto simp: arriving_def)
      show "\<forall>q\<in>snd ` set ?ws. event_ok q \<and> judge q = Inr None"
        using 1(5) d0 by (cases ws) auto
      show "clock ?h + sum_list (map fst ?ws) + ?d < deadline" using sm 1(9) by simp
    qed (use 1 in simp_all)
    then show ?thesis unfolding step eq .
  next
    case False
    then obtain h1 where h1: "hci_read_packet ?t h = (Inr (Some p0), h1)" "wire h1 = w0"
      "clock h1 = clock h + d0" "pending h1 = []"
      using read_wire_head [OF head(1) _ head(2), of ?t] 1(3) rp by (metis not_le)
    show ?thesis
    proof (cases ws)
      case Nil
      with 1 d0 h1 now show ?thesis by (subst read_until.simps) (auto simp del: if_split)
    next
      case (Cons y ys)
      have y: "y = (d0, p0)" and w0: "w0 = arriving ys @ (d, Inr p) # rest"
        using d0(2) Cons by auto
      have na: "judge p0 = Inr None" using 1(5) Cons y by simp
      let ?ds = "if keep then ds @ [p0] else ds"
      have "\<exists>h'. read_until keep bounded cap judge deadline ?ds h1 = (Inr (Some x), h') \<and>
           pending h' = ?ds @ (if keep then map snd ys else []) \<and> wire h' = rest"
        by (rule 1(2) [OF now h1(1) [symmetric] refl refl na, of ys d])
          (use 1 Cons y w0 h1 in auto)
      moreover have "read_until keep bounded cap judge deadline ds h =
        read_until keep bounded cap judge deadline ?ds h1"
        using now h1(1) na by (subst read_until.simps) (simp del: if_split)
      ultimately show ?thesis using Cons y by auto
    qed
  qed
qed

end
