(* ===== verification/Hci_Replies.thy ===== *)
theory Hci_Replies
  imports Hci_Waits "HOL-Library.Multiset"
begin

text \<open>
  A controller that answers each command as it comes. The exact state a command leaves when the next
  thing on the wire is its Command Complete event: what procedures that are a sequence of commands
  are evaluated with, one rewrite per command. Also what a command consumes, which is what makes
  loops over commands terminate.
\<close>

section \<open>Exact replies\<close>

text \<open>The Command Complete event of a successful command, with its return parameters.\<close>

definition reply_to :: "nat \<Rightarrow> bytes \<Rightarrow> packet" where
  "reply_to opcode data = (H4_EVENT, Some EVT_COMMAND_COMPLETE, [1] @ to_le 2 opcode @ [0] @ data)"

text \<open>The packet a command writes.\<close>

definition command_packet :: "nat \<Rightarrow> bytes \<Rightarrow> bytes" where
  "command_packet opcode payload = [H4_COMMAND] @ to_le 2 opcode @ to_le 1 (length payload) @ payload"

lemma command_answer_reply:
  "opcode < 65536 \<Longrightarrow>
     command_answer opcode (reply_to opcode data) = Inr (Some (''opcode 0x%04X returned 0x%02X %s'', 0, data))"
  by (simp add: command_answer_def reply_to_def unpack_le_def pslice_def from_to_le to_le_2)

lemma read_reply:
  assumes "wire h = (d, Inr (reply_to opcode data)) # rest" "pending h = []" "d \<le> t"
  shows "hci_read_packet t h =
    (Inr (Some (reply_to opcode data)), h\<lparr>clock := clock h + d, wire := rest\<rparr>)"
  using assms
  by (simp add: hci_read_packet_def read_wire_def reply_to_def Let_def on_event_def bind_s_def)

lemma command_loop_reply:
  assumes "opcode < 65536" "pending h = []" "wire h = (d, Inr (reply_to opcode data)) # rest"
    "clock h + d < deadline"
  shows "command_loop opcode af deadline [] h = (Inr (0, data), h\<lparr>clock := clock h + d, wire := rest\<rparr>)"
  using assms
proof (induction d arbitrary: h rule: less_induct)
  case (less d)
  show ?case
  proof (cases "200000 < d")
    case False
    with less.prems show ?thesis
      by (subst command_loop.simps) (simp add: read_reply command_answer_reply)
  next
    case True
    let ?h = "h\<lparr>clock := clock h + 200000, wire := (d - 200000, Inr (reply_to opcode data)) # rest\<rparr>"
    have rd: "hci_read_packet 200000 h = (Inr None, ?h)"
      using True less.prems by (simp add: hci_read_packet_def read_wire_def)
    have "command_loop opcode af deadline [] h = command_loop opcode af deadline [] ?h"
      using True less.prems rd by (subst command_loop.simps) simp
    also have "\<dots> = (Inr (0, data), ?h\<lparr>clock := clock ?h + (d - 200000), wire := rest\<rparr>)"
      using True less.prems by (intro less.IH) simp_all
    finally show ?thesis using True by simp
  qed
qed

lemma command_replied:
  assumes "pending h = []" "tx_faults h = []" "wire h = (d, Inr (reply_to opcode data)) # rest"
    "opcode < 65536" "length payload < 256" "d < timeout"
  shows "command opcode payload timeout af h =
    (Inr (0, data), h\<lparr>sent := sent h @ [command_packet opcode payload], clock := clock h + d, wire := rest\<rparr>)"
proof -
  let ?h = "h\<lparr>sent := sent h @ [command_packet opcode payload]\<rparr>"
  have "command_header opcode payload = Inr (command_packet opcode payload)"
    using assms(4,5) by (simp add: command_header_def pack_le_def command_packet_def)
  moreover have "hci_write_packet (command_packet opcode payload) h = (Inr (), ?h)"
    using assms(2) by (simp add: hci_write_packet_def)
  moreover have "command_loop opcode af (clock ?h + timeout) [] ?h =
      (Inr (0, data), ?h\<lparr>clock := clock ?h + d, wire := rest\<rparr>)"
    using assms by (intro command_loop_reply) simp_all
  ultimately show ?thesis by (simp add: command_def bind_s_def)
qed

section \<open>What a command consumes\<close>

definition backlog :: "hci \<Rightarrow> nat" where
  "backlog h = length (pending h) + length (packets_of (wire h))"

lemma command_end_backlog:
  assumes "command_end opcode af [] h (Inr x) h'"
  shows "backlog h' < backlog h"
  using assms
proof cases
  case (answered skipped ans left msg status data)
  have "length (pending h @ packets_of (wire h)) = length (skipped @ ans # left @ packets_of (wire h'))"
    using answered(1) by simp
  with answered(5) show ?thesis by (simp add: backlog_def)
qed

text \<open>Every command that returns has used up the event that answered it.\<close>

lemma command_consumes:
  assumes "command opcode payload timeout af h = (Inr x, h')"
  shows "backlog h' < backlog h"
proof -
  obtain pkt h1 where h1: "hci_write_packet pkt h = (Inr (), h1)"
    "command_loop opcode af (clock h1 + timeout) [] h1 = (Inr x, h')"
    using assms by (auto simp: command_def bind_s_Inr_iff lift_r_def)
  then have "backlog h1 = backlog h"
    by (auto simp: hci_write_packet_def backlog_def split: list.splits option.splits)
  with command_end_backlog [OF command_loop_end [OF h1(2)]] show ?thesis by simp
qed

section \<open>What a command writes\<close>

lemma read_wire_tx_faults [simp]: "tx_faults (snd (read_wire t h)) = tx_faults h"
proof (cases "wire h")
  case (Cons x rest)
  obtain d out where x: "x = (d, out)" by fastforce
  let ?h = "h\<lparr>clock := clock h + d, wire := rest\<rparr>"
  have "tx_faults (snd (bind_s (on_event c body) (\<lambda>_. ret y) ?h)) = tx_faults h" for c body and y :: "packet option"
    using on_event_tx_faults [of c body ?h] by (cases "on_event c body ?h") (auto simp: bind_s_def split: sum.splits)
  with Cons x show ?thesis
    by (auto simp: read_wire_def Let_def split: sum.splits option.splits bool.splits)
qed (simp add: read_wire_def)

lemma hci_read_packet_tx_faults: "hci_read_packet t h = (r, h') \<Longrightarrow> tx_faults h' = tx_faults h"
  using read_wire_tx_faults [of t h] by (cases "pending h") (auto simp: hci_read_packet_def)

lemma command_loop_tx_faults: "tx_faults (snd (command_loop opcode af deadline ds h)) = tx_faults h"
proof (induction opcode af deadline ds h rule: command_loop.induct)
  case (1 opcode af deadline ds h)
  show ?case
  proof (cases "clock h < deadline")
    case True
    obtain out h' where rp: "hci_read_packet 200000 h = (out, h')" by fastforce
    from 1 True rp hci_read_packet_tx_faults [OF rp] show ?thesis
      by (subst command_loop.simps) (auto simp: Let_def split: sum.splits option.splits prod.splits)
  qed (simp add: command_loop.simps [of opcode])
qed

lemma command_loop_sent: "sent (snd (command_loop opcode af deadline ds h)) = sent h"
proof -
  obtain r h' where c: "command_loop opcode af deadline ds h = (r, h')" by fastforce
  from command_loop_end [OF c] have "sent h' = sent h" by cases simp_all
  with c show ?thesis by simp
qed

text \<open>A command writes its own packet at most once and nothing else, and exactly once when the
  transport takes it.\<close>

lemma command_writes: "sent (snd (command opcode payload timeout af h)) \<in> {sent h, sent h @ [command_packet opcode payload]}"
proof (cases "command_header opcode payload")
  case (Inr pkt)
  then have "pkt = command_packet opcode payload"
    by (auto simp: command_header_def bind_r_iff pack_le_def command_packet_def split: if_splits)
  with Inr show ?thesis
    by (auto simp: command_def bind_s_def hci_write_packet_def command_loop_sent split: list.splits option.splits)
qed (simp add: command_def bind_s_def)

lemma command_writes_once:
  assumes "tx_faults h = []" "opcode < 65536" "length payload < 256"
  shows "sent (snd (command opcode payload timeout af h)) = sent h @ [command_packet opcode payload]"
    "tx_faults (snd (command opcode payload timeout af h)) = []"
proof -
  have "command_header opcode payload = Inr (command_packet opcode payload)"
    using assms(2,3) by (simp add: command_header_def pack_le_def command_packet_def)
  with assms(1) show "sent (snd (command opcode payload timeout af h)) = sent h @ [command_packet opcode payload]"
    "tx_faults (snd (command opcode payload timeout af h)) = []"
    by (simp_all add: command_def bind_s_def hci_write_packet_def command_loop_sent command_loop_tx_faults)
qed

section \<open>What is received and not lost\<close>

text \<open>Everything a controller has sent that nobody has taken yet.\<close>

definition inbox :: "hci \<Rightarrow> packet multiset" where
  "inbox h = mset (pending h @ packets_of (wire h))"

text \<open>A command that returns has written its packet and taken exactly one packet, its answer, out of
  the inbox; a wait takes the packet it was for, or nothing when it expires. Whatever came in between
  is still there.\<close>

lemma command_takes_answer:
  assumes "command opcode payload timeout af h = (Inr (status, data), h')"
  shows "sent h' = sent h @ [command_packet opcode payload] \<and>
    (\<exists>ans msg. command_answer opcode ans = Inr (Some (msg, status, data)) \<and> inbox h = add_mset ans (inbox h'))"
proof -
  obtain pkt h1 where h1: "command_header opcode payload = Inr pkt" "hci_write_packet pkt h = (Inr (), h1)"
    "command_loop opcode af (clock h1 + timeout) [] h1 = (Inr (status, data), h')"
    using assms by (auto simp: command_def bind_s_Inr_iff lift_r_def)
  have "pkt = command_packet opcode payload"
    using h1(1) by (auto simp: command_header_def bind_r_iff pack_le_def command_packet_def split: if_splits)
  with h1(2) have s: "sent h1 = sent h @ [command_packet opcode payload]" "inbox h1 = inbox h"
    by (auto simp: hci_write_packet_def inbox_def split: list.splits option.splits)
  from command_loop_end [OF h1(3)] show ?thesis
  proof cases
    case (answered skipped ans left msg status' data')
    have "inbox h1 = mset (skipped @ ans # left @ packets_of (wire h'))" unfolding inbox_def answered(1) ..
    moreover have "inbox h' = mset (left @ skipped @ packets_of (wire h'))" unfolding inbox_def answered(5) by simp
    ultimately have "inbox h1 = add_mset ans (inbox h')" by simp
    moreover have "status = status' \<and> data = data'" using answered(4) by (auto split: if_splits)
    ultimately show ?thesis using s answered(3,7) by metis
  qed
qed

lemma wait_takes_match:
  assumes "read_until True bounded cap judge deadline [] h = (Inr (Some x), h')"
  shows "\<exists>p. judge p = Inr (Some x) \<and> inbox h = add_mset p (inbox h') \<and> sent h' = sent h"
  using read_until_end [OF assms]
proof cases
  case (found skipped p left)
  have "inbox h = mset (skipped @ p # left @ packets_of (wire h'))" unfolding inbox_def found(1) ..
  moreover have "inbox h' = mset (skipped @ left @ packets_of (wire h'))" unfolding inbox_def found(4) by simp
  ultimately have "inbox h = add_mset p (inbox h')" by simp
  with found(3,6) show ?thesis by blast
qed

lemma wait_expires_keeping:
  assumes "read_until True bounded cap judge deadline [] h = (Inr None, h')"
  shows "inbox h' = inbox h \<and> sent h' = sent h"
  using read_until_end [OF assms]
proof cases
  case (expired skipped left)
  have "inbox h = mset (skipped @ left @ packets_of (wire h'))" unfolding inbox_def expired(1) ..
  moreover have "inbox h' = mset (skipped @ left @ packets_of (wire h'))" unfolding inbox_def expired(3) by simp
  ultimately show ?thesis using expired(5) by simp
qed

section \<open>Sleeping\<close>

text \<open>\<open>time.sleep\<close>: what arrives meanwhile is buffered by the transport.\<close>

fun elapse :: "nat \<Rightarrow> (nat \<times> 'a) list \<Rightarrow> (nat \<times> 'a) list" where
  "elapse t [] = []"
| "elapse t ((d, x) # w) = (d - t, x) # (if d < t then elapse (t - d) w else w)"

definition sleep :: "nat \<Rightarrow> (hci, unit) action" where
  "sleep t = modify_s (\<lambda>h. h\<lparr>clock := clock h + t, wire := elapse t (wire h)\<rparr>)"

end
