(* ===== verification/Smp_Legacy.thy ===== *)
theory Smp_Legacy
  imports Att_Server Hci_Replies
begin

text \<open>
  Legacy Just Works pairing on the peripheral side: class \<open>SmpPeripheral\<close> of
  \<open>python/hcicontroller/hci_ble_test_impl.py\<close>. AES and random numbers come from the controller
  (LE Encrypt and LE Rand), so the confirm value and the short term key are computed by commands;
  the state is the pair of the object and the engine.
\<close>

section \<open>State\<close>

record legacy =
  l_conn :: nat
  l_ia :: bytes
  l_iat :: nat
  l_ra :: bytes
  l_rat :: nat
  l_tk :: bytes
  l_preq :: "bytes option"
  l_pres :: "bytes option"
  l_own_random :: "bytes option"
  l_peer_random :: "bytes option"
  l_peer_confirm :: "bytes option"
  l_stk :: "bytes option"
  l_failed :: "(string \<times> nat list) option"
  l_started :: bool

definition legacy_init :: "nat \<Rightarrow> bytes \<Rightarrow> nat \<Rightarrow> bytes \<Rightarrow> nat \<Rightarrow> legacy" where
  "legacy_init handle local_addr local_type peer_addr peer_type =
     \<lparr>l_conn = handle, l_ia = peer_addr, l_iat = peer_type, l_ra = local_addr, l_rat = local_type,
      l_tk = zeros 16, l_preq = None, l_pres = None, l_own_random = None, l_peer_random = None,
      l_peer_confirm = None, l_stk = None, l_failed = None, l_started = False\<rparr>"

abbreviation (input) CID_SMP :: nat where "CID_SMP \<equiv> 6"
abbreviation (input) SMP_PAIRING_REQUEST :: byte where "SMP_PAIRING_REQUEST \<equiv> 0x01"
abbreviation (input) SMP_PAIRING_RESPONSE :: byte where "SMP_PAIRING_RESPONSE \<equiv> 0x02"
abbreviation (input) SMP_PAIRING_CONFIRM :: byte where "SMP_PAIRING_CONFIRM \<equiv> 0x03"
abbreviation (input) SMP_PAIRING_RANDOM :: byte where "SMP_PAIRING_RANDOM \<equiv> 0x04"
abbreviation (input) SMP_PAIRING_FAILED :: byte where "SMP_PAIRING_FAILED \<equiv> 0x05"
abbreviation (input) SMP_ERR_CONFIRM_FAILED :: byte where "SMP_ERR_CONFIRM_FAILED \<equiv> 0x04"
abbreviation (input) SMP_IO_NO_INPUT_NO_OUTPUT :: byte where "SMP_IO_NO_INPUT_NO_OUTPUT \<equiv> 0x03"
abbreviation (input) SMP_MAX_KEY_SIZE :: byte where "SMP_MAX_KEY_SIZE \<equiv> 16"
abbreviation (input) OP_LE_ENCRYPT :: nat where "OP_LE_ENCRYPT \<equiv> 0x2017"
abbreviation (input) OP_LE_RAND :: nat where "OP_LE_RAND \<equiv> 0x2018"

section \<open>The toolbox, on the controller\<close>

definition xor16 :: "bytes \<Rightarrow> bytes \<Rightarrow> bytes" where
  "xor16 a b = map (\<lambda>(x, y). x XOR y) (zip a b)"

definition encrypt :: "bytes \<Rightarrow> bytes \<Rightarrow> (hci, bytes) action" where
  "encrypt key plaintext =
     bind_s (command3 OP_LE_ENCRYPT (rev key @ rev plaintext)) (\<lambda>(_, data).
     ret (rev (take 16 data)))"

text \<open>\<open>while len(out) < 16\<close>: a controller may answer LE Rand with fewer octets, even none.\<close>

function random16_loop :: "bytes \<Rightarrow> (hci, bytes) action" where
  "random16_loop out h =
     (if 16 \<le> length out then (Inr (take 16 out), h)
      else case command3 OP_LE_RAND [] h of
        (Inl e, h') \<Rightarrow> (Inl e, h')
      | (Inr (_, data), h') \<Rightarrow> random16_loop (out @ take 8 data) h')"
  by pat_completeness auto
termination
  by (relation "measure (\<lambda>(_, h). backlog h)") (auto intro: command_consumes [OF sym])

declare random16_loop.simps [simp del]

definition random16 :: "(hci, bytes) action" where
  "random16 = random16_loop []"

text \<open>Adding \<open>None\<close> to a byte string raises \<open>TypeError\<close>.\<close>

definition present :: "'a option \<Rightarrow> 'a result" where
  "present x = (case x of None \<Rightarrow> Inl TypeError | Some v \<Rightarrow> Inr v)"

definition legacy_c1 :: "legacy \<Rightarrow> bytes \<Rightarrow> bytes \<Rightarrow> (hci, bytes) action" where
  "legacy_c1 l key rand =
     bind_s (lift_r (cat [bytes_of [l_iat l, l_rat l], present (l_preq l), present (l_pres l)])) (\<lambda>p1.
     bind_s (encrypt key (xor16 rand p1)) (\<lambda>first.
     encrypt key (xor16 first (l_ra l @ l_ia l @ zeros 4))))"

definition legacy_s1 :: "bytes \<Rightarrow> bytes \<Rightarrow> bytes \<Rightarrow> (hci, bytes) action" where
  "legacy_s1 key own_rand peer_rand = encrypt key (take 8 peer_rand @ take 8 own_rand)"

section \<open>Messages\<close>

definition legacy_send :: "bytes \<Rightarrow> (legacy \<times> hci, unit) action" where
  "legacy_send pdu = with_s (\<lambda>(l, _). on_snd (send_acl (l_conn l) CID_SMP pdu))"

definition legacy_response :: bytes where
  "legacy_response = [SMP_PAIRING_RESPONSE, SMP_IO_NO_INPUT_NO_OUTPUT, 0, 0, SMP_MAX_KEY_SIZE, 0, 0]"

definition legacy_feed :: "bytes \<Rightarrow> nat \<Rightarrow> (legacy \<times> hci, unit) action" where
  "legacy_feed pdu cid =
     (if cid \<noteq> CID_SMP \<or> pdu = [] then ret ()
      else if pdu ! 0 = SMP_PAIRING_REQUEST \<and> 7 \<le> length pdu then
        bind_s (modify_s (apfst (\<lambda>l. l\<lparr>l_started := True, l_preq := Some (take 7 pdu),
          l_pres := Some legacy_response\<rparr>))) (\<lambda>_.
        legacy_send legacy_response)
      else if pdu ! 0 = SMP_PAIRING_CONFIRM \<and> 17 \<le> length pdu then
        with_s (\<lambda>(l, _).
        if l_preq l = None then ret ()
        else
          bind_s (modify_s (apfst (\<lambda>l. l\<lparr>l_peer_confirm := Some (pslice 1 17 pdu)\<rparr>))) (\<lambda>_.
          bind_s (on_snd random16) (\<lambda>r.
          bind_s (modify_s (apfst (\<lambda>l. l\<lparr>l_own_random := Some r\<rparr>))) (\<lambda>_.
          with_s (\<lambda>(l, _).
          bind_s (on_snd (legacy_c1 l (l_tk l) r)) (\<lambda>c.
          legacy_send ([SMP_PAIRING_CONFIRM] @ c)))))))
      else if pdu ! 0 = SMP_PAIRING_RANDOM \<and> 17 \<le> length pdu then
        with_s (\<lambda>(l, _).
        case l_own_random l of
          None \<Rightarrow> ret ()
        | Some own \<Rightarrow>
            let r = pslice 1 17 pdu in
            bind_s (modify_s (apfst (\<lambda>l. l\<lparr>l_peer_random := Some r\<rparr>))) (\<lambda>_.
            with_s (\<lambda>(l, _).
            bind_s (on_snd (legacy_c1 l (l_tk l) r)) (\<lambda>c.
            if Some c \<noteq> l_peer_confirm l then
              bind_s (modify_s (apfst (\<lambda>l. l\<lparr>l_failed := Some (''the confirm value did not match'', [])\<rparr>))) (\<lambda>_.
              legacy_send [SMP_PAIRING_FAILED, SMP_ERR_CONFIRM_FAILED])
            else
              bind_s (on_snd (legacy_s1 (l_tk l) own r)) (\<lambda>k.
              bind_s (modify_s (apfst (\<lambda>l. l\<lparr>l_stk := Some k\<rparr>))) (\<lambda>_.
              legacy_send ([SMP_PAIRING_RANDOM] @ own)))))))
      else if pdu ! 0 = SMP_PAIRING_FAILED \<and> 2 \<le> length pdu then
        modify_s (apfst (\<lambda>l. l\<lparr>l_failed := Some (''the peer sent Pairing Failed 0x%02X'', [unat (pdu ! 1)])\<rparr>))
      else ret ())"

section \<open>Contracts\<close>

interpretation enc: hci_procedure "encrypt key plaintext" for key plaintext
  unfolding encrypt_def by (intro procedure_intros)

lemma random16_loop_later: "later h (snd (random16_loop out h))"
proof (induction out h rule: random16_loop.induct)
  case (1 out h)
  show ?case
  proof (cases "16 \<le> length out")
    case False
    obtain r h' where c: "command3 OP_LE_RAND [] h = (r, h')" by fastforce
    then have l: "later h h'" using cmd.later [of h OP_LE_RAND "[]" 3000000 False] by simp
    show ?thesis
    proof (cases r)
      case (Inl e)
      with False c l show ?thesis by (subst random16_loop.simps) simp
    next
      case (Inr x)
      obtain st data where x: "x = (st, data)" by fastforce
      from 1 [OF False c [symmetric] Inr x [symmetric]] l
      have "later h (snd (random16_loop (out @ take 8 data) h'))" by (rule later_trans [rotated])
      with False c Inr x show ?thesis by (subst random16_loop.simps) simp
    qed
  qed (simp add: random16_loop.simps)
qed

interpretation rnd: hci_procedure random16
  unfolding random16_def by unfold_locales (rule random16_loop_later)

interpretation c1: hci_procedure "legacy_c1 l key rand" for l key rand
  unfolding legacy_c1_def by (intro procedure_intros enc.hci_procedure_axioms)

interpretation s1: hci_procedure "legacy_s1 key own peer" for key own peer
  unfolding legacy_s1_def by (rule enc.hci_procedure_axioms)

interpretation smp_channel: l2cap_handler legacy_feed CID_SMP
proof
  have "link_procedure (legacy_feed pdu cid)" for pdu cid
    unfolding legacy_feed_def legacy_send_def Let_def
    by (intro link_intros rnd.hci_procedure_axioms c1.hci_procedure_axioms s1.hci_procedure_axioms)
  then show "later (snd s) (snd (snd (legacy_feed pdu cid s)))" for pdu cid s
    by (rule link_procedure.link_later)
  show "cid \<noteq> CID_SMP \<Longrightarrow> legacy_feed pdu cid s = (Inr (), s)" for pdu cid s
    by (simp add: legacy_feed_def)
qed

section \<open>Pairing against the specification's functions\<close>

text \<open>The confirm and key functions of Vol 3 Part H 2.2.3 and 2.2.4, over an AES block function \<open>e\<close>
  and in the octet order of the wire: what the central computes on its side.\<close>

definition c1_spec :: "(bytes \<Rightarrow> bytes \<Rightarrow> bytes) \<Rightarrow> bytes \<Rightarrow> bytes \<Rightarrow> bytes \<Rightarrow> bytes \<Rightarrow> byte \<Rightarrow> byte \<Rightarrow> bytes \<Rightarrow> bytes \<Rightarrow> bytes"
  where
  "c1_spec e k r preq pres iat rat ia ra =
     e k (xor16 (e k (xor16 r ([iat, rat] @ preq @ pres))) (ra @ ia @ zeros 4))"

definition s1_spec :: "(bytes \<Rightarrow> bytes \<Rightarrow> bytes) \<Rightarrow> bytes \<Rightarrow> bytes \<Rightarrow> bytes \<Rightarrow> bytes" where
  "s1_spec e k srand mrand = e k (take 8 mrand @ take 8 srand)"

text \<open>The state after a command whose reply was next on the wire.\<close>

definition after_command :: "nat \<Rightarrow> bytes \<Rightarrow> nat \<Rightarrow> hci \<Rightarrow> hci" where
  "after_command opcode payload d h =
     h\<lparr>sent := sent h @ [command_packet opcode payload], clock := clock h + d, wire := tl (wire h)\<rparr>"

text \<open>The ACL packets written so far.\<close>

definition acl_out :: "hci \<Rightarrow> bytes list" where
  "acl_out h = filter (\<lambda>p. take 1 p = [H4_ACL]) (sent h)"

lemma after_command_fields [simp]:
  "acl_out (after_command opcode payload d h) = acl_out h"
  "pending (after_command opcode payload d h) = pending h"
  "tx_faults (after_command opcode payload d h) = tx_faults h"
  "wire (after_command opcode payload d h) = tl (wire h)"
  "acl_credits (after_command opcode payload d h) = acl_credits h"
  by (simp_all add: after_command_def acl_out_def command_packet_def)

lemma command_after:
  assumes "pending h = []" "tx_faults h = []" "wire h = (d, Inr (reply_to opcode data)) # rest"
    "opcode < 65536" "length payload < 256" "d < timeout"
  shows "command opcode payload timeout af h = (Inr (0, data), after_command opcode payload d h)"
  using command_replied [OF assms] assms(3) by (simp add: after_command_def)

lemma encrypt_replied:
  assumes "pending h = []" "tx_faults h = []"
    "wire h = (d, Inr (reply_to OP_LE_ENCRYPT (rev block))) # rest" "d < 3000000"
    "length key = 16" "length plaintext = 16" "length block = 16"
  shows "encrypt key plaintext h = (Inr block, after_command OP_LE_ENCRYPT (rev key @ rev plaintext) d h)"
proof -
  have "command3 OP_LE_ENCRYPT (rev key @ rev plaintext) h =
      (Inr (0, rev block), after_command OP_LE_ENCRYPT (rev key @ rev plaintext) d h)"
    using assms by (intro command_after) simp_all
  with assms(7) show ?thesis by (simp add: encrypt_def bind_s_eqI)
qed

lemma length_xor16 [simp]: "length (xor16 a b) = min (length a) (length b)"
  by (simp add: xor16_def)

lemma legacy_c1_replied:
  fixes e :: "bytes \<Rightarrow> bytes \<Rightarrow> bytes"
  assumes "pending h = []" "tx_faults h = []"
    "wire h = (d1, Inr (reply_to OP_LE_ENCRYPT (rev b1))) # (d2, Inr (reply_to OP_LE_ENCRYPT (rev b2))) # rest"
    "d1 < 3000000" "d2 < 3000000" "length key = 16" "length r = 16"
    "l_preq l = Some preq" "length preq = 7" "l_pres l = Some pres" "length pres = 7"
    "l_iat l = unat (iat :: byte)" "l_rat l = unat (rat :: byte)" "length (l_ia l) = 6" "length (l_ra l) = 6"
    "b1 = e key (xor16 r ([iat, rat] @ preq @ pres))" "length b1 = 16"
    "b2 = e key (xor16 b1 (l_ra l @ l_ia l @ zeros 4))" "length b2 = 16"
  shows "\<exists>h'. legacy_c1 l key r h = (Inr b2, h') \<and> pending h' = [] \<and> tx_faults h' = [] \<and> wire h' = rest \<and>
    acl_out h' = acl_out h"
proof -
  let ?p1 = "[iat, rat] @ preq @ pres" and ?p2 = "l_ra l @ l_ia l @ zeros 4"
  have p1: "cat [bytes_of [l_iat l, l_rat l], present (l_preq l), present (l_pres l)] = Inr ?p1"
    using assms by (simp add: cat.simps bytes_of_def octet_def present_def)
  let ?h1 = "after_command OP_LE_ENCRYPT (rev key @ rev (xor16 r ?p1)) d1 h"
  let ?h2 = "after_command OP_LE_ENCRYPT (rev key @ rev (xor16 b1 ?p2)) d2 ?h1"
  have "encrypt key (xor16 r ?p1) h = (Inr b1, ?h1)"
    using assms by (intro encrypt_replied) simp_all
  moreover have "encrypt key (xor16 b1 ?p2) ?h1 = (Inr b2, ?h2)"
    using assms by (intro encrypt_replied) simp_all
  ultimately have run: "legacy_c1 l key r h = (Inr b2, ?h2)"
    unfolding legacy_c1_def p1 bind_lift_r by (simp add: bind_s_eqI)
  moreover have "pending ?h2 = []" "tx_faults ?h2 = []" "wire ?h2 = rest" "acl_out ?h2 = acl_out h"
    using assms(1-3) by simp_all
  ultimately show ?thesis by blast
qed

lemma random16_replied:
  assumes "pending h = []" "tx_faults h = []"
    "wire h = (d1, Inr (reply_to OP_LE_RAND r1)) # (d2, Inr (reply_to OP_LE_RAND r2)) # rest"
    "d1 < 3000000" "d2 < 3000000" "length r1 = 8" "length r2 = 8"
  shows "random16 h = (Inr (r1 @ r2), after_command OP_LE_RAND [] d2 (after_command OP_LE_RAND [] d1 h))"
proof -
  let ?h1 = "after_command OP_LE_RAND [] d1 h"
  have "command3 OP_LE_RAND [] h = (Inr (0, r1), ?h1)"
    using assms by (intro command_after) simp_all
  moreover have "command3 OP_LE_RAND [] ?h1 = (Inr (0, r2), after_command OP_LE_RAND [] d2 ?h1)"
    using assms by (intro command_after) simp_all
  ultimately show ?thesis using assms(6,7)
    by (simp add: random16_def random16_loop.simps [of "[]"] random16_loop.simps [of r1]
        random16_loop.simps [of "r1 @ r2"])
qed

text \<open>The state after a PDU was sent.\<close>

definition after_send :: "nat \<Rightarrow> bytes \<Rightarrow> hci \<Rightarrow> hci" where
  "after_send handle pdu h =
     h\<lparr>sent := sent h @ [acl_packet handle CID_SMP pdu], acl_credits := acl_credits h - 1\<rparr>"

lemma after_send_fields [simp]:
  "pending (after_send handle pdu h) = pending h" "tx_faults (after_send handle pdu h) = tx_faults h"
  "wire (after_send handle pdu h) = wire h"
  "acl_out (after_send handle pdu h) = acl_out h @ [acl_packet handle CID_SMP pdu]"
  by (simp_all add: after_send_def acl_out_def acl_packet_def)

lemma legacy_send_ok:
  assumes "tx_faults h = []" "l_conn l < 65536" "length pdu < 65532"
  shows "legacy_send pdu (l, h) = (Inr (), (l, after_send (l_conn l) pdu h))"
  using send_acl_ok [OF assms(1,2), of CID_SMP pdu] assms(3) by (simp add: legacy_send_def after_send_def)

lemma legacy_request_step:
  assumes "tx_faults h = []" "l_conn l < 65536" "length preq = 7" "preq ! 0 = SMP_PAIRING_REQUEST"
  shows "legacy_feed preq CID_SMP (l, h) =
    (Inr (), (l\<lparr>l_started := True, l_preq := Some preq, l_pres := Some legacy_response\<rparr>,
      after_send (l_conn l) legacy_response h))"
proof -
  let ?l = "l\<lparr>l_started := True, l_preq := Some preq, l_pres := Some legacy_response\<rparr>"
  have "legacy_send legacy_response (?l, h) = (Inr (), (?l, after_send (l_conn ?l) legacy_response h))"
    using assms by (intro legacy_send_ok) (simp_all add: legacy_response_def)
  moreover have "preq \<noteq> []" using assms(3) by auto
  ultimately show ?thesis using assms(3,4) by (simp add: legacy_feed_def)
qed

lemma legacy_confirm_step:
  assumes "tx_faults h = []" "l_conn l < 65536" "length cfm = 16" "l_preq l \<noteq> None"
    "random16 h = (Inr r, h1)" "tx_faults h2 = []" "length c < 65531"
    "legacy_c1 (l\<lparr>l_peer_confirm := Some cfm, l_own_random := Some r\<rparr>) (l_tk l) r h1 = (Inr c, h2)"
  shows "legacy_feed (SMP_PAIRING_CONFIRM # cfm) CID_SMP (l, h) =
    (Inr (), (l\<lparr>l_peer_confirm := Some cfm, l_own_random := Some r\<rparr>,
      after_send (l_conn l) (SMP_PAIRING_CONFIRM # c) h2))"
proof -
  let ?l = "l\<lparr>l_peer_confirm := Some cfm, l_own_random := Some r\<rparr>"
  have "legacy_send (SMP_PAIRING_CONFIRM # c) (?l, h2) = (Inr (), (?l, after_send (l_conn ?l) (SMP_PAIRING_CONFIRM # c) h2))"
    using assms by (intro legacy_send_ok) simp_all
  moreover have "pslice (Suc 0) 17 (SMP_PAIRING_CONFIRM # cfm) = cfm" using assms(3) by (simp add: pslice_def)
  ultimately show ?thesis using assms
    by (auto simp: legacy_feed_def bind_s_def)
qed

lemma legacy_random_step:
  assumes "tx_faults h = []" "l_conn l < 65536" "length mrand = 16" "l_own_random l = Some own" "length own = 16"
    "legacy_c1 (l\<lparr>l_peer_random := Some mrand\<rparr>) (l_tk l) mrand h = (Inr c, h1)" "tx_faults h1 = []"
  shows "Some c \<noteq> l_peer_confirm l \<Longrightarrow> legacy_feed (SMP_PAIRING_RANDOM # mrand) CID_SMP (l, h) =
      (Inr (), (l\<lparr>l_peer_random := Some mrand, l_failed := Some (''the confirm value did not match'', [])\<rparr>,
        after_send (l_conn l) [SMP_PAIRING_FAILED, SMP_ERR_CONFIRM_FAILED] h1))"
    "Some c = l_peer_confirm l \<Longrightarrow> legacy_s1 (l_tk l) own mrand h1 = (Inr k, h2) \<Longrightarrow> tx_faults h2 = [] \<Longrightarrow>
      legacy_feed (SMP_PAIRING_RANDOM # mrand) CID_SMP (l, h) =
      (Inr (), (l\<lparr>l_peer_random := Some mrand, l_stk := Some k\<rparr>, after_send (l_conn l) (SMP_PAIRING_RANDOM # own) h2))"
proof -
  have cut: "pslice (Suc 0) 17 (SMP_PAIRING_RANDOM # mrand) = mrand" using assms(3) by (simp add: pslice_def)
  show "legacy_feed (SMP_PAIRING_RANDOM # mrand) CID_SMP (l, h) =
      (Inr (), (l\<lparr>l_peer_random := Some mrand, l_failed := Some (''the confirm value did not match'', [])\<rparr>,
        after_send (l_conn l) [SMP_PAIRING_FAILED, SMP_ERR_CONFIRM_FAILED] h1))"
    if "Some c \<noteq> l_peer_confirm l"
    using that assms cut
      legacy_send_ok [of h1 "l\<lparr>l_peer_random := Some mrand, l_failed := Some (''the confirm value did not match'', [])\<rparr>"
        "[SMP_PAIRING_FAILED, SMP_ERR_CONFIRM_FAILED]"]
    by (simp add: legacy_feed_def bind_s_def)
  show "legacy_feed (SMP_PAIRING_RANDOM # mrand) CID_SMP (l, h) =
      (Inr (), (l\<lparr>l_peer_random := Some mrand, l_stk := Some k\<rparr>, after_send (l_conn l) (SMP_PAIRING_RANDOM # own) h2))"
    if "Some c = l_peer_confirm l" "legacy_s1 (l_tk l) own mrand h1 = (Inr k, h2)" "tx_faults h2 = []"
    using that assms cut
      legacy_send_ok [of h2 "l\<lparr>l_peer_random := Some mrand, l_stk := Some k\<rparr>" "SMP_PAIRING_RANDOM # own"]
    by (simp add: legacy_feed_def bind_s_def)
qed

text \<open>The peer's three messages, one after the other.\<close>

definition legacy_run :: "bytes \<Rightarrow> bytes \<Rightarrow> bytes \<Rightarrow> (legacy \<times> hci, unit) action" where
  "legacy_run preq cfm mrand =
     bind_s (legacy_feed preq CID_SMP) (\<lambda>_.
     bind_s (legacy_feed (SMP_PAIRING_CONFIRM # cfm) CID_SMP) (\<lambda>_.
     legacy_feed (SMP_PAIRING_RANDOM # mrand) CID_SMP))"


definition toy_aes :: "bytes \<Rightarrow> bytes \<Rightarrow> bytes" where
  "toy_aes k p = take 16 (map (\<lambda>b. b + 1) p @ zeros 16)"


end
