(* ===== verification/Att_Refinement.thy ===== *)
theory Att_Refinement
  imports Att_Server
begin

text \<open>
  What the attribute server promises, as an abstract store: a value per handle, the negotiated MTU,
  the notification setting and what the peer wrote to the UART. \<open>att_feed\<close> implements it: whatever
  PDUs arrive and whatever the transport does with the answers, the server's state is the store's.
\<close>

section \<open>The abstract store\<close>

record store =
  s_value :: "nat \<rightharpoonup> bytes"
  s_mtu :: nat
  s_cccd :: nat
  s_written :: bytes

definition store_write :: "nat \<Rightarrow> bytes \<Rightarrow> store \<Rightarrow> store" where
  "store_write handle v s =
     s\<lparr>s_value := (s_value s)(handle \<mapsto> v),
       s_cccd := (if handle = 0x0015 then from_le (take 2 (v @ [0, 0])) else s_cccd s),
       s_written := (if handle = 0x0012 then s_written s @ v else s_written s)\<rparr>"

text \<open>One PDU: an MTU exchange sets the MTU, a write to a handle that exists replaces its value,
  everything else, a truncated PDU included, changes nothing.\<close>

definition store_pdu :: "bytes \<Rightarrow> store \<Rightarrow> store" where
  "store_pdu pdu s =
     (if length pdu < 3 then s
      else
        let field = from_le (pslice 1 3 pdu) in
        if pdu ! 0 = ATT_EXCHANGE_MTU_REQ then s\<lparr>s_mtu := max 23 (min field 247)\<rparr>
        else if (pdu ! 0 = ATT_WRITE_REQ \<or> pdu ! 0 = ATT_WRITE_CMD) \<and> s_value s field \<noteq> None
        then store_write field (drop 3 pdu) s
        else s)"

definition att_abs :: "att \<Rightarrow> store" where
  "att_abs a = \<lparr>s_value = (\<lambda>handle. map_option a_value (att_find handle a)), s_mtu = att_mtu a,
     s_cccd = att_cccd a, s_written = att_written a\<rparr>"

section \<open>Answers leave the store alone\<close>

locale store_kept =
  fixes act :: "(att \<times> hci, 'a) action"
  assumes kept: "att_abs (fst (snd (act s))) = att_abs (fst s)"
begin

lemma kept_of: "act s = (r, s') \<Longrightarrow> att_abs (fst s') = att_abs (fst s)"
  using kept [of s] by simp

end

lemma store_kept_ret: "store_kept (ret x)" "store_kept (throw e)" "store_kept (lift_r m)"
  by (unfold_locales; simp)+

lemma store_kept_bind:
  assumes "store_kept m" "\<And>x. store_kept (f x)"
  shows "store_kept (bind_s m f)"
proof
  fix s
  obtain r s1 where m: "m s = (r, s1)" by (metis surj_pair)
  have "att_abs (fst s1) = att_abs (fst s)" using assms(1) m by (rule store_kept.kept_of)
  moreover have "att_abs (fst (snd (f x s1))) = att_abs (fst s1)" for x using assms(2) by (rule store_kept.kept)
  ultimately show "att_abs (fst (snd (bind_s m f s))) = att_abs (fst s)"
    using m by (cases r) (simp_all add: bind_s_def)
qed

lemma store_kept_with: "(\<And>s. store_kept (f s)) \<Longrightarrow> store_kept (with_s f)"
  by unfold_locales (simp add: store_kept.kept)

lemma store_kept_cases:
  "(c \<Longrightarrow> store_kept a) \<Longrightarrow> (\<not> c \<Longrightarrow> store_kept b) \<Longrightarrow> store_kept (if c then a else b)"
  "(\<And>a b. store_kept (f a b)) \<Longrightarrow> store_kept (case p of (a, b) \<Rightarrow> f a b)"
  "store_kept n \<Longrightarrow> (\<And>x. store_kept (g x)) \<Longrightarrow> store_kept (case z of None \<Rightarrow> n | Some x \<Rightarrow> g x)"
  by (simp_all split: prod.split option.split)

lemma store_kept_on_snd: "store_kept (on_snd m)"
  by unfold_locales (simp add: on_snd_def split: prod.split)

lemma att_abs_counters [simp]:
  "att_abs (a\<lparr>att_responses := n\<rparr>) = att_abs a" "att_abs (a\<lparr>att_requests := n\<rparr>) = att_abs a"
  "att_abs (a\<lparr>att_notifications := n\<rparr>) = att_abs a"
  by (simp_all add: att_abs_def att_find_def)

lemma store_kept_modify: "(\<And>a. att_abs (f a) = att_abs a) \<Longrightarrow> store_kept (modify_s (apfst f))"
  by unfold_locales (simp add: apfst_def map_prod_def split: prod.split)

lemmas store_intros = store_kept_ret store_kept_bind store_kept_with store_kept_cases store_kept_on_snd

interpretation send_kept: store_kept "att_send pdu" for pdu
  unfolding att_send_def by (intro store_intros store_kept_modify) simp

interpretation error_kept: store_kept "att_error opcode handle code" for opcode handle code
  unfolding att_error_def by (rule send_kept.store_kept_axioms)

interpretation answer_kept: store_kept "att_answer req rsp start found" for req rsp start found
  unfolding att_answer_def by (intro store_intros send_kept.store_kept_axioms error_kept.store_kept_axioms)

lemma discovery_kept: "store_kept (read_by_group_type pdu)" "store_kept (read_by_type pdu)" "store_kept (find_information pdu)"
  unfolding read_by_group_type_def read_by_type_def find_information_def
  by (intro store_intros answer_kept.store_kept_axioms error_kept.store_kept_axioms)+

interpretation notify_kept: store_kept "att_notify data" for data
  unfolding att_notify_def by (intro store_intros store_kept_modify) simp

section \<open>Refinement\<close>

lemma att_abs_write: "att_find handle a \<noteq> None \<Longrightarrow> att_abs (att_write handle v a) = store_write handle v (att_abs a)"
  by (auto simp: att_abs_def store_write_def att_find_write fun_eq_iff) (simp_all add: att_write_def Let_def)

lemma att_abs_mtu: "att_abs (a\<lparr>att_mtu := n\<rparr>) = (att_abs a)\<lparr>s_mtu := n\<rparr>"
  by (simp add: att_abs_def att_find_def)

lemma unpack_field: "unpack_le 2 (pslice 1 3 pdu) = (if length pdu < 3 then Inl StructError else Inr (from_le (pslice 1 3 pdu)))"
  by (auto simp: unpack_le_def)

lemma plain_request_kept:
  assumes "pdu ! 0 \<notin> {ATT_EXCHANGE_MTU_REQ, ATT_WRITE_REQ, ATT_WRITE_CMD}"
  shows "store_kept (att_request pdu)"
proof -
  have "\<not> pdu ! 0 = ATT_EXCHANGE_MTU_REQ" "\<not> (pdu ! 0 = ATT_WRITE_REQ \<or> pdu ! 0 = ATT_WRITE_CMD)" using assms by auto
  then show ?thesis unfolding att_request_def Let_def if_not_P
    by (intro store_intros discovery_kept send_kept.store_kept_axioms error_kept.store_kept_axioms) simp_all
qed

lemma request_refines: "att_abs (fst (snd (att_request pdu (a, h)))) = store_pdu pdu (att_abs a)"
proof -
  let ?field = "from_le (pslice 1 3 pdu)"
  consider (mtu) "pdu ! 0 = ATT_EXCHANGE_MTU_REQ" | (wr) "pdu ! 0 = ATT_WRITE_REQ \<or> pdu ! 0 = ATT_WRITE_CMD"
    | (plain) "pdu ! 0 \<notin> {ATT_EXCHANGE_MTU_REQ, ATT_WRITE_REQ, ATT_WRITE_CMD}" by blast
  then show ?thesis
  proof cases
    case mtu
    show ?thesis
    proof (cases "length pdu < 3")
      case True
      with mtu show ?thesis by (simp add: att_request_def unpack_field [simplified] store_pdu_def)
    next
      case False
      let ?a = "a\<lparr>att_mtu := max 23 (min ?field 247)\<rparr>"
      have "att_request pdu (a, h) = att_send ([ATT_EXCHANGE_MTU_RSP] @ to_le 2 (att_mtu ?a)) (?a, h)"
        using mtu False by (simp add: att_request_def unpack_field [simplified] bind_lift_r)
      with mtu False send_kept.kept [of "[ATT_EXCHANGE_MTU_RSP] @ to_le 2 (att_mtu ?a)" "(?a, h)"] show ?thesis
        by (simp add: store_pdu_def att_abs_mtu)
    qed
  next
    case wr
    then have op: "pdu ! 0 \<noteq> ATT_EXCHANGE_MTU_REQ" by auto
    show ?thesis
    proof (cases "length pdu < 3")
      case True
      from wr True show ?thesis by (auto simp: att_request_def unpack_field [simplified] store_pdu_def)
    next
      case False
      define a' where "a' = (if att_find ?field a = None then a else att_write ?field (drop 3 pdu) a)"
      have "store_pdu pdu (att_abs a) = att_abs a'"
        using wr op False att_abs_write [of ?field a "drop 3 pdu"] by (auto simp: store_pdu_def Let_def a'_def att_abs_def)
      moreover have "att_abs (fst (snd (att_request pdu (a, h)))) = att_abs a'"
        using wr False send_kept.kept [of "[ATT_WRITE_RSP]" "(a', h)"]
          error_kept.kept [of ATT_WRITE_REQ ?field ATT_ERR_INVALID_HANDLE "(a', h)"]
        by (cases "att_find ?field a") (auto simp: att_request_def unpack_field [simplified] bind_lift_r a'_def)
      ultimately show ?thesis by simp
    qed
  next
    case plain
    from store_kept.kept [OF plain_request_kept [OF plain], of "(a, h)"] plain show ?thesis by (simp add: store_pdu_def Let_def)
  qed
qed

text \<open>C27. The attribute server refines its abstract store: after any sequence of PDUs on its channel,
  well formed or not, and whatever the transport does with the answers, the value of every handle,
  the MTU, the notification setting and the octets written to the UART are exactly those of the
  abstract store after the same PDUs.\<close>

theorem att_refines_store:
  "att_abs (fst (fold (\<lambda>pdu s. snd (att_feed pdu CID_ATT s)) pdus (a, h))) = fold store_pdu pdus (att_abs a)"
proof -
  have step: "att_abs (fst (snd (att_feed pdu CID_ATT s))) = store_pdu pdu (att_abs (fst s))" for pdu s
    using request_refines [of pdu "(fst s)\<lparr>att_requests := att_requests (fst s) + 1\<rparr>" "snd s"]
    by (cases s; cases "pdu = []") (simp_all add: att_feed_def store_pdu_def)
  have "att_abs (fst (fold (\<lambda>pdu s. snd (att_feed pdu CID_ATT s)) pdus s)) = fold store_pdu pdus (att_abs (fst s))" for s
    by (induction pdus arbitrary: s) (simp_all add: step)
  from this [of "(a, h)"] show ?thesis by simp
qed

section \<open>The type of the server's state\<close>

definition att_shape :: "att \<Rightarrow> (nat \<times> bytes \<times> nat option) list" where
  "att_shape a = map (\<lambda>x. (a_handle x, a_uuid x, a_group_end x)) (att_attrs a)"

text \<open>The attribute table never changes except for values, the MTU is in the negotiable range and
  the notification setting is a 16-bit number.\<close>

definition att_typed :: "(nat \<times> bytes \<times> nat option) list \<Rightarrow> nat \<Rightarrow> att \<Rightarrow> bool" where
  "att_typed shape handle a \<longleftrightarrow> att_shape a = shape \<and> att_conn a = handle \<and> att_mtu a \<in> {23..247} \<and> att_cccd a < 65536"

locale typed_step =
  fixes shape handle and act :: "(att \<times> hci, 'a) action"
  assumes typed: "att_typed shape handle (fst s) \<Longrightarrow> att_typed shape handle (fst (snd (act s)))"

lemma typed_ret: "typed_step shape handle (ret x)" "typed_step shape handle (throw e)" "typed_step shape handle (lift_r m)"
  by (unfold_locales; simp)+

lemma typed_bind:
  assumes "typed_step shape handle m" "\<And>x. typed_step shape handle (f x)"
  shows "typed_step shape handle (bind_s m f)"
proof
  fix s :: "att \<times> hci" assume s: "att_typed shape handle (fst s)"
  obtain r s1 where m: "m s = (r, s1)" by (metis surj_pair)
  have "att_typed shape handle (fst s1)" using typed_step.typed [OF assms(1) s] m by simp
  with typed_step.typed [OF assms(2)] m show "att_typed shape handle (fst (snd (bind_s m f s)))"
    by (cases r) (simp_all add: bind_s_def)
qed

lemma typed_with: "(\<And>s. typed_step shape handle (f s)) \<Longrightarrow> typed_step shape handle (with_s f)"
  by unfold_locales (simp add: typed_step.typed)

lemma typed_cases:
  "typed_step shape handle a \<Longrightarrow> typed_step shape handle b \<Longrightarrow> typed_step shape handle (if c then a else b)"
  "(\<And>a b. typed_step shape handle (f a b)) \<Longrightarrow> typed_step shape handle (case p of (a, b) \<Rightarrow> f a b)"
  "typed_step shape handle n \<Longrightarrow> (\<And>x. typed_step shape handle (g x)) \<Longrightarrow>
     typed_step shape handle (case z of None \<Rightarrow> n | Some x \<Rightarrow> g x)"
  by (simp_all split: prod.split option.split)

lemma typed_on_snd: "typed_step shape handle (on_snd m)"
  by unfold_locales (simp add: on_snd_def split: prod.split)

lemma typed_modify:
  "(\<And>a. att_typed shape handle a \<Longrightarrow> att_typed shape handle (f a)) \<Longrightarrow> typed_step shape handle (modify_s (apfst f))"
  by unfold_locales (auto simp: apfst_def map_prod_def split: prod.splits)

lemmas typed_intros = typed_ret typed_bind typed_with typed_cases typed_on_snd

lemma shape_write_value:
  "map (\<lambda>x. (a_handle x, a_uuid x, a_group_end x)) (write_value h v xs) = map (\<lambda>x. (a_handle x, a_uuid x, a_group_end x)) xs"
  by (induction xs) simp_all

lemma typed_updates:
  "att_typed shape handle a \<Longrightarrow> att_typed shape handle (att_write h v a)"
  "att_typed shape handle a \<Longrightarrow> att_typed shape handle (a\<lparr>att_mtu := max 23 (min peer 247)\<rparr>)"
  "att_typed shape handle a \<Longrightarrow> att_typed shape handle (a\<lparr>att_responses := n\<rparr>)"
  "att_typed shape handle a \<Longrightarrow> att_typed shape handle (a\<lparr>att_requests := n\<rparr>)"
  "att_typed shape handle a \<Longrightarrow> att_typed shape handle (a\<lparr>att_notifications := n\<rparr>)"
  by (simp_all add: att_typed_def att_shape_def att_write_def shape_write_value Let_def)

lemma typed_send: "typed_step shape handle (att_send pdu)"
  unfolding att_send_def by (intro typed_intros typed_modify typed_updates)

interpretation feed_typed: typed_step shape handle "att_feed pdu cid" for shape handle pdu cid
proof -
  note answer = typed_send typed_intros
  have err: "typed_step shape handle (att_error opcode at code)" for opcode at code
    unfolding att_error_def by (rule typed_send)
  have ans: "typed_step shape handle (att_answer req rsp start found)" for req rsp start found
    unfolding att_answer_def by (intro answer err)
  show "typed_step shape handle (att_feed pdu cid)"
    unfolding att_feed_def att_request_def read_by_group_type_def read_by_type_def find_information_def Let_def
    by (intro answer err ans typed_modify typed_updates)
qed

interpretation notify_typed: typed_step shape handle "att_notify data" for shape handle data
  unfolding att_notify_def by (intro typed_intros typed_modify typed_updates)

text \<open>What the peer and the program do to a server: a PDU on some channel, or a notification.\<close>

datatype att_event = Pdu bytes nat | Notify bytes

fun att_step :: "att_event \<Rightarrow> att \<times> hci \<Rightarrow> att \<times> hci" where
  "att_step (Pdu pdu cid) s = snd (att_feed pdu cid s)"
| "att_step (Notify data) s = snd (att_notify data s)"

text \<open>C28. The server's state keeps its type: from a new server, under any interleaving of PDUs on any
  channel and notifications, and whatever the transport does, the table keeps the handles, types and
  groups it was built with, the MTU stays between 23 and 247 and the notification setting stays a
  16-bit number.\<close>

theorem att_state_typed:
  "att_typed (att_shape (att_init handle name)) handle (fst (fold att_step evs (att_init handle name, h)))"
proof -
  let ?T = "att_typed (att_shape (att_init handle name)) handle"
  have step: "?T (fst s) \<Longrightarrow> ?T (fst (att_step ev s))" for ev s
    by (cases ev) (simp_all add: feed_typed.typed notify_typed.typed)
  have "?T (fst s) \<Longrightarrow> ?T (fst (fold att_step evs s))" for s
    by (induction evs arbitrary: s) (simp_all add: step)
  moreover have "?T (att_init handle name)" by (simp add: att_typed_def att_init_def)
  ultimately show ?thesis by simp
qed

end
