(* ===== verification/Commands_Catalog.thy ===== *)
theory Commands_Catalog
  imports Struct_Codec
begin

text \<open>
  The command catalog, \<open>python/hcicontroller/hci_commands_catalog.py\<close>: one row per HCI command the
  firmware dispatches, with a parameter block that can be sent, what has to exist first, how to
  undo it and which refusals are correct answers. The tables are in the order of the source. The
  \<open>note\<close> of a row is text for a verbose report and is left out.

  A parameter block is computed by the same calls as in the source: \<open>struct_pack\<close>, \<open>bytes_of\<close>
  (\<open>bytes([...])\<close>), \<open>zeros\<close> (\<open>bytes(n)\<close>) and concatenation, so that a value that does not fit
  its field is an exception here too.
\<close>

section \<open>Rows\<close>

datatype reply = COMPLETE | STATUS | NONE

datatype need = NEEDS_NOTHING | NEEDS_CONN | NEEDS_ADV_SET | NEEDS_SYNC | NEEDS_CONSENT | NEEDS_CENTRAL

datatype phase = PHASE_ANY | PHASE_LEGACY | PHASE_EXTENDED

text \<open>What a row needs resolved before it can be sent (\<open>ProbeContext\<close> of
  \<open>python/hcicontroller/hci_ble_test_impl.py\<close>).\<close>

record probe_context =
  ctx_handle :: nat
  ctx_addr_type :: nat
  ctx_identity :: "bytes option"
  ctx_role :: "nat option"
  ctx_peer_addr :: "bytes option"
  ctx_peer_type :: "byte option"
  ctx_public_addr :: bytes

text \<open>Bytes, or a callable that takes the context.\<close>

datatype payload = Octets "bytes result" | Callable "probe_context \<Rightarrow> bytes result"

record hci_command =
  c_opcode :: nat
  c_name :: string
  c_reply :: reply
  c_payload :: payload
  c_needs :: "need list"
  c_undo :: "(nat \<times> payload) option"
  c_undo_now :: bool
  c_expect :: "nat list"
  c_phase :: phase
  c_retry_after :: "(nat \<times> payload \<times> string) list"

definition Command :: "nat \<Rightarrow> string \<Rightarrow> reply \<Rightarrow> payload \<Rightarrow> hci_command" where
  "Command opcode name reply payload = \<lparr>c_opcode = opcode, c_name = name, c_reply = reply,
     c_payload = payload, c_needs = [NEEDS_NOTHING], c_undo = None, c_undo_now = False, c_expect = [],
     c_phase = PHASE_ANY, c_retry_after = []\<rparr>"

fun resolve :: "probe_context \<Rightarrow> payload \<Rightarrow> bytes result" where
  "resolve ctx (Octets bs) = bs"
| "resolve ctx (Callable f) = f ctx"

definition build :: "hci_command \<Rightarrow> probe_context \<Rightarrow> bytes result" where
  "build command ctx = resolve ctx (c_payload command)"

abbreviation (input) UNUSED_HANDLE :: nat where "UNUSED_HANDLE \<equiv> 0x0EFF"
abbreviation (input) PROBE_ADV_HANDLE :: nat where "PROBE_ADV_HANDLE \<equiv> 0"
abbreviation (input) STATUS_UNKNOWN_CONNECTION :: nat where "STATUS_UNKNOWN_CONNECTION \<equiv> 0x02"
abbreviation (input) STATUS_COMMAND_DISALLOWED :: nat where "STATUS_COMMAND_DISALLOWED \<equiv> 0x0C"
abbreviation (input) STATUS_UNSUPPORTED_FEATURE :: nat where "STATUS_UNSUPPORTED_FEATURE \<equiv> 0x11"
abbreviation (input) STATUS_INVALID_PARAMS :: nat where "STATUS_INVALID_PARAMS \<equiv> 0x12"
abbreviation (input) STATUS_UNKNOWN_ADV_ID :: nat where "STATUS_UNKNOWN_ADV_ID \<equiv> 0x42"
abbreviation (input) PROBE_CIG_ID :: nat where "PROBE_CIG_ID \<equiv> 0"
abbreviation (input) PROBE_CIG_TEST_ID :: nat where "PROBE_CIG_TEST_ID \<equiv> 1"
abbreviation (input) PROBE_CIS_ID :: nat where "PROBE_CIS_ID \<equiv> 0"
abbreviation (input) PROBE_BIG_HANDLE :: nat where "PROBE_BIG_HANDLE \<equiv> 0"
abbreviation (input) PROBE_BIG_TEST_HANDLE :: nat where "PROBE_BIG_TEST_HANDLE \<equiv> 1"
abbreviation (input) CODING_FORMAT_TRANSPARENT :: nat where "CODING_FORMAT_TRANSPARENT \<equiv> 3"

definition conn :: "probe_context \<Rightarrow> bytes result \<Rightarrow> bytes result" where
  "conn ctx tail = cat [struct_pack [FH (ctx_handle ctx)], tail]"

definition legacy_adv_params :: "nat \<Rightarrow> probe_context \<Rightarrow> bytes result" where
  "legacy_adv_params adv_type ctx =
     struct_pack [FH 0x00A0, FH 0x00F0, FB adv_type, FB (ctx_addr_type ctx), FB 0, Fs 6 (zeros 6),
       FB 7, FB 0]"

section \<open>Tables\<close>

definition CB :: "hci_command list" where
  "CB =
    [(Command 0x0C01 ''Set Event Mask'' COMPLETE (Octets (Inr [0xFF, 0xFF, 0xFF, 0xFF, 0xFF, 0xFF, 0xFF,
       0x3F])))
       \<lparr>c_undo := Some (0x0C01, Octets (Inr [0xFF, 0xFF, 0xFF, 0xFF, 0xFF, 0xFF, 0xFF,
         0x3F]))\<rparr>,
     Command 0x0C03 ''Reset'' COMPLETE (Octets (Inr [])),
     (Command 0x0C63 ''Set Event Mask Page 2'' COMPLETE (Octets (Inr (zeros 8))))
       \<lparr>c_undo := Some (0x0C63, Octets (Inr (zeros 8)))\<rparr>,
     (Command 0x0C2D ''Read Transmit Power Level'' COMPLETE (Callable (\<lambda>ctx. conn ctx (Inr
       [0x00]))))
       \<lparr>c_needs := [NEEDS_CONN]\<rparr>,
     (Command 0x0C7B ''Read Authenticated Payload Timeout'' COMPLETE (Callable (\<lambda>ctx. conn ctx
       (Inr []))))
       \<lparr>c_needs := [NEEDS_CONN]\<rparr>,
     (Command 0x0C7C ''Write Authenticated Payload Timeout'' COMPLETE (Callable (\<lambda>ctx. conn ctx
       (struct_pack [FH 3000]))))
       \<lparr>c_needs := [NEEDS_CONN]\<rparr>]"

definition LC :: "hci_command list" where
  "LC =
    [(Command 0x0406 ''Disconnect'' STATUS (Callable (\<lambda>ctx. conn ctx (Inr [0x13]))))
       \<lparr>c_needs := [NEEDS_CONSENT, NEEDS_CONN]\<rparr>,
     (Command 0x041D ''Read Remote Version Information'' STATUS (Callable (\<lambda>ctx. conn ctx (Inr
       []))))
       \<lparr>c_needs := [NEEDS_CONN]\<rparr>]"

definition INFO :: "hci_command list" where
  "INFO =
    [Command 0x1001 ''Read Local Version Information'' COMPLETE (Octets (Inr [])),
     Command 0x1002 ''Read Local Supported Commands'' COMPLETE (Octets (Inr [])),
     Command 0x1003 ''Read Local Supported Features'' COMPLETE (Octets (Inr [])),
     Command 0x1009 ''Read BD_ADDR'' COMPLETE (Octets (Inr [])),
     (Command 0x1405 ''Read RSSI'' COMPLETE (Callable (\<lambda>ctx. conn ctx (Inr []))))
       \<lparr>c_needs := [NEEDS_CONN]\<rparr>]"

definition ADV_DATA :: "bytes result" where
  "ADV_DATA = cat [bytes_of [2, 1, 6], Inr (zeros 29)]"

definition SCAN_RSP :: "bytes result" where
  "SCAN_RSP = cat [bytes_of [2, 1, 6], Inr (zeros 29)]"

definition LE_BASIC :: "hci_command list" where
  "LE_BASIC =
    [(Command 0x2001 ''LE Set Event Mask'' COMPLETE (Octets (Inr [0xFF, 0xFF, 0xFF, 0xFF, 0xFF, 0xFF,
       0xFF, 0x1F])))
       \<lparr>c_undo := Some (0x2001, Octets (Inr [0xFF, 0xFF, 0xFF, 0xFF, 0xFF, 0xFF, 0xFF,
         0x1F]))\<rparr>,
     Command 0x2002 ''LE Read Buffer Size'' COMPLETE (Octets (Inr [])),
     Command 0x2003 ''LE Read Local Supported Features'' COMPLETE (Octets (Inr [])),
     Command 0x2005 ''LE Set Random Address'' COMPLETE (Octets (Inr [0x01, 0x02, 0x03, 0x04, 0x05,
       0xC0])),
     (Command 0x2006 ''LE Set Advertising Parameters'' COMPLETE (Callable (legacy_adv_params 3)))
       \<lparr>c_phase := PHASE_LEGACY\<rparr>,
     Command 0x2007 ''LE Read Advertising Physical Channel Tx Power'' COMPLETE (Octets (Inr [])),
     (Command 0x2008 ''LE Set Advertising Data'' COMPLETE (Octets ADV_DATA))
       \<lparr>c_phase := PHASE_LEGACY\<rparr>,
     (Command 0x2009 ''LE Set Scan Response Data'' COMPLETE (Octets SCAN_RSP))
       \<lparr>c_phase := PHASE_LEGACY\<rparr>,
     (Command 0x200A ''LE Set Advertising Enable'' COMPLETE (Octets (Inr [0x01])))
       \<lparr>c_undo := Some (0x200A, Octets (Inr [0x00])), c_retry_after := [(0x2009, Octets (Inr
         (zeros 32)), ''the scan response data cleared''), (0x2008, Octets (Inr (zeros 32)),
         ''the advertising data cleared''), (0x2006, Callable (\<lambda>ctx. legacy_adv_params 2 ctx),
         ''the type scannable undirected''), (0x2006, Callable (\<lambda>ctx. legacy_adv_params 0 ctx),
         ''the type connectable undirected''), (0x202D, Octets (Inr [0x00]),
         ''address resolution off'')], c_phase := PHASE_LEGACY\<rparr>,
     (Command 0x200B ''LE Set Scan Parameters'' COMPLETE (Callable (\<lambda>ctx. struct_pack [FB 0, FH
       0x60, FH 0x30, FB (ctx_addr_type ctx), FB 0])))
       \<lparr>c_phase := PHASE_LEGACY\<rparr>,
     (Command 0x200C ''LE Set Scan Enable'' COMPLETE (Octets (Inr [0x01, 0x00])))
       \<lparr>c_undo := Some (0x200C, Octets (Inr [0x00, 0x00])), c_phase := PHASE_LEGACY\<rparr>,
     (Command 0x200E ''LE Create Connection Cancel'' COMPLETE (Octets (Inr [])))
       \<lparr>c_needs := [NEEDS_CONSENT], c_expect := [STATUS_COMMAND_DISALLOWED], c_phase :=
         PHASE_LEGACY\<rparr>,
     Command 0x200F ''LE Read Filter Accept List Size'' COMPLETE (Octets (Inr [])),
     Command 0x2010 ''LE Clear Filter Accept List'' COMPLETE (Octets (Inr [])),
     (Command 0x2011 ''LE Add Device To Filter Accept List'' COMPLETE (Octets (cat [Inr [0x00], Inr
       [0x01, 0x02, 0x03, 0x04, 0x05, 0xC0]])))
       \<lparr>c_undo := Some (0x2010, Octets (Inr []))\<rparr>,
     Command 0x2012 ''LE Remove Device From Filter Accept List'' COMPLETE (Octets (cat [Inr [0x00], Inr
       [0x01, 0x02, 0x03, 0x04, 0x05, 0xC0]])),
     Command 0x2014 ''LE Set Host Channel Classification'' COMPLETE (Octets (Inr [0xFF, 0xFF, 0xFF,
       0xFF, 0x1F])),
     Command 0x2017 ''LE Encrypt'' COMPLETE (Octets (cat [Inr (zeros 16), Inr (zeros 16)])),
     Command 0x2018 ''LE Rand'' COMPLETE (Octets (Inr [])),
     (Command 0x201F ''LE Test End'' COMPLETE (Octets (Inr [])))
       \<lparr>c_needs := [NEEDS_CONSENT], c_expect := [STATUS_COMMAND_DISALLOWED]\<rparr>,
     Command 0x2023 ''LE Read Suggested Default Data Length'' COMPLETE (Octets (Inr [])),
     (Command 0x2024 ''LE Write Suggested Default Data Length'' COMPLETE (Octets (struct_pack [FH 251,
       FH 2120])))
       \<lparr>c_undo := Some (0x2024, Octets (struct_pack [FH 27, FH 328]))\<rparr>,
     Command 0x202F ''LE Read Maximum Data Length'' COMPLETE (Octets (Inr [])),
     (Command 0x2031 ''LE Set Default PHY'' COMPLETE (Octets (Inr [0x00, 0x07, 0x07])))
       \<lparr>c_undo := Some (0x2031, Octets (Inr [0x03, 0x00, 0x00]))\<rparr>,
     (Command 0x203A ''LE Read Maximum Advertising Data Length'' COMPLETE (Octets (Inr [])))
       \<lparr>c_phase := PHASE_EXTENDED\<rparr>,
     (Command 0x203B ''LE Read Number Of Supported Advertising Sets'' COMPLETE (Octets (Inr [])))
       \<lparr>c_phase := PHASE_EXTENDED\<rparr>,
     (Command 0x203D ''LE Clear Advertising Sets'' COMPLETE (Octets (Inr [])))
       \<lparr>c_phase := PHASE_EXTENDED\<rparr>,
     (Command 0x204A ''LE Read Periodic Advertiser List Size'' COMPLETE (Octets (Inr [])))
       \<lparr>c_phase := PHASE_EXTENDED\<rparr>,
     Command 0x204B ''LE Read Transmit Power'' COMPLETE (Octets (Inr [])),
     Command 0x204C ''LE Read RF Path Compensation'' COMPLETE (Octets (Inr [])),
     Command 0x204D ''LE Write RF Path Compensation'' COMPLETE (Octets (struct_pack [Fh 0, Fh 0])),
     (Command 0x2074 ''LE Set Host Feature'' COMPLETE (Octets (Inr [0x26, 0x01])))
       \<lparr>c_undo := Some (0x2074, Octets (Inr [0x26, 0x00]))\<rparr>,
     Command 0x2087 ''LE Read All Local Supported Features'' COMPLETE (Octets (Inr [])),
     (Command 0x2097 ''LE Set Host Feature v2'' COMPLETE (Octets (struct_pack [FH 38, FB 1])))
       \<lparr>c_undo := Some (0x2097, Octets (struct_pack [FH 38, FB 0]))\<rparr>,
     Command 0x207D ''LE Set Default Subrate'' COMPLETE (Octets (struct_pack [FH 1, FH 1, FH 0, FH 0, FH
       300]))]"

definition PEER_IRK :: "bytes result" where
  "PEER_IRK = Inr (map of_nat [0..<16])"

definition LOCAL_IRK :: "bytes result" where
  "LOCAL_IRK = Inr (map of_nat [16..<32])"

definition LE_PRIVACY :: "hci_command list" where
  "LE_PRIVACY =
    [(Command 0x2027 ''LE Add Device To Resolving List'' COMPLETE (Octets (cat [Inr [0x00], Inr [0x01,
       0x02, 0x03, 0x04, 0x05, 0xC0], PEER_IRK, LOCAL_IRK])))
       \<lparr>c_undo := Some (0x2029, Octets (Inr []))\<rparr>,
     Command 0x202A ''LE Read Resolving List Size'' COMPLETE (Octets (Inr [])),
     Command 0x204E ''LE Set Privacy Mode'' COMPLETE (Octets (cat [Inr [0x00], Inr [0x01, 0x02, 0x03,
       0x04, 0x05, 0xC0], Inr [0x00]])),
     (Command 0x202D ''LE Set Address Resolution Enable'' COMPLETE (Octets (Inr [0x01])))
       \<lparr>c_undo := Some (0x202D, Octets (Inr [0x00]))\<rparr>,
     (Command 0x202E ''LE Set Resolvable Private Address Timeout'' COMPLETE (Octets (struct_pack [FH
       900])))
       \<lparr>c_undo := Some (0x202E, Octets (struct_pack [FH 900]))\<rparr>,
     Command 0x2028 ''LE Remove Device From Resolving List'' COMPLETE (Octets (cat [Inr [0x00], Inr
       [0x01, 0x02, 0x03, 0x04, 0x05, 0xC0]])),
     Command 0x2029 ''LE Clear Resolving List'' COMPLETE (Octets (Inr []))]"

definition EXT_ADV_PARAMS :: "bytes result" where
  "EXT_ADV_PARAMS = cat [struct_pack [FB PROBE_ADV_HANDLE], struct_pack [FH 0], Inr [0xA0, 0x00, 0x00], Inr [0xF0,
       0x00, 0x00], Inr [0x07], Inr [0x01], Inr [0x00], Inr (zeros 6), Inr [0x00], struct_pack [Fb
       0x7F], Inr [0x01], Inr [0x00], Inr [0x01], Inr [0x00], Inr [0x00]]"

definition LE_EXT :: "hci_command list" where
  "LE_EXT =
    [(Command 0x2036 ''LE Set Extended Advertising Parameters'' COMPLETE (Octets EXT_ADV_PARAMS))
       \<lparr>c_phase := PHASE_EXTENDED\<rparr>,
     (Command 0x207F ''LE Set Extended Advertising Parameters v2'' COMPLETE (Octets (cat
       [EXT_ADV_PARAMS, Inr [0x00, 0x00]])))
       \<lparr>c_needs := [NEEDS_ADV_SET], c_phase := PHASE_EXTENDED\<rparr>,
     (Command 0x2035 ''LE Set Advertising Set Random Address'' COMPLETE (Octets (cat [bytes_of
       [PROBE_ADV_HANDLE], Inr [0x01, 0x02, 0x03, 0x04, 0x05, 0xC0]])))
       \<lparr>c_needs := [NEEDS_ADV_SET], c_phase := PHASE_EXTENDED\<rparr>,
     (Command 0x207C ''LE Set Data Related Address Changes'' COMPLETE (Octets (bytes_of
       [PROBE_ADV_HANDLE, 0])))
       \<lparr>c_needs := [NEEDS_ADV_SET], c_phase := PHASE_EXTENDED\<rparr>,
     (Command 0x2037 ''LE Set Extended Advertising Data'' COMPLETE (Octets (cat [bytes_of
       [PROBE_ADV_HANDLE, 3, 1, 3], bytes_of [2, 1, 6]])))
       \<lparr>c_phase := PHASE_EXTENDED\<rparr>,
     (Command 0x2038 ''LE Set Extended Scan Response Data'' COMPLETE (Octets (bytes_of
       [PROBE_ADV_HANDLE, 3, 1, 0])))
       \<lparr>c_phase := PHASE_EXTENDED\<rparr>,
     (Command 0x2041 ''LE Set Extended Scan Parameters'' COMPLETE (Octets (cat [bytes_of [1, 0, 1],
       struct_pack [FB 0, FH 0x10, FH 0x10]])))
       \<lparr>c_phase := PHASE_EXTENDED\<rparr>,
     (Command 0x2042 ''LE Set Extended Scan Enable'' COMPLETE (Octets (struct_pack [FB 1, FB 0, FH 0, FH
       0])))
       \<lparr>c_undo := Some (0x2042, Octets (struct_pack [FB 0, FB 0, FH 0, FH 0])), c_phase :=
         PHASE_EXTENDED\<rparr>]"

definition LE_PERIODIC :: "hci_command list" where
  "LE_PERIODIC =
    [(Command 0x203E ''LE Set Periodic Advertising Parameters'' COMPLETE (Octets (struct_pack [FB
       PROBE_ADV_HANDLE, FH 0x60, FH 0xA0, FH 0])))
       \<lparr>c_needs := [NEEDS_ADV_SET], c_phase := PHASE_EXTENDED\<rparr>,
     (Command 0x2086 ''LE Set Periodic Advertising Parameters v2'' COMPLETE (Octets (struct_pack [FB
       PROBE_ADV_HANDLE, FH 0x60, FH 0xA0, FH 0, FB 0, FB 0, FB 0, FB 0, FB 0])))
       \<lparr>c_needs := [NEEDS_ADV_SET], c_phase := PHASE_EXTENDED\<rparr>,
     (Command 0x203F ''LE Set Periodic Advertising Data'' COMPLETE (Octets (cat [bytes_of
       [PROBE_ADV_HANDLE, 3, 3], bytes_of [2, 0xFF, 0x59]])))
       \<lparr>c_needs := [NEEDS_ADV_SET], c_phase := PHASE_EXTENDED\<rparr>,
     (Command 0x2039 ''LE Set Extended Advertising Enable'' COMPLETE (Octets (cat [bytes_of [1, 1,
       PROBE_ADV_HANDLE], struct_pack [FH 0, FB 0]])))
       \<lparr>c_undo := Some (0x2039, Octets (Inr [0x00, 0x00])), c_phase := PHASE_EXTENDED\<rparr>,
     (Command 0x2040 ''LE Set Periodic Advertising Enable'' COMPLETE (Octets (bytes_of [1,
       PROBE_ADV_HANDLE])))
       \<lparr>c_needs := [NEEDS_ADV_SET], c_undo := Some (0x2040, Octets (bytes_of [0,
         PROBE_ADV_HANDLE])), c_phase := PHASE_EXTENDED\<rparr>,
     (Command 0x2045 ''LE Periodic Advertising Create Sync Cancel'' COMPLETE (Octets (Inr [])))
       \<lparr>c_needs := [NEEDS_CONSENT], c_expect := [STATUS_COMMAND_DISALLOWED], c_phase :=
         PHASE_EXTENDED\<rparr>,
     (Command 0x2047 ''LE Add Device To Periodic Advertiser List'' COMPLETE (Octets (cat [Inr [0x00],
       Inr [0x01, 0x02, 0x03, 0x04, 0x05, 0xC0], Inr [0x00]])))
       \<lparr>c_undo := Some (0x2049, Octets (Inr []))\<rparr>,
     Command 0x2048 ''LE Remove Device From Periodic Advertiser List'' COMPLETE (Octets (cat [Inr
       [0x00], Inr [0x01, 0x02, 0x03, 0x04, 0x05, 0xC0], Inr [0x00]])),
     Command 0x2049 ''LE Clear Periodic Advertiser List'' COMPLETE (Octets (Inr [])),
     Command 0x205D ''LE Set Default Periodic Advertising Sync Transfer Parameters'' COMPLETE (Octets
       (struct_pack [FB 0, FH 0, FH 0xA, FB 0])),
     (Command 0x2059 ''LE Set Periodic Advertising Receive Enable'' COMPLETE (Octets (struct_pack [FH
       UNUSED_HANDLE, FB 0])))
       \<lparr>c_needs := [NEEDS_SYNC], c_phase := PHASE_EXTENDED\<rparr>,
     (Command 0x205A ''LE Periodic Advertising Sync Transfer'' COMPLETE (Callable (\<lambda>ctx. conn
       ctx (struct_pack [FH 0, FH UNUSED_HANDLE]))))
       \<lparr>c_needs := [NEEDS_SYNC], c_phase := PHASE_EXTENDED\<rparr>,
     (Command 0x205B ''LE Periodic Advertising Set Info Transfer'' COMPLETE (Callable (\<lambda>ctx.
       conn ctx (struct_pack [FH 0, FB PROBE_ADV_HANDLE]))))
       \<lparr>c_needs := [NEEDS_CONN], c_expect := [STATUS_UNKNOWN_ADV_ID], c_phase :=
         PHASE_EXTENDED\<rparr>,
     (Command 0x205C ''LE Set Periodic Advertising Sync Transfer Parameters'' COMPLETE (Callable
       (\<lambda>ctx. conn ctx (struct_pack [FB 0, FH 0, FH 0xA, FB 0]))))
       \<lparr>c_needs := [NEEDS_CONN]\<rparr>,
     (Command 0x2044 ''LE Periodic Advertising Create Sync'' STATUS (Octets (cat [Inr [0x00, 0x00,
       0x00], Inr [0x01, 0x02, 0x03, 0x04, 0x05, 0xC0], struct_pack [FH 0, FH 0x100, FB 0]])))
       \<lparr>c_needs := [NEEDS_CONSENT], c_undo := Some (0x2045, Octets (Inr [])), c_undo_now := True,
         c_phase := PHASE_EXTENDED\<rparr>,
     (Command 0x2046 ''LE Periodic Advertising Terminate Sync'' COMPLETE (Octets (struct_pack [FH
       UNUSED_HANDLE])))
       \<lparr>c_needs := [NEEDS_SYNC], c_phase := PHASE_EXTENDED\<rparr>,
     (Command 0x2082 ''LE Set Periodic Advertising Subevent Data'' COMPLETE (Octets (bytes_of
       [PROBE_ADV_HANDLE, 1, 0, 0, 0, 0])))
       \<lparr>c_needs := [NEEDS_ADV_SET], c_expect := [STATUS_UNKNOWN_ADV_ID,
         STATUS_COMMAND_DISALLOWED], c_phase := PHASE_EXTENDED\<rparr>,
     (Command 0x2083 ''LE Set Periodic Advertising Response Data'' COMPLETE (Octets (struct_pack [FH
       UNUSED_HANDLE, FH 0, FB 0, FB 0, FB 0, FB 0])))
       \<lparr>c_needs := [NEEDS_SYNC], c_phase := PHASE_EXTENDED\<rparr>,
     (Command 0x2084 ''LE Set Periodic Sync Subevent'' COMPLETE (Octets (struct_pack [FH UNUSED_HANDLE,
       FH 0, FB 0])))
       \<lparr>c_needs := [NEEDS_SYNC], c_phase := PHASE_EXTENDED\<rparr>]"

definition LE_CONN :: "hci_command list" where
  "LE_CONN =
    [(Command 0x200D ''LE Create Connection'' STATUS (Octets (struct_pack [FH 0x60, FH 0x30, FB 0, FB 0,
       Fs 6 ([0x01, 0x02, 0x03, 0x04, 0x05, 0xC0]), FB 0, FH 0x18, FH 0x28, FH 0, FH 0x2BC, FH 0, FH
       0])))
       \<lparr>c_needs := [NEEDS_CONSENT], c_undo := Some (0x200E, Octets (Inr [])), c_undo_now := True,
         c_phase := PHASE_LEGACY\<rparr>,
     (Command 0x2013 ''LE Connection Update'' STATUS (Callable (\<lambda>ctx. conn ctx (struct_pack [FH
       0x18, FH 0x28, FH 0, FH 0x2BC, FH 0, FH 0]))))
       \<lparr>c_needs := [NEEDS_CONN], c_expect := [STATUS_UNSUPPORTED_FEATURE]\<rparr>,
     (Command 0x2015 ''LE Read Channel Map'' COMPLETE (Callable (\<lambda>ctx. conn ctx (Inr []))))
       \<lparr>c_needs := [NEEDS_CONN]\<rparr>,
     (Command 0x2016 ''LE Read Remote Features'' STATUS (Callable (\<lambda>ctx. conn ctx (Inr []))))
       \<lparr>c_needs := [NEEDS_CONN]\<rparr>,
     (Command 0x2019 ''LE Enable Encryption'' STATUS (Callable (\<lambda>ctx. conn ctx (cat [Inr (zeros
       8), Inr (zeros 2), Inr (zeros 16)]))))
       \<lparr>c_needs := [NEEDS_CONSENT, NEEDS_CONN, NEEDS_CENTRAL]\<rparr>,
     (Command 0x201A ''LE Long Term Key Request Reply'' COMPLETE (Callable (\<lambda>ctx. conn ctx (Inr
       (zeros 16)))))
       \<lparr>c_needs := [NEEDS_CONSENT, NEEDS_CONN], c_expect := [STATUS_COMMAND_DISALLOWED]\<rparr>,
     (Command 0x201B ''LE Long Term Key Request Negative Reply'' COMPLETE (Callable (\<lambda>ctx. conn
       ctx (Inr []))))
       \<lparr>c_needs := [NEEDS_CONSENT, NEEDS_CONN], c_expect := [STATUS_COMMAND_DISALLOWED]\<rparr>,
     (Command 0x2022 ''LE Set Data Length'' COMPLETE (Callable (\<lambda>ctx. conn ctx (struct_pack [FH
       251, FH 2120]))))
       \<lparr>c_needs := [NEEDS_CONN]\<rparr>,
     (Command 0x2030 ''LE Read PHY'' COMPLETE (Callable (\<lambda>ctx. conn ctx (Inr []))))
       \<lparr>c_needs := [NEEDS_CONN]\<rparr>,
     (Command 0x2032 ''LE Set PHY'' STATUS (Callable (\<lambda>ctx. conn ctx (struct_pack [FB 0, FB 7,
       FB 7, FH 0]))))
       \<lparr>c_needs := [NEEDS_CONN]\<rparr>,
     (Command 0x2043 ''LE Extended Create Connection'' STATUS (Octets (cat [Inr [0x00, 0x00, 0x00], Inr
       [0x01, 0x02, 0x03, 0x04, 0x05, 0xC0], Inr [0x01], struct_pack [FH 0x60, FH 0x30, FH 0x18, FH
       0x28, FH 0, FH 0x2BC, FH 0, FH 0]])))
       \<lparr>c_needs := [NEEDS_CONSENT], c_undo := Some (0x200E, Octets (Inr [])), c_undo_now := True,
         c_phase := PHASE_EXTENDED\<rparr>,
     (Command 0x2085 ''LE Extended Create Connection v2'' STATUS (Octets (cat [bytes_of
       [PROBE_ADV_HANDLE, 0], Inr [0x00, 0x00, 0x00], Inr [0x01, 0x02, 0x03, 0x04, 0x05, 0xC0], Inr
       [0x01], struct_pack [FH 0x60, FH 0x30, FH 0x18, FH 0x28, FH 0, FH 0x2BC, FH 0, FH 0]])))
       \<lparr>c_needs := [NEEDS_ADV_SET, NEEDS_CONSENT], c_undo := Some (0x200E, Octets (Inr [])),
         c_undo_now := True, c_phase := PHASE_EXTENDED\<rparr>,
     (Command 0x2076 ''LE Enhanced Read Transmit Power Level'' COMPLETE (Callable (\<lambda>ctx. conn
       ctx (Inr [0x01]))))
       \<lparr>c_needs := [NEEDS_CONN]\<rparr>,
     (Command 0x2077 ''LE Read Remote Transmit Power Level'' STATUS (Callable (\<lambda>ctx. conn ctx
       (Inr [0x01]))))
       \<lparr>c_needs := [NEEDS_CONN]\<rparr>,
     (Command 0x2078 ''LE Set Path Loss Reporting Parameters'' COMPLETE (Callable (\<lambda>ctx. conn
       ctx (struct_pack [FB 70, FB 10, FB 50, FB 10, FH 5]))))
       \<lparr>c_needs := [NEEDS_CONN]\<rparr>,
     (Command 0x2079 ''LE Set Path Loss Reporting Enable'' COMPLETE (Callable (\<lambda>ctx. conn ctx
       (Inr [0x01]))))
       \<lparr>c_needs := [NEEDS_CONN]\<rparr>,
     (Command 0x207A ''LE Set Transmit Power Reporting Enable'' COMPLETE (Callable (\<lambda>ctx. conn
       ctx (Inr [0x01, 0x01]))))
       \<lparr>c_needs := [NEEDS_CONN]\<rparr>,
     (Command 0x206D ''LE Request Peer SCA'' STATUS (Callable (\<lambda>ctx. conn ctx (Inr []))))
       \<lparr>c_needs := [NEEDS_CONN]\<rparr>,
     (Command 0x207E ''LE Subrate Request'' STATUS (Callable (\<lambda>ctx. conn ctx (struct_pack [FH 1,
       FH 1, FH 0, FH 0, FH 300]))))
       \<lparr>c_needs := [NEEDS_CONN]\<rparr>,
     (Command 0x2088 ''LE Read All Remote Features'' STATUS (Callable (\<lambda>ctx. conn ctx (Inr
       [0x01]))))
       \<lparr>c_needs := [NEEDS_CONN]\<rparr>]"

definition ISO :: "hci_command list" where
  "ISO =
    [Command 0x2060 ''LE Read Buffer Size v2'' COMPLETE (Octets (Inr [])),
     (Command 0xFD19 ''VS CIG Reserved Time Set'' COMPLETE (Octets (struct_pack [FI 1300])))
       \<lparr>c_undo := Some (0xFD19, Octets (struct_pack [FI 1300]))\<rparr>,
     (Command 0xFD1A ''VS CIS Subevent Length Set'' COMPLETE (Octets (struct_pack [FI 0])))
       \<lparr>c_undo := Some (0xFD1A, Octets (struct_pack [FI 0]))\<rparr>,
     (Command 0xFD18 ''VS BIG Reserved Time Set'' COMPLETE (Octets (struct_pack [FI 1600])))
       \<lparr>c_undo := Some (0xFD18, Octets (struct_pack [FI 1600]))\<rparr>,
     Command 0x2062 ''LE Set CIG Parameters'' COMPLETE (Octets (cat [bytes_of [PROBE_CIG_ID], u24 10000,
       u24 10000, bytes_of [0, 0, 0], struct_pack [FH 20, FH 20], bytes_of [1], bytes_of [PROBE_CIS_ID],
       struct_pack [FH 40, FH 40], bytes_of [1, 1, 2, 2]])),
     (Command 0x2064 ''LE Create CIS'' STATUS (Callable (\<lambda>ctx. cat [bytes_of [1], struct_pack
       [FH UNUSED_HANDLE, FH (ctx_handle ctx)]])))
       \<lparr>c_needs := [NEEDS_CONN, NEEDS_CENTRAL], c_expect := [STATUS_UNKNOWN_CONNECTION]\<rparr>,
     Command 0x2065 ''LE Remove CIG'' COMPLETE (Octets (bytes_of [PROBE_CIG_ID])),
     (Command 0x2063 ''LE Set CIG Parameters Test'' COMPLETE (Octets (cat [bytes_of [PROBE_CIG_TEST_ID],
       u24 10000, u24 10000, bytes_of [1, 1], struct_pack [FH 8], bytes_of [0, 0, 0], bytes_of [1],
       bytes_of [PROBE_CIS_ID, 2], struct_pack [FH 40, FH 40, FH 40, FH 40], bytes_of [1, 1, 1, 1]])))
       \<lparr>c_undo := Some (0x2065, Octets (bytes_of [PROBE_CIG_TEST_ID])), c_undo_now :=
         True\<rparr>,
     (Command 0x2066 ''LE Accept CIS Request'' STATUS (Octets (struct_pack [FH UNUSED_HANDLE])))
       \<lparr>c_expect := [STATUS_UNKNOWN_CONNECTION, STATUS_COMMAND_DISALLOWED]\<rparr>,
     (Command 0x2067 ''LE Reject CIS Request'' COMPLETE (Octets (struct_pack [FH UNUSED_HANDLE, FB
       0xD])))
       \<lparr>c_expect := [STATUS_UNKNOWN_CONNECTION, STATUS_COMMAND_DISALLOWED]\<rparr>,
     (Command 0x2061 ''LE Read ISO TX Sync'' COMPLETE (Octets (struct_pack [FH UNUSED_HANDLE])))
       \<lparr>c_expect := [STATUS_UNKNOWN_CONNECTION, STATUS_COMMAND_DISALLOWED]\<rparr>,
     (Command 0x2075 ''LE Read ISO Link Quality'' COMPLETE (Octets (struct_pack [FH UNUSED_HANDLE])))
       \<lparr>c_expect := [STATUS_UNKNOWN_CONNECTION, STATUS_COMMAND_DISALLOWED]\<rparr>,
     (Command 0xFD17 ''VS ISO Read Tx Timestamp'' COMPLETE (Octets (struct_pack [FH UNUSED_HANDLE])))
       \<lparr>c_expect := [STATUS_UNKNOWN_CONNECTION, STATUS_COMMAND_DISALLOWED]\<rparr>,
     (Command 0x206E ''LE Setup ISO Data Path'' COMPLETE (Octets (cat [struct_pack [FH UNUSED_HANDLE],
       bytes_of [0, 0], bytes_of [CODING_FORMAT_TRANSPARENT], Inr (zeros 4), u24 0, bytes_of [0]])))
       \<lparr>c_expect := [STATUS_UNKNOWN_CONNECTION, STATUS_COMMAND_DISALLOWED]\<rparr>,
     (Command 0x206F ''LE Remove ISO Data Path'' COMPLETE (Octets (struct_pack [FH UNUSED_HANDLE, FB
       1])))
       \<lparr>c_expect := [STATUS_UNKNOWN_CONNECTION, STATUS_COMMAND_DISALLOWED]\<rparr>,
     (Command 0x2070 ''LE ISO Transmit Test'' COMPLETE (Octets (struct_pack [FH UNUSED_HANDLE, FB 0])))
       \<lparr>c_expect := [STATUS_UNKNOWN_CONNECTION, STATUS_COMMAND_DISALLOWED]\<rparr>,
     (Command 0x2071 ''LE ISO Receive Test'' COMPLETE (Octets (struct_pack [FH UNUSED_HANDLE, FB 0])))
       \<lparr>c_expect := [STATUS_UNKNOWN_CONNECTION, STATUS_COMMAND_DISALLOWED]\<rparr>,
     (Command 0x2072 ''LE ISO Read Test Counters'' COMPLETE (Octets (struct_pack [FH UNUSED_HANDLE])))
       \<lparr>c_expect := [STATUS_UNKNOWN_CONNECTION, STATUS_COMMAND_DISALLOWED]\<rparr>,
     (Command 0x2073 ''LE ISO Test End'' COMPLETE (Octets (struct_pack [FH UNUSED_HANDLE])))
       \<lparr>c_expect := [STATUS_UNKNOWN_CONNECTION, STATUS_COMMAND_DISALLOWED]\<rparr>,
     (Command 0x2068 ''LE Create BIG'' STATUS (Octets (cat [bytes_of [PROBE_BIG_HANDLE,
       PROBE_ADV_HANDLE, 1], u24 10000, struct_pack [FH 40, FH 20], bytes_of [2, 1, 0, 0, 0], Inr (zeros
       16)])))
       \<lparr>c_needs := [NEEDS_ADV_SET, NEEDS_CONSENT], c_expect := [STATUS_UNKNOWN_ADV_ID,
         STATUS_COMMAND_DISALLOWED], c_phase := PHASE_EXTENDED\<rparr>,
     (Command 0x2069 ''LE Create BIG Test'' STATUS (Octets (cat [bytes_of [PROBE_BIG_TEST_HANDLE,
       PROBE_ADV_HANDLE, 1], u24 10000, struct_pack [FH 8], bytes_of [1], struct_pack [FH 40, FH 40],
       bytes_of [1, 0, 0, 1, 1, 0, 0], Inr (zeros 16)])))
       \<lparr>c_needs := [NEEDS_ADV_SET, NEEDS_CONSENT], c_undo := Some (0x206A, Octets (bytes_of
         [PROBE_BIG_TEST_HANDLE, 0x16])), c_expect := [STATUS_UNKNOWN_ADV_ID], c_phase :=
         PHASE_EXTENDED\<rparr>,
     (Command 0x206A ''LE Terminate BIG'' STATUS (Octets (bytes_of [PROBE_BIG_HANDLE, 0x16])))
       \<lparr>c_expect := [STATUS_UNKNOWN_ADV_ID, STATUS_COMMAND_DISALLOWED], c_phase :=
         PHASE_EXTENDED\<rparr>,
     (Command 0x206B ''LE BIG Create Sync'' STATUS (Octets (cat [bytes_of [PROBE_BIG_HANDLE],
       struct_pack [FH UNUSED_HANDLE], bytes_of [0], Inr (zeros 16), bytes_of [0], struct_pack [FH 100],
       bytes_of [1, 1]])))
       \<lparr>c_needs := [NEEDS_SYNC], c_phase := PHASE_EXTENDED\<rparr>,
     (Command 0x206C ''LE BIG Terminate Sync'' COMPLETE (Octets (bytes_of [PROBE_BIG_HANDLE])))
       \<lparr>c_expect := [STATUS_UNKNOWN_ADV_ID, STATUS_COMMAND_DISALLOWED], c_phase :=
         PHASE_EXTENDED\<rparr>]"

definition DTM :: "hci_command list" where
  "DTM =
    [(Command 0x201D ''LE Receiver Test v1'' COMPLETE (Octets (Inr [0x00])))
       \<lparr>c_needs := [NEEDS_CONSENT], c_undo := Some (0x201F, Octets (Inr [])), c_undo_now :=
         True\<rparr>,
     (Command 0x201E ''LE Transmitter Test v1'' COMPLETE (Octets (Inr [0x00, 0x25, 0x00])))
       \<lparr>c_needs := [NEEDS_CONSENT], c_undo := Some (0x201F, Octets (Inr [])), c_undo_now :=
         True\<rparr>,
     (Command 0x2033 ''LE Receiver Test v2'' COMPLETE (Octets (Inr [0x00, 0x01, 0x00])))
       \<lparr>c_needs := [NEEDS_CONSENT], c_undo := Some (0x201F, Octets (Inr [])), c_undo_now :=
         True\<rparr>,
     (Command 0x2034 ''LE Transmitter Test v2'' COMPLETE (Octets (Inr [0x00, 0x25, 0x00, 0x01])))
       \<lparr>c_needs := [NEEDS_CONSENT], c_undo := Some (0x201F, Octets (Inr [])), c_undo_now :=
         True\<rparr>,
     (Command 0x204F ''LE Receiver Test v3'' COMPLETE (Octets (Inr [0x00, 0x01, 0x00, 0x00, 0x00, 0x01,
       0x00])))
       \<lparr>c_needs := [NEEDS_CONSENT], c_undo := Some (0x201F, Octets (Inr [])), c_undo_now :=
         True\<rparr>,
     (Command 0x2050 ''LE Transmitter Test v3'' COMPLETE (Octets (Inr [0x00, 0x25, 0x00, 0x01, 0x00,
       0x00, 0x00])))
       \<lparr>c_needs := [NEEDS_CONSENT], c_undo := Some (0x201F, Octets (Inr [])), c_undo_now :=
         True\<rparr>,
     (Command 0x207B ''LE Transmitter Test v4'' COMPLETE (Octets (cat [Inr [0x00, 0x25, 0x00, 0x01,
       0x00, 0x00, 0x00], struct_pack [Fb 0x7F]])))
       \<lparr>c_needs := [NEEDS_CONSENT], c_undo := Some (0x201F, Octets (Inr [])), c_undo_now :=
         True\<rparr>,
     (Command 0xFD23 ''VS Transmitter Carrier Test'' COMPLETE (Octets (cat [Inr [0x00], struct_pack [Fb
       0]])))
       \<lparr>c_needs := [NEEDS_CONSENT], c_undo := Some (0x201F, Octets (Inr [])), c_undo_now :=
         True\<rparr>]"

definition VENDOR :: "hci_command list" where
  "VENDOR =
    [Command 0xFC01 ''VS Zephyr Read Version Info'' COMPLETE (Octets (Inr [])),
     Command 0xFC02 ''VS Zephyr Read Supported Commands'' COMPLETE (Octets (Inr [])),
     (Command 0xFC06 ''VS Zephyr Write BD_ADDR'' COMPLETE (Octets (Inr [0x01, 0x02, 0x03, 0x04, 0x05,
       0xC0])))
       \<lparr>c_needs := [NEEDS_CONSENT], c_undo := Some (0xFC06, Callable (\<lambda>ctx. Inr
         (ctx_public_addr ctx))), c_undo_now := True\<rparr>,
     Command 0xFC09 ''VS Zephyr Read Static Addresses'' COMPLETE (Octets (Inr [])),
     Command 0xFC0A ''VS Zephyr Read Key Hierarchy Roots'' COMPLETE (Octets (Inr [])),
     Command 0xFC0B ''VS Zephyr Read Chip Temperature'' COMPLETE (Octets (Inr [])),
     (Command 0xFC0E ''VS Zephyr Write Tx Power'' COMPLETE (Octets (struct_pack [FB 0, FH
       PROBE_ADV_HANDLE, Fb 0])))
       \<lparr>c_needs := [NEEDS_ADV_SET], c_phase := PHASE_EXTENDED\<rparr>,
     (Command 0xFC0F ''VS Zephyr Read Tx Power'' COMPLETE (Octets (struct_pack [FB 0, FH
       PROBE_ADV_HANDLE])))
       \<lparr>c_needs := [NEEDS_ADV_SET], c_phase := PHASE_EXTENDED\<rparr>,
     Command 0xFD01 ''VS LLPM Mode Set'' COMPLETE (Octets (Inr [0x00])),
     (Command 0xFD02 ''VS Connection Update'' STATUS (Callable (\<lambda>ctx. conn ctx (struct_pack [FI
       30000, FH 0, FH 300]))))
       \<lparr>c_needs := [NEEDS_CONN], c_expect := [STATUS_UNSUPPORTED_FEATURE]\<rparr>,
     (Command 0xFD04 ''VS QoS Connection Event Report Enable'' COMPLETE (Octets (Inr [0x00])))
       \<lparr>c_undo := Some (0xFD04, Octets (Inr [0x00]))\<rparr>,
     (Command 0xFD0C ''VS Set Advertising Randomness'' COMPLETE (Octets (struct_pack [FB
       PROBE_ADV_HANDLE, FH 0])))
       \<lparr>c_needs := [NEEDS_ADV_SET], c_phase := PHASE_EXTENDED\<rparr>,
     (Command 0xFD0E ''VS QoS Channel Survey Enable'' COMPLETE (Octets (struct_pack [FB 1, FI 100000])))
       \<lparr>c_undo := Some (0xFD0E, Octets (struct_pack [FB 0, FI 0])), c_undo_now := True\<rparr>,
     (Command 0xFD11 ''VS Read Average RSSI'' COMPLETE (Callable (\<lambda>ctx. conn ctx (Inr []))))
       \<lparr>c_needs := [NEEDS_CONN]\<rparr>,
     (Command 0xFD14 ''VS Get Next Connection Event Counter'' COMPLETE (Callable (\<lambda>ctx. conn ctx
       (Inr []))))
       \<lparr>c_needs := [NEEDS_CONN]\<rparr>,
     (Command 0xFD1F ''VS Connection Anchor Point Update Event Report Enable'' COMPLETE (Octets (Inr
       [0x00])))
       \<lparr>c_undo := Some (0xFD1F, Octets (Inr [0x00]))\<rparr>,
     Command 0xFFF0 ''VS Read Counters'' COMPLETE (Octets (Inr []))]"

definition TEARDOWN :: "hci_command list" where
  "TEARDOWN =
    [(Command 0x203C ''LE Remove Advertising Set'' COMPLETE (Octets (bytes_of [PROBE_ADV_HANDLE])))
       \<lparr>c_needs := [NEEDS_ADV_SET], c_expect := [STATUS_UNKNOWN_ADV_ID], c_phase :=
         PHASE_EXTENDED\<rparr>]"

definition COMMANDS_catalog :: "hci_command list" where
  "COMMANDS_catalog = CB @ LC @ INFO @ LE_BASIC @ LE_PRIVACY @ LE_EXT @ LE_PERIODIC @ LE_CONN @ ISO @
     DTM @ VENDOR"

end
