(* ===== verification/Commands_Profile.thy ===== *)
theory Commands_Profile
  imports Commands_Catalog
begin

text \<open>
  The release profile, \<open>python/hcicontroller/hci_commands.py\<close>: the catalog with the rows it adjusts
  when it is imported, the rows it adds, and the index by opcode with the duplicate checks both
  files make. Rows are mutable objects shared by \<open>COMMANDS\<close> and \<open>BY_OPCODE\<close>, so an adjustment of
  \<open>BY_OPCODE[op]\<close> is an adjustment of the row of that opcode in the list.
\<close>

section \<open>Adjustments\<close>

definition EXTENDED_PHASE_OPCODES :: "nat list" where
  "EXTENDED_PHASE_OPCODES = [0x2047, 0x2048, 0x2049, 0x205C, 0x205D]"

abbreviation (input) STATUS_UNSUPPORTED_REMOTE_FEATURE :: nat where
  "STATUS_UNSUPPORTED_REMOTE_FEATURE \<equiv> 0x1A"

definition also_expect :: "nat \<Rightarrow> hci_command \<Rightarrow> hci_command" where
  "also_expect status c = (if status \<in> set (c_expect c) then c else c\<lparr>c_expect := c_expect c @ [status]\<rparr>)"

definition adjust :: "hci_command \<Rightarrow> hci_command" where
  "adjust c =
     (if c_opcode c \<in> set EXTENDED_PHASE_OPCODES then c\<lparr>c_phase := PHASE_EXTENDED\<rparr>
      else if c_opcode c = 0x200C \<or> c_opcode c = 0x2042 then c\<lparr>c_undo_now := True\<rparr>
      else if c_opcode c = 0x2079 then
        c\<lparr>c_undo := Some (0x2079, Callable (\<lambda>ctx. struct_pack [FH (ctx_handle ctx), FB 0])),
          c_undo_now := True\<rparr>
      else if c_opcode c = 0x207A then
        c\<lparr>c_undo := Some (0x207A, Callable (\<lambda>ctx. struct_pack [FH (ctx_handle ctx), FB 0, FB 0])),
          c_undo_now := True\<rparr>
      else if c_opcode c = 0x2077 then also_expect STATUS_UNSUPPORTED_REMOTE_FEATURE c
      else if c_opcode c = 0x2085 then also_expect STATUS_COMMAND_DISALLOWED c
      else c)"

section \<open>Added rows\<close>

definition CORE_62 :: "hci_command list" where
  "CORE_62 =
    [(Command 0x209D ''LE Frame Space Update'' STATUS (Octets (struct_pack [FH UNUSED_HANDLE, FH 150, FH
       150, FB 1, FH 1])))
       \<lparr>c_expect := [STATUS_UNKNOWN_CONNECTION, STATUS_COMMAND_DISALLOWED,
         STATUS_INVALID_PARAMS]\<rparr>,
     (Command 0x20A1 ''LE Connection Rate Request'' STATUS (Octets (cat [struct_pack [FH UNUSED_HANDLE],
       Inr (zeros 18)])))
       \<lparr>c_expect := [STATUS_UNKNOWN_CONNECTION, STATUS_COMMAND_DISALLOWED,
         STATUS_INVALID_PARAMS]\<rparr>,
     Command 0x20A3 ''LE Read Minimum Supported Connection Interval'' COMPLETE (Octets (Inr [])),
     (Command 0x20A2 ''LE Set Default Rate Parameters'' COMPLETE (Octets (Inr (zeros 18))))
       \<lparr>c_expect := [STATUS_INVALID_PARAMS]\<rparr>]"

definition SDC_VS :: "hci_command list" where
  "SDC_VS =
    [(Command 0xFC1F ''VS DTM Command: Test End'' COMPLETE (Octets (Inr [0x00])))
       \<lparr>c_expect := [STATUS_COMMAND_DISALLOWED]\<rparr>,
     Command 0xFD03 ''VS Connection Event Extend'' COMPLETE (Octets (Inr [0x00])),
     (Command 0xFD05 ''VS Event Length Set'' COMPLETE (Octets (struct_pack [FI 7500])))
       \<lparr>c_expect := [STATUS_COMMAND_DISALLOWED]\<rparr>,
     (Command 0xFD06 ''VS Periodic Advertising Event Length Set'' COMPLETE (Octets (struct_pack [FI
       7500])))
       \<lparr>c_expect := [STATUS_COMMAND_DISALLOWED]\<rparr>,
     (Command 0xFD09 ''VS Peripheral Latency Mode Set'' COMPLETE (Callable (\<lambda>ctx. struct_pack
       [FH (ctx_handle ctx), FB 0])))
       \<lparr>c_needs := [NEEDS_CONN], c_expect := [STATUS_COMMAND_DISALLOWED]\<rparr>,
     (Command 0xFD0A ''VS Write Remote TX Power'' STATUS (Callable (\<lambda>ctx. struct_pack [FH
       (ctx_handle ctx), FB 1, Fb 0])))
       \<lparr>c_needs := [NEEDS_CONN], c_expect := [STATUS_COMMAND_DISALLOWED,
         STATUS_UNSUPPORTED_FEATURE, STATUS_UNSUPPORTED_REMOTE_FEATURE]\<rparr>,
     Command 0xFD0D ''VS Compatibility Mode Window Offset Set'' COMPLETE (Octets (Inr [0x00])),
     Command 0xFD10 ''VS Set Power Control Request Parameters'' COMPLETE (Octets (struct_pack [FB 0, FB
       0, FH 2048, Fb ((- 70)), Fb ((- 30)), Fb ((- 65)), Fb ((- 35)), FH 5000, FB 5])),
     (Command 0xFD12 ''VS Central ACL Event Spacing Set'' COMPLETE (Octets (struct_pack [FI 7500])))
       \<lparr>c_expect := [STATUS_COMMAND_DISALLOWED]\<rparr>,
     Command 0xFD15 ''VS Allow Parallel Connection Establishments'' COMPLETE (Octets (Inr [0x00])),
     (Command 0xFD16 ''VS Minimum Maximum ACL TX Payload Set'' COMPLETE (Octets (Inr [0x1B])))
       \<lparr>c_expect := [STATUS_COMMAND_DISALLOWED]\<rparr>,
     Command 0xFD1B ''VS Scan Channel Map Set'' COMPLETE (Octets (Inr [0xFF, 0xFF, 0xFF, 0xFF, 0xFF])),
     Command 0xFD1C ''VS Scan Accept Extended Advertising Packets Set'' COMPLETE (Octets (Inr [0x01])),
     (Command 0xFD1D ''VS Set Role Priority'' COMPLETE (Octets (struct_pack [FB 4, FH 0, FB 0xFF])))
       \<lparr>c_expect := [STATUS_UNKNOWN_CONNECTION, STATUS_COMMAND_DISALLOWED]\<rparr>,
     (Command 0xFD1E ''VS Set Event Start Task'' COMPLETE (Callable (\<lambda>ctx. struct_pack [FB 3, FH
       (ctx_handle ctx), FI 0])))
       \<lparr>c_needs := [NEEDS_CONN], c_expect := [STATUS_UNKNOWN_CONNECTION,
         STATUS_COMMAND_DISALLOWED]\<rparr>,
     Command 0xFD20 ''VS Enable Periodic Advertising Event Counter Reports'' COMPLETE (Octets (Inr
       [0x00]))]"

definition LOCAL :: "hci_command list" where
  "LOCAL =
    [Command 0xFFF1 ''VS HciController Transport Integrity Loopback'' COMPLETE (Octets (Inr [0x00, 0x00,
       0x01]))]"

definition ISYST :: "hci_command list" where
  "ISYST =
    [(Command 0xFFF3 ''VS I-SYST Read Static Address'' COMPLETE (Octets (Inr [])))
       \<lparr>c_expect := [STATUS_UNSUPPORTED_FEATURE]\<rparr>,
     Command 0xFFF4 ''VS I-SYST Crypto Supported'' COMPLETE (Octets (Inr [])),
     Command 0xFFF5 ''VS I-SYST AES-CMAC'' COMPLETE (Octets (cat [Inr (zeros 16), Inr [0x00]])),
     Command 0xFFF6 ''VS I-SYST AES-CCM'' COMPLETE (Octets (cat [Inr [0x00], Inr (zeros 16), Inr [0x0D],
       Inr (zeros 13), Inr [0x00], Inr [0x04, 0x00]])),
     (Command 0xFFF7 ''VS I-SYST Random'' COMPLETE (Octets (Inr [0x08])))
       \<lparr>c_expect := [STATUS_UNSUPPORTED_FEATURE]\<rparr>,
     Command 0xFFF8 ''VS I-SYST SHA-256'' COMPLETE (Octets (Inr [0x00])),
     Command 0xFFF9 ''VS I-SYST HMAC-SHA-256'' COMPLETE (Octets (Inr [0x00, 0x00])),
     (Command 0xFFFA ''VS I-SYST ECDSA P-256 Sign'' COMPLETE (Octets (cat [Inr (zeros 31), Inr [0x02],
       Inr (zeros 32)])))
       \<lparr>c_expect := [STATUS_UNSUPPORTED_FEATURE]\<rparr>,
     (Command 0xFFFB ''VS I-SYST ECDSA P-256 Verify'' COMPLETE (Octets (cat [Inr (zeros 64), Inr (zeros
       32), Inr (zeros 64)])))
       \<lparr>c_expect := [0x05]\<rparr>]"

section \<open>The list and its index\<close>

definition ADDED :: "hci_command list" where
  "ADDED = CORE_62 @ SDC_VS @ LOCAL @ ISYST"

definition COMMANDS :: "hci_command list" where
  "COMMANDS = map adjust COMMANDS_catalog @ ADDED"

text \<open>The loop that fills \<open>BY_OPCODE\<close>.\<close>

fun index_rows :: "hci_command list \<Rightarrow> (nat \<rightharpoonup> hci_command) \<Rightarrow> (nat \<rightharpoonup> hci_command) result" where
  "index_rows [] m = Inr m"
| "index_rows (c # cs) m =
     (if m (c_opcode c) \<noteq> None then Inl (AssertionError ''opcode 0x%04X listed twice'' [c_opcode c])
      else index_rows cs (m(c_opcode c \<mapsto> c)))"

definition BY_OPCODE_catalog :: "(nat \<rightharpoonup> hci_command) result" where
  "BY_OPCODE_catalog = index_rows (COMMANDS_catalog @ TEARDOWN) Map.empty"

text \<open>\<open>dict(_catalog.BY_OPCODE)\<close> after the adjustments, then the added rows, then the closing
  assertion on the phases.\<close>

definition BY_OPCODE :: "(nat \<rightharpoonup> hci_command) result" where
  "BY_OPCODE =
     bind_r BY_OPCODE_catalog (\<lambda>m.
     if \<not> list_all (\<lambda>op. m op \<noteq> None)
          (EXTENDED_PHASE_OPCODES @ [0x200C, 0x2042, 0x2079, 0x207A, 0x2077, 0x2085])
     then Inl KeyError
     else bind_r (index_rows ADDED (\<lambda>op. map_option adjust (m op))) (\<lambda>m'.
       if list_all (\<lambda>op. map_option c_phase (m' op) = Some PHASE_EXTENDED) EXTENDED_PHASE_OPCODES
       then Inr m' else Inl (AssertionError ''phase'' [])))"

section \<open>Sizes of the rows\<close>

text \<open>A parameter block that can be built in this context and whose size fits the length octet.\<close>

definition fits :: "probe_context \<Rightarrow> payload \<Rightarrow> bool" where
  "fits ctx p = (case size_of (resolve ctx p) of None \<Rightarrow> False | Some n \<Rightarrow> n \<le> 255)"

definition row_fits :: "probe_context \<Rightarrow> hci_command \<Rightarrow> bool" where
  "row_fits ctx c \<longleftrightarrow> fits ctx (c_payload c) \<and>
     (case c_undo c of None \<Rightarrow> True | Some (_, p) \<Rightarrow> fits ctx p) \<and>
     list_all (\<lambda>(_, p, _). fits ctx p) (c_retry_after c)"

definition good_context :: "probe_context \<Rightarrow> bool" where
  "good_context ctx \<longleftrightarrow> ctx_handle ctx < 65536 \<and> ctx_addr_type ctx < 256 \<and> length (ctx_public_addr ctx) \<le> 255"

lemma size_of_conn [size_simps]:
  "size_of (conn ctx r) = sum_sizes [if ctx_handle ctx < 65536 then Some 2 else None, size_of r]"
  by (simp add: conn_def size_simps)

lemma size_of_legacy [size_simps]:
  "size_of (legacy_adv_params t ctx) = (if t < 256 \<and> ctx_addr_type ctx < 256 then Some 15 else None)"
  by (simp add: legacy_adv_params_def size_simps)

lemma size_of_shared [size_simps]:
  "size_of ADV_DATA = Some 32" "size_of SCAN_RSP = Some 32" "size_of PEER_IRK = Some 16"
  "size_of LOCAL_IRK = Some 16" "size_of EXT_ADV_PARAMS = Some 25"
  by (simp_all add: ADV_DATA_def SCAN_RSP_def PEER_IRK_def LOCAL_IRK_def EXT_ADV_PARAMS_def size_simps)

lemma rows_fit_1:
  assumes "good_context ctx"
  shows "list_all (row_fits ctx) CB" "list_all (row_fits ctx) LC" "list_all (row_fits ctx) INFO"
    "list_all (row_fits ctx) LE_BASIC"
  using assms
  by (simp_all add: CB_def LC_def INFO_def LE_BASIC_def Command_def row_fits_def fits_def good_context_def size_simps)

lemma rows_fit_2:
  assumes "good_context ctx"
  shows "list_all (row_fits ctx) LE_PRIVACY" "list_all (row_fits ctx) LE_EXT" "list_all (row_fits ctx) LE_PERIODIC"
    "list_all (row_fits ctx) LE_CONN"
  using assms
  by (simp_all add: LE_PRIVACY_def LE_EXT_def LE_PERIODIC_def LE_CONN_def Command_def row_fits_def fits_def
      good_context_def size_simps)

lemma rows_fit_3:
  assumes "good_context ctx"
  shows "list_all (row_fits ctx) ISO" "list_all (row_fits ctx) DTM" "list_all (row_fits ctx) VENDOR"
    "list_all (row_fits ctx) TEARDOWN" "list_all (row_fits ctx) ADDED"
  using assms
  by (simp_all add: ISO_def DTM_def VENDOR_def TEARDOWN_def ADDED_def CORE_62_def SDC_VS_def LOCAL_def ISYST_def
      Command_def row_fits_def fits_def good_context_def size_simps)

lemma adjust_opcode [simp]: "c_opcode (adjust c) = c_opcode c"
  by (simp add: adjust_def also_expect_def)

lemma adjust_fits:
  assumes "good_context ctx" "row_fits ctx c"
  shows "row_fits ctx (adjust c)"
  using assms by (simp add: adjust_def also_expect_def row_fits_def fits_def good_context_def size_simps)

lemma rows_fit:
  assumes "good_context ctx"
  shows "list_all (row_fits ctx) (COMMANDS @ TEARDOWN)"
  using rows_fit_1 [OF assms] rows_fit_2 [OF assms] rows_fit_3 [OF assms] adjust_fits [OF assms]
  by (auto simp: COMMANDS_def COMMANDS_catalog_def list.pred_set)

lemma fits_iff: "fits ctx p \<longleftrightarrow> (\<exists>bs. resolve ctx p = Inr bs \<and> length bs \<le> 255)"
  by (cases "resolve ctx p") (simp_all add: fits_def size_simps)

section \<open>The index\<close>

definition opcodes_1 :: "nat list" where
  "opcodes_1 = map c_opcode (CB @ LC @ INFO @ LE_BASIC @ LE_PRIVACY @ LE_EXT @ LE_PERIODIC)"

definition opcodes_2 :: "nat list" where
  "opcodes_2 = map c_opcode (LE_CONN @ ISO @ DTM @ VENDOR @ ADDED @ TEARDOWN)"

lemmas table_defs = CB_def LC_def INFO_def LE_BASIC_def LE_PRIVACY_def LE_EXT_def LE_PERIODIC_def
  LE_CONN_def ISO_def DTM_def VENDOR_def TEARDOWN_def ADDED_def CORE_62_def SDC_VS_def LOCAL_def ISYST_def
  Command_def

lemma distinct_1: "distinct opcodes_1" "list_all (\<lambda>n. n < 65536) opcodes_1"
  unfolding opcodes_1_def by (simp_all add: table_defs)

lemma distinct_2: "distinct opcodes_2" "list_all (\<lambda>n. n < 65536) opcodes_2"
  unfolding opcodes_2_def by (simp_all add: table_defs)

lemma distinct_12: "set opcodes_1 \<inter> set opcodes_2 = {}"
  unfolding opcodes_1_def opcodes_2_def by (simp add: table_defs)

lemma opcodes_eq: "map c_opcode (COMMANDS @ TEARDOWN) = opcodes_1 @ opcodes_2"
  by (simp add: COMMANDS_def COMMANDS_catalog_def opcodes_1_def opcodes_2_def comp_def)

lemma opcodes_distinct: "distinct (map c_opcode (COMMANDS @ TEARDOWN))"
  unfolding opcodes_eq distinct_append using distinct_1(1) distinct_2(1) distinct_12 by blast

primrec by_opcode :: "hci_command list \<Rightarrow> nat \<Rightarrow> hci_command option" where
  "by_opcode [] op = None"
| "by_opcode (c # cs) op = (if op = c_opcode c then Some c else by_opcode cs op)"

lemma by_opcode_None: "by_opcode cs op = None \<longleftrightarrow> op \<notin> c_opcode ` set cs"
  by (induction cs) simp_all

lemma dom_by_opcode [simp]: "dom (by_opcode cs) = c_opcode ` set cs"
  by (rule set_eqI) (simp add: domIff by_opcode_None)

lemma by_opcode_append: "by_opcode (xs @ ys) = by_opcode ys ++ by_opcode xs"
proof
  fix op
  show "by_opcode (xs @ ys) op = (by_opcode ys ++ by_opcode xs) op"
    by (induction xs) (simp_all add: map_add_def)
qed

lemma index_rows_ok:
  assumes "distinct (map c_opcode cs)" "c_opcode ` set cs \<inter> dom m = {}"
  shows "index_rows cs m = Inr (m ++ by_opcode cs)"
  using assms
proof (induction cs arbitrary: m)
  case Nil
  have "by_opcode [] = Map.empty" by (rule ext) simp
  then show ?case by simp
next
  case (Cons c cs)
  have "by_opcode cs (c_opcode c) = None" using Cons.prems(1) by (simp add: by_opcode_None)
  then have "m(c_opcode c \<mapsto> c) ++ by_opcode cs = m ++ by_opcode (c # cs)"
    by (intro ext) (simp add: map_add_def split: option.split)
  moreover have "m (c_opcode c) = None" "c_opcode ` set cs \<inter> dom (m(c_opcode c \<mapsto> c)) = {}"
    using Cons.prems by (auto simp: domIff)
  ultimately show ?case using Cons by (simp del: by_opcode.simps)
qed

lemma by_opcode_Some: "distinct (map c_opcode cs) \<Longrightarrow> c \<in> set cs \<Longrightarrow> by_opcode cs (c_opcode c) = Some c"
  by (induction cs) (simp, metis by_opcode.simps(2) distinct.simps(2) image_eqI list.map(2) list.set_map set_ConsD)

lemma by_opcode_in: "by_opcode cs op = Some c \<Longrightarrow> c \<in> set cs \<and> c_opcode c = op"
  by (induction cs) (auto split: if_splits)

lemma by_opcode_adjust: "map_option adjust (by_opcode cs op) = by_opcode (map adjust cs) op"
  by (induction cs) auto

lemma TEARDOWN_adjust: "map adjust TEARDOWN = TEARDOWN"
  by (simp add: TEARDOWN_def Command_def adjust_def EXTENDED_PHASE_OPCODES_def)

lemma adjusted_exist:
  assumes "op \<in> set (EXTENDED_PHASE_OPCODES @ [0x200C, 0x2042, 0x2079, 0x207A, 0x2077, 0x2085])"
  shows "op \<in> c_opcode ` set (COMMANDS_catalog @ TEARDOWN)"
proof -
  have "list_all (\<lambda>op. list_ex (\<lambda>c. c_opcode c = op) (LE_BASIC @ LE_EXT @ LE_PERIODIC @ LE_CONN))
      (EXTENDED_PHASE_OPCODES @ [0x200C, 0x2042, 0x2079, 0x207A, 0x2077, 0x2085])"
    by (simp add: EXTENDED_PHASE_OPCODES_def table_defs)
  with assms have "list_ex (\<lambda>c. c_opcode c = op) (LE_BASIC @ LE_EXT @ LE_PERIODIC @ LE_CONN)"
    unfolding list.pred_set by blast
  then show ?thesis by (force simp: COMMANDS_catalog_def list_ex_iff)
qed

lemma extended_adjusted:
  assumes "op \<in> set EXTENDED_PHASE_OPCODES" "by_opcode (map adjust cs) op = Some c"
  shows "c_phase c = PHASE_EXTENDED"
proof -
  from by_opcode_in [OF assms(2)] have "c \<in> adjust ` set cs" and op: "c_opcode c = op" by simp_all
  then obtain r where r: "c = adjust r" by blast
  with op assms(1) have "c_opcode r \<in> set EXTENDED_PHASE_OPCODES" by simp
  then have "adjust r = r\<lparr>c_phase := PHASE_EXTENDED\<rparr>" by (simp only: adjust_def if_True)
  with r show ?thesis by simp
qed

text \<open>Importing the profile never fails: no opcode is listed twice, every row it adjusts exists, and
  the phase assertion holds. The resulting index maps each opcode to the one row that has it.\<close>

lemma profile_index:
  "BY_OPCODE = Inr (by_opcode (COMMANDS @ TEARDOWN)) \<and> distinct (map c_opcode (COMMANDS @ TEARDOWN)) \<and>
   list_all (\<lambda>c. c_opcode c < 65536) (COMMANDS @ TEARDOWN)"
proof (intro conjI)
  let ?cat = "COMMANDS_catalog @ TEARDOWN"
  let ?adj = "map adjust COMMANDS_catalog @ TEARDOWN"
  let ?ops = "EXTENDED_PHASE_OPCODES @ [0x200C, 0x2042, 0x2079, 0x207A, 0x2077, 0x2085]"
  have dist: "distinct (map c_opcode ?cat)" "c_opcode ` set ADDED \<inter> c_opcode ` set ?adj = {}"
      "distinct (map c_opcode ADDED)" "c_opcode ` set ADDED \<inter> c_opcode ` set TEARDOWN = {}"
    using opcodes_distinct by (simp_all add: COMMANDS_def comp_def image_Un image_image) blast+
  have cat: "BY_OPCODE_catalog = Inr (by_opcode ?cat)"
    using index_rows_ok [OF dist(1), of Map.empty] by (simp add: BY_OPCODE_catalog_def)
  have m: "(\<lambda>op. map_option adjust (by_opcode ?cat op)) = by_opcode ?adj"
    using TEARDOWN_adjust by (simp add: fun_eq_iff by_opcode_adjust)
  have ix: "index_rows ADDED (by_opcode ?adj) = Inr (by_opcode ?adj ++ by_opcode ADDED)"
    using dist(2,3) by (intro index_rows_ok) simp_all
  have "by_opcode TEARDOWN ++ by_opcode ADDED = by_opcode ADDED ++ by_opcode TEARDOWN"
    using dist(4) by (intro map_add_comm) (simp add: Int_commute)
  moreover have "by_opcode (map adjust COMMANDS_catalog) ++ by_opcode ADDED =
      by_opcode ADDED ++ by_opcode (map adjust COMMANDS_catalog)"
    using dist(2) by (intro map_add_comm) auto
  ultimately have all: "by_opcode ?adj ++ by_opcode ADDED = by_opcode (COMMANDS @ TEARDOWN)"
    by (simp add: by_opcode_append COMMANDS_def flip: map_add_assoc) (simp add: map_add_assoc)
  have "by_opcode ?cat op \<noteq> None" if "op \<in> set ?ops" for op
    using adjusted_exist [OF that] by (simp only: domIff [symmetric] dom_by_opcode not_False_eq_True simp_thms)
  then have keys: "list_all (\<lambda>op. by_opcode ?cat op \<noteq> None) ?ops"
    unfolding list.pred_set by blast
  have "map_option c_phase (by_opcode (COMMANDS @ TEARDOWN) op) = Some PHASE_EXTENDED"
    if op: "op \<in> set EXTENDED_PHASE_OPCODES" for op
  proof -
    have "op \<in> dom (by_opcode ?adj)" using adjusted_exist [of op] op by (simp add: image_Un image_image)
    then obtain c where c: "by_opcode ?adj op = Some c" by blast
    have "by_opcode ADDED op = None" using c dist(2) by (metis disjoint_iff dom_by_opcode domI domIff)
    with c have "by_opcode (COMMANDS @ TEARDOWN) op = Some c" by (simp flip: all add: map_add_def)
    moreover have "c_phase c = PHASE_EXTENDED"
      using extended_adjusted [OF op, of ?cat] c TEARDOWN_adjust by simp
    ultimately show ?thesis by simp
  qed
  then have phases: "list_all (\<lambda>op. map_option c_phase (by_opcode (COMMANDS @ TEARDOWN) op) = Some PHASE_EXTENDED)
      EXTENDED_PHASE_OPCODES"
    unfolding list.pred_set by blast
  show "BY_OPCODE = Inr (by_opcode (COMMANDS @ TEARDOWN))"
    unfolding BY_OPCODE_def cat bind_r_simps m ix all if_not_P
    using keys phases by simp
  show "distinct (map c_opcode (COMMANDS @ TEARDOWN))" by (rule opcodes_distinct)
  have "list_all (\<lambda>n. n < 65536) (map c_opcode (COMMANDS @ TEARDOWN))"
    unfolding opcodes_eq using distinct_1(2) distinct_2(2) by simp
  then show "list_all (\<lambda>c. c_opcode c < 65536) (COMMANDS @ TEARDOWN)"
    by (simp add: list.pred_map comp_def)
qed

lemma same_row:
  assumes "c \<in> set (COMMANDS @ TEARDOWN)" "r \<in> set COMMANDS" "c_opcode r = c_opcode c"
  shows "r = c"
proof -
  have "r \<in> set (COMMANDS @ TEARDOWN)" using assms(2) by simp
  from by_opcode_Some [OF opcodes_distinct this] have "by_opcode (COMMANDS @ TEARDOWN) (c_opcode c) = Some r"
    unfolding assms(3) .
  with by_opcode_Some [OF opcodes_distinct assms(1)] show ?thesis by simp
qed

text \<open>C15. Every row can be sent: for any connection handle, address type and public address, its
  parameter block, the block that undoes it and each retry block are built without an exception and
  fit the length octet of an HCI command. The blocks whose size the table documents have that size.\<close>

theorem catalog_rows_build:
  assumes "good_context ctx" "c \<in> set (COMMANDS @ TEARDOWN)"
  shows "(\<exists>bs. build c ctx = Inr bs \<and> length bs \<le> 255) \<and>
    (case c_undo c of None \<Rightarrow> True | Some (_, p) \<Rightarrow> \<exists>bs. resolve ctx p = Inr bs \<and> length bs \<le> 255) \<and>
    list_all (\<lambda>(_, p, _). \<exists>bs. resolve ctx p = Inr bs \<and> length bs \<le> 255) (c_retry_after c) \<and>
    (case map_of [(0x2006, 15), (0x2086, 12), (0x2044, 14), (0x204F, 7), (0x2062, 15 + 9), (0x2088, 3)] (c_opcode c)
     of None \<Rightarrow> True | Some n \<Rightarrow> size_of (build c ctx) = Some n)"
proof (intro conjI)
  have "row_fits ctx c" using rows_fit [OF assms(1)] assms(2) unfolding list.pred_set by blast
  then show "\<exists>bs. build c ctx = Inr bs \<and> length bs \<le> 255"
    "case c_undo c of None \<Rightarrow> True | Some (_, p) \<Rightarrow> \<exists>bs. resolve ctx p = Inr bs \<and> length bs \<le> 255"
    "list_all (\<lambda>(_, p, _). \<exists>bs. resolve ctx p = Inr bs \<and> length bs \<le> 255) (c_retry_after c)"
    by (simp_all add: row_fits_def fits_iff build_def split: option.splits prod.splits)
  let ?sizes = "[(0x2006, 15), (0x2086, 12), (0x2044, 14), (0x204F, 7), (0x2062, 15 + 9), (0x2088, 3)]"
  have "list_all (\<lambda>(op, n). list_ex (\<lambda>c. c_opcode c = op \<and> size_of (build c ctx) = Some n) COMMANDS) ?sizes"
    using assms(1)
    by (simp add: COMMANDS_def COMMANDS_catalog_def table_defs adjust_def EXTENDED_PHASE_OPCODES_def build_def
      good_context_def size_simps also_expect_def)
  then have "size_of (build c ctx) = Some n" if "(c_opcode c, n) \<in> set ?sizes" for n
    using that same_row [OF assms(2)] unfolding list.pred_set list_ex_iff by fastforce
  then show "case map_of ?sizes (c_opcode c) of None \<Rightarrow> True | Some n \<Rightarrow> size_of (build c ctx) = Some n"
    by (auto split: option.split dest: map_of_SomeD simp del: map_of.simps)
qed

theorem catalog_rows_build_witness:
  "\<exists>c bs. c \<in> set COMMANDS \<and> c_opcode c = 0xFC06 \<and>
     build c \<lparr>ctx_handle = UNUSED_HANDLE, ctx_addr_type = 1, ctx_identity = None, ctx_role = None,
       ctx_peer_addr = None, ctx_peer_type = None, ctx_public_addr = zeros 6\<rparr> = Inr bs \<and> length bs \<le> 255"
proof -
  let ?ctx = "\<lparr>ctx_handle = UNUSED_HANDLE, ctx_addr_type = 1, ctx_identity = None, ctx_role = None,
       ctx_peer_addr = None, ctx_peer_type = None, ctx_public_addr = zeros 6\<rparr>"
  have "list_ex (\<lambda>c. c_opcode c = 0xFC06) (map adjust VENDOR)" by (simp add: VENDOR_def Command_def)
  then obtain c where "c \<in> set (map adjust VENDOR)" "c_opcode c = 0xFC06" unfolding list_ex_iff by blast
  then have c: "c \<in> set COMMANDS" "c_opcode c = 0xFC06"
    by (simp_all add: COMMANDS_def COMMANDS_catalog_def)
  have "good_context ?ctx" by (simp add: good_context_def)
  with catalog_rows_build [of ?ctx c] c show ?thesis by auto
qed

definition row_paired :: "hci_command \<Rightarrow> bool" where
  "row_paired c = (case c_undo c of None \<Rightarrow> \<not> c_undo_now c
     | Some (op, _) \<Rightarrow> list_ex (\<lambda>r. c_opcode r = op) (COMMANDS @ TEARDOWN))"

definition undone_at_once :: "nat \<Rightarrow> hci_command \<Rightarrow> bool" where
  "undone_at_once op c \<longleftrightarrow> NEEDS_CONSENT \<in> set (c_needs c) \<and> map_option fst (c_undo c) = Some op \<and> c_undo_now c"

text \<open>The opcodes that undo a row, and that each of them is a row.\<close>

definition undo_opcodes :: "nat list" where
  "undo_opcodes =
   [0x0C01, 0x0C63, 0x2001, 0x200A, 0x200C, 0x2010, 0x2024, 0x2031, 0x2074, 0x2097, 0x2029, 0x202D,
    0x202E, 0x2042, 0x2039, 0x2040, 0x2049, 0x2045, 0x200E, 0x2079, 0x207A, 0xFD19, 0xFD1A, 0xFD18,
    0x2065, 0x206A, 0x201F, 0xFC06, 0xFD04, 0xFD0E, 0xFD1F]"

definition undo_listed :: "hci_command \<Rightarrow> bool" where
  "undo_listed c = (case c_undo c of None \<Rightarrow> \<not> c_undo_now c | Some u \<Rightarrow> fst u \<in> set undo_opcodes)"

lemmas profile_defs = COMMANDS_def COMMANDS_catalog_def table_defs adjust_def EXTENDED_PHASE_OPCODES_def
  also_expect_def

lemma undo_opcodes_listed:
  "list_all (\<lambda>op. list_ex (\<lambda>r. c_opcode r = op) (COMMANDS @ TEARDOWN)) undo_opcodes"
  by (simp add: profile_defs undo_opcodes_def)

lemma undo_listed_rows: "list_all undo_listed (COMMANDS @ TEARDOWN)"
  by (simp add: profile_defs undo_listed_def undo_opcodes_def)

text \<open>What a row starts can be stopped: an immediate undo is never declared without an undo, every
  undo is itself a command of the table, each direct test mode row needs consent and is ended at once
  by LE Test End, and the rows that start an initiator or a periodic sync need consent and are
  cancelled at once.\<close>

lemma catalog_undo_paired:
  "list_all row_paired (COMMANDS @ TEARDOWN) \<and> list_all (undone_at_once 0x201F) (map adjust DTM) \<and>
   list_all (\<lambda>(op, cancel). list_ex (\<lambda>c. c_opcode c = op \<and> undone_at_once cancel c) COMMANDS)
     [(0x200D, 0x200E), (0x2043, 0x200E), (0x2085, 0x200E), (0x2044, 0x2045)]"
proof (intro conjI)
  show "list_all (undone_at_once 0x201F) (map adjust DTM)"
    by (simp add: DTM_def Command_def adjust_def EXTENDED_PHASE_OPCODES_def undone_at_once_def)
  have "row_paired c" if c: "undo_listed c" for c
  proof (cases "c_undo c")
    case None
    with c show ?thesis by (simp add: row_paired_def undo_listed_def)
  next
    case (Some u)
    with c have "fst u \<in> set undo_opcodes" by (simp add: undo_listed_def)
    then have "list_ex (\<lambda>r. c_opcode r = fst u) (COMMANDS @ TEARDOWN)"
      using undo_opcodes_listed unfolding list.pred_set by blast
    with Some show ?thesis by (simp add: row_paired_def split_beta)
  qed
  with undo_listed_rows show "list_all row_paired (COMMANDS @ TEARDOWN)"
    unfolding list.pred_set by blast
  show "list_all (\<lambda>(op, cancel). list_ex (\<lambda>c. c_opcode c = op \<and> undone_at_once cancel c) COMMANDS)
     [(0x200D, 0x200E), (0x2043, 0x200E), (0x2085, 0x200E), (0x2044, 0x2045)]"
    by (simp add: COMMANDS_def COMMANDS_catalog_def table_defs adjust_def EXTENDED_PHASE_OPCODES_def also_expect_def
      undone_at_once_def)
qed

end
