(* ===== verification/Probe.thy ===== *)
theory Probe
  imports Commands_Profile Hci_Replies
begin

text \<open>
  The probe of \<open>python/hcicontroller/hci_ble_test_impl.py\<close>, first part: whether a row of the command
  table can be sent, sending it and classifying the answer, undoing what it started, the phases and
  the bisection. Its local functions share the variables of \<open>cmd_probe\<close>; those are the record
  \<open>probe\<close>. Times are microseconds. What is printed is left out, except for what the bisection
  reports: the attempts it made, in order.
\<close>

section \<open>State\<close>

record probe_args =
  p_handle :: "nat option"
  p_consent :: bool
  p_no_adv_set :: bool
  p_settle_ms :: nat
  p_only :: "nat list option"
  p_bisect :: "nat option"
  p_wait_connect :: nat
  p_discover_secs :: nat
  p_wait_ltk :: nat

datatype tally = Ok | Expected | Silent | Refused | Unknown

record probe =
  pb_hci :: hci
  pb_args :: probe_args
  pb_ctx :: probe_context
  pb_identity :: bytes
  pb_addr_type :: byte
  pb_live :: bool
  pb_undo :: "(nat \<times> payload) list"
  pb_counts :: "tally \<Rightarrow> nat"
  pb_skipped :: "nat set"
  pb_last :: nat

definition on_hci :: "(hci, 'a) action \<Rightarrow> (probe, 'a) action" where
  "on_hci m p = (case m (pb_hci p) of (r, h) \<Rightarrow> (r, p\<lparr>pb_hci := h\<rparr>))"

definition count :: "tally \<Rightarrow> (probe, unit) action" where
  "count t = modify_s (\<lambda>p. p\<lparr>pb_counts := (pb_counts p)(t := pb_counts p t + 1)\<rparr>)"

section \<open>Rows\<close>

definition probe_available :: "hci_command \<Rightarrow> probe_args \<Rightarrow> bool \<Rightarrow> probe_context \<Rightarrow> bool" where
  "probe_available c args live_handle ctx =
     (let needs = set (c_needs c) in
      if NEEDS_CONN \<in> needs \<and> (p_handle args = None \<or> \<not> live_handle) then False
      else if NEEDS_CENTRAL \<in> needs \<and> ctx_role ctx \<noteq> Some 0 then False
      else if NEEDS_SYNC \<in> needs then False
      else if NEEDS_CONSENT \<in> needs \<and> \<not> p_consent args then False
      else if NEEDS_ADV_SET \<in> needs \<and> p_no_adv_set args then False
      else True)"

definition available :: "hci_command \<Rightarrow> probe \<Rightarrow> bool" where
  "available c p = probe_available c (pb_args p) (pb_live p) (pb_ctx p)"

text \<open>\<open>hci.command(opcode, payload, timeout, allow_fail=True)\<close> with a payload of the table.\<close>

definition issue :: "nat \<Rightarrow> payload \<Rightarrow> nat \<Rightarrow> (probe, byte \<times> bytes) action" where
  "issue op pl timeout = with_s (\<lambda>p.
     bind_s (lift_r (resolve (pb_ctx p) pl)) (\<lambda>bs. on_hci (command op bs timeout True)))"

text \<open>The retry candidates of a refused row, in turn. \<open>None\<close>: the exchange broke, and the retry ends.\<close>

definition retry_once :: "hci_command \<Rightarrow> nat \<Rightarrow> bytes \<Rightarrow> (probe, byte option option) action" where
  "retry_once c op bs =
     catch_s
       (bind_s (on_hci (command op bs 1000000 True)) (\<lambda>(fix, _).
        if fix \<noteq> 0 then ret (Some None)
        else bind_s (issue (c_opcode c) (c_payload c) 3000000) (\<lambda>(again, _). ret (Some (Some again)))))
       (\<lambda>e. if is_HciError e \<or> is_HciGone e then ret None else throw e)"

fun probe_retry :: "hci_command \<Rightarrow> (nat \<times> payload \<times> string) list \<Rightarrow> (probe, unit) action" where
  "probe_retry c [] = ret ()"
| "probe_retry c ((op, pl, why) # cs) =
     with_s (\<lambda>p.
     bind_s (lift_r (resolve (pb_ctx p) pl)) (\<lambda>bs.
     bind_s (retry_once c op bs) (\<lambda>out.
     case out of
       None \<Rightarrow> ret ()
     | Some None \<Rightarrow> probe_retry c cs
     | Some (Some again) \<Rightarrow>
         if again = 0 then bind_s (on_hci (command (c_opcode c) [0] 1000000 True)) (\<lambda>_. ret ())
         else probe_retry c cs)))"

definition refusal :: "hci_command \<Rightarrow> byte \<Rightarrow> (probe, unit) action" where
  "refusal c status =
     (if unat status \<in> set (c_expect c) then count Expected
      else bind_s (count Refused) (\<lambda>_. probe_retry c (c_retry_after c)))"

text \<open>An undo whose failure is not interesting.\<close>

definition undo_now :: "nat \<times> payload \<Rightarrow> (probe, unit) action" where
  "undo_now u =
     catch_s (bind_s (issue (fst u) (snd u) 1000000) (\<lambda>_. ret ()))
       (\<lambda>e. if is_HciError e then ret () else throw e)"

text \<open>The answer to a row: its status, or \<open>None\<close> when there was no event, which is what a row that
  answers nothing must do.\<close>

definition row_status :: "hci_command \<Rightarrow> (probe, byte option) action" where
  "row_status c =
     catch_s
       (bind_s (issue (c_opcode c) (c_payload c) (if c_reply c = NONE then 500000 else 3000000))
         (\<lambda>(status, _). ret (Some status)))
       (\<lambda>e. if is_HciError e
            then bind_s (count (if c_reply c = NONE then Silent else Unknown)) (\<lambda>_. ret None)
            else throw e)"

definition classify :: "hci_command \<Rightarrow> byte option \<Rightarrow> (probe, unit) action" where
  "classify c status =
     (case status of
        None \<Rightarrow> ret ()
      | Some st \<Rightarrow>
          if st = 0 \<and> c_reply c = NONE then count Unknown
          else if st = 0 then count Ok
          else if st = 1 then count Unknown
          else refusal c st)"

definition probe_send :: "hci_command \<Rightarrow> (probe, unit) action" where
  "probe_send c = with_s (\<lambda>p.
     if \<not> available c p then modify_s (\<lambda>p. p\<lparr>pb_skipped := insert (c_opcode c) (pb_skipped p)\<rparr>)
     else
       bind_s (modify_s (\<lambda>p. p\<lparr>pb_skipped := pb_skipped p - {c_opcode c}\<rparr>)) (\<lambda>_.
       bind_s (row_status c) (\<lambda>status.
       bind_s (classify c status) (\<lambda>_.
       case c_undo c of
         None \<Rightarrow> ret ()
       | Some u \<Rightarrow>
           if c_undo_now c
           then bind_s (if p_settle_ms (pb_args p) \<noteq> 0 then on_hci (sleep (p_settle_ms (pb_args p) * 1000)) else ret ())
                  (\<lambda>_. undo_now u)
           else modify_s (\<lambda>p. p\<lparr>pb_undo := pb_undo p @ [u]\<rparr>)))))"

section \<open>Undoing, watching for a restart, phases\<close>

fun undo_all :: "(nat \<times> payload) list \<Rightarrow> (probe, unit) action" where
  "undo_all [] = ret ()"
| "undo_all (u # us) = bind_s (undo_now u) (\<lambda>_. undo_all us)"

definition unwind :: "(probe, unit) action" where
  "unwind = with_s (\<lambda>p.
     bind_s (undo_all (rev (pb_undo p))) (\<lambda>_. modify_s (\<lambda>p. p\<lparr>pb_undo := []\<rparr>)))"

definition preamble :: "(probe, unit) action" where
  "preamble = with_s (\<lambda>p. on_hci (
     bind_s (command3 OP_RESET []) (\<lambda>_.
     bind_s (command3 OP_SET_EVENT_MASK [0xff, 0xff, 0xff, 0xff, 0xff, 0xff, 0xff, 0x3f]) (\<lambda>_.
     bind_s (command3 OP_LE_SET_EVENT_MASK [0xff, 0xff, 0x03, 0, 0, 0, 0, 0]) (\<lambda>_.
     if pb_addr_type p = 0x01
     then bind_s (command3 OP_LE_SET_RANDOM_ADDRESS (pb_identity p)) (\<lambda>_. ret ())
     else ret ())))))"

text \<open>True when the command counter fell, so the controller restarted.\<close>

definition check_alive :: "(probe, bool) action" where
  "check_alive =
     bind_s (on_hci read_counters) (\<lambda>values.
     case values of
       None \<Rightarrow> ret False
     | Some [] \<Rightarrow> throw IndexError
     | Some (n # _) \<Rightarrow> with_s (\<lambda>p.
         bind_s (modify_s (\<lambda>p. p\<lparr>pb_last := n\<rparr>)) (\<lambda>_. ret (n < pb_last p))))"

fun send_rows :: "hci_command list \<Rightarrow> (probe, unit) action" where
  "send_rows [] = ret ()"
| "send_rows (c # cs) = bind_s (probe_send c) (\<lambda>_. send_rows cs)"

definition phase_rows :: "probe_args \<Rightarrow> phase \<Rightarrow> hci_command list" where
  "phase_rows args ph = filter (\<lambda>c. c_phase c = ph \<and>
     (case p_only args of None \<Rightarrow> True | Some ops \<Rightarrow> c_opcode c \<in> set ops) \<and> c_opcode c \<noteq> 0x0C03) COMMANDS"

definition run_phase :: "phase \<Rightarrow> (probe, unit) action" where
  "run_phase ph = with_s (\<lambda>p. send_rows (phase_rows (pb_args p) ph))"

section \<open>Bisection\<close>

definition replay :: "hci_command \<Rightarrow> (probe, bool) action" where
  "replay c = with_s (\<lambda>p.
     if \<not> available c p \<or> c_opcode c = 0x0C03 then ret True
     else catch_s
       (bind_s (issue (c_opcode c) (c_payload c) (if c_reply c = NONE then 500000 else 1000000)) (\<lambda>_.
        case c_undo c of
          None \<Rightarrow> ret True
        | Some u \<Rightarrow>
            if c_undo_now c
            then bind_s (if p_settle_ms (pb_args p) \<noteq> 0 then on_hci (sleep (p_settle_ms (pb_args p) * 1000)) else ret ())
                   (\<lambda>_. bind_s (issue (fst u) (snd u) 1000000) (\<lambda>_. ret True))
            else ret True))
       (\<lambda>e. if is_HciError e then ret (c_reply c = NONE) else throw e))"

fun replay_rows :: "nat \<Rightarrow> hci_command list \<Rightarrow> (probe, unit) action" where
  "replay_rows quiet_run [] = ret ()"
| "replay_rows quiet_run (c # cs) =
     bind_s (replay c) (\<lambda>answered.
     if answered then replay_rows 0 cs
     else if 3 \<le> quiet_run + 1 then throw (HciGone ''controller stopped answering'')
     else replay_rows (quiet_run + 1) cs)"

definition attempt :: "hci_command \<Rightarrow> hci_command list \<Rightarrow> hci_command list \<Rightarrow> (probe, byte) action" where
  "attempt target fixed rows =
     bind_s preamble (\<lambda>_.
     bind_s (replay_rows 0 (rows @ fixed)) (\<lambda>_.
     bind_s (issue (c_opcode target) (c_payload target) 3000000) (\<lambda>(status, _).
     bind_s (case c_undo target of None \<Rightarrow> ret ()
             | Some u \<Rightarrow> bind_s (issue (fst u) (snd u) 1000000) (\<lambda>_. ret ())) (\<lambda>_.
     ret status))))"

text \<open>The halving loop: \<open>tried mid\<close> is the attempt with the first \<open>mid\<close> rows. It reports the attempts
  it made and the final upper bound.\<close>

function halve :: "(nat \<Rightarrow> ('s, byte) action) \<Rightarrow> nat \<Rightarrow> nat \<Rightarrow> (nat \<times> byte) list \<Rightarrow> ('s, nat \<times> (nat \<times> byte) list) action" where
  "halve tried low high log s =
     (if 1 < high - low then
        let mid = (low + high) div 2 in
        case tried mid s of
          (Inl e, s') \<Rightarrow> (Inl e, s')
        | (Inr status, s') \<Rightarrow>
            if status = 0 then halve tried mid high (log @ [(mid, status)]) s'
            else halve tried low mid (log @ [(mid, status)]) s'
      else (Inr (high, log), s))"
  by pat_completeness auto
termination
  by (relation "measure (\<lambda>(_, low, high, _, _). high - low)") auto

declare halve.simps [simp del]

datatype finding =
    Not_In_Table
  | Not_A_Phase_Row
  | Fails_Alone byte
  | Nothing_To_Find
  | Culprit hci_command nat "(nat \<times> byte) list" byte

definition bisect_pool :: "hci_command \<Rightarrow> probe \<Rightarrow> hci_command list" where
  "bisect_pool target p =
     (if c_phase target = PHASE_LEGACY
      then filter (\<lambda>c. c_phase c = PHASE_ANY \<and> available c p \<and> c_opcode c \<noteq> 0x0C03) COMMANDS else [])"

definition bisect :: "nat \<Rightarrow> (probe, finding) action" where
  "bisect target_opcode =
     (case by_opcode (COMMANDS @ TEARDOWN) target_opcode of
        None \<Rightarrow> ret Not_In_Table
      | Some target \<Rightarrow>
          let rows = filter (\<lambda>c. c_phase c = c_phase target) COMMANDS in
          if \<not> list_ex (\<lambda>c. c_opcode c = c_opcode target) rows then ret Not_A_Phase_Row
          else
            let fixed = takeWhile (\<lambda>c. c_opcode c \<noteq> c_opcode target) rows in
            with_s (\<lambda>p. let pool = bisect_pool target p in
            bind_s (attempt target fixed []) (\<lambda>clean.
            bind_s (attempt target fixed pool) (\<lambda>dirty.
            if clean \<noteq> 0 then ret (Fails_Alone clean)
            else if dirty = 0 then ret Nothing_To_Find
            else
              bind_s (halve (\<lambda>mid. attempt target fixed (take mid pool)) 0 (length pool) []) (\<lambda>(high, log).
              if high = 0 \<or> length pool < high then throw IndexError
              else
                let culprit = pool ! (high - 1) in
                bind_s (attempt target fixed [culprit]) (\<lambda>alone.
                ret (Culprit culprit high log alone)))))))"

section \<open>The bisection finds a row that turns the target over\<close>

text \<open>What the loop keeps true: the lower prefix was accepted and the upper one refused, unless they
  are the bounds it started with, which the caller has tried.\<close>

definition bracketed :: "nat \<Rightarrow> nat \<Rightarrow> nat \<Rightarrow> nat \<Rightarrow> (nat \<times> byte) list \<Rightarrow> bool" where
  "bracketed low0 high0 low high log \<longleftrightarrow> low0 \<le> low \<and> low < high \<and> high \<le> high0 \<and>
     (low = low0 \<or> (low, 0) \<in> set log) \<and> (high = high0 \<or> (\<exists>st. st \<noteq> 0 \<and> (high, st) \<in> set log))"

lemma halve_bracketed:
  assumes "halve tried low high log s = (Inr (result, log'), s')" "bracketed low0 high0 low high log"
  shows "bracketed low0 high0 (result - 1) result log' \<and> prefix log log'"
  using assms
proof (induction tried low high log s rule: halve.induct)
  case (1 tried low high log s)
  show ?case
  proof (cases "1 < high - low")
    case False
    with 1(3,4) have "result = high" "log' = log" "high = low + 1"
      by (auto simp: halve.simps [of tried low high] bracketed_def)
    with 1(4) show ?thesis by (simp add: bracketed_def)
  next
    case True
    define mid where "mid = (low + high) div 2"
    have mid: "low < mid" "mid < high" using True by (auto simp: mid_def)
    obtain out s1 where t: "tried mid s = (out, s1)" by fastforce
    with 1(3) True obtain st where out: "out = Inr st"
      by (cases out) (simp_all add: halve.simps [of tried low high] mid_def Let_def)
    let ?log = "log @ [(mid, st)]"
    show ?thesis
    proof (cases "st = 0")
      case True
      with 1(3) t out \<open>1 < high - low\<close> have "halve tried mid high ?log s1 = (Inr (result, log'), s')"
        by (simp add: halve.simps [of tried low high] mid_def Let_def)
      moreover have "bracketed low0 high0 mid high ?log"
        using 1(4) mid True by (auto simp: bracketed_def)
      ultimately have "bracketed low0 high0 (result - 1) result log' \<and> prefix ?log log'"
        using 1(1) [OF \<open>1 < high - low\<close> mid_def t [symmetric] out True] by blast
      then show ?thesis by (auto simp: prefix_def)
    next
      case False
      with 1(3) t out \<open>1 < high - low\<close> have "halve tried low mid ?log s1 = (Inr (result, log'), s')"
        by (simp add: halve.simps [of tried low high] mid_def Let_def)
      moreover have "bracketed low0 high0 low mid ?log"
        using 1(4) mid False by (auto simp: bracketed_def)
      ultimately have "bracketed low0 high0 (result - 1) result log' \<and> prefix ?log log'"
        using 1(2) [OF \<open>1 < high - low\<close> mid_def t [symmetric] out False] by blast
      then show ?thesis by (auto simp: prefix_def)
    qed
  qed
qed

lemma halve_count:
  assumes "halve tried low high log s = (Inr (result, log'), s')" "high - low \<le> 2 ^ n"
  shows "length log' \<le> length log + n"
  using assms
proof (induction tried low high log s arbitrary: n rule: halve.induct)
  case (1 tried low high log s)
  show ?case
  proof (cases "1 < high - low")
    case False
    with 1(3) show ?thesis by (simp add: halve.simps [of tried low high])
  next
    case True
    define mid where "mid = (low + high) div 2"
    with True 1(4) obtain m where n: "n = Suc m" by (cases n) auto
    then have half: "high - mid \<le> 2 ^ m" "mid - low \<le> 2 ^ m" using 1(4) True by (simp_all add: mid_def)
    obtain out s1 where t: "tried mid s = (out, s1)" by fastforce
    with 1(3) True obtain st where out: "out = Inr st"
      by (cases out) (simp_all add: halve.simps [of tried low high] mid_def Let_def)
    show ?thesis
    proof (cases "st = 0")
      case z: True
      with 1(3) t out True have "halve tried mid high (log @ [(mid, st)]) s1 = (Inr (result, log'), s')"
        by (simp add: halve.simps [of tried low high] mid_def Let_def)
      from 1(1) [OF True mid_def t [symmetric] out z this half(1)] n show ?thesis by simp
    next
      case nz: False
      with 1(3) t out True have "halve tried low mid (log @ [(mid, st)]) s1 = (Inr (result, log'), s')"
        by (simp add: halve.simps [of tried low high] mid_def Let_def)
      from 1(2) [OF True mid_def t [symmetric] out nz this half(2)] n show ?thesis by simp
    qed
  qed
qed



section \<open>The phases of a run\<close>

text \<open>The body of \<open>cmd_probe\<close> between the bisection branch and the wait for a peer.\<close>

definition probe_phases :: "(probe, unit) action" where
  "probe_phases =
     bind_s check_alive (\<lambda>_.
     bind_s (run_phase PHASE_ANY) (\<lambda>_.
     bind_s check_alive (\<lambda>restarted. with_s (\<lambda>p.
     bind_s (if restarted \<and> pb_addr_type p = 0x01
             then bind_s (on_hci (command OP_LE_SET_RANDOM_ADDRESS (pb_identity p) 3000000 True)) (\<lambda>_. ret ())
             else ret ()) (\<lambda>_.
     bind_s (run_phase PHASE_LEGACY) (\<lambda>_.
     bind_s check_alive (\<lambda>_.
     bind_s unwind (\<lambda>_.
     bind_s preamble (\<lambda>_.
     bind_s check_alive (\<lambda>_.
     bind_s (run_phase PHASE_EXTENDED) (\<lambda>_.
     bind_s check_alive (\<lambda>_.
     bind_s unwind (\<lambda>_.
     send_rows TEARDOWN)))))))))))))"

end
