(* ===== verification/Probe_Books.thy ===== *)
theory Probe_Books
  imports Probe
begin

text \<open>
  The bookkeeping of a probe run: every row of a phase ends as skipped or as counted once, and what
  the rows started is undone in reverse order.
\<close>

section \<open>Every row is accounted for, and what was started is undone in reverse\<close>

text \<open>The bookkeeping of a run. What only talks to the controller leaves it alone.\<close>

definition same_books :: "probe \<Rightarrow> probe \<Rightarrow> bool" where
  "same_books p p' \<longleftrightarrow> pb_counts p' = pb_counts p \<and> pb_skipped p' = pb_skipped p \<and> pb_args p' = pb_args p \<and>
     pb_ctx p' = pb_ctx p \<and> pb_live p' = pb_live p \<and> pb_undo p' = pb_undo p"

locale books_kept =
  fixes act :: "(probe, 'a) action"
  assumes books: "same_books p (snd (act p))"
begin

lemma books_of: "act p = (r, p') \<Longrightarrow> same_books p p'"
  using books [of p] by simp

end

lemma same_books_refl [simp]: "same_books p p"
  by (simp add: same_books_def)

lemma same_books_trans: "same_books p q \<Longrightarrow> same_books q r \<Longrightarrow> same_books p r"
  by (simp add: same_books_def)

lemma books_ret: "books_kept (ret x)" "books_kept (throw e)" "books_kept (lift_r m)"
  by (unfold_locales; simp)+

lemma books_on_hci: "books_kept (on_hci m)"
  by unfold_locales (simp add: on_hci_def same_books_def split: prod.split)

lemma books_bind:
  assumes "books_kept m" "\<And>x. books_kept (f x)"
  shows "books_kept (bind_s m f)"
proof
  fix p
  obtain r q where m: "m p = (r, q)" by fastforce
  have "same_books p q" using assms(1) m by (rule books_kept.books_of)
  moreover have "same_books q (snd (f x q))" for x using assms(2) by (rule books_kept.books)
  ultimately show "same_books p (snd (bind_s m f p))"
    using m by (cases r) (auto simp: bind_s_def intro: same_books_trans)
qed

lemma books_catch:
  assumes "books_kept m" "\<And>e. books_kept (f e)"
  shows "books_kept (catch_s m f)"
proof
  fix p
  obtain r q where m: "m p = (r, q)" by fastforce
  have "same_books p q" using assms(1) m by (rule books_kept.books_of)
  moreover have "same_books q (snd (f e q))" for e using assms(2) by (rule books_kept.books)
  ultimately show "same_books p (snd (catch_s m f p))"
    using m by (cases r) (auto simp: catch_s_def intro: same_books_trans)
qed

lemma books_with: "(\<And>p. books_kept (f p)) \<Longrightarrow> books_kept (with_s f)"
  by unfold_locales (simp add: books_kept.books)

lemma books_cases:
  "books_kept a \<Longrightarrow> books_kept b \<Longrightarrow> books_kept (if c then a else b)"
  "(\<And>x y. books_kept (g x y)) \<Longrightarrow> books_kept (case z of (x, y) \<Rightarrow> g x y)"
  "books_kept n \<Longrightarrow> (\<And>x. books_kept (k x)) \<Longrightarrow> books_kept (case z' of None \<Rightarrow> n | Some x \<Rightarrow> k x)"
  by (simp_all split: prod.split option.split)

lemmas books_intros = books_ret books_on_hci books_bind books_catch books_with books_cases

interpretation issue_books: books_kept "issue op pl timeout" for op pl timeout
  unfolding issue_def by (intro books_intros)

interpretation undo_books: books_kept "undo_now u" for u
  unfolding undo_now_def by (intro books_intros issue_books.books_kept_axioms)

interpretation retry_books: books_kept "probe_retry c cs" for c cs
proof (induction cs)
  case (Cons row cs)
  obtain op pl why where row: "row = (op, pl, why)" by (metis prod_cases3)
  from Cons show ?case unfolding row probe_retry.simps retry_once_def
    by (intro books_intros issue_books.books_kept_axioms)
qed (unfold probe_retry.simps, rule books_ret)

text \<open>Ways to count one row.\<close>

definition tallied :: "probe \<Rightarrow> nat" where
  "tallied p = sum_list (map (pb_counts p) [Ok, Expected, Silent, Refused, Unknown])"

definition counted :: "probe \<Rightarrow> probe \<Rightarrow> bool" where
  "counted p p' \<longleftrightarrow> (\<exists>t. same_books (p\<lparr>pb_counts := (pb_counts p)(t := pb_counts p t + 1)\<rparr>) p')"

lemma counted_tallied: "counted p p' \<Longrightarrow> tallied p' = tallied p + 1"
proof -
  assume "counted p p'"
  then obtain t where "pb_counts p' = (pb_counts p)(t := pb_counts p t + 1)" by (auto simp: counted_def same_books_def)
  then show ?thesis by (cases t) (simp_all add: tallied_def)
qed

lemma counted_count: "count t p = (r, p') \<Longrightarrow> counted p p'"
  by (auto simp: count_def counted_def same_books_def)

lemma counted_same: "same_books p q \<Longrightarrow> counted q r \<Longrightarrow> counted p r"
  "counted p q \<Longrightarrow> same_books q r \<Longrightarrow> counted p r"
  by (auto simp: counted_def same_books_def)

text \<open>A failure the row's own handler takes is counted; any other leaves the row.\<close>

lemma row_status_counted:
  assumes "row_status c p = (Inr status, p')"
  shows "case status of None \<Rightarrow> counted p p' | Some _ \<Rightarrow> same_books p p'"
proof -
  let ?m = "bind_s (issue (c_opcode c) (c_payload c) (if c_reply c = NONE then 500000 else 3000000))
              (\<lambda>(status, _). ret (Some status))"
  obtain out q where m: "?m p = (out, q)" by fastforce
  have "books_kept ?m" by (intro books_intros issue_books.books_kept_axioms)
  then have q: "same_books p q" using m by (rule books_kept.books_of)
  show ?thesis
  proof (cases out)
    case (Inl e)
    then have "is_HciError e" and out: "(Inr status, p') =
        bind_s (count (if c_reply c = NONE then Silent else Unknown)) (\<lambda>_. ret None) q"
      using assms m unfolding row_status_def catch_s_def by (auto split: if_splits)
    from out [symmetric] have "counted q p'" "status = None"
      by (auto simp: bind_s_Inr_iff intro: counted_count)
    with counted_same(1) [OF q] show ?thesis by simp
  next
    case (Inr x)
    then have "status = x" "p' = q" using assms m unfolding row_status_def catch_s_def by auto
    moreover from m Inr obtain st where "x = Some st" by (auto simp: bind_s_Inr_iff)
    ultimately show ?thesis using q by simp
  qed
qed

lemma classify_counted:
  assumes "classify c (Some st) p = (Inr u, p')"
  shows "counted p p'"
proof (cases "st \<noteq> 0 \<and> st \<noteq> 1 \<and> unat st \<notin> set (c_expect c)")
  case False
  with assms show ?thesis by (auto simp: classify_def refusal_def split: if_splits intro: counted_count)
next
  case True
  with assms obtain q where "count Refused p = (Inr (), q)" "probe_retry c (c_retry_after c) q = (Inr u, p')"
    by (auto simp: classify_def refusal_def bind_s_Inr_iff)
  with counted_count retry_books.books_of counted_same(2) show ?thesis by blast
qed

text \<open>What a row leaves to be undone later.\<close>

definition deferred_undo :: "hci_command \<Rightarrow> (nat \<times> payload) list" where
  "deferred_undo c = (case c_undo c of None \<Rightarrow> [] | Some u \<Rightarrow> if c_undo_now c then [] else [u])"

definition booked :: "hci_command list \<Rightarrow> probe \<Rightarrow> probe \<Rightarrow> bool" where
  "booked cs p p' \<longleftrightarrow>
     (let rows = filter (\<lambda>c. available c p) cs; skipped = filter (\<lambda>c. \<not> available c p) cs in
      tallied p' = tallied p + length rows \<and>
      pb_skipped p' = (pb_skipped p \<union> c_opcode ` set skipped) - c_opcode ` set rows \<and>
      pb_undo p' = pb_undo p @ concat (map deferred_undo rows) \<and>
      pb_args p' = pb_args p \<and> pb_ctx p' = pb_ctx p \<and> pb_live p' = pb_live p)"

lemma available_cong: "pb_args q = pb_args p \<Longrightarrow> pb_ctx q = pb_ctx p \<Longrightarrow> pb_live q = pb_live p \<Longrightarrow>
    available c q = available c p"
  by (simp add: available_def)

lemma settled_undo_books: "books_kept (bind_s (if b then on_hci m else ret ()) (\<lambda>_. undo_now u))"
  by (intro books_intros undo_books.books_kept_axioms)

lemma probe_send_booked:
  assumes "probe_send c p = (Inr (), p')"
  shows "booked [c] p p'"
proof (cases "available c p")
  case False
  with assms show ?thesis by (auto simp: probe_send_def booked_def tallied_def)
next
  case True
  let ?p = "p\<lparr>pb_skipped := pb_skipped p - {c_opcode c}\<rparr>"
  from assms True obtain status q1 q2 where
    status: "row_status c ?p = (Inr status, q1)" and cls: "classify c status q1 = (Inr (), q2)" and
    undo: "(case c_undo c of None \<Rightarrow> ret () | Some u \<Rightarrow>
           if c_undo_now c
           then bind_s (if p_settle_ms (pb_args p) \<noteq> 0 then on_hci (sleep (p_settle_ms (pb_args p) * 1000)) else ret ())
                  (\<lambda>_. undo_now u)
           else modify_s (\<lambda>p. p\<lparr>pb_undo := pb_undo p @ [u]\<rparr>)) q2 = (Inr (), p')"
    by (auto simp: probe_send_def bind_s_Inr_iff)
  have c: "counted ?p q2"
  proof (cases status)
    case None
    with row_status_counted [OF status] cls show ?thesis by (simp add: classify_def)
  next
    case (Some st)
    with row_status_counted [OF status] classify_counted cls show ?thesis
      by (auto intro: counted_same(1))
  qed
  from counted_tallied [OF c] have t: "tallied q2 = tallied p + 1" by (simp add: tallied_def)
  have rest: "pb_skipped q2 = pb_skipped ?p \<and> pb_undo q2 = pb_undo p \<and> pb_args q2 = pb_args p \<and>
      pb_ctx q2 = pb_ctx p \<and> pb_live q2 = pb_live p"
    using c by (auto simp: counted_def same_books_def)
  consider (none) "c_undo c = None" | (now) u where "c_undo c = Some u" "c_undo_now c"
    | (later) u where "c_undo c = Some u" "\<not> c_undo_now c" by (cases "c_undo c") auto
  then show ?thesis
  proof cases
    case none
    with undo t rest True show ?thesis by (auto simp: booked_def deferred_undo_def)
  next
    case now
    from undo [unfolded now(1) option.case if_P [OF now(2)]] have "same_books q2 p'"
      by (rule books_kept.books_of [OF settled_undo_books])
    with now t rest True show ?thesis by (simp add: booked_def deferred_undo_def same_books_def tallied_def)
  next
    case later
    with undo have "p' = q2\<lparr>pb_undo := pb_undo q2 @ [u]\<rparr>" by simp
    with later t rest True show ?thesis by (simp add: booked_def deferred_undo_def tallied_def)
  qed
qed

lemma booked_append:
  assumes "booked [c] p q" "booked cs q r" "distinct (map c_opcode (c # cs))"
  shows "booked (c # cs) p r"
proof -
  have "available d q = available d p" for d
    using assms(1) by (intro available_cong) (simp_all add: booked_def Let_def)
  with assms show ?thesis by (auto simp: booked_def Let_def image_iff)
qed

lemma send_rows_booked:
  "send_rows cs p = (Inr (), p') \<Longrightarrow> distinct (map c_opcode cs) \<Longrightarrow> booked cs p p'"
proof (induction cs arbitrary: p)
  case Nil
  then show ?case by (simp add: booked_def)
next
  case (Cons c cs)
  then obtain q where "probe_send c p = (Inr (), q)" "send_rows cs q = (Inr (), p')"
    by (auto simp: bind_s_Inr_iff)
  with Cons booked_append [OF probe_send_booked] show ?case by simp
qed

text \<open>C24. Accounting: a phase that completes has counted every row it could send exactly once, lists
  as skipped exactly the rows it could not send besides what was skipped before, and leaves to be
  undone, in the order sent, what those rows started and did not stop at once.\<close>

theorem phase_accounts_for_every_row:
  assumes "run_phase ph p = (Inr (), p')"
  defines "rows \<equiv> filter (\<lambda>c. available c p) (phase_rows (pb_args p) ph)"
    and "skipped \<equiv> filter (\<lambda>c. \<not> available c p) (phase_rows (pb_args p) ph)"
  shows "tallied p' = tallied p + length rows \<and>
    pb_skipped p' = (pb_skipped p \<union> c_opcode ` set skipped) - c_opcode ` set rows \<and>
    pb_undo p' = pb_undo p @ concat (map deferred_undo rows)"
proof -
  have "distinct (map c_opcode (phase_rows (pb_args p) ph))"
    using opcodes_distinct by (simp add: phase_rows_def distinct_map_filter)
  moreover have "send_rows (phase_rows (pb_args p) ph) p = (Inr (), p')"
    using assms(1) by (simp add: run_phase_def)
  ultimately have "booked (phase_rows (pb_args p) ph) p p'" by (intro send_rows_booked)
  then show ?thesis by (simp add: booked_def Let_def rows_def skipped_def)
qed

text \<open>A run restricted to one row, LE Add Device To Filter Accept List, whose undo clears the list.\<close>

definition probe_example :: "(nat \<times> packet result) list \<Rightarrow> probe" where
  "probe_example w =
     \<lparr>pb_hci = hci_init w [] 0,
      pb_args = \<lparr>p_handle = None, p_consent = False, p_no_adv_set = False, p_settle_ms = 0, p_only = Some [0x2011],
        p_bisect = None, p_wait_connect = 0, p_discover_secs = 0, p_wait_ltk = 0\<rparr>,
      pb_ctx = \<lparr>ctx_handle = UNUSED_HANDLE, ctx_addr_type = 1, ctx_identity = None, ctx_role = None,
        ctx_peer_addr = None, ctx_peer_type = None, ctx_public_addr = zeros 6\<rparr>,
      pb_identity = zeros 6, pb_addr_type = 1, pb_live = False, pb_undo = [], pb_counts = (\<lambda>_. 0),
      pb_skipped = {}, pb_last = 0\<rparr>"

definition example_row :: hci_command where
  "example_row = (Commands_Catalog.Command 0x2011 ''LE Add Device To Filter Accept List'' COMPLETE
     (Octets (cat [Inr [0x00], Inr [0x01, 0x02, 0x03, 0x04, 0x05, 0xC0]])))
     \<lparr>c_undo := Some (0x2010, Octets (Inr []))\<rparr>"

lemma filter_the_row:
  assumes "distinct (map f xs)" "x \<in> set xs" "P x"
  shows "filter (\<lambda>y. P y \<and> f y = f x) xs = [x]"
  using assms
proof (induction xs)
  case (Cons y ys)
  show ?case
  proof (cases "y = x")
    case True
    with Cons.prems have "\<forall>z \<in> set ys. f z \<noteq> f x" by (metis distinct.simps(2) image_eqI list.map(2) list.set_map)
    with True Cons.prems show ?thesis by simp
  next
    case False
    with Cons.prems have "x \<in> set ys" "f y \<noteq> f x" by (auto simp: image_iff)
    with Cons show ?thesis by simp
  qed
qed simp

lemma example_rows: "phase_rows (pb_args (probe_example w)) PHASE_ANY = [example_row]"
proof -
  have "adjust example_row = example_row"
    by (simp add: example_row_def adjust_def Commands_Catalog.Command_def EXTENDED_PHASE_OPCODES_def)
  moreover have "example_row \<in> set LE_BASIC" by (simp add: LE_BASIC_def example_row_def)
  ultimately have "example_row \<in> set COMMANDS"
    by (auto simp: COMMANDS_def COMMANDS_catalog_def intro: image_eqI [of _ adjust example_row])
  moreover have "distinct (map c_opcode COMMANDS)" using opcodes_distinct by simp
  ultimately have "filter (\<lambda>c. c_phase c = PHASE_ANY \<and> c_opcode c = c_opcode example_row) COMMANDS = [example_row]"
    by (intro filter_the_row) (simp_all add: example_row_def Commands_Catalog.Command_def)
  moreover have "phase_rows (pb_args (probe_example w)) PHASE_ANY =
      filter (\<lambda>c. c_phase c = PHASE_ANY \<and> c_opcode c = c_opcode example_row) COMMANDS"
    unfolding phase_rows_def by (rule filter_cong) (auto simp: probe_example_def example_row_def Commands_Catalog.Command_def)
  ultimately show ?thesis by simp
qed

lemma example_runs:
  "run_phase PHASE_ANY (probe_example [(5, Inr (reply_to 0x2011 []))]) =
     (Inr (), (probe_example [])
       \<lparr>pb_hci := (hci_init [] [] 5)\<lparr>sent := [command_packet 0x2011 [0, 1, 2, 3, 4, 5, 0xC0]]\<rparr>,
        pb_counts := (\<lambda>_. 0)(Ok := 1), pb_undo := [(0x2010, Octets (Inr []))]\<rparr>)"
proof -
  let ?p = "probe_example [(5, Inr (reply_to 0x2011 []))]"
  have "run_phase PHASE_ANY ?p = send_rows [example_row] ?p"
    unfolding run_phase_def with_s_def example_rows ..
  also have "\<dots> = (Inr (), (probe_example [])
       \<lparr>pb_hci := (hci_init [] [] 5)\<lparr>sent := [command_packet 0x2011 [0, 1, 2, 3, 4, 5, 0xC0]]\<rparr>,
        pb_counts := (\<lambda>_. 0)(Ok := 1), pb_undo := [(0x2010, Octets (Inr []))]\<rparr>)"
    by (simp add: probe_send_def available_def probe_available_def probe_example_def example_row_def
      Commands_Catalog.Command_def row_status_def issue_def catch_s_def bind_s_def on_hci_def classify_def count_def
      cat.simps command_replied hci_init_def Let_def)
  finally show ?thesis .
qed

theorem phase_accounts_for_every_row_witness:
  "\<exists>p'. run_phase PHASE_ANY (probe_example [(5, Inr (reply_to 0x2011 []))]) = (Inr (), p') \<and>
     tallied p' = 1 \<and> pb_skipped p' = {} \<and> pb_undo p' = [(0x2010, Octets (Inr []))]"
proof -
  let ?p = "probe_example [(5, Inr (reply_to 0x2011 []))]"
  have "available example_row ?p"
    by (simp add: available_def probe_available_def probe_example_def example_row_def Commands_Catalog.Command_def Let_def)
  moreover have "deferred_undo example_row = [(0x2010, Octets (Inr []))]"
    by (simp add: deferred_undo_def example_row_def Commands_Catalog.Command_def)
  moreover have "tallied ?p = 0" "pb_skipped ?p = {}" "pb_undo ?p = []"
    by (simp_all add: probe_example_def tallied_def)
  ultimately show ?thesis
    using phase_accounts_for_every_row [OF example_runs, unfolded example_rows]
    by (simp add: example_runs)
qed

subsection \<open>The unwind\<close>

definition undo_packet :: "probe_context \<Rightarrow> nat \<times> payload \<Rightarrow> bytes" where
  "undo_packet ctx u = (case resolve ctx (snd u) of Inl _ \<Rightarrow> [] | Inr bs \<Rightarrow> command_packet (fst u) bs)"

definition sendable :: "probe_context \<Rightarrow> nat \<times> payload \<Rightarrow> bool" where
  "sendable ctx u \<longleftrightarrow> fst u < 65536 \<and> fits ctx (snd u)"

lemma issue_writes_once:
  assumes "tx_faults (pb_hci p) = []" "sendable (pb_ctx p) u" "issue (fst u) (snd u) timeout p = (r, q)"
  shows "sent (pb_hci q) = sent (pb_hci p) @ [undo_packet (pb_ctx p) u] \<and> tx_faults (pb_hci q) = []"
proof -
  from assms(2) obtain bs where bs: "resolve (pb_ctx p) (snd u) = Inr bs" "length bs < 256" "fst u < 65536"
    by (auto simp: sendable_def fits_iff)
  with assms(3) have "q = p\<lparr>pb_hci := snd (command (fst u) bs timeout True (pb_hci p))\<rparr>"
    by (auto simp: issue_def on_hci_def split: prod.splits)
  with bs command_writes_once [OF assms(1) bs(3,2)] show ?thesis by (simp add: undo_packet_def)
qed

lemma undo_now_writes_once:
  assumes "undo_now u p = (r, q)" "tx_faults (pb_hci p) = []" "sendable (pb_ctx p) u"
  shows "sent (pb_hci q) = sent (pb_hci p) @ [undo_packet (pb_ctx p) u] \<and> tx_faults (pb_hci q) = []"
proof -
  obtain r' q' where iss: "issue (fst u) (snd u) 1000000 p = (r', q')" by fastforce
  with assms(1) have "q = q'" by (auto simp: undo_now_def catch_s_def bind_s_def split: sum.splits if_splits)
  with issue_writes_once [OF assms(2,3) iss] show ?thesis by simp
qed

lemma undo_all_writes:
  "undo_all us p = (Inr (), p') \<Longrightarrow> tx_faults (pb_hci p) = [] \<Longrightarrow> list_all (sendable (pb_ctx p)) us \<Longrightarrow>
     sent (pb_hci p') = sent (pb_hci p) @ map (undo_packet (pb_ctx p)) us"
proof (induction us arbitrary: p)
  case (Cons u us)
  then obtain q where q: "undo_now u p = (Inr (), q)" "undo_all us q = (Inr (), p')" by (auto simp: bind_s_Inr_iff)
  have "pb_ctx q = pb_ctx p" using undo_books.books_of [OF q(1)] by (simp add: same_books_def)
  with undo_now_writes_once [OF q(1)] Cons.IH [OF q(2)] Cons.prems show ?case by simp
qed simp

lemma table_undo_sendable:
  assumes "good_context ctx" "c \<in> set COMMANDS"
  shows "list_all (sendable ctx) (deferred_undo c)"
proof (cases "c_undo c")
  case (Some u)
  have "row_fits ctx c" "undo_listed c"
    using rows_fit [OF assms(1)] undo_listed_rows assms(2) unfolding list.pred_set by simp_all
  with Some have "fits ctx (snd u)" "fst u \<in> set undo_opcodes"
    by (auto simp: row_fits_def undo_listed_def split: prod.splits)
  moreover have "list_all (\<lambda>n. n < 65536) undo_opcodes" by (simp add: undo_opcodes_def)
  ultimately have "sendable ctx u" unfolding sendable_def list.pred_set by blast
  with Some show ?thesis by (simp add: deferred_undo_def)
qed (simp add: deferred_undo_def)

text \<open>C23. Unwinding: after a phase that began with nothing to undo, an unwind that completes has written,
  last started first, exactly one command for each thing the rows of that phase started and did not
  stop at once, whatever the controller answered, and has nothing left to undo.\<close>

theorem unwind_stops_last_started_first:
  assumes "run_phase ph p = (Inr (), q)" "unwind q = (Inr (), p')" "pb_undo p = []"
    "tx_faults (pb_hci q) = []" "good_context (pb_ctx p)"
  defines "rows \<equiv> filter (\<lambda>c. available c p) (phase_rows (pb_args p) ph)"
  shows "pb_undo p' = [] \<and> sent (pb_hci p') =
    sent (pb_hci q) @ rev (map (undo_packet (pb_ctx p)) (concat (map deferred_undo rows)))"
proof -
  have "distinct (map c_opcode (phase_rows (pb_args p) ph))"
    using opcodes_distinct by (simp add: phase_rows_def distinct_map_filter)
  then have "booked (phase_rows (pb_args p) ph) p q"
    using assms(1) by (intro send_rows_booked) (simp_all add: run_phase_def)
  with assms(3) have q: "pb_undo q = concat (map deferred_undo rows)" "pb_ctx q = pb_ctx p"
    by (simp_all add: booked_def Let_def rows_def)
  from assms(2) obtain r where r: "undo_all (rev (pb_undo q)) q = (Inr (), r)" "p' = r\<lparr>pb_undo := []\<rparr>"
    by (auto simp: unwind_def bind_s_Inr_iff)
  have "list_all (sendable (pb_ctx q)) (rev (pb_undo q))"
    using table_undo_sendable [OF assms(5)] unfolding q list.pred_set rows_def phase_rows_def by auto
  from undo_all_writes [OF r(1) assms(4) this] r(2) show ?thesis by (simp add: q rev_map)
qed

theorem unwind_stops_last_started_first_witness:
  "\<exists>q p'. run_phase PHASE_ANY (probe_example [(5, Inr (reply_to 0x2011 []))]) = (Inr (), q) \<and> unwind q = (Inr (), p') \<and>
     sent (pb_hci p') = sent (pb_hci q) @ [command_packet 0x2010 []]"
proof -
  let ?p = "probe_example [(5, Inr (reply_to 0x2011 []))]"
  let ?q = "(probe_example [])
       \<lparr>pb_hci := (hci_init [] [] 5)\<lparr>sent := [command_packet 0x2011 [0, 1, 2, 3, 4, 5, 0xC0]]\<rparr>,
        pb_counts := (\<lambda>_. 0)(Ok := 1), pb_undo := [(0x2010, Octets (Inr []))]\<rparr>"
  have "\<exists>p'. unwind ?q = (Inr (), p')"
    by (simp add: unwind_def undo_now_def catch_s_def issue_def bind_s_def on_hci_def command_def hci_init_def
        command_header_def pack_le_def hci_write_packet_def command_loop.simps hci_read_packet_def read_wire_def
        probe_example_def is_HciError_def)
  then obtain p' where u: "unwind ?q = (Inr (), p')" by blast
  have "available example_row ?p" "deferred_undo example_row = [(0x2010, Octets (Inr []))]"
    by (simp_all add: available_def probe_available_def probe_example_def example_row_def
        Commands_Catalog.Command_def Let_def deferred_undo_def)
  moreover have "pb_undo ?p = []" "tx_faults (pb_hci ?q) = []" "good_context (pb_ctx ?p)"
    by (simp_all add: probe_example_def hci_init_def good_context_def)
  ultimately have "sent (pb_hci p') = sent (pb_hci ?q) @ [command_packet 0x2010 []]"
    using unwind_stops_last_started_first [OF example_runs u, unfolded example_rows]
    by (simp add: undo_packet_def)
  with u example_runs show ?thesis by blast
qed

end
