(* ===== verification/Probe_Consent.thy ===== *)
theory Probe_Consent
  imports Probe_Books
begin

text \<open>
  The consent rule of the probe (\<open>probe_available\<close> and the local functions of \<open>cmd_probe\<close> in
  \<open>python/hcicontroller/hci_ble_test_impl.py\<close>): a contract that every operation of the phases keeps:
  without consent they write no opcode that needs it.
\<close>

section \<open>Without consent, no row that needs it reaches the controller\<close>

definition row_ops :: "hci_command \<Rightarrow> nat list" where
  "row_ops c = c_opcode c # (case c_undo c of None \<Rightarrow> [] | Some u \<Rightarrow> [fst u]) @ map fst (c_retry_after c)"

definition needs_consent :: "hci_command \<Rightarrow> bool" where
  "needs_consent c \<longleftrightarrow> NEEDS_CONSENT \<in> set (c_needs c)"

definition safe_ops :: "nat list" where
  "safe_ops = [OP_RESET, OP_SET_EVENT_MASK, OP_LE_SET_EVENT_MASK, OP_LE_SET_RANDOM_ADDRESS, OP_VS_READ_COUNTERS]
     @ concat (map row_ops (filter (\<lambda>c. \<not> needs_consent c) (COMMANDS @ TEARDOWN)))"

definition consent_ops :: "nat list" where
  "consent_ops = map c_opcode (filter needs_consent (COMMANDS @ TEARDOWN))"

text \<open>The invariant: no consent was given, and everything waiting to be undone is a safe opcode. A
  step keeps it and writes command packets with safe opcodes only.\<close>

definition modest :: "probe \<Rightarrow> bool" where
  "modest p \<longleftrightarrow> \<not> p_consent (pb_args p) \<and> fst ` set (pb_undo p) \<subseteq> set safe_ops"

definition safe_packet :: "bytes \<Rightarrow> bool" where
  "safe_packet q \<longleftrightarrow> (\<exists>op bs. q = command_packet op bs \<and> op \<in> set safe_ops)"

definition hci_wrote :: "hci \<Rightarrow> hci \<Rightarrow> bool" where
  "hci_wrote h h' \<longleftrightarrow> (\<exists>ps. sent h' = sent h @ ps \<and> list_all safe_packet ps)"

lemma hci_wrote_refl [simp]: "hci_wrote h h"
  by (simp add: hci_wrote_def)

lemma hci_wrote_trans: "hci_wrote a b \<Longrightarrow> hci_wrote b c \<Longrightarrow> hci_wrote a c"
  unfolding hci_wrote_def by force

definition wrote_safe :: "probe \<Rightarrow> probe \<Rightarrow> bool" where
  "wrote_safe p p' \<longleftrightarrow> hci_wrote (pb_hci p) (pb_hci p')"

definition modest_step :: "(probe, 'a) action \<Rightarrow> probe \<Rightarrow> bool" where
  "modest_step act p \<longleftrightarrow> (modest p \<longrightarrow> modest (snd (act p)) \<and> wrote_safe p (snd (act p)))"

lemma wrote_safe_refl [simp]: "wrote_safe p p"
  by (simp add: wrote_safe_def)

lemma wrote_safe_trans: "wrote_safe p q \<Longrightarrow> wrote_safe q r \<Longrightarrow> wrote_safe p r"
  unfolding wrote_safe_def by (rule hci_wrote_trans)

lemma modest_ret: "modest_step (ret x) p" "modest_step (throw e) p" "modest_step (lift_r m) p"
  by (simp_all add: modest_step_def)

lemma modest_bind:
  assumes "modest_step m p" "\<And>x q. modest_step (f x) q"
  shows "modest_step (bind_s m f) p"
  unfolding modest_step_def
proof (intro impI)
  assume "modest p"
  obtain r q where m: "m p = (r, q)" by fastforce
  with assms(1) \<open>modest p\<close> have q: "modest q" "wrote_safe p q" by (auto simp: modest_step_def)
  show "modest (snd (bind_s m f p)) \<and> wrote_safe p (snd (bind_s m f p))"
  proof (cases r)
    case (Inl e)
    with m q show ?thesis by (simp add: bind_s_def)
  next
    case (Inr x)
    with assms(2) [of x q] q m show ?thesis
      by (auto simp: bind_s_def modest_step_def intro: wrote_safe_trans)
  qed
qed

lemma modest_with: "(modest p \<Longrightarrow> modest_step (f p) p) \<Longrightarrow> modest_step (with_s f) p"
  by (simp add: modest_step_def)

lemma modest_catch:
  assumes "modest_step m p" "\<And>e q. modest_step (f e) q"
  shows "modest_step (catch_s m f) p"
  unfolding modest_step_def
proof (intro impI)
  assume "modest p"
  obtain r q where m: "m p = (r, q)" by fastforce
  with assms(1) \<open>modest p\<close> have q: "modest q" "wrote_safe p q" by (auto simp: modest_step_def)
  show "modest (snd (catch_s m f p)) \<and> wrote_safe p (snd (catch_s m f p))"
  proof (cases r)
    case (Inl e)
    with assms(2) [of e q] q m show ?thesis
      by (auto simp: catch_s_def modest_step_def intro: wrote_safe_trans)
  qed (use m q in \<open>simp add: catch_s_def\<close>)
qed

lemma modest_modify:
  assumes "modest p \<Longrightarrow> modest (g p)" "pb_hci (g p) = pb_hci p"
  shows "modest_step (modify_s g) p"
  using assms by (simp add: modest_step_def wrote_safe_def)

lemma modest_count: "modest_step (count t) p"
  unfolding count_def by (rule modest_modify) (simp_all add: modest_def)

lemma modest_if:
  "(c \<Longrightarrow> modest_step a p) \<Longrightarrow> (\<not> c \<Longrightarrow> modest_step b p) \<Longrightarrow> modest_step (if c then a else b) p"
  by simp

lemma modest_cases:
  "(\<And>x y. modest_step (g x y) p) \<Longrightarrow> modest_step (case z of (x, y) \<Rightarrow> g x y) p"
  "(z' = None \<Longrightarrow> modest_step n p) \<Longrightarrow> (\<And>x. z' = Some x \<Longrightarrow> modest_step (s x) p) \<Longrightarrow>
     modest_step (case z' of None \<Rightarrow> n | Some x \<Rightarrow> s x) p"
  "modest_step n p \<Longrightarrow> (\<And>x xs. modest_step (k x xs) p) \<Longrightarrow>
     modest_step (case ys of [] \<Rightarrow> n | x # xs \<Rightarrow> k x xs) p"
  by (simp_all split: prod.split option.split list.split)

text \<open>Actions of the engine that write nothing but one safe command.\<close>

definition hci_safe :: "(hci, 'a) action \<Rightarrow> bool" where
  "hci_safe m \<longleftrightarrow> (\<forall>h. hci_wrote h (snd (m h)))"

lemma modest_on_hci:
  assumes "hci_safe m"
  shows "modest_step (on_hci m) p"
proof -
  obtain r h where m: "m (pb_hci p) = (r, h)" by fastforce
  with assms have "hci_wrote (pb_hci p) h" unfolding hci_safe_def by (metis snd_conv)
  with m show ?thesis by (simp add: modest_step_def on_hci_def modest_def wrote_safe_def)
qed

lemma hci_safe_command:
  assumes "op \<in> set safe_ops"
  shows "hci_safe (command op bs timeout af)"
proof -
  have safe: "safe_packet (command_packet op bs)" using assms by (auto simp: safe_packet_def)
  have "hci_wrote h (snd (command op bs timeout af h))" for h
  proof -
    from command_writes [of op bs timeout af h] consider "sent (snd (command op bs timeout af h)) = sent h @ []"
      | "sent (snd (command op bs timeout af h)) = sent h @ [command_packet op bs]" by auto
    then show ?thesis using safe unfolding hci_wrote_def by cases force+
  qed
  then show ?thesis by (simp add: hci_safe_def)
qed

lemma hci_safe_ret: "hci_safe (ret x)" "hci_safe (throw e)" "hci_safe (lift_r m)"
  by (simp_all add: hci_safe_def)

lemma hci_safe_bind:
  assumes "hci_safe m" "\<And>x. hci_safe (f x)"
  shows "hci_safe (bind_s m f)"
  unfolding hci_safe_def
proof
  fix h
  obtain r h1 where m: "m h = (r, h1)" by fastforce
  have "hci_wrote h h1" using assms(1) m unfolding hci_safe_def by (metis snd_conv)
  moreover have "hci_wrote h1 (snd (f x h1))" for x using assms(2) unfolding hci_safe_def by blast
  ultimately show "hci_wrote h (snd (bind_s m f h))"
    using m by (cases r) (auto simp: bind_s_def intro: hci_wrote_trans)
qed

lemma hci_safe_cases:
  "hci_safe a \<Longrightarrow> hci_safe b \<Longrightarrow> hci_safe (if c then a else b)"
  "(\<And>x y. hci_safe (g x y)) \<Longrightarrow> hci_safe (case z of (x, y) \<Rightarrow> g x y)"
  by (simp_all split: prod.split)

lemma hci_safe_sleep: "hci_safe (sleep t)"
  by (simp add: hci_safe_def sleep_def hci_wrote_def)

lemmas hci_safe_intros = hci_safe_ret hci_safe_bind hci_safe_cases hci_safe_command hci_safe_sleep
lemmas modest_intros = modest_ret modest_bind modest_with modest_catch modest_count modest_if modest_cases modest_on_hci

subsection \<open>Every operation keeps it\<close>

lemma modest_issue: "op \<in> set safe_ops \<Longrightarrow> modest_step (issue op pl timeout) p"
  unfolding issue_def by (intro modest_intros hci_safe_command)

lemma modest_retry:
  assumes "c_opcode c \<in> set safe_ops" "fst ` set cs \<subseteq> set safe_ops"
  shows "modest_step (probe_retry c cs) p"
  using assms(2)
proof (induction cs arbitrary: p)
  case (Cons row cs)
  obtain op pl why where x: "row = (op, pl, why)" by (metis prod_cases3)
  then have op: "op \<in> set safe_ops" using Cons.prems by simp
  have "modest_step (retry_once c op bs) q" for bs q
    unfolding retry_once_def
    by (intro modest_intros hci_safe_command modest_issue assms(1) op)
  then show ?case unfolding x probe_retry.simps
    by (intro modest_intros hci_safe_command assms(1) Cons.IH) (use Cons.prems in simp_all)
qed (simp add: modest_ret)

lemma modest_undo: "fst u \<in> set safe_ops \<Longrightarrow> modest_step (undo_now u) p"
  unfolding undo_now_def by (intro modest_intros modest_issue)

lemma modest_classify:
  assumes "set (row_ops c) \<subseteq> set safe_ops"
  shows "modest_step (classify c status) p"
proof -
  have "c_opcode c \<in> set safe_ops" "fst ` set (c_retry_after c) \<subseteq> set safe_ops"
    using assms by (auto simp: row_ops_def)
  then show ?thesis unfolding classify_def refusal_def
    by (intro modest_intros modest_retry)
qed

lemma modest_send_row:
  assumes "set (row_ops c) \<subseteq> set safe_ops"
  shows "modest_step (probe_send c) p"
proof -
  have c: "c_opcode c \<in> set safe_ops" and u: "\<And>u. c_undo c = Some u \<Longrightarrow> fst u \<in> set safe_ops"
    using assms by (auto simp: row_ops_def)
  have skip: "modest_step (modify_s (\<lambda>p. p\<lparr>pb_skipped := f p\<rparr>)) q" for f q
    by (rule modest_modify) (simp_all add: modest_def)
  have undo: "modest_step (modify_s (\<lambda>p. p\<lparr>pb_undo := pb_undo p @ [u]\<rparr>)) q" if "c_undo c = Some u" for u q
    using u [OF that] by (intro modest_modify) (simp_all add: modest_def)
  have status: "modest_step (row_status c) q" for q
    unfolding row_status_def by (intro modest_intros modest_issue c)
  show ?thesis unfolding probe_send_def
    by (intro modest_intros skip undo status modest_classify assms modest_undo u hci_safe_sleep)
qed

lemma row_ops_safe:
  "c \<in> set (COMMANDS @ TEARDOWN) \<Longrightarrow> \<not> needs_consent c \<Longrightarrow> set (row_ops c) \<subseteq> set safe_ops"
  by (auto simp: safe_ops_def)

lemma modest_send:
  assumes "c \<in> set (COMMANDS @ TEARDOWN)"
  shows "modest_step (probe_send c) p"
proof (cases "needs_consent c")
  case False
  then show ?thesis by (intro modest_send_row row_ops_safe assms)
next
  case True
  have "\<not> available c p" if "modest p"
    using that True by (simp add: modest_def needs_consent_def available_def probe_available_def Let_def)
  then show ?thesis
    by (auto simp: modest_step_def probe_send_def modest_def wrote_safe_def)
qed

lemma modest_send_rows: "set cs \<subseteq> set (COMMANDS @ TEARDOWN) \<Longrightarrow> modest_step (send_rows cs) p"
proof (induction cs arbitrary: p)
  case (Cons c cs)
  then show ?case unfolding send_rows.simps by (intro modest_bind modest_send) simp_all
qed (simp add: modest_ret)

lemma modest_run_phase: "modest_step (run_phase ph) p"
  unfolding run_phase_def phase_rows_def by (intro modest_with modest_send_rows) auto

lemma modest_unwind: "modest_step unwind p"
proof -
  have "fst ` set us \<subseteq> set safe_ops \<Longrightarrow> modest_step (undo_all us) q" for us q
  proof (induction us arbitrary: q)
    case (Cons u us)
    then show ?case unfolding undo_all.simps by (intro modest_bind modest_undo) simp_all
  qed (simp add: modest_ret)
  then show ?thesis unfolding unwind_def
    by (intro modest_with modest_bind modest_modify) (simp_all add: modest_def)
qed

lemma always_safe: "set [OP_RESET, OP_SET_EVENT_MASK, OP_LE_SET_EVENT_MASK, OP_LE_SET_RANDOM_ADDRESS, OP_VS_READ_COUNTERS]
   \<subseteq> set safe_ops"
  by (simp add: safe_ops_def)

lemma modest_preamble: "modest_step preamble p"
  unfolding preamble_def using always_safe by (intro modest_with modest_on_hci hci_safe_intros) auto

lemma modest_check_alive: "modest_step check_alive p"
proof -
  have "hci_safe read_counters"
    unfolding read_counters_def using always_safe by (intro hci_safe_intros) auto
  moreover have "modest_step (modify_s (\<lambda>p. p\<lparr>pb_last := n\<rparr>)) q" for n q
    by (rule modest_modify) (simp_all add: modest_def)
  ultimately show ?thesis unfolding check_alive_def by (intro modest_intros)
qed

lemma modest_phases: "modest_step probe_phases p"
proof -
  have "OP_LE_SET_RANDOM_ADDRESS \<in> set safe_ops" using always_safe by simp
  then show ?thesis unfolding probe_phases_def
    by (intro modest_bind modest_with modest_if modest_check_alive modest_run_phase modest_unwind modest_preamble
        modest_on_hci hci_safe_command modest_ret modest_send_rows) auto
qed

lemma consent_ops_eq:
  "consent_ops = [0x0406, 0x200E, 0x201F, 0x2045, 0x2044, 0x200D, 0x2019, 0x201A, 0x201B, 0x2043, 0x2085,
     0x2068, 0x2069, 0x201D, 0x201E, 0x2033, 0x2034, 0x204F, 0x2050, 0x207B, 0xFD23, 0xFC06]"
  by (simp add: consent_ops_def needs_consent_def profile_defs)

lemma safe_ops_avoid: "list_all (\<lambda>op. op < 65536 \<and> op \<notin> set consent_ops) safe_ops"
  unfolding safe_ops_def consent_ops_eq
  by (simp add: needs_consent_def row_ops_def profile_defs)

text \<open>The opcode field of a command packet.\<close>

definition packet_opcode :: "bytes \<Rightarrow> nat" where
  "packet_opcode q = from_le (pslice 1 3 q)"

lemma packet_opcode_command [simp]: "packet_opcode (command_packet op bs) = op mod 65536"
  by (simp add: packet_opcode_def command_packet_def pslice_def from_to_le)

end
