(* ===== verification/Mute.thy ===== *)
theory Mute
  imports Hci_Waits Hci_Replies
begin

text \<open>
  Reading writes nothing: the frame of the loops that only read, and of the one that throws away what is left
  (\<open>while hci.read_packet(t) is not None\<close> in \<open>python/hcicontroller/hci_ble_test_impl.py\<close>).
\<close>

definition mute :: "(hci, 'a) action \<Rightarrow> bool" where
  "mute m \<longleftrightarrow> (\<forall>h. sent (snd (m h)) = sent h \<and> tx_faults (snd (m h)) = tx_faults h)"

lemma hci_read_packet_sent: "sent (snd (hci_read_packet t h)) = sent h"
  using read_wire_spec [of h t] by (cases "pending h") (auto simp: hci_read_packet_def split: prod.splits sum.splits option.splits)

lemma mute_read: "mute (hci_read_packet t)"
  unfolding mute_def using hci_read_packet_tx_faults hci_read_packet_sent by (metis prod.collapse)

lemma mute_wait: "mute (\<lambda>h. read_until keep bounded cap judge (clock h + timeout) ds h)"
proof -
  have "sent (snd (read_until keep bounded cap judge deadline ds h)) = sent h \<and>
    tx_faults (snd (read_until keep bounded cap judge deadline ds h)) = tx_faults h" for deadline h
  proof (induction keep bounded cap judge deadline ds h rule: read_until.induct)
    case (1 keep bounded cap judge deadline ds h)
    let ?t = "if bounded then min cap (deadline - clock h) else cap"
    obtain r h1 where h1: "hci_read_packet ?t h = (r, h1)" by fastforce
    have "sent h1 = sent h" "tx_faults h1 = tx_faults h" using mute_read h1 unfolding mute_def by (metis snd_conv)+
    with 1 h1 show ?case
      by (subst (1 2) read_until.simps) (auto simp: restore_def split: sum.splits option.splits)
  qed
  then show ?thesis by (simp add: mute_def)
qed

function drop_stale :: "nat \<Rightarrow> (hci, unit) action" where
  "drop_stale t h =
     (case hci_read_packet t h of
        (Inl e, h') \<Rightarrow> (Inl e, h')
      | (Inr None, h') \<Rightarrow> (Inr (), h')
      | (Inr (Some _), h') \<Rightarrow> drop_stale t h')"
  by pat_completeness auto
termination
proof (relation "measure (\<lambda>(_, h). backlog h)", simp)
  fix t :: nat and h h' :: hci and p :: packet and o1 o2
  assume a: "(o1, h') = hci_read_packet t h" "o1 = Inr o2" "o2 = Some p"
  from hci_read_packet_Some(1) [of t h p h'] a
  have "length (pending h @ packets_of (wire h)) = length (p # pending h' @ packets_of (wire h'))" by simp
  then show "((t, h'), (t, h)) \<in> measure (\<lambda>(_, h). backlog h)" by (simp add: backlog_def)
qed

declare drop_stale.simps [simp del]

lemma drop_stale_sent: "sent (snd (drop_stale t h)) = sent h"
proof (induction t h rule: drop_stale.induct)
  case (1 t h)
  obtain o1 h1 where rd: "hci_read_packet t h = (o1, h1)" by fastforce
  have same: "sent h1 = sent h" using hci_read_packet_sent [of t h] rd by simp
  consider e where "o1 = Inl e" | "o1 = Inr None" | p where "o1 = Inr (Some p)" by (metis obj_sumE option.exhaust)
  then show ?case
  proof cases
    case 3
    with 1 [OF rd [symmetric]] rd same show ?thesis by (subst drop_stale.simps) simp
  qed (use rd same in \<open>simp_all add: drop_stale.simps [of t h]\<close>)
qed

end
