(* ===== verification/Frugal.thy ===== *)
theory Frugal
  imports Smp_Legacy Mute
begin

text \<open>
  Loops that serve a peer until a deadline: every round reads a packet or lets time pass, and what the
  handlers do in between adds nothing to what is still to be read. This is the contract of the handlers and the
  measure of the loops.
\<close>

section \<open>What is left\<close>

text \<open>What bounds the loops: packets that are still to be read and the time that is left.\<close>

definition left_over :: "nat \<Rightarrow> hci \<Rightarrow> nat" where
  "left_over fin h = (if clock h < fin then Suc (backlog h + (fin - clock h)) else 0)"

lemma read_left_over:
  assumes "hci_read_packet t h = (Inr po, h')" "0 < t" "clock h < fin"
  shows "left_over fin h' < left_over fin h"
proof (cases po)
  case None
  with hci_read_packet_None [of t h h'] assms have "backlog h' = backlog h" "clock h' = clock h + t" by (simp_all add: backlog_def)
  with assms(2,3) show ?thesis unfolding left_over_def by (simp split: if_split) linarith
next
  case (Some p)
  from hci_read_packet_Some(1) [OF assms(1) [unfolded Some]]
  have "length (pending h @ packets_of (wire h)) = length (p # pending h' @ packets_of (wire h'))" by simp
  moreover have "clock h \<le> clock h'" using read_wire_spec [of h t] assms(1) by (cases "pending h") (auto simp: hci_read_packet_def Some)
  ultimately show ?thesis using assms(3) unfolding left_over_def backlog_def by (simp split: if_split) linarith
qed

lemma left_over_mono: "backlog h' \<le> backlog h \<Longrightarrow> clock h \<le> clock h' \<Longrightarrow> left_over fin h' \<le> left_over fin h"
  by (auto simp: left_over_def)

section \<open>Handlers\<close>

text \<open>A handler that returns has not added to what is still to be read, and time has not run back.\<close>

definition frugal :: "('s \<Rightarrow> hci) \<Rightarrow> ('s, 'a) action \<Rightarrow> bool" where
  "frugal hc m \<longleftrightarrow> (\<forall>s x s'. m s = (Inr x, s') \<longrightarrow> backlog (hc s') \<le> backlog (hc s) \<and> clock (hc s) \<le> clock (hc s'))"

lemma frugalI: "(\<And>s x s'. m s = (Inr x, s') \<Longrightarrow> backlog (hc s') \<le> backlog (hc s) \<and> clock (hc s) \<le> clock (hc s')) \<Longrightarrow> frugal hc m"
  unfolding frugal_def by blast

lemma frugalD: "frugal hc m \<Longrightarrow> m s = (Inr x, s') \<Longrightarrow> backlog (hc s') \<le> backlog (hc s) \<and> clock (hc s) \<le> clock (hc s')"
  unfolding frugal_def by blast

lemma frugal_ret: "frugal hc (ret x)" "frugal hc (throw e)" "frugal hc (lift_r v)"
  by (auto simp: frugal_def)

lemma frugal_bind:
  assumes "frugal hc m" "\<And>x. frugal hc (f x)"
  shows "frugal hc (bind_s m f)"
proof (rule frugalI)
  fix s x s' assume "bind_s m f s = (Inr x, s')"
  then obtain y s1 where "m s = (Inr y, s1)" "f y s1 = (Inr x, s')" by (auto simp: bind_s_Inr_iff)
  with frugalD [OF assms(1)] frugalD [OF assms(2)] show "backlog (hc s') \<le> backlog (hc s) \<and> clock (hc s) \<le> clock (hc s')"
    by (meson order_trans)
qed

lemma frugal_modify: "(\<And>s. hc (f s) = hc s) \<Longrightarrow> frugal hc (modify_s f)"
  by (auto simp: frugal_def)

lemma frugal_with: "(\<And>s. frugal hc (f s)) \<Longrightarrow> frugal hc (with_s f)"
  by (auto simp: frugal_def)

lemma frugal_cases:
  "frugal hc a \<Longrightarrow> frugal hc b \<Longrightarrow> frugal hc (if c then a else b)"
  "(\<And>x y. frugal hc (g x y)) \<Longrightarrow> frugal hc (case z of (x, y) \<Rightarrow> g x y)"
  "frugal hc n \<Longrightarrow> (\<And>x. frugal hc (k x)) \<Longrightarrow> frugal hc (case w of None \<Rightarrow> n | Some x \<Rightarrow> k x)"
  by (simp_all split: prod.split option.split)

lemma frugal_snd: "frugal (\<lambda>h. h) m \<Longrightarrow> frugal snd (on_snd m)"
  by (rule frugalI) (auto simp: on_snd_def split: prod.splits dest: frugalD)

lemma frugal_command: "frugal (\<lambda>h. h) (command opcode payload timeout af)"
proof (rule frugalI)
  fix h x h' assume run: "command opcode payload timeout af h = (Inr x, h')"
  from cmd.later [of h opcode payload timeout af] run have "clock h \<le> clock h'" by (simp add: later_def)
  with command_consumes [OF run] show "backlog h' \<le> backlog h \<and> clock h \<le> clock h'" by simp
qed

lemma frugal_write: "frugal (\<lambda>h. h) (hci_write_packet data)"
  by (rule frugalI) (auto simp: hci_write_packet_def backlog_def split: list.splits option.splits)

lemma frugal_acl: "frugal (\<lambda>h. h) (send_acl handle cid payload)"
proof -
  have "frugal (\<lambda>h. h) (\<lambda>h. (Inr (), h\<lparr>acl_credits := acl_credits h - 1\<rparr>))"
    by (rule frugalI) (auto simp: backlog_def)
  then show ?thesis unfolding send_acl_def Let_def by (intro frugal_bind frugal_ret frugal_write)
qed

lemma frugal_random: "frugal (\<lambda>h. h) random16"
proof (rule frugalI)
  have "random16_loop out h = (Inr x, h') \<Longrightarrow> backlog h' \<le> backlog h \<and> clock h \<le> clock h'" for out h x h'
  proof (induction out h rule: random16_loop.induct)
    case (1 out h)
    show ?case
    proof (cases "16 \<le> length out")
      case False
      obtain r h1 where c: "command3 OP_LE_RAND [] h = (r, h1)" by fastforce
      from False 1(2) c obtain st data where r: "r = Inr (st, data)" "random16_loop (out @ take 8 data) h1 = (Inr x, h')"
        by (subst (asm) random16_loop.simps) (auto split: sum.splits)
      from 1(1) [OF False c [symmetric] r(1) refl r(2)] frugalD [OF frugal_command c [unfolded r(1)]] show ?thesis by (meson order_trans)
    qed (use 1(2) in \<open>auto simp: random16_loop.simps [of out h]\<close>)
  qed
  then show "random16 h = (Inr x, h') \<Longrightarrow> backlog h' \<le> backlog h \<and> clock h \<le> clock h'" for h x h'
    unfolding random16_def .
qed

lemma frugal_encrypt: "frugal (\<lambda>h. h) (encrypt key plaintext)"
  unfolding encrypt_def by (intro frugal_bind frugal_command frugal_cases frugal_ret)

lemma frugal_read: "frugal (\<lambda>h. h) (hci_read_packet t)"
proof (rule frugalI)
  fix h po h' assume rd: "hci_read_packet t h = (Inr po, h')"
  show "backlog h' \<le> backlog h \<and> clock h \<le> clock h'"
  proof (cases po)
    case None
    with hci_read_packet_None [of t h h'] rd show ?thesis by (simp add: backlog_def)
  next
    case (Some p)
    from hci_read_packet_Some(1) [OF rd [unfolded Some]]
    have "length (pending h @ packets_of (wire h)) = length (p # pending h' @ packets_of (wire h'))" by simp
    moreover have "clock h \<le> clock h'" using read_wire_spec [of h t] rd by (cases "pending h") (auto simp: hci_read_packet_def Some)
    ultimately show ?thesis by (simp add: backlog_def)
  qed
qed

lemmas frugal_intros = frugal_bind frugal_ret frugal_with frugal_cases frugal_snd frugal_command frugal_acl frugal_random frugal_encrypt
  frugal_read

lemma frugal_legacy: "frugal snd (legacy_feed pdu cid)"
  unfolding legacy_feed_def legacy_send_def legacy_c1_def legacy_s1_def Let_def
  by (intro frugal_intros frugal_modify) simp_all

lemma frugal_att: "frugal snd (att_feed pdu cid)"
  unfolding att_feed_def att_request_def read_by_group_type_def read_by_type_def find_information_def att_answer_def
    att_error_def att_send_def Let_def
  by (intro frugal_intros frugal_modify) simp_all

end
