(* ===== verification/Probe_Peer.thy ===== *)
theory Probe_Peer
  imports Probe_Consent Frugal
begin

text \<open>
  The last part of the probe of \<open>python/hcicontroller/hci_ble_test_impl.py\<close>: waiting for a peer, serving it
  the attribute table and legacy pairing between one command and the next, answering its key
  request, the rows that need a link, and \<open>cmd_probe\<close> as a whole. Printed lines are left out.
\<close>

section \<open>Waiting for a peer\<close>

function peer_loop :: "nat \<Rightarrow> (hci, (connection \<times> byte) option) action" where
  "peer_loop fin h =
     (if clock h < fin then
        (case hci_read_packet 500000 h of
           (Inl e, h') \<Rightarrow> (Inl e, h')
         | (Inr None, h') \<Rightarrow> peer_loop fin h'
         | (Inr (Some (kind, code, body)), h') \<Rightarrow>
             if kind \<noteq> H4_EVENT \<or> code \<noteq> Some EVT_LE_META then peer_loop fin h'
             else (case parse_connection body of
                     Inl e \<Rightarrow> (Inl e, h')
                   | Inr None \<Rightarrow> peer_loop fin h'
                   | Inr (Some c) \<Rightarrow>
                       if conn_status c \<noteq> 0 then peer_loop fin h'
                       else (case byte_at body 5 of Inl e \<Rightarrow> (Inl e, h') | Inr t \<Rightarrow> (Inr (Some (c, t)), h'))))
      else (Inr None, h))"
  by pat_completeness auto
termination
  by (relation "measure (\<lambda>(fin, h). left_over fin h)") (auto intro: read_left_over [OF sym])

declare peer_loop.simps [simp del]

definition PROBE_NAME :: bytes where
  "PROBE_NAME = map of_char ''HCI-PROBE''"

definition probe_advertise :: "(probe, unit) action" where
  "probe_advertise = with_s (\<lambda>p.
     let ctx = pb_ctx p;
         adv = [2, 0x01, 0x06, of_nat (length PROBE_NAME + 1), 0x09] @ PROBE_NAME in
     bind_s (lift_r (cat [Inr [0x00], struct_pack [FH 0x0013], Inr ([0xa0, 0, 0] @ [0xf0, 0, 0] @ [0x07]), bytes_of [ctx_addr_type ctx],
       Inr ([0] @ zeros 6 @ [0]), struct_pack [Fb 0x7F], Inr [0x01, 0, 0x01, 0, 0]])) (\<lambda>params.
     bind_s (on_hci (command3 0x2036 params)) (\<lambda>_.
     bind_s (case ctx_identity ctx of
               Some own \<Rightarrow> if ctx_addr_type ctx = 0x01 \<and> own \<noteq> []
                 then bind_s (on_hci (command3 0x2035 ([0x00] @ own))) (\<lambda>_. ret ()) else ret ()
             | None \<Rightarrow> ret ()) (\<lambda>_.
     bind_s (on_hci (command3 0x2037 ([0x00, 0x03, 0x01, of_nat (length adv)] @ adv))) (\<lambda>_.
     bind_s (on_hci (command3 0x2039 [0x01, 0x01, 0x00, 0, 0, 0])) (\<lambda>_. ret ()))))))"

definition probe_wait_for_peer :: "(probe, nat option) action" where
  "probe_wait_for_peer =
     bind_s (on_hci (drop_stale 100000)) (\<lambda>_.
     bind_s (on_hci (modify_s (\<lambda>h. h\<lparr>pending := []\<rparr>))) (\<lambda>_.
     bind_s probe_advertise (\<lambda>_. with_s (\<lambda>p.
     bind_s (on_hci (\<lambda>h. peer_loop (clock h + p_wait_connect (pb_args p) * 1000000) h)) (\<lambda>found.
     bind_s (case found of
               None \<Rightarrow> ret ()
             | Some (c, peer_type) \<Rightarrow> modify_s (\<lambda>p. p\<lparr>pb_ctx := (pb_ctx p)\<lparr>ctx_role := Some (unat (conn_role c)),
                 ctx_peer_addr := Some (conn_peer c), ctx_peer_type := Some peer_type\<rparr>\<rparr>)) (\<lambda>_.
     bind_s (on_hci (command 0x2039 [0x00, 0x00] 3000000 True)) (\<lambda>_.
     ret (map_option (\<lambda>(c, _). conn_handle c) found))))))))"

section \<open>Serving it\<close>

record peer =
  pr_probe :: probe
  pr_att :: att
  pr_smp :: legacy
  pr_answered :: "nat list"

abbreviation pr_hci :: "peer \<Rightarrow> hci" where "pr_hci s \<equiv> pb_hci (pr_probe s)"

definition on_probe :: "(probe, 'a) action \<Rightarrow> (peer, 'a) action" where
  "on_probe m s = (case m (pr_probe s) of (r, p) \<Rightarrow> (r, s\<lparr>pr_probe := p\<rparr>))"

definition on_link :: "(hci, 'a) action \<Rightarrow> (peer, 'a) action" where
  "on_link m = on_probe (on_hci m)"

definition on_att :: "(att \<times> hci, 'a) action \<Rightarrow> (peer, 'a) action" where
  "on_att m s = (case m (pr_att s, pr_hci s) of (r, a, h) \<Rightarrow> (r, s\<lparr>pr_att := a, pr_probe := (pr_probe s)\<lparr>pb_hci := h\<rparr>\<rparr>))"

definition on_smp :: "(legacy \<times> hci, 'a) action \<Rightarrow> (peer, 'a) action" where
  "on_smp m s = (case m (pr_smp s, pr_hci s) of (r, l, h) \<Rightarrow> (r, s\<lparr>pr_smp := l, pr_probe := (pr_probe s)\<lparr>pb_hci := h\<rparr>\<rparr>))"

definition probe_feed :: "packet \<Rightarrow> (peer, unit) action" where
  "probe_feed p =
     (case p of (kind, _, body) \<Rightarrow>
        if kind \<noteq> H4_ACL \<or> length body < 8 then ret ()
        else
          let len = from_le (pslice 2 4 body); l2cap = pslice 4 (4 + len) body in
          if length l2cap < 4 then ret ()
          else
            let plen = from_le (pslice 0 2 l2cap); cid = from_le (pslice 2 4 l2cap); payload = pslice 4 (4 + plen) l2cap in
            bind_s (on_att (att_feed payload cid)) (\<lambda>_. on_smp (legacy_feed payload cid)))"

primrec feed_all :: "packet list \<Rightarrow> (peer, unit) action" where
  "feed_all [] = ret ()"
| "feed_all (p # ps) = bind_s (probe_feed p) (\<lambda>_. feed_all ps)"

text \<open>\<open>queued = hci.pending; hci.pending = []; for packet in queued: probe_feed(handlers, packet)\<close>.\<close>

definition feed_queued :: "(peer, unit) action" where
  "feed_queued = with_s (\<lambda>s.
     bind_s (on_link (modify_s (\<lambda>h. h\<lparr>pending := []\<rparr>))) (\<lambda>_. feed_all (pending (pr_hci s))))"

definition feed_next :: "(peer, unit) action" where
  "feed_next = bind_s (on_link (hci_read_packet 200000)) (\<lambda>packet. case packet of None \<Rightarrow> ret () | Some p \<Rightarrow> probe_feed p)"

lemma frugal_on_att: "frugal snd m \<Longrightarrow> frugal pr_hci (on_att m)"
  by (rule frugalI) (auto simp: on_att_def split: prod.splits dest: frugalD)

lemma frugal_on_smp: "frugal snd m \<Longrightarrow> frugal pr_hci (on_smp m)"
  by (rule frugalI) (auto simp: on_smp_def split: prod.splits dest: frugalD)

lemma frugal_feed: "frugal pr_hci (probe_feed p)"
  unfolding probe_feed_def Let_def by (intro frugal_intros frugal_on_att frugal_on_smp frugal_att frugal_legacy)

lemma frugal_feed_all: "frugal pr_hci (feed_all ps)"
proof (induction ps)
  case Nil
  show ?case unfolding feed_all.simps by (rule frugal_ret)
next
  case (Cons p ps)
  then show ?case unfolding feed_all.simps by (intro frugal_bind frugal_feed)
qed

lemma feed_queued_frugal: "frugal pr_hci feed_queued"
proof (rule frugalI)
  fix s x s' assume "feed_queued s = (Inr x, s')"
  then have "feed_all (pending (pr_hci s)) (s\<lparr>pr_probe := (pr_probe s)\<lparr>pb_hci := (pr_hci s)\<lparr>pending := []\<rparr>\<rparr>\<rparr>) = (Inr x, s')"
    by (simp add: feed_queued_def on_link_def on_probe_def on_hci_def bind_s_def)
  from frugalD [OF frugal_feed_all this] show "backlog (pr_hci s') \<le> backlog (pr_hci s) \<and> clock (pr_hci s) \<le> clock (pr_hci s')"
    by (simp add: backlog_def)
qed

lemma frugal_offer: "frugal pr_hci (case po of None \<Rightarrow> ret () | Some p \<Rightarrow> probe_feed p)"
  by (intro frugal_cases frugal_ret frugal_feed)

lemma frugal_next: "frugal pr_hci feed_next"
  unfolding feed_next_def on_link_def
proof (intro frugal_bind frugal_offer)
  show "frugal pr_hci (on_probe (on_hci (hci_read_packet 200000)))"
    by (rule frugalI) (auto simp: on_probe_def on_hci_def split: prod.splits dest: frugalD [OF frugal_read])
qed

lemma feed_next_left_over:
  assumes "feed_next s = (Inr x, s')" "clock (pr_hci s) < fin"
  shows "left_over fin (pr_hci s') < left_over fin (pr_hci s)"
proof -
  from assms(1) obtain po h where rd: "hci_read_packet 200000 (pr_hci s) = (Inr po, h)"
    and run: "(case po of None \<Rightarrow> ret () | Some p \<Rightarrow> probe_feed p) (s\<lparr>pr_probe := (pr_probe s)\<lparr>pb_hci := h\<rparr>\<rparr>) = (Inr x, s')"
    by (auto simp: feed_next_def bind_s_Inr_iff on_link_def on_probe_def on_hci_def split: prod.splits)
  from frugalD [OF frugal_offer run] have "left_over fin (pr_hci s') \<le> left_over fin h" by (intro left_over_mono) simp_all
  with read_left_over [OF rd _ assms(2)] show ?thesis by simp
qed

lemma left_over_round:
  assumes "bind_s feed_queued (\<lambda>_. feed_next) s = (Inr x, s')" "clock (pr_hci s) < fin"
  shows "left_over fin (pr_hci s') < left_over fin (pr_hci s)"
proof -
  from assms(1) obtain s1 where q: "feed_queued s = (Inr (), s1)" and n: "feed_next s1 = (Inr x, s')"
    by (auto simp: bind_s_Inr_iff)
  from frugalD [OF feed_queued_frugal q] have le: "left_over fin (pr_hci s1) \<le> left_over fin (pr_hci s)"
    by (intro left_over_mono) simp_all
  show ?thesis
  proof (cases "clock (pr_hci s1) < fin")
    case True
    from feed_next_left_over [OF n True] le show ?thesis by simp
  next
    case False
    with frugalD [OF frugal_next n] assms(2) show ?thesis by (simp add: left_over_def)
  qed
qed

text \<open>The two loops: serving the peer until \<open>halt\<close> holds or the time is up, and waiting for the
  encryption change, which leaves the deferred packets where they are.\<close>

function serve :: "(hci \<Rightarrow> bool) \<Rightarrow> nat \<Rightarrow> (peer, unit) action" where
  "serve halt fin s =
     (if clock (pr_hci s) < fin \<and> \<not> halt (pr_hci s) then
        (case bind_s feed_queued (\<lambda>_. feed_next) s of
           (Inl e, s') \<Rightarrow> (Inl e, s')
         | (Inr _, s') \<Rightarrow> serve halt fin s')
      else (Inr (), s))"
  by pat_completeness auto
termination
  by (relation "measure (\<lambda>(_, fin, s). left_over fin (pr_hci s))") (auto intro: left_over_round [OF sym])

declare serve.simps [simp del]

function await_encryption :: "nat \<Rightarrow> (peer, unit) action" where
  "await_encryption fin s =
     (if clock (pr_hci s) < fin \<and> encryption (pr_hci s) = None then
        (case feed_next s of
           (Inl e, s') \<Rightarrow> (Inl e, s')
         | (Inr _, s') \<Rightarrow> await_encryption fin s')
      else (Inr (), s))"
  by pat_completeness auto
termination
  by (relation "measure (\<lambda>(fin, s). left_over fin (pr_hci s))") (auto intro: feed_next_left_over [OF sym])

declare await_encryption.simps [simp del]

definition probe_service :: "nat \<Rightarrow> (peer, unit) action" where
  "probe_service seconds = with_s (\<lambda>s. serve (\<lambda>_. False) (clock (pr_hci s) + seconds * 1000000))"

section \<open>The key request\<close>

definition probe_answer_ltk :: "(peer, unit) action" where
  "probe_answer_ltk = with_s (\<lambda>s.
     case ltk_request (pr_hci s) of
       None \<Rightarrow> ret ()
     | Some handle \<Rightarrow>
         if pr_answered s \<noteq> [] then ret ()
         else
           bind_s (modify_s (\<lambda>s. s\<lparr>pr_answered := pr_answered s @ [handle]\<rparr>)) (\<lambda>_.
           catch_s
             (bind_s (lift_r (pack_le 2 handle)) (\<lambda>hd16.
              bind_s (on_link (command 0x201B hd16 1000000 True)) (\<lambda>_. ret ())))
             (\<lambda>e. if is_HciError e then ret () else throw e)))"

definition probe_wait_for_ltk :: "nat \<Rightarrow> (peer, unit) action" where
  "probe_wait_for_ltk wait_ltk = with_s (\<lambda>s.
     if ltk_request (pr_hci s) \<noteq> None then ret ()
     else
       bind_s (serve (\<lambda>h. ltk_request h \<noteq> None) (clock (pr_hci s) + wait_ltk * 1000000)) (\<lambda>_. with_s (\<lambda>s.
       case ltk_request (pr_hci s) of
         None \<Rightarrow> ret ()
       | Some handle \<Rightarrow>
           bind_s (lift_r (pack_le 2 handle)) (\<lambda>hd16.
           case l_stk (pr_smp s) of
             None \<Rightarrow> bind_s (on_link (command 0x201B hd16 1000000 True)) (\<lambda>_. ret ())
           | Some stk \<Rightarrow>
               bind_s (on_link (command 0x201A (hd16 @ stk) 2000000 True)) (\<lambda>(status, _).
               if status \<noteq> 0 then ret ()
               else with_s (\<lambda>s. await_encryption (clock (pr_hci s) + 3000000)))))))"

section \<open>The rows that need a link\<close>

definition linked_rows :: "bool \<Rightarrow> hci_command list" where
  "linked_rows asked =
     (let linked = filter (\<lambda>c. NEEDS_CONN \<in> set (c_needs c)) COMMANDS;
          first = (\<lambda>c. if c_opcode c = 0x201B then 0 else if c_opcode c = 0x201A then 1 else - 1 :: int) in
      sort_key (\<lambda>c. c_opcode c = 0x0406) (if asked then sort_key first linked else linked))"

primrec linked_loop :: "hci_command list \<Rightarrow> (peer, unit) action" where
  "linked_loop [] = ret ()"
| "linked_loop (c # cs) =
     bind_s (on_probe (probe_send c)) (\<lambda>_.
     bind_s feed_queued (\<lambda>_.
     bind_s probe_answer_ltk (\<lambda>_. linked_loop cs)))"

definition link_work :: "nat \<Rightarrow> (peer, unit) action" where
  "link_work handle = with_s (\<lambda>s.
     let args = pb_args (pr_probe s) in
     bind_s (probe_service (p_discover_secs args)) (\<lambda>_.
     bind_s (if p_wait_ltk args \<noteq> 0 then probe_wait_for_ltk (p_wait_ltk args) else ret ()) (\<lambda>_. with_s (\<lambda>s.
     bind_s (case ltk_request (pr_hci s) of
               None \<Rightarrow> ret ()
             | Some asked \<Rightarrow> on_probe (modify_s (\<lambda>p. p\<lparr>pb_ctx := (pb_ctx p)\<lparr>ctx_handle := asked\<rparr>\<rparr>))) (\<lambda>_.
     bind_s (linked_loop (linked_rows (ltk_request (pr_hci s) \<noteq> None))) (\<lambda>_.
     bind_s (on_probe unwind) (\<lambda>_.
     bind_s (lift_r (struct_pack [FH handle, FB 0x13])) (\<lambda>bs.
     bind_s (on_link (command 0x0406 bs 3000000 True)) (\<lambda>_. ret ())))))))))"

text \<open>The two handlers live as long as the link.\<close>

definition link_session :: "nat \<Rightarrow> (probe, unit) action" where
  "link_session handle =
     bind_s (modify_s (\<lambda>p. p\<lparr>pb_args := (pb_args p)\<lparr>p_handle := Some handle\<rparr>,
       pb_ctx := (pb_ctx p)\<lparr>ctx_handle := handle\<rparr>, pb_live := True\<rparr>)) (\<lambda>_. with_s (\<lambda>p.
     bind_s (lift_r (present (ctx_peer_addr (pb_ctx p)))) (\<lambda>peer_addr.
     bind_s (lift_r (present (ctx_peer_type (pb_ctx p)))) (\<lambda>peer_type.
     \<lambda>p. case link_work handle
            \<lparr>pr_probe = p, pr_att = att_init handle PROBE_NAME,
             pr_smp = legacy_init handle (pb_identity p) (unat (pb_addr_type p)) peer_addr (unat peer_type),
             pr_answered = []\<rparr> of
          (r, s) \<Rightarrow> (r, pr_probe s)))))"

definition link_stage :: "(probe, unit) action" where
  "link_stage = with_s (\<lambda>p.
     if p_wait_connect (pb_args p) = 0 \<or> pb_live p then ret ()
     else bind_s probe_wait_for_peer (\<lambda>found. case found of None \<Rightarrow> ret () | Some handle \<Rightarrow> link_session handle))"

section \<open>The whole run\<close>

definition probe_start :: "probe_args \<Rightarrow> bytes \<Rightarrow> byte \<Rightarrow> hci \<Rightarrow> probe" where
  "probe_start args own addr_type h =
     \<lparr>pb_hci = h, pb_args = args,
      pb_ctx = \<lparr>ctx_handle = (case p_handle args of None \<Rightarrow> UNUSED_HANDLE | Some handle \<Rightarrow> handle),
        ctx_addr_type = unat addr_type, ctx_identity = Some own, ctx_role = None, ctx_peer_addr = None,
        ctx_peer_type = None, ctx_public_addr = zeros 6\<rparr>,
      pb_identity = own, pb_addr_type = addr_type, pb_live = False, pb_undo = [], pb_counts = (\<lambda>_. 0),
      pb_skipped = {}, pb_last = 0\<rparr>"

definition check_handle :: "(probe, unit) action" where
  "check_handle = with_s (\<lambda>p.
     case p_handle (pb_args p) of
       None \<Rightarrow> ret ()
     | Some handle \<Rightarrow>
         bind_s (lift_r (pack_le 2 handle)) (\<lambda>hd16.
         bind_s (on_hci (command 0x2015 hd16 3000000 True)) (\<lambda>(status, _).
         modify_s (\<lambda>p. p\<lparr>pb_live := (status = 0)\<rparr>))))"

text \<open>The value returned: \<open>None\<close> after a bisection.\<close>

definition probe_run :: "(probe, nat option) action" where
  "probe_run =
     bind_s preamble (\<lambda>_.
     bind_s check_handle (\<lambda>_.
     bind_s (on_hci (command3 OP_READ_BD_ADDR [])) (\<lambda>(_, bd_addr).
     bind_s (modify_s (\<lambda>p. p\<lparr>pb_ctx := (pb_ctx p)\<lparr>ctx_public_addr := take 6 bd_addr\<rparr>\<rparr>)) (\<lambda>_. with_s (\<lambda>p.
     case p_bisect (pb_args p) of
       Some target \<Rightarrow>
         catch_s (bind_s (bisect target) (\<lambda>_. ret None)) (\<lambda>e. if is_HciGone e then ret None else throw e)
     | None \<Rightarrow>
         bind_s probe_phases (\<lambda>_.
         bind_s link_stage (\<lambda>_. with_s (\<lambda>p.
         ret (Some (if pb_counts p Unknown \<noteq> 0 then 1 else 0))))))))))"

definition cmd_probe :: "probe_args \<Rightarrow> (hci, nat option) action" where
  "cmd_probe args =
     bind_s (identity None) (\<lambda>(own, addr_type, _). \<lambda>h.
     case probe_run (probe_start args own addr_type h) of (r, p) \<Rightarrow> (r, pb_hci p))"

end
