(* ===== verification/Probe_Wire.thy ===== *)
theory Probe_Wire
  imports Probe_Peer
begin

text \<open>
  What a whole probe run puts on the wire when no consent was given. Serving a peer adds data packets,
  answers to a key request and the closing disconnection to what the phases write; the contracts below
  count the commands that need consent, in order.
\<close>

section \<open>Commands that need consent, in order\<close>

definition is_command :: "bytes \<Rightarrow> bool" where
  "is_command q \<longleftrightarrow> (\<exists>op bs. q = command_packet op bs)"

definition is_data :: "bytes \<Rightarrow> bool" where
  "is_data q \<longleftrightarrow> take 1 q = [H4_ACL]"

definition grave_ops :: "bytes list \<Rightarrow> nat list" where
  "grave_ops ps = filter (\<lambda>op. op \<in> set consent_ops) (map packet_opcode (filter (\<lambda>q. take 1 q = [H4_COMMAND]) ps))"

text \<open>A sequence of opcodes fits slots, in order: each slot lists what it may hold and may stay empty.\<close>

fun fills :: "nat list \<Rightarrow> nat list list \<Rightarrow> bool" where
  "fills [] slots = True"
| "fills (op # ops) [] = False"
| "fills (op # ops) (slot # slots) = (op \<in> set slot \<and> fills ops slots \<or> fills (op # ops) slots)"

lemma fills_append: "fills a s \<Longrightarrow> fills b t \<Longrightarrow> fills (a @ b) (s @ t)"
proof (induction a s rule: fills.induct)
  case (1 slots)
  then show ?case
  proof (induction slots)
    case (Cons slot slots)
    then show ?case by (cases b) auto
  qed simp
qed auto


definition slotted :: "nat list list \<Rightarrow> hci \<Rightarrow> hci \<Rightarrow> bool" where
  "slotted slots h h' \<longleftrightarrow> (\<exists>ps. sent h' = sent h @ ps \<and> list_all (\<lambda>q. is_command q \<or> is_data q) ps \<and>
     fills (grave_ops ps) slots)"

lemma grave_ops_append: "grave_ops (a @ b) = grave_ops a @ grave_ops b"
  by (simp add: grave_ops_def)

lemma slotted_refl: "slotted slots h h"
  by (simp add: slotted_def grave_ops_def)

lemma slotted_same: "sent h' = sent h \<Longrightarrow> slotted slots h h'"
  by (simp add: slotted_def grave_ops_def)

lemma slotted_trans: "slotted a h h1 \<Longrightarrow> slotted b h1 h2 \<Longrightarrow> slotted (a @ b) h h2"
proof -
  assume "slotted a h h1" "slotted b h1 h2"
  then obtain p q where "sent h1 = sent h @ p" "list_all (\<lambda>q. is_command q \<or> is_data q) p" "fills (grave_ops p) a"
    "sent h2 = sent h1 @ q" "list_all (\<lambda>q. is_command q \<or> is_data q) q" "fills (grave_ops q) b"
    unfolding slotted_def by blast
  then show ?thesis unfolding slotted_def by (intro exI [of _ "p @ q"]) (simp add: grave_ops_append fills_append)
qed

lemma slotted_more: "slotted a h h' \<Longrightarrow> slotted (a @ b) h h'"
  using slotted_trans [OF _ slotted_refl] by blast

lemma slotted_more': "slotted b h h' \<Longrightarrow> slotted (a @ b) h h'"
  using slotted_trans [OF slotted_refl] by blast

lemma command_type: "take 1 (command_packet op bs) = [H4_COMMAND]"
  by (simp add: command_packet_def)

lemma grave_command: "grave_ops [command_packet op bs] = (if op mod 65536 \<in> set consent_ops then [op mod 65536] else [])"
  by (simp add: grave_ops_def command_type [simplified])

lemma safe_op: "op \<in> set safe_ops \<Longrightarrow> op mod 65536 \<notin> set consent_ops"
  using safe_ops_avoid unfolding list.pred_set by simp

lemma grave_safe: "list_all safe_packet ps \<Longrightarrow> grave_ops ps = []"
proof (induction ps)
  case (Cons q ps)
  then obtain op bs where "q = command_packet op bs" "op \<in> set safe_ops" by (auto simp: safe_packet_def)
  with Cons grave_ops_append [of "[q]" ps] show ?case by (simp add: grave_command safe_op)
qed (simp add: grave_ops_def)

lemma slotted_safe: "hci_wrote h h' \<Longrightarrow> slotted [] h h'"
proof -
  assume "hci_wrote h h'"
  then obtain ps where "sent h' = sent h @ ps" "list_all safe_packet ps" by (auto simp: hci_wrote_def)
  moreover from this have "list_all (\<lambda>q. is_command q \<or> is_data q) ps"
    unfolding list.pred_set safe_packet_def is_command_def by blast
  ultimately show ?thesis by (auto simp: slotted_def grave_safe)
qed

section \<open>Contracts\<close>

text \<open>An action on a state that holds an engine.\<close>

definition writes :: "('s \<Rightarrow> hci) \<Rightarrow> nat list list \<Rightarrow> ('s, 'a) action \<Rightarrow> bool" where
  "writes hc slots m \<longleftrightarrow> (\<forall>s. slotted slots (hc s) (hc (snd (m s))))"

lemma writesI: "(\<And>s r s'. m s = (r, s') \<Longrightarrow> slotted slots (hc s) (hc s')) \<Longrightarrow> writes hc slots m"
  unfolding writes_def by (metis surj_pair snd_conv)

lemma writesD: "writes hc slots m \<Longrightarrow> m s = (r, s') \<Longrightarrow> slotted slots (hc s) (hc s')"
  unfolding writes_def by (metis snd_conv)

lemma writes_bind:
  assumes "writes hc a m" "\<And>x. writes hc b (f x)"
  shows "writes hc (a @ b) (bind_s m f)"
proof (rule writesI)
  fix s r s' assume run: "bind_s m f s = (r, s')"
  obtain y s1 where m: "m s = (y, s1)" by fastforce
  show "slotted (a @ b) (hc s) (hc s')"
  proof (cases y)
    case (Inl e)
    with run m writesD [OF assms(1) m] show ?thesis by (auto simp: bind_s_def intro: slotted_more)
  next
    case (Inr x)
    with run m have "f x s1 = (r, s')" by (simp add: bind_s_def)
    from slotted_trans [OF writesD [OF assms(1) m] writesD [OF assms(2) this]] show ?thesis .
  qed
qed

lemmas writes_bind_quiet = writes_bind [where a = "[]" and b = "[]", simplified]

lemma writes_ret: "writes hc slots (ret x)" "writes hc slots (throw e)" "writes hc slots (lift_r v)"
  by (auto simp: writes_def slotted_refl)

lemma writes_with: "(\<And>s. writes hc slots (f s)) \<Longrightarrow> writes hc slots (with_s f)"
  by (auto simp: writes_def)

lemma writes_modify: "(\<And>s. hc (f s) = hc s) \<Longrightarrow> writes hc slots (modify_s f)"
  by (auto simp: writes_def slotted_refl)

lemma writes_cases:
  "writes hc slots a \<Longrightarrow> writes hc slots b \<Longrightarrow> writes hc slots (if c then a else b)"
  "(\<And>x y. writes hc slots (g x y)) \<Longrightarrow> writes hc slots (case z of (x, y) \<Rightarrow> g x y)"
  "writes hc slots n \<Longrightarrow> (\<And>x. writes hc slots (k x)) \<Longrightarrow> writes hc slots (case w of None \<Rightarrow> n | Some x \<Rightarrow> k x)"
  by (simp_all split: prod.split option.split)

lemma writes_safe: "hci_safe m \<Longrightarrow> writes (\<lambda>h. h) [] m"
  by (simp add: writes_def hci_safe_def slotted_safe)

lemma writes_snd: "writes (\<lambda>h. h) slots m \<Longrightarrow> writes snd slots (on_snd m)"
  by (rule writesI) (auto simp: on_snd_def split: prod.splits dest: writesD)

lemma slotted_command:
  assumes "op < 65536" "op \<in> set slot"
  shows "slotted [slot] h (snd (command op bs timeout af h))"
proof -
  from command_writes [of op bs timeout af h] consider "sent (snd (command op bs timeout af h)) = sent h"
    | "sent (snd (command op bs timeout af h)) = sent h @ [command_packet op bs]" by auto
  then show ?thesis
  proof cases
    case 2
    then show ?thesis using assms unfolding slotted_def
      by (intro exI [of _ "[command_packet op bs]"]) (auto simp: grave_command is_command_def)
  qed (rule slotted_same)
qed

lemma writes_command: "op < 65536 \<Longrightarrow> op \<in> set slot \<Longrightarrow> writes (\<lambda>h. h) [slot] (command op bs timeout af)"
  by (simp add: writes_def slotted_command)

lemma writes_data: "take 1 data = [H4_ACL] \<Longrightarrow> writes (\<lambda>h. h) [] (hci_write_packet data)"
proof (rule writesI)
  fix h r h' assume a: "take 1 data = [H4_ACL]" "hci_write_packet data h = (r, h')"
  then have "sent h' = sent h \<or> sent h' = sent h @ [data]" by (auto simp: hci_write_packet_def split: list.splits option.splits)
  moreover have "grave_ops [data] = []" using a(1) by (simp add: grave_ops_def)
  ultimately show "slotted [] h h'" using a(1) unfolding slotted_def is_data_def by (auto simp: grave_ops_def)
qed

lemma writes_acl: "writes (\<lambda>h. h) [] (send_acl handle cid payload)"
proof -
  have "writes (\<lambda>h. h) [] (\<lambda>h. (Inr (), h\<lparr>acl_credits := acl_credits h - 1\<rparr>))"
    by (rule writesI) (auto intro: slotted_same)
  then show ?thesis unfolding send_acl_def Let_def by (intro writes_bind_quiet writes_ret writes_data) simp
qed

lemma table_safe:
  assumes "op \<in> set (map c_opcode (COMMANDS @ TEARDOWN))" "op \<notin> set consent_ops"
  shows "op \<in> set safe_ops"
proof -
  from assms(1) obtain c where c: "c \<in> set (COMMANDS @ TEARDOWN)" "op = c_opcode c" unfolding set_map by blast
  with assms(2) have "\<not> needs_consent c" by (auto simp: consent_ops_def)
  from row_ops_safe [OF c(1) this] c(2) show ?thesis by (simp add: row_ops_def)
qed

lemma link_ops_listed:
  "list_all (\<lambda>op. op \<in> set (map c_opcode LE_BASIC)) [0x2017, 0x2018]" "list_all (\<lambda>op. op \<in> set (map c_opcode INFO)) [0x1009]"
  "list_all (\<lambda>op. op \<in> set (map c_opcode VENDOR)) [0xFC09]" "list_all (\<lambda>op. op \<in> set (map c_opcode LE_CONN)) [0x2015]"
  "list_all (\<lambda>op. op \<in> set (map c_opcode LE_EXT)) [0x2035, 0x2036, 0x2037]" "list_all (\<lambda>op. op \<in> set (map c_opcode LE_PERIODIC)) [0x2039]"
  unfolding LE_BASIC_def INFO_def VENDOR_def LE_CONN_def LE_EXT_def LE_PERIODIC_def by (simp_all add: Commands_Catalog.Command_def)

lemma table_part_safe:
  assumes "list_all (\<lambda>op. op \<in> set (map c_opcode T)) ops" "set (map c_opcode T) \<subseteq> set opcodes_1 \<union> set opcodes_2"
    "list_all (\<lambda>op. op \<notin> set consent_ops) ops"
  shows "list_all (\<lambda>op. op \<in> set safe_ops) ops"
  using assms table_safe [unfolded opcodes_eq set_append] unfolding list.pred_set by blast

lemma link_ops_safe: "list_all (\<lambda>op. op \<in> set safe_ops) [0x2017, 0x2018, 0x1009, 0xFC09, 0x2015, 0x2035, 0x2036, 0x2037, 0x2039]"
proof -
  note parts = link_ops_listed [THEN table_part_safe]
  have "list_all (\<lambda>op. op \<in> set safe_ops) [0x2017, 0x2018]" "list_all (\<lambda>op. op \<in> set safe_ops) [0x1009]"
      "list_all (\<lambda>op. op \<in> set safe_ops) [0xFC09]" "list_all (\<lambda>op. op \<in> set safe_ops) [0x2015]"
      "list_all (\<lambda>op. op \<in> set safe_ops) [0x2035, 0x2036, 0x2037]" "list_all (\<lambda>op. op \<in> set safe_ops) [0x2039]"
    by (rule parts; force simp: opcodes_1_def opcodes_2_def consent_ops_eq)+
  then show ?thesis by (simp only: list.pred_inject)
qed

lemma writes_encrypt: "writes (\<lambda>h. h) [] (encrypt key plaintext)"
  unfolding encrypt_def using link_ops_safe by (intro writes_safe hci_safe_intros) simp_all

lemma writes_random: "writes (\<lambda>h. h) [] random16"
proof -
  have cmd: "writes (\<lambda>h. h) [] (command3 OP_LE_RAND [])" using link_ops_safe by (intro writes_safe hci_safe_command) simp
  have "slotted [] h (snd (random16_loop out h))" for out h
  proof (induction out h rule: random16_loop.induct)
    case (1 out h)
    obtain r h1 where c: "command3 OP_LE_RAND [] h = (r, h1)" by fastforce
    note w = writesD [OF cmd c]
    show ?case
    proof (cases "16 \<le> length out")
      case False
      show ?thesis
      proof (cases r)
        case (Inl e)
        with False c w show ?thesis by (simp add: random16_loop.simps [of out h])
      next
        case (Inr x)
        obtain st data where x: "x = (st, data)" by fastforce
        with slotted_trans [OF w 1 [OF False c [symmetric] Inr x [symmetric]]] False c Inr show ?thesis
          by (simp add: random16_loop.simps [of out h])
      qed
    qed (simp add: random16_loop.simps [of out h] slotted_refl)
  qed
  then show ?thesis unfolding random16_def writes_def by blast
qed

lemmas writes_intros = writes_bind_quiet writes_ret writes_with writes_cases writes_snd writes_acl writes_encrypt writes_random

lemma writes_legacy: "writes snd [] (legacy_feed pdu cid)"
  unfolding legacy_feed_def legacy_send_def legacy_c1_def legacy_s1_def Let_def
  by (intro writes_intros writes_modify) simp_all

lemma writes_att: "writes snd [] (att_feed pdu cid)"
  unfolding att_feed_def att_request_def read_by_group_type_def read_by_type_def find_information_def att_answer_def
    att_error_def att_send_def Let_def
  by (intro writes_intros writes_modify) simp_all

text \<open>The same for the state with a peer: the probe stays modest, and the list of answered requests is kept.\<close>

definition link_step :: "nat list list \<Rightarrow> (peer, 'a) action \<Rightarrow> bool" where
  "link_step slots m \<longleftrightarrow> (\<forall>s r s'. m s = (r, s') \<longrightarrow> modest (pr_probe s) \<longrightarrow>
     modest (pr_probe s') \<and> pr_answered s' = pr_answered s \<and> slotted slots (pr_hci s) (pr_hci s'))"

lemma peer_stepI:
  "(\<And>s r s'. m s = (r, s') \<Longrightarrow> modest (pr_probe s) \<Longrightarrow>
     modest (pr_probe s') \<and> pr_answered s' = pr_answered s \<and> slotted slots (pr_hci s) (pr_hci s')) \<Longrightarrow> link_step slots m"
  unfolding link_step_def by blast

lemma peer_stepD:
  "link_step slots m \<Longrightarrow> m s = (r, s') \<Longrightarrow> modest (pr_probe s) \<Longrightarrow>
     modest (pr_probe s') \<and> pr_answered s' = pr_answered s \<and> slotted slots (pr_hci s) (pr_hci s')"
  unfolding link_step_def by blast

lemma peer_bind:
  assumes "link_step a m" "\<And>x. link_step b (f x)"
  shows "link_step (a @ b) (bind_s m f)"
proof (rule peer_stepI)
  fix s r s' assume run: "bind_s m f s = (r, s')" and s: "modest (pr_probe s)"
  obtain y s1 where m: "m s = (y, s1)" by (rule prod.exhaust)
  note one = peer_stepD [OF assms(1) m s]
  show "modest (pr_probe s') \<and> pr_answered s' = pr_answered s \<and> slotted (a @ b) (pr_hci s) (pr_hci s')"
  proof (cases y)
    case (Inl e)
    with run m one show ?thesis by (auto simp: bind_s_def intro: slotted_more)
  next
    case (Inr x)
    with run m have "f x s1 = (r, s')" by (simp add: bind_s_def)
    with one peer_stepD [OF assms(2) this] show ?thesis by (auto intro: slotted_trans)
  qed
qed

lemmas peer_bind_quiet = peer_bind [where a = "[]" and b = "[]", simplified]
lemmas peer_bind_last = peer_bind [where a = "[]", simplified]

lemma peer_ret: "link_step slots (ret x)" "link_step slots (throw e)" "link_step slots (lift_r v)"
  by (auto simp: link_step_def slotted_refl)

lemma peer_with: "(\<And>s. link_step slots (f s)) \<Longrightarrow> link_step slots (with_s f)"
  unfolding link_step_def with_s_def by blast

lemma peer_cases:
  "link_step slots a \<Longrightarrow> link_step slots b \<Longrightarrow> link_step slots (if c then a else b)"
  "(\<And>x y. link_step slots (g x y)) \<Longrightarrow> link_step slots (case z of (x, y) \<Rightarrow> g x y)"
  "link_step slots n \<Longrightarrow> (\<And>x. link_step slots (k x)) \<Longrightarrow> link_step slots (case w of None \<Rightarrow> n | Some x \<Rightarrow> k x)"
  by (simp_all split: prod.split option.split)

lemma modest_hci [simp]: "modest (p\<lparr>pb_hci := h\<rparr>) = modest p"
  by (simp add: modest_def)

lemma peer_engine: "writes (\<lambda>h. h) slots m \<Longrightarrow> link_step slots (on_link m)"
  by (rule peer_stepI) (auto simp: on_link_def on_probe_def on_hci_def split: prod.splits dest: writesD)

lemma peer_att: "writes snd slots m \<Longrightarrow> link_step slots (on_att m)"
  by (rule peer_stepI) (auto simp: on_att_def split: prod.splits dest: writesD)

lemma peer_smp: "writes snd slots m \<Longrightarrow> link_step slots (on_smp m)"
  by (rule peer_stepI) (auto simp: on_smp_def split: prod.splits dest: writesD)

lemma peer_probe:
  assumes "\<And>p. modest_step m p"
  shows "link_step [] (on_probe m)"
proof (rule peer_stepI)
  fix s r s' assume "on_probe m s = (r, s')" "modest (pr_probe s)"
  with assms [of "pr_probe s"] show "modest (pr_probe s') \<and> pr_answered s' = pr_answered s \<and> slotted [] (pr_hci s) (pr_hci s')"
    by (auto simp: on_probe_def modest_step_def wrote_safe_def slotted_safe split: prod.splits)
qed

lemmas peer_intros = peer_bind_quiet peer_ret peer_with peer_cases peer_engine

section \<open>The session with a peer\<close>

lemma peer_feed: "link_step [] (probe_feed p)"
  unfolding probe_feed_def Let_def by (intro peer_intros peer_att peer_smp writes_att writes_legacy)

lemma peer_feed_all: "link_step [] (feed_all ps)"
proof (induction ps)
  case Nil
  show ?case unfolding feed_all.simps by (rule peer_ret)
next
  case (Cons p ps)
  then show ?case unfolding feed_all.simps by (intro peer_bind_quiet peer_feed)
qed

lemma writes_quiet: "(\<And>h. sent (snd (m h)) = sent h) \<Longrightarrow> writes (\<lambda>h. h) [] m"
  by (simp add: writes_def slotted_same)

lemma writes_read: "writes (\<lambda>h. h) [] (hci_read_packet t)"
  by (intro writes_quiet) (rule hci_read_packet_sent)

lemma peer_queued: "link_step [] feed_queued"
  unfolding feed_queued_def by (intro peer_intros peer_feed_all writes_quiet) simp

lemma peer_next: "link_step [] feed_next"
  unfolding feed_next_def by (intro peer_intros peer_feed writes_read)

lemma peer_round: "link_step [] (bind_s feed_queued (\<lambda>_. feed_next))"
  by (intro peer_bind_quiet peer_queued peer_next)

text \<open>A loop whose rounds keep to the contract keeps to it.\<close>

lemma peer_serve: "link_step [] (serve halt fin)"
proof -
  have "modest (pr_probe s') \<and> pr_answered s' = pr_answered s \<and> slotted [] (pr_hci s) (pr_hci s')"
    if "serve halt fin s = (r, s')" "modest (pr_probe s)" for s r s'
    using that
  proof (induction halt fin s rule: serve.induct)
    case (1 halt fin s)
    obtain y s1 where m: "bind_s feed_queued (\<lambda>_. feed_next) s = (y, s1)" by (rule prod.exhaust)
    note one = peer_stepD [OF peer_round m 1(3)]
    show ?case
    proof (cases "clock (pr_hci s) < fin \<and> \<not> halt (pr_hci s)")
      case True
      show ?thesis
      proof (cases y)
        case (Inl e)
        with 1(2) True m one show ?thesis by (simp add: serve.simps [of halt fin s])
      next
        case (Inr x)
        with 1(2) True m have "serve halt fin s1 = (r, s')" by (simp add: serve.simps [of halt fin s])
        from 1(1) [OF True m [symmetric] Inr this] one show ?thesis using slotted_trans [of "[]" _ _ "[]"] by auto
      qed
    qed (use 1 in \<open>auto simp: serve.simps [of halt fin s] slotted_refl\<close>)
  qed
  then show ?thesis unfolding link_step_def by blast
qed

lemma peer_await: "link_step [] (await_encryption fin)"
proof -
  have "modest (pr_probe s') \<and> pr_answered s' = pr_answered s \<and> slotted [] (pr_hci s) (pr_hci s')"
    if "await_encryption fin s = (r, s')" "modest (pr_probe s)" for s r s'
    using that
  proof (induction fin s rule: await_encryption.induct)
    case (1 fin s)
    obtain y s1 where m: "feed_next s = (y, s1)" by (rule prod.exhaust)
    note one = peer_stepD [OF peer_next m 1(3)]
    show ?case
    proof (cases "clock (pr_hci s) < fin \<and> encryption (pr_hci s) = None")
      case True
      show ?thesis
      proof (cases y)
        case (Inl e)
        with 1(2) True m one show ?thesis by (simp add: await_encryption.simps [of fin s])
      next
        case (Inr x)
        with 1(2) True m have "await_encryption fin s1 = (r, s')" by (simp add: await_encryption.simps [of fin s])
        from 1(1) [OF True m [symmetric] Inr this] one show ?thesis using slotted_trans [of "[]" _ _ "[]"] by auto
      qed
    qed (use 1 in \<open>auto simp: await_encryption.simps [of fin s] slotted_refl\<close>)
  qed
  then show ?thesis unfolding link_step_def by blast
qed

lemma peer_service: "link_step [] (probe_service seconds)"
  unfolding probe_service_def by (intro peer_with peer_serve)

lemma peer_command:
  assumes "op < 65536" "op \<in> set slot" "\<And>x. link_step [] (f x)"
  shows "link_step [slot] (bind_s (on_link (command op bs timeout af)) f)"
  using peer_bind [OF peer_engine [OF writes_command [OF assms(1,2)]] assms(3)] by simp

lemma peer_wait_ltk: "link_step [[0x201A, 0x201B]] (probe_wait_for_ltk wait_ltk)"
  unfolding probe_wait_for_ltk_def
  by (intro peer_with peer_cases peer_ret peer_bind_last peer_serve peer_command peer_await) simp_all

text \<open>The refusal of a late request is sent once: what is left of that slot.\<close>

definition refusal_left :: "peer \<Rightarrow> nat list list" where
  "refusal_left s = (if pr_answered s = [] then [[0x201B]] else [])"

definition spends :: "(peer, 'a) action \<Rightarrow> bool" where
  "spends m \<longleftrightarrow> (\<forall>s r s'. m s = (r, s') \<longrightarrow> modest (pr_probe s) \<longrightarrow>
     modest (pr_probe s') \<and> (\<exists>a. a @ refusal_left s' = refusal_left s \<and> slotted a (pr_hci s) (pr_hci s')))"

lemma spendsI:
  "(\<And>s r s'. m s = (r, s') \<Longrightarrow> modest (pr_probe s) \<Longrightarrow>
     modest (pr_probe s') \<and> (\<exists>a. a @ refusal_left s' = refusal_left s \<and> slotted a (pr_hci s) (pr_hci s'))) \<Longrightarrow> spends m"
  unfolding spends_def by blast

lemma spendsD:
  "spends m \<Longrightarrow> m s = (r, s') \<Longrightarrow> modest (pr_probe s) \<Longrightarrow>
     modest (pr_probe s') \<and> (\<exists>a. a @ refusal_left s' = refusal_left s \<and> slotted a (pr_hci s) (pr_hci s'))"
  unfolding spends_def by blast

lemma spends_quiet: "link_step [] m \<Longrightarrow> spends m"
  by (rule spendsI, drule (2) peer_stepD) (auto simp: refusal_left_def)

lemma spends_bind:
  assumes "spends m" "\<And>x. spends (f x)"
  shows "spends (bind_s m f)"
proof (rule spendsI)
  fix s r s' assume run: "bind_s m f s = (r, s')" and s: "modest (pr_probe s)"
  obtain y s1 where m: "m s = (y, s1)" by (rule prod.exhaust)
  note one = spendsD [OF assms(1) m s]
  show "modest (pr_probe s') \<and> (\<exists>a. a @ refusal_left s' = refusal_left s \<and> slotted a (pr_hci s) (pr_hci s'))"
  proof (cases y)
    case (Inl e)
    with run m one show ?thesis by (auto simp: bind_s_def)
  next
    case (Inr x)
    with run m have "f x s1 = (r, s')" by (simp add: bind_s_def)
    from spendsD [OF assms(2) this] one obtain a b where
      "modest (pr_probe s')" "a @ refusal_left s1 = refusal_left s" "slotted a (pr_hci s) (pr_hci s1)"
      "b @ refusal_left s' = refusal_left s1" "slotted b (pr_hci s1) (pr_hci s')" by blast
    then show ?thesis by (intro conjI exI [of _ "a @ b"]) (simp_all add: slotted_trans)
  qed
qed

lemma peer_catch:
  assumes "link_step slots m" "\<And>e. link_step [] (f e)"
  shows "link_step slots (catch_s m f)"
proof (rule peer_stepI)
  fix s r s' assume run: "catch_s m f s = (r, s')" and s: "modest (pr_probe s)"
  obtain y s1 where m: "m s = (y, s1)" by (rule prod.exhaust)
  note one = peer_stepD [OF assms(1) m s]
  show "modest (pr_probe s') \<and> pr_answered s' = pr_answered s \<and> slotted slots (pr_hci s) (pr_hci s')"
  proof (cases y)
    case (Inl e)
    with run m have "f e s1 = (r, s')" by (simp add: catch_s_def)
    with one peer_stepD [OF assms(2) this] slotted_trans [where b = "[]"] show ?thesis by fastforce
  qed (use run m one in \<open>simp add: catch_s_def\<close>)
qed

lemma spends_answer: "spends probe_answer_ltk"
proof (rule spendsI)
  fix s r s' assume run: "probe_answer_ltk s = (r, s')" and s: "modest (pr_probe s)"
  show "modest (pr_probe s') \<and> (\<exists>a. a @ refusal_left s' = refusal_left s \<and> slotted a (pr_hci s) (pr_hci s'))"
  proof (cases "ltk_request (pr_hci s) = None \<or> pr_answered s \<noteq> []")
    case True
    then have "s' = s" using run by (auto simp: probe_answer_ltk_def split: option.splits)
    with s show ?thesis by (auto intro: slotted_refl)
  next
    case False
    then obtain handle where h: "ltk_request (pr_hci s) = Some handle" and a: "pr_answered s = []" by auto
    let ?m = "catch_s (bind_s (lift_r (pack_le 2 handle)) (\<lambda>hd16. bind_s (on_link (command 0x201B hd16 1000000 True)) (\<lambda>_. ret ())))
      (\<lambda>e. if is_HciError e then ret () else throw e)"
    have step: "link_step [[0x201B]] ?m"
      by (intro peer_catch peer_bind_last peer_command peer_cases peer_ret) simp_all
    from run h a have "?m (s\<lparr>pr_answered := [handle]\<rparr>) = (r, s')" by (simp add: probe_answer_ltk_def bind_s_def)
    from peer_stepD [OF step this] s a show ?thesis by (auto simp: refusal_left_def)
  qed
qed

lemma spends_loop: "set cs \<subseteq> set COMMANDS \<Longrightarrow> spends (linked_loop cs)"
proof (induction cs)
  case Nil
  show ?case unfolding linked_loop.simps by (intro spends_quiet peer_ret)
next
  case (Cons c cs)
  then show ?case unfolding linked_loop.simps
    by (intro spends_bind spends_answer spends_quiet [OF peer_queued] spends_quiet [OF peer_probe] modest_send) auto
qed

text \<open>A session starts with no request answered.\<close>

definition session_step :: "nat list list \<Rightarrow> (peer, 'a) action \<Rightarrow> bool" where
  "session_step slots m \<longleftrightarrow> (\<forall>s r s'. m s = (r, s') \<longrightarrow> modest (pr_probe s) \<longrightarrow> pr_answered s = [] \<longrightarrow>
     modest (pr_probe s') \<and> slotted slots (pr_hci s) (pr_hci s'))"

lemma session_stepI:
  "(\<And>s r s'. m s = (r, s') \<Longrightarrow> modest (pr_probe s) \<Longrightarrow> pr_answered s = [] \<Longrightarrow>
     modest (pr_probe s') \<and> slotted slots (pr_hci s) (pr_hci s')) \<Longrightarrow> session_step slots m"
  unfolding session_step_def by blast

lemma session_stepD:
  "session_step slots m \<Longrightarrow> m s = (r, s') \<Longrightarrow> modest (pr_probe s) \<Longrightarrow> pr_answered s = [] \<Longrightarrow>
     modest (pr_probe s') \<and> slotted slots (pr_hci s) (pr_hci s')"
  unfolding session_step_def by blast

lemma session_with: "(\<And>s. session_step slots (f s)) \<Longrightarrow> session_step slots (with_s f)"
  unfolding session_step_def with_s_def by blast

lemma session_bind:
  assumes "link_step a m" "\<And>x. session_step b (f x)"
  shows "session_step (a @ b) (bind_s m f)"
proof (rule session_stepI)
  fix s r s' assume run: "bind_s m f s = (r, s')" and s: "modest (pr_probe s)" "pr_answered s = []"
  obtain y s1 where m: "m s = (y, s1)" by (rule prod.exhaust)
  note one = peer_stepD [OF assms(1) m s(1)]
  show "modest (pr_probe s') \<and> slotted (a @ b) (pr_hci s) (pr_hci s')"
  proof (cases y)
    case (Inl e)
    with run m one show ?thesis by (auto simp: bind_s_def intro: slotted_more)
  next
    case (Inr x)
    with run m have "f x s1 = (r, s')" by (simp add: bind_s_def)
    from session_stepD [OF assms(2) this] one s(2) show ?thesis by (auto intro: slotted_trans)
  qed
qed

lemmas session_bind_quiet = session_bind [where a = "[]", simplified]

lemma session_close:
  assumes "spends m" "\<And>x. link_step b (f x)"
  shows "session_step ([[0x201B]] @ b) (bind_s m f)"
proof (rule session_stepI)
  fix s r s' assume run: "bind_s m f s = (r, s')" and s: "modest (pr_probe s)" "pr_answered s = []"
  obtain y s1 where m: "m s = (y, s1)" by (rule prod.exhaust)
  from spendsD [OF assms(1) m s(1)] s(2) obtain a where a: "modest (pr_probe s1)" "a @ refusal_left s1 = [[0x201B]]"
      "slotted a (pr_hci s) (pr_hci s1)" by (auto simp: refusal_left_def)
  then have one: "slotted [[0x201B]] (pr_hci s) (pr_hci s1)" using slotted_more by metis
  show "modest (pr_probe s') \<and> slotted ([[0x201B]] @ b) (pr_hci s) (pr_hci s')"
  proof (cases y)
    case (Inl e)
    with run m a(1) slotted_more [OF one] show ?thesis by (auto simp: bind_s_def)
  next
    case (Inr x)
    with run m have "f x s1 = (r, s')" by (simp add: bind_s_def)
    from peer_stepD [OF assms(2) this a(1)] slotted_trans [OF one] show ?thesis by blast
  qed
qed

lemma linked_rows_sub: "set (linked_rows asked) \<subseteq> set COMMANDS"
  by (simp add: linked_rows_def Let_def)

lemma peer_handle: "link_step [] (on_probe (modify_s (\<lambda>p. p\<lparr>pb_ctx := f p\<rparr>)))"
  by (intro peer_probe modest_modify) (simp_all add: modest_def)

lemma session_work: "session_step ([[0x201A, 0x201B]] @ [[0x201B]] @ [[0x0406]]) (link_work handle)"
proof -
  have wait: "link_step [[0x201A, 0x201B]] (if w \<noteq> 0 then probe_wait_for_ltk w else ret ())" for w
    by (intro peer_cases peer_wait_ltk peer_ret)
  have close: "link_step [[0x0406]] (bind_s (on_probe unwind) (\<lambda>_. bind_s (lift_r (struct_pack [FH handle, FB 0x13])) (\<lambda>bs.
      bind_s (on_link (command 0x0406 bs 3000000 True)) (\<lambda>_. ret ()))))"
    by (intro peer_bind_last peer_command peer_ret peer_probe modest_unwind) simp_all
  show ?thesis unfolding link_work_def Let_def
    by (intro session_with session_bind_quiet peer_service session_bind [OF wait] session_close [OF spends_loop] peer_cases
        peer_ret peer_handle linked_rows_sub close)
qed

section \<open>The whole run\<close>

definition probe_step :: "nat list list \<Rightarrow> (probe, 'a) action \<Rightarrow> bool" where
  "probe_step slots m \<longleftrightarrow> (\<forall>p r p'. m p = (r, p') \<longrightarrow> modest p \<longrightarrow> modest p' \<and> slotted slots (pb_hci p) (pb_hci p'))"

lemma probe_stepI:
  "(\<And>p r p'. m p = (r, p') \<Longrightarrow> modest p \<Longrightarrow> modest p' \<and> slotted slots (pb_hci p) (pb_hci p')) \<Longrightarrow> probe_step slots m"
  unfolding probe_step_def by blast

lemma probe_stepD:
  "probe_step slots m \<Longrightarrow> m p = (r, p') \<Longrightarrow> modest p \<Longrightarrow> modest p' \<and> slotted slots (pb_hci p) (pb_hci p')"
  unfolding probe_step_def by blast

lemma probe_quiet: "(\<And>p. modest_step m p) \<Longrightarrow> probe_step [] m"
  by (rule probe_stepI) (metis modest_step_def wrote_safe_def slotted_safe snd_conv)

lemma probe_ret: "probe_step slots (ret x)" "probe_step slots (throw e)" "probe_step slots (lift_r v)"
  by (auto simp: probe_step_def slotted_refl)

lemma probe_with: "(\<And>p. probe_step slots (f p)) \<Longrightarrow> probe_step slots (with_s f)"
  unfolding probe_step_def with_s_def by blast

lemma probe_cases:
  "probe_step slots a \<Longrightarrow> probe_step slots b \<Longrightarrow> probe_step slots (if c then a else b)"
  "probe_step slots n \<Longrightarrow> (\<And>x. probe_step slots (k x)) \<Longrightarrow> probe_step slots (case w of None \<Rightarrow> n | Some x \<Rightarrow> k x)"
  by (simp_all split: option.split)

lemma probe_bind:
  assumes "probe_step a m" "\<And>x. probe_step b (f x)"
  shows "probe_step (a @ b) (bind_s m f)"
proof (rule probe_stepI)
  fix p r p' assume run: "bind_s m f p = (r, p')" and p: "modest p"
  obtain y p1 where m: "m p = (y, p1)" by (rule prod.exhaust)
  note one = probe_stepD [OF assms(1) m p]
  show "modest p' \<and> slotted (a @ b) (pb_hci p) (pb_hci p')"
  proof (cases y)
    case (Inl e)
    with run m one show ?thesis by (auto simp: bind_s_def intro: slotted_more)
  next
    case (Inr x)
    with run m have "f x p1 = (r, p')" by (simp add: bind_s_def)
    with one probe_stepD [OF assms(2) this] show ?thesis by (auto intro: slotted_trans)
  qed
qed

lemmas probe_bind_quiet = probe_bind [where a = "[]", simplified]
lemmas probe_bind_first = probe_bind [where b = "[]", simplified]

lemma hci_safe_mute: "(\<And>h. sent (snd (m h)) = sent h) \<Longrightarrow> hci_safe m"
  by (simp add: hci_safe_def hci_wrote_def)

lemma peer_loop_sent: "sent (snd (peer_loop fin h)) = sent h"
proof (induction fin h rule: peer_loop.induct)
  case (1 fin h)
  obtain o1 h1 where rd: "hci_read_packet 500000 h = (o1, h1)" by fastforce
  have same: "sent h1 = sent h" using hci_read_packet_sent [of 500000 h] rd by simp
  show ?case
  proof (cases "clock h < fin")
    case True
    consider e where "o1 = Inl e" | "o1 = Inr None" | kind code body where "o1 = Inr (Some (kind, code, body))"
      by (metis obj_sumE option.exhaust prod_cases3)
    then show ?thesis
    proof cases
      case 2
      with 1(1) [OF True rd [symmetric]] rd same True show ?thesis by (subst peer_loop.simps) simp
    next
      case 3
      note step = 1(2-4) [OF True rd [symmetric] 3 refl refl refl]
      show ?thesis using step rd same True 3 by (subst peer_loop.simps) (auto split: sum.split option.split)
    qed (use rd same True in \<open>simp add: peer_loop.simps [of fin h]\<close>)
  qed (simp add: peer_loop.simps)
qed

lemma modest_advertise: "modest_step probe_advertise p"
  unfolding probe_advertise_def Let_def using link_ops_safe
  by (intro modest_intros hci_safe_command) simp_all

lemma modest_context: "modest_step (modify_s (\<lambda>p. p\<lparr>pb_ctx := f p\<rparr>)) q"
  by (rule modest_modify) (simp_all add: modest_def)

lemma modest_wait_for_peer: "modest_step probe_wait_for_peer p"
proof -
  have "hci_safe (drop_stale 100000)" by (intro hci_safe_mute drop_stale_sent)
  moreover have "hci_safe (modify_s (\<lambda>h. h\<lparr>pending := []\<rparr>))" by (intro hci_safe_mute) simp
  moreover have "hci_safe (\<lambda>h. peer_loop (clock h + t) h)" for t by (intro hci_safe_mute peer_loop_sent)
  moreover have "0x2039 \<in> set safe_ops" using link_ops_safe by simp
  ultimately show ?thesis unfolding probe_wait_for_peer_def
    by (intro modest_bind modest_with modest_cases modest_ret modest_on_hci modest_advertise modest_context hci_safe_command)
qed

lemma session_of: "probe_step [[0x201A, 0x201B], [0x201B], [0x0406]] (link_session handle)"
proof -
  have open_link: "modest_step (modify_s (\<lambda>p. p\<lparr>pb_args := (pb_args p)\<lparr>p_handle := Some handle\<rparr>,
       pb_ctx := (pb_ctx p)\<lparr>ctx_handle := handle\<rparr>, pb_live := True\<rparr>)) q" for q
    by (rule modest_modify) (simp_all add: modest_def)
  have "probe_step [[0x201A, 0x201B], [0x201B], [0x0406]]
     (\<lambda>p. case link_work handle (start p) of (r, s) \<Rightarrow> (r, pr_probe s))"
    if "\<And>p. pr_probe (start p) = p" "\<And>p. pr_answered (start p) = []" for start
    using that by (intro probe_stepI) (auto split: prod.splits dest: session_stepD [OF session_work])
  then show ?thesis unfolding link_session_def
    by (intro probe_bind_quiet probe_quiet [OF open_link] probe_with probe_ret) simp_all
qed

lemma link_stage_slots: "probe_step [[0x201A, 0x201B], [0x201B], [0x0406]] link_stage"
  unfolding link_stage_def
  by (intro probe_with probe_cases probe_ret probe_bind_quiet probe_quiet [OF modest_wait_for_peer] session_of)

text \<open>Until a peer is found the arguments stay as they were given.\<close>

definition args_kept :: "(probe, 'a) action \<Rightarrow> bool" where
  "args_kept m \<longleftrightarrow> (\<forall>p. pb_args (snd (m p)) = pb_args p)"

lemma args_kept_base:
  "args_kept (ret x)" "args_kept (throw e)" "args_kept (lift_r v)" "args_kept (on_hci m)"
  "(\<And>p. args_kept (f p)) \<Longrightarrow> args_kept (with_s f)"
  by (simp_all add: args_kept_def on_hci_def split: prod.split)

lemma args_kept_modify:
  "args_kept (modify_s (\<lambda>p. p\<lparr>pb_ctx := c p\<rparr>))" "args_kept (modify_s (\<lambda>p. p\<lparr>pb_live := l p\<rparr>))"
  "args_kept (modify_s (\<lambda>p. p\<lparr>pb_undo := u p\<rparr>))" "args_kept (modify_s (\<lambda>p. p\<lparr>pb_skipped := k p\<rparr>))"
  "args_kept (modify_s (\<lambda>p. p\<lparr>pb_last := n p\<rparr>))" "args_kept (count t)"
  by (simp_all add: args_kept_def count_def)

lemma args_kept_bind: "args_kept m \<Longrightarrow> (\<And>x. args_kept (f x)) \<Longrightarrow> args_kept (bind_s m f)"
  unfolding args_kept_def bind_s_def by (simp split: prod.split sum.split) (metis snd_conv)

lemma args_kept_catch: "args_kept m \<Longrightarrow> (\<And>e. args_kept (f e)) \<Longrightarrow> args_kept (catch_s m f)"
  unfolding args_kept_def catch_s_def by (simp split: prod.split sum.split) (metis snd_conv)

lemma args_kept_cases:
  "args_kept a \<Longrightarrow> args_kept b \<Longrightarrow> args_kept (if c then a else b)"
  "(\<And>x y. args_kept (g x y)) \<Longrightarrow> args_kept (case z of (x, y) \<Rightarrow> g x y)"
  "args_kept n \<Longrightarrow> (\<And>x. args_kept (k x)) \<Longrightarrow> args_kept (case w of None \<Rightarrow> n | Some x \<Rightarrow> k x)"
  "args_kept n \<Longrightarrow> (\<And>x xs. args_kept (j x xs)) \<Longrightarrow> args_kept (case ys of [] \<Rightarrow> n | x # xs \<Rightarrow> j x xs)"
  by (simp_all split: prod.split option.split list.split)

lemmas args_kept_intros = args_kept_base args_kept_modify args_kept_bind args_kept_catch args_kept_cases

lemma args_kept_retry: "args_kept (probe_retry c cs)"
  by (induction c cs rule: probe_retry.induct)
    (simp_all only: probe_retry.simps retry_once_def issue_def, (intro args_kept_intros; assumption)+)

lemma args_kept_send: "args_kept (probe_send c)"
  unfolding probe_send_def row_status_def classify_def refusal_def undo_now_def issue_def
  by (intro args_kept_intros args_kept_retry)

lemma args_kept_rows: "args_kept (send_rows cs)"
  by (induction cs) (simp_all only: send_rows.simps args_kept_base args_kept_bind args_kept_send)

lemma args_kept_undo: "args_kept (undo_all us)"
proof (induction us)
  case (Cons u us)
  then show ?case unfolding undo_all.simps undo_now_def issue_def by (intro args_kept_intros)
qed (simp only: undo_all.simps args_kept_base)

lemma args_kept_unwind: "args_kept unwind"
  unfolding unwind_def by (intro args_kept_intros args_kept_undo)

lemma args_kept_phases: "args_kept probe_phases"
  unfolding probe_phases_def check_alive_def run_phase_def preamble_def
  by (intro args_kept_intros args_kept_rows args_kept_unwind)

definition start_step :: "(probe, 'a) action \<Rightarrow> bool" where
  "start_step m \<longleftrightarrow> args_kept m \<and> (\<forall>p. modest_step m p)"

lemma start_steps: "start_step preamble" "start_step check_handle" "start_step (on_hci (command3 0x1009 []))"
    "start_step (modify_s (\<lambda>p. p\<lparr>pb_ctx := f p\<rparr>))" "start_step probe_phases"
proof -
  have live: "modest_step (modify_s (\<lambda>p. p\<lparr>pb_live := g p\<rparr>)) q" for g q by (rule modest_modify) (simp_all add: modest_def)
  have ops: "0x2015 \<in> set safe_ops" "0x1009 \<in> set safe_ops" using link_ops_safe by simp_all
  show "start_step preamble" unfolding start_step_def using modest_preamble
    unfolding preamble_def by (intro conjI args_kept_intros) blast
  show "start_step check_handle" unfolding start_step_def check_handle_def
    by (intro conjI allI args_kept_intros modest_intros hci_safe_command ops live)
  show "start_step (on_hci (command3 0x1009 []))" unfolding start_step_def
    by (intro conjI allI args_kept_intros modest_on_hci hci_safe_command ops)
  show "start_step (modify_s (\<lambda>p. p\<lparr>pb_ctx := f p\<rparr>))" unfolding start_step_def
    by (intro conjI allI args_kept_intros modest_context)
  show "start_step probe_phases" unfolding start_step_def by (intro conjI allI args_kept_phases modest_phases)
qed

text \<open>What a run without a bisection may hold, by its arguments.\<close>

definition run_slots :: "probe_args \<Rightarrow> nat list list" where
  "run_slots args = (if p_wait_connect args = 0 then [] else [[0x201A, 0x201B], [0x201B], [0x0406]])"

definition unbisected :: "(probe, 'a) action \<Rightarrow> bool" where
  "unbisected m \<longleftrightarrow> (\<forall>p r p'. m p = (r, p') \<longrightarrow> modest p \<longrightarrow> p_bisect (pb_args p) = None \<longrightarrow>
     slotted (run_slots (pb_args p)) (pb_hci p) (pb_hci p'))"

lemma unbisectedI:
  "(\<And>p r p'. m p = (r, p') \<Longrightarrow> modest p \<Longrightarrow> p_bisect (pb_args p) = None \<Longrightarrow>
     slotted (run_slots (pb_args p)) (pb_hci p) (pb_hci p')) \<Longrightarrow> unbisected m"
  unfolding unbisected_def by blast

lemma unbisectedD:
  "unbisected m \<Longrightarrow> m p = (r, p') \<Longrightarrow> modest p \<Longrightarrow> p_bisect (pb_args p) = None \<Longrightarrow>
     slotted (run_slots (pb_args p)) (pb_hci p) (pb_hci p')"
  unfolding unbisected_def by blast

lemma unbisected_bind:
  assumes "start_step m" "\<And>x. unbisected (f x)"
  shows "unbisected (bind_s m f)"
proof (rule unbisectedI)
  fix p r p' assume run: "bind_s m f p = (r, p')" and p: "modest p" "p_bisect (pb_args p) = None"
  obtain y p1 where m: "m p = (y, p1)" by (rule prod.exhaust)
  with assms(1) p(1) have one: "modest p1" "pb_args p1 = pb_args p" "slotted [] (pb_hci p) (pb_hci p1)"
    unfolding start_step_def args_kept_def modest_step_def wrote_safe_def by (metis snd_conv slotted_safe)+
  show "slotted (run_slots (pb_args p)) (pb_hci p) (pb_hci p')"
  proof (cases y)
    case (Inl e)
    with run m slotted_more [OF one(3)] show ?thesis by (simp add: bind_s_def)
  next
    case (Inr x)
    with run m have "f x p1 = (r, p')" by (simp add: bind_s_def)
    from slotted_trans [OF one(3) unbisectedD [OF assms(2) this]] one p(2) show ?thesis by simp
  qed
qed

lemma unbisected_cases: "(\<And>x y. unbisected (g x y)) \<Longrightarrow> unbisected (case z of (x, y) \<Rightarrow> g x y)"
  by (simp split: prod.split)

lemma unbisected_stage: "unbisected (bind_s link_stage (\<lambda>_. with_s (\<lambda>p. ret (g p))))"
proof (rule unbisectedI)
  fix p r p' assume run: "bind_s link_stage (\<lambda>_. with_s (\<lambda>p. ret (g p))) p = (r, p')" and p: "modest p"
  obtain y p1 where m: "link_stage p = (y, p1)" by (rule prod.exhaust)
  with run have "p' = p1" by (cases y) (simp_all add: bind_s_def)
  moreover have "p1 = p" if "p_wait_connect (pb_args p) = 0" using m that by (simp add: link_stage_def)
  ultimately show "slotted (run_slots (pb_args p)) (pb_hci p) (pb_hci p')"
    using probe_stepD [OF link_stage_slots m p] by (auto simp: run_slots_def slotted_refl)
qed

lemma unbisected_branch:
  "unbisected n \<Longrightarrow> unbisected (with_s (\<lambda>p. case p_bisect (pb_args p) of None \<Rightarrow> n | Some target \<Rightarrow> k target))"
  unfolding unbisected_def with_s_def by (auto split: option.splits)

lemma unbisected_run: "unbisected probe_run"
  unfolding probe_run_def
  by (intro unbisected_bind unbisected_cases unbisected_branch start_steps unbisected_stage)

lemma identity_safe: "hci_safe (identity None)"
proof -
  have "hci_safe (\<lambda>h. let h' = (if c then h\<lparr>unsupported := unsupported h @ u\<rparr> else h) in (Inr (g h), h'))" for c u and g :: "hci \<Rightarrow> 'a"
    by (intro hci_safe_mute) (simp add: Let_def)
  moreover have "0x1009 \<in> set safe_ops" "0xFC09 \<in> set safe_ops" using link_ops_safe by simp_all
  ultimately show ?thesis unfolding identity_def by (intro hci_safe_intros)
qed

lemma cmd_probe_slots:
  assumes "\<not> p_consent args" "p_bisect args = None"
  shows "slotted (run_slots args) h (snd (cmd_probe args h))"
proof -
  obtain y h1 where i: "identity None h = (y, h1)" by fastforce
  with identity_safe have one: "slotted [] h h1" unfolding hci_safe_def by (metis slotted_safe snd_conv)
  show ?thesis
  proof (cases y)
    case (Inl e)
    with i slotted_more [OF one] show ?thesis by (simp add: cmd_probe_def bind_s_def)
  next
    case (Inr x)
    obtain own addr_type src where x: "x = (own, addr_type, src)" by (rule prod_cases3)
    let ?p = "probe_start args own addr_type h1"
    obtain r p' where run: "probe_run ?p = (r, p')" by (rule prod.exhaust)
    have "modest ?p" "p_bisect (pb_args ?p) = None" using assms by (simp_all add: modest_def probe_start_def)
    from slotted_trans [OF one] unbisectedD [OF unbisected_run run this] i Inr x run show ?thesis
      by (simp add: cmd_probe_def bind_s_def probe_start_def)
  qed
qed


definition example_args :: probe_args where
  "example_args = \<lparr>p_handle = None, p_consent = False, p_no_adv_set = False, p_settle_ms = 100, p_only = None,
     p_bisect = None, p_wait_connect = 30, p_discover_secs = 5, p_wait_ltk = 20\<rparr>"


text \<open>A bisection is outside that rule: each attempt writes its target, whether or not the row needs consent.\<close>

lemma attempt_sends_target:
  assumes "preamble p = (Inr (), p1)" "replay_rows 0 (rows @ fixed) p1 = (Inr (), p2)" "resolve (pb_ctx p2) (c_payload target) = Inr bs"
    "tx_faults (pb_hci p2) = []" "c_opcode target < 65536" "length bs < 256"
  shows "command_packet (c_opcode target) bs \<in> set (sent (pb_hci (snd (attempt target fixed rows p))))"
proof -
  obtain y h where c: "command (c_opcode target) bs 3000000 True (pb_hci p2) = (y, h)" by fastforce
  with command_writes_once(1) [OF assms(4-6), of 3000000 True] have h: "command_packet (c_opcode target) bs \<in> set (sent h)" by simp
  have more: "set (sent (pb_hci q)) \<subseteq> set (sent (pb_hci (snd (issue op pl t q))))" for op pl t q
  proof (cases "resolve (pb_ctx q) pl")
    case (Inr b)
    with command_writes [of op b t True "pb_hci q"] show ?thesis
      by (auto simp: issue_def bind_s_def on_hci_def split: prod.splits)
  qed (simp add: issue_def bind_s_def)
  have rest: "set (sent (pb_hci q)) \<subseteq> set (sent (pb_hci (snd
      (bind_s (case c_undo target of None \<Rightarrow> ret () | Some u \<Rightarrow> bind_s (issue (fst u) (snd u) 1000000) (\<lambda>_. ret ())) (\<lambda>_. ret st) q))))" for st q
    using more [of q] by (cases "c_undo target") (simp_all add: bind_s_def split: prod.split sum.split, metis snd_conv)
  have "issue (c_opcode target) (c_payload target) 3000000 p2 = (y, p2\<lparr>pb_hci := h\<rparr>)"
    using assms(3) c by (simp add: issue_def bind_s_def on_hci_def)
  with assms(1,2) h subsetD [OF rest, of _ "p2\<lparr>pb_hci := h\<rparr>"] show ?thesis
    by (cases y) (auto simp: attempt_def bind_s_def split: prod.splits)
qed

end
