(* ===== verification/Hci_Iso.thy ===== *)
theory Hci_Iso
  imports Hci_Waits
begin

text \<open>
  \<open>python/hcicontroller/hci_iso.py\<close>: isochronous data over HCI. Sending an SDU, decoding an ISO
  packet, the data path commands, and waiting for a marker SDU. Statistics that are only printed
  (the count of packets reported as lost) are not modelled.
\<close>

section \<open>Operations\<close>

abbreviation (input) OP_LE_READ_BUFFER_SIZE_V2 :: nat where "OP_LE_READ_BUFFER_SIZE_V2 \<equiv> 0x2060"
abbreviation (input) OP_LE_SETUP_ISO_DATA_PATH :: nat where "OP_LE_SETUP_ISO_DATA_PATH \<equiv> 0x206E"
abbreviation (input) ISO_PB_FIRST :: nat where "ISO_PB_FIRST \<equiv> 0"
abbreviation (input) ISO_PB_COMPLETE :: nat where "ISO_PB_COMPLETE \<equiv> 2"
abbreviation (input) ISO_DIRECTION_INPUT :: nat where "ISO_DIRECTION_INPUT \<equiv> 0"
abbreviation (input) ISO_DIRECTION_OUTPUT :: nat where "ISO_DIRECTION_OUTPUT \<equiv> 1"

definition iso_packet :: "nat \<Rightarrow> nat \<Rightarrow> bytes \<Rightarrow> bytes result" where
  "iso_packet handle sequence sdu =
     (let handle_flags = (handle AND 0x0FFF) OR push_bit 12 ISO_PB_COMPLETE in
      bind_r (pack_le 2 (sequence AND 0xFFFF)) (\<lambda>sq.
      bind_r (pack_le 2 (length sdu AND 0x0FFF)) (\<lambda>ln.
      let load = sq @ ln @ sdu in
      bind_r (pack_le 2 handle_flags) (\<lambda>hf.
      bind_r (pack_le 2 (length load)) (\<lambda>total. Inr (hf @ total @ load))))))"

definition send_iso :: "nat \<Rightarrow> nat \<Rightarrow> bytes \<Rightarrow> (hci, unit) action" where
  "send_iso handle sequence sdu =
     (if length sdu > 0x0FFF then throw (HciError ''ISO SDU exceeds the HCI ISO_SDU_Length field'' [])
      else bind_s (lift_r (iso_packet handle sequence sdu)) (\<lambda>packet.
           hci_write_packet ([H4_ISO] @ packet)))"

definition setup_iso_path :: "nat \<Rightarrow> nat \<Rightarrow> (hci, unit) action" where
  "setup_iso_path iso_handle direction =
     bind_s (lift_r (pack_le 2 iso_handle)) (\<lambda>hd16.
     bind_s (lift_r (octet direction)) (\<lambda>dir.
     bind_s (command OP_LE_SETUP_ISO_DATA_PATH
               (hd16 @ dir @ [0] @ [0x03] @ zeros 4 @ zeros 3 @ [0]) 3000000 True) (\<lambda>(status, _).
     if status \<noteq> 0
     then throw (HciError (if direction = ISO_DIRECTION_INPUT
                           then ''LE Setup ISO Data Path input returned %s''
                           else ''LE Setup ISO Data Path output returned %s'') [unat status])
     else ret ())))"

definition read_iso_buffers :: "string \<Rightarrow> (hci, nat) action" where
  "read_iso_buffers label =
     bind_s (command OP_LE_READ_BUFFER_SIZE_V2 [] 3000000 True) (\<lambda>(status, data).
     if status \<noteq> 0 then throw (HciError (label @ '' LE Read Buffer Size v2 returned %s'') [unat status])
     else if length data < 6
     then throw (HciError (label @ '' LE Read Buffer Size v2 returned %d bytes'') [length data])
     else
       let iso_len = from_le (pslice 3 5 data); iso_count = unat (data ! 5) in
       if iso_len = 0 \<or> iso_count = 0
       then throw (HciError (label @ '' controller advertises no HCI ISO buffers'') [])
       else ret iso_len)"

record iso =
  iso_handle :: nat
  iso_pb :: nat
  iso_timestamp :: "nat option"
  iso_sequence :: "nat option"
  iso_sdu_len :: "nat option"
  iso_status :: "nat option"
  iso_fragment :: bytes

definition parse_iso :: "bytes \<Rightarrow> iso result" where
  "parse_iso packet =
     (if length packet < 8 then Inl (HciError ''short HCI ISO packet (%d bytes)'' [length packet])
      else
        let handle_flags = from_le (pslice 0 2 packet);
            total = from_le (pslice 2 4 packet) AND 0x3FFF
        in if total \<noteq> length packet - 4
           then Inl (HciError ''HCI ISO length says %d, received %d'' [total, length packet - 4])
           else
             let handle = handle_flags AND 0x0FFF;
                 pb = drop_bit 12 handle_flags AND 0x03;
                 ts = drop_bit 14 handle_flags AND 0x01
             in if pb = ISO_PB_FIRST \<or> pb = ISO_PB_COMPLETE then
                  bind_r (if ts \<noteq> 0 then
                            (if length packet < 4 + 4
                             then Inl (HciError ''ISO packet has TS flag without timestamp'' [])
                             else bind_r (unpack_le 4 (pslice 4 8 packet)) (\<lambda>t. Inr (Some t, 8)))
                          else Inr (None, 4)) (\<lambda>(timestamp, at).
                  if length packet < at + 4
                  then Inl (HciError ''ISO packet has no sequence/SDU length fields'' [])
                  else
                    bind_r (unpack_le 2 (pslice at (at + 2) packet)) (\<lambda>sq.
                    bind_r (unpack_le 2 (pslice (at + 2) (at + 4) packet)) (\<lambda>field.
                    Inr \<lparr>iso_handle = handle, iso_pb = pb, iso_timestamp = timestamp,
                         iso_sequence = Some sq, iso_sdu_len = Some (field AND 0x0FFF),
                         iso_status = Some (drop_bit 14 field AND 0x03),
                         iso_fragment = drop (at + 4) packet\<rparr>)))
                else Inr \<lparr>iso_handle = handle, iso_pb = pb, iso_timestamp = None, iso_sequence = None,
                          iso_sdu_len = None, iso_status = None, iso_fragment = drop 4 packet\<rparr>)"

text \<open>The body of the loop of \<open>wait_iso\<close>.\<close>

definition wait_iso_judge :: "string \<Rightarrow> nat \<Rightarrow> bytes \<Rightarrow> packet \<Rightarrow> unit option result" where
  "wait_iso_judge label expected_handle expected_sdu p =
     (case p of (kind, code, body) \<Rightarrow>
        if kind = H4_ISO then
          bind_r (parse_iso body) (\<lambda>iso.
            if iso_handle iso \<noteq> expected_handle then Inr None
            else if iso_status iso \<noteq> None \<and> iso_status iso \<noteq> Some 0 then Inr None
            else if iso_pb iso \<noteq> ISO_PB_COMPLETE
            then Inl (HciError (label @ '' received fragmented small ISO SDU'') [])
            else if iso_sdu_len iso \<noteq> Some (length expected_sdu) then Inr None
            else if Some (length (iso_fragment iso)) \<noteq> iso_sdu_len iso
            then Inl (HciError (label @ '' HCI ISO fragment has %d bytes for declared SDU length %d'')
                        [length (iso_fragment iso), the (iso_sdu_len iso)])
            else if iso_fragment iso \<noteq> expected_sdu then Inr None
            else Inr (Some ()))
        else if kind = H4_EVENT \<and> code = Some EVT_DISCONNECTION_COMPLETE then
          bind_r (unpack_le 2 (pslice 1 3 body)) (\<lambda>hd16.
            Inl (HciError (label @ '' disconnected 0x%04X while waiting for ISO, reason %s'')
                   [hd16 AND 0x0FFF, if 4 \<le> length body then unat (body ! 3) else 0]))
        else Inr None)"

definition wait_iso :: "string \<Rightarrow> nat \<Rightarrow> bytes \<Rightarrow> nat \<Rightarrow> (hci, unit) action" where
  "wait_iso label expected_handle expected_sdu timeout =
     bind_s (\<lambda>h. read_until False False 100000 (wait_iso_judge label expected_handle expected_sdu)
                   (clock h + timeout) [] h) (\<lambda>found.
     case found of
       Some _ \<Rightarrow> ret ()
     | None \<Rightarrow> throw (HciError (''timed out waiting for ISO marker at '' @ label) []))"

section \<open>Contracts\<close>

interpretation tx_iso: hci_procedure "send_iso handle sequence sdu" for handle sequence sdu
proof -
  have "hci_procedure (hci_write_packet ([H4_ISO] @ p))" for p
    by unfold_locales (rule hci_write_packet_later, simp)
  then show "hci_procedure (send_iso handle sequence sdu)"
    unfolding send_iso_def by (intro procedure_intros)
qed

interpretation iso_path: hci_procedure "setup_iso_path iso_handle direction" for iso_handle direction
  unfolding setup_iso_path_def by (intro procedure_intros)

interpretation iso_wait: hci_procedure "wait_iso label handle sdu timeout" for label handle sdu timeout
  unfolding wait_iso_def
  by (intro procedure_intros wait_procedure)

section \<open>Properties\<close>

lemma and_0xFFFF [simp]: "(n :: nat) AND 65535 = n mod 65536"
  using take_bit_eq_mask [of 16 n] by (simp add: take_bit_eq_mod mask_eq_exp_minus_1)

lemma and_3 [simp]: "(n :: nat) AND 3 = n mod 4"
  using take_bit_eq_mask [of 2 n] by (simp add: take_bit_eq_mod mask_eq_exp_minus_1)

lemma or_flag:
  assumes "n < 2 ^ k"
  shows "n OR push_bit k m = n + 2 ^ k * (m :: nat)"
proof -
  have "bit n i \<Longrightarrow> \<not> bit (push_bit k m) i" for i
    using assms by (metis bit_push_bit_iff bit_take_bit_iff linorder_not_less take_bit_nat_eq_self)
  then have "n + push_bit k m = n OR push_bit k m" by (intro disjunctive_add) blast
  then show ?thesis by (simp add: push_bit_eq_mult mult.commute)
qed

lemma iso_packet_eq:
  assumes "length sdu \<le> 0x0FFF"
  shows "iso_packet handle sequence sdu =
    Inr (to_le 2 (handle mod 4096 + 8192) @ to_le 2 (4 + length sdu) @
         to_le 2 (sequence mod 65536) @ to_le 2 (length sdu) @ sdu)"
proof -
  have "handle mod 4096 OR push_bit 12 2 = handle mod 4096 + 8192"
    using or_flag [of "handle mod 4096" 12 2] by simp
  moreover have "handle mod 4096 + 8192 < 65536"
    using mod_less_divisor [of 4096 handle] by linarith
  moreover have "length sdu mod 4096 = length sdu" using assms by simp
  ultimately show ?thesis using assms
    by (simp add: iso_packet_def pack_le_def Let_def, intro arg_cong [where f = "to_le 2"], simp)
qed

lemma parse_iso_packet:
  assumes "length sdu \<le> 0x0FFF" "iso_packet handle sequence sdu = Inr pkt"
  shows "parse_iso pkt = Inr \<lparr>iso_handle = handle mod 4096, iso_pb = ISO_PB_COMPLETE,
    iso_timestamp = None, iso_sequence = Some (sequence mod 65536), iso_sdu_len = Some (length sdu),
    iso_status = Some 0, iso_fragment = sdu\<rparr>"
proof -
  let ?w = "handle mod 4096 + 8192"
  have pkt: "pkt = to_le 2 ?w @ to_le 2 (4 + length sdu) @ to_le 2 (sequence mod 65536) @
      to_le 2 (length sdu) @ sdu"
    using iso_packet_eq [OF assms(1), of handle sequence] assms(2) by simp
  have "(handle mod 4096 + 2 * 4096) mod 4096 = (handle mod 4096) mod 4096" by (rule mod_mult_self1)
  then have w: "?w mod 4096 = handle mod 4096" "?w < 65536" "?w div 4096 = 2" "?w div 16384 = 0"
    using mod_less_divisor [of 4096 handle] by (simp_all add: div_eq_0_iff)
  have f: "from_le (take 2 pkt) = ?w" "from_le (pslice 2 4 pkt) = 4 + length sdu"
    "from_le (pslice 4 6 pkt) = sequence mod 65536" "from_le (pslice 6 8 pkt) = length sdu"
    using w(2) assms(1) by (simp_all add: pkt pslice_def from_to_le)
  have "length pkt = 8 + length sdu" "drop 8 pkt = sdu" by (simp_all add: pkt)
  with f w assms(1) show ?thesis
    by (simp add: parse_iso_def Let_def unpack_le_def drop_bit_eq_div)
qed

text \<open>C13. ISO round trip: an SDU of any length the length field can hold is written as one H:4 ISO packet
  that decodes to the same handle, sequence number (modulo 2 to the 16) and SDU, marked complete and
  valid; a longer SDU is refused and nothing is written.\<close>

theorem send_iso_roundtrip:
  assumes "tx_faults h = []"
  shows "if length sdu \<le> 4095
    then \<exists>pkt. send_iso handle sequence sdu h = (Inr (), h\<lparr>sent := sent h @ [[H4_ISO] @ pkt]\<rparr>) \<and>
      parse_iso pkt = Inr \<lparr>iso_handle = handle mod 4096, iso_pb = ISO_PB_COMPLETE,
        iso_timestamp = None, iso_sequence = Some (sequence mod 65536),
        iso_sdu_len = Some (length sdu), iso_status = Some 0, iso_fragment = sdu\<rparr>
    else send_iso handle sequence sdu h =
      (Inl (HciError ''ISO SDU exceeds the HCI ISO_SDU_Length field'' []), h)"
proof (cases "length sdu \<le> 4095")
  case True
  then obtain pkt where "iso_packet handle sequence sdu = Inr pkt" using iso_packet_eq by blast
  with True parse_iso_packet [of sdu handle sequence pkt] assms show ?thesis
    by (auto simp: send_iso_def hci_write_packet_def)
qed (simp add: send_iso_def)

theorem send_iso_roundtrip_witness:
  "\<exists>pkt. send_iso 0x0123 65537 [7] (hci_init [] [] 0) = (Inr (), (hci_init [] [] 0)\<lparr>sent := [[5] @ pkt]\<rparr>) \<and>
     parse_iso pkt = Inr \<lparr>iso_handle = 0x0123, iso_pb = 2, iso_timestamp = None, iso_sequence = Some 1,
        iso_sdu_len = Some 1, iso_status = Some 0, iso_fragment = [7]\<rparr>"
  using send_iso_roundtrip [where h = "hci_init [] [] 0" and sdu = "[7]" and handle = "0x0123"
      and sequence = 65537]
  by (simp add: hci_init_def)

text \<open>Decoding an ISO packet raises only \<open>HciError\<close>, never an index or unpacking error, and what
  it returns is consistent: handle, boundary flag and status are in their ranges, the SDU fields are
  present exactly for a first or complete fragment, and the fragment is a suffix of the packet.\<close>

lemma parse_iso_safe:
  "case parse_iso packet of
     Inl e \<Rightarrow> (\<exists>m args. e = HciError m args)
   | Inr i \<Rightarrow> iso_handle i < 4096 \<and> iso_pb i < 4 \<and> suffix (iso_fragment i) packet \<and>
       (iso_sequence i \<noteq> None \<longleftrightarrow> iso_pb i \<in> {ISO_PB_FIRST, ISO_PB_COMPLETE}) \<and>
       (iso_sdu_len i \<noteq> None \<longleftrightarrow> iso_pb i \<in> {ISO_PB_FIRST, ISO_PB_COMPLETE})"
proof -
  let ?w = "from_le (take 2 packet)"
  have pb: "drop_bit 12 ?w mod 4 < 4" and hnd: "?w mod 4096 < 4096" by simp_all
  consider (short) "length packet < 8" | (len) "8 \<le> length packet" "from_le (pslice 2 4 packet) mod 16384 \<noteq> length packet - 4"
    | (ok) "8 \<le> length packet" "from_le (pslice 2 4 packet) mod 16384 = length packet - 4" by linarith
  then show ?thesis
  proof cases
    case ok
    consider (sdu) "drop_bit 12 ?w mod 4 = 0 \<or> drop_bit 12 ?w mod 4 = 2"
      | (cont) "\<not> (drop_bit 12 ?w mod 4 = 0 \<or> drop_bit 12 ?w mod 4 = 2)" by blast
    then show ?thesis
    proof cases
      case sdu
      with ok pb hnd show ?thesis
        by (cases "drop_bit 14 ?w AND 1 = 0"; cases "length packet < 12")
          (simp_all add: parse_iso_def Let_def unpack_le_def suffix_drop del: drop_bit_drop_bit)
    next
      case cont
      with ok pb hnd show ?thesis by (simp add: parse_iso_def Let_def suffix_drop)
    qed
  qed (simp_all add: parse_iso_def Let_def)
qed

lemma wait_iso_judge_found:
  "wait_iso_judge label hnd sdu p = Inr (Some ()) \<longleftrightarrow>
     (\<exists>code body i. p = (H4_ISO, code, body) \<and> parse_iso body = Inr i \<and> iso_handle i = hnd \<and>
        (iso_status i = None \<or> iso_status i = Some 0) \<and> iso_pb i = ISO_PB_COMPLETE \<and>
        iso_sdu_len i = Some (length sdu) \<and> iso_fragment i = sdu)"
proof -
  obtain kind code body where p: "p = (kind, code, body)" by (metis prod_cases3)
  show ?thesis
  proof (cases "kind = H4_ISO")
    case True
    with p show ?thesis by (cases "parse_iso body") (auto simp: wait_iso_judge_def)
  next
    case False
    with p show ?thesis by (simp add: wait_iso_judge_def bind_r_iff)
  qed
qed



end
