(* ===== verification/Connected_Features.thy ===== *)
theory Connected_Features
  imports Hci_Iso Hci_Replies Struct_Codec
begin

text \<open>
  The procedures of one controller in \<open>python/hcicontroller/connected_features.py\<close>: waiting for one
  LE Meta subevent or one L2CAP marker while every other packet is kept, and the connection
  procedures built on it (RSSI, remote features, data length, PHY, sleep clock accuracy, power
  control, path loss). A status in a message is the number \<open>status_text\<close> prints.
\<close>

section \<open>Waiting\<close>

definition le_subevent_judge ::
  "byte \<Rightarrow> nat option \<Rightarrow> nat option \<Rightarrow> (bytes \<Rightarrow> bool) \<Rightarrow> packet \<Rightarrow> bytes option result" where
  "le_subevent_judge subevent handle handle_offset predicate p =
     (case p of (kind, code, body) \<Rightarrow>
        if kind = H4_EVENT \<and> code = Some EVT_LE_META \<and> body \<noteq> [] \<and> body ! 0 = subevent then
          let matches =
            (case handle of None \<Rightarrow> True | Some h \<Rightarrow>
               (case handle_offset of None \<Rightarrow> False | Some off \<Rightarrow>
                  off + 2 \<le> length body \<and> from_le (pslice off (off + 2) body) AND 0x0FFF = h))
          in if matches \<and> predicate body then Inr (Some body) else Inr None
        else Inr None)"

definition wait_le_subevent ::
  "byte \<Rightarrow> nat option \<Rightarrow> nat option \<Rightarrow> (bytes \<Rightarrow> bool) \<Rightarrow> nat \<Rightarrow> (hci, bytes option) action" where
  "wait_le_subevent subevent handle handle_offset predicate timeout =
     (\<lambda>h. read_until True True 200000 (le_subevent_judge subevent handle handle_offset predicate)
            (clock h + timeout) [] h)"

definition acl_marker_judge :: "nat \<Rightarrow> nat \<Rightarrow> bytes \<Rightarrow> packet \<Rightarrow> unit option result" where
  "acl_marker_judge expected_handle expected_cid expected_payload p =
     (case p of (kind, code, body) \<Rightarrow>
        if kind \<noteq> H4_ACL \<or> length body < 8 then Inr None
        else
          let handle = from_le (take 2 body) AND 0x0FFF; total_len = from_le (pslice 2 4 body) in
          if total_len \<noteq> length body - 4 \<or> handle \<noteq> expected_handle then Inr None
          else
            let l2cap_len = from_le (pslice 4 6 body); cid = from_le (pslice 6 8 body);
                load = pslice 8 (8 + l2cap_len) body
            in if cid = expected_cid \<and> load = expected_payload then Inr (Some ()) else Inr None)"

definition wait_acl_marker :: "nat \<Rightarrow> nat \<Rightarrow> bytes \<Rightarrow> nat \<Rightarrow> (hci, bool) action" where
  "wait_acl_marker expected_handle expected_cid expected_payload timeout =
     bind_s (\<lambda>h. read_until True True 200000
                   (acl_marker_judge expected_handle expected_cid expected_payload) (clock h + timeout) [] h)
       (\<lambda>found. ret (found \<noteq> None))"

section \<open>Commands with their parameters and their refusal\<close>

text \<open>\<open>hci.command(opcode, struct.pack(...), allow_fail=True)\<close>.\<close>

definition request :: "nat \<Rightarrow> bytes result \<Rightarrow> (hci, byte \<times> bytes) action" where
  "request opcode block = bind_s (lift_r block) (\<lambda>bs. command opcode bs 3000000 True)"

text \<open>\<open>if status != 0: raise HciError("... returned %s" % status_text(status))\<close>.\<close>

definition command_ok :: "nat \<Rightarrow> bytes result \<Rightarrow> string \<Rightarrow> (hci, bytes) action" where
  "command_ok opcode block name =
     bind_s (request opcode block) (\<lambda>(status, data).
     if status \<noteq> 0 then throw (HciError (name @ '' returned %s'') [unat status]) else ret data)"

text \<open>\<open>if body is None: raise HciError(...)\<close>.\<close>

definition required :: "string \<Rightarrow> nat list \<Rightarrow> (hci, 'a option) action \<Rightarrow> (hci, 'a) action" where
  "required msg args m = bind_s m (\<lambda>found. case found of None \<Rightarrow> throw (HciError msg args) | Some x \<Rightarrow> ret x)"

section \<open>Connection procedures\<close>

definition read_rssi :: "nat \<Rightarrow> (hci, int) action" where
  "read_rssi handle =
     bind_s (request 0x1405 (struct_pack [FH handle])) (\<lambda>(status, data).
     if status \<noteq> 0 \<or> length data < 3 then throw (HciError ''Read RSSI returned %s'' [unat status])
     else
       let got = from_le (take 2 data) AND 0x0FFF in
       if got \<noteq> handle
       then throw (HciError ''Read RSSI returned handle 0x%04X, expected 0x%04X'' [got, handle])
       else ret (sint (data ! 2)))"

definition read_remote_features :: "nat \<Rightarrow> (hci, bytes) action" where
  "read_remote_features handle =
     bind_s (command_ok 0x2016 (struct_pack [FH handle]) ''LE Read Remote Features'') (\<lambda>_.
     bind_s (required ''no LE Read Remote Features Complete event'' []
               (wait_le_subevent 0x04 (Some handle) (Some 2) (\<lambda>event. 4 \<le> length event) 5000000)) (\<lambda>body.
     if body ! 1 \<noteq> 0
     then throw (HciError ''LE Read Remote Features Complete returned %s'' [unat (body ! 1)])
     else if length body < 12
     then throw (HciError ''LE Read Remote Features Complete returned %d bytes, expected at least 12''
                   [length body])
     else ret (pslice 4 12 body)))"

definition set_data_length :: "nat \<Rightarrow> (hci, nat \<times> nat) action" where
  "set_data_length handle =
     bind_s (command_ok 0x2022 (struct_pack [FH handle, FH 251, FH 2120]) ''LE Set Data Length'') (\<lambda>_.
     bind_s (required ''no LE Data Length Change event'' []
               (wait_le_subevent 0x07 (Some handle) (Some 1) (\<lambda>event. 11 \<le> length event) 5000000)) (\<lambda>body.
     ret (from_le (pslice 3 5 body), from_le (pslice 7 9 body))))"

definition set_phy :: "nat \<Rightarrow> byte \<Rightarrow> (hci, unit) action" where
  "set_phy handle phy =
     bind_s (command_ok 0x2032 (struct_pack [FH handle, FB 0, FB (unat phy), FB (unat phy), FH 0]) ''LE Set PHY'') (\<lambda>_.
     bind_s (required ''no successful PHY Update Complete to PHY %u'' [unat phy]
               (wait_le_subevent 0x0C (Some handle) (Some 2)
                  (\<lambda>event. 6 \<le> length event \<and> event ! 1 = 0 \<and> event ! 4 = phy \<and> event ! 5 = phy) 5000000)) (\<lambda>_.
     bind_s (request 0x2030 (struct_pack [FH handle])) (\<lambda>(status, data).
     if status \<noteq> 0 \<or> length data < 4 then throw (HciError ''LE Read PHY failed after PHY update'' [])
     else if data ! 2 \<noteq> phy \<or> data ! 3 \<noteq> phy
     then throw (HciError ''LE Read PHY reports tx %u rx %u, expected %u''
                   [unat (data ! 2), unat (data ! 3), unat phy])
     else ret ())))"

definition request_peer_sca :: "nat \<Rightarrow> (hci, byte) action" where
  "request_peer_sca handle =
     bind_s (command_ok 0x206D (struct_pack [FH handle]) ''LE Request Peer SCA'') (\<lambda>_.
     bind_s (required ''no successful LE Request Peer SCA Complete event'' []
               (wait_le_subevent 0x1F (Some handle) (Some 2)
                  (\<lambda>event. 5 \<le> length event \<and> event ! 1 = 0) 5000000)) (\<lambda>body.
     ret (body ! 4)))"

definition power_control :: "nat \<Rightarrow> (hci, unit) action" where
  "power_control handle =
     bind_s (request 0x2076 (struct_pack [FH handle, FB 1])) (\<lambda>(status, data).
     if status \<noteq> 0 \<or> length data < 5
     then throw (HciError ''LE Enhanced Read Transmit Power Level returned %s'' [unat status])
     else
       bind_s (command_ok 0x207A (struct_pack [FH handle, FB 1, FB 1])
                 ''LE Set Transmit Power Reporting Enable'') (\<lambda>_.
       bind_s (command_ok 0x2077 (struct_pack [FH handle, FB 1])
                 ''LE Read Remote Transmit Power Level'') (\<lambda>_.
       bind_s (required ''no successful LE Transmit Power Reporting event'' []
                 (wait_le_subevent 0x21 (Some handle) (Some 2)
                    (\<lambda>event. 8 \<le> length event \<and> event ! 1 = 0) 5000000)) (\<lambda>_.
       ret ()))))"

definition path_loss_monitor :: "nat \<Rightarrow> nat \<Rightarrow> (hci, bool) action" where
  "path_loss_monitor handle timeout =
     bind_s (command_ok 0x2078 (struct_pack [FH handle, FB 70, FB 10, FB 50, FB 10, FH 5])
               ''LE Set Path Loss Reporting Parameters'') (\<lambda>_.
     bind_s (command_ok 0x2079 (struct_pack [FH handle, FB 1]) ''LE Set Path Loss Reporting Enable'') (\<lambda>_.
     bind_s (wait_le_subevent 0x20 (Some handle) (Some 1) (\<lambda>event. 5 \<le> length event) timeout) (\<lambda>body.
     bind_s (request 0x2079 (struct_pack [FH handle, FB 0])) (\<lambda>_.
     ret (body \<noteq> None)))))"

section \<open>Contracts\<close>

interpretation le_wait: hci_procedure "wait_le_subevent subevent handle off predicate timeout"
  for subevent handle off predicate timeout
  unfolding wait_le_subevent_def by (rule wait_procedure)

interpretation acl_wait: hci_procedure "wait_acl_marker handle cid payload timeout" for handle cid payload timeout
  unfolding wait_acl_marker_def by (intro procedure_intros wait_procedure)

interpretation req: hci_procedure "request opcode block" for opcode block
  unfolding request_def by (intro procedure_intros)

interpretation ok: hci_procedure "command_ok opcode block name" for opcode block name
  unfolding command_ok_def by (intro procedure_intros req.hci_procedure_axioms)

lemma required_procedure: "hci_procedure m \<Longrightarrow> hci_procedure (required msg args m)"
  unfolding required_def by (intro procedure_intros)

lemmas feature_intros = procedure_intros req.hci_procedure_axioms ok.hci_procedure_axioms required_procedure
  le_wait.hci_procedure_axioms acl_wait.hci_procedure_axioms

interpretation rssi: hci_procedure "read_rssi handle" for handle
  unfolding read_rssi_def by (intro feature_intros)

interpretation remote_features: hci_procedure "read_remote_features handle" for handle
  unfolding read_remote_features_def by (intro feature_intros)

interpretation data_length: hci_procedure "set_data_length handle" for handle
  unfolding set_data_length_def by (intro feature_intros)

interpretation phy: hci_procedure "set_phy handle p" for handle p
  unfolding set_phy_def by (intro feature_intros)

interpretation peer_sca: hci_procedure "request_peer_sca handle" for handle
  unfolding request_peer_sca_def by (intro feature_intros)

interpretation power: hci_procedure "power_control handle" for handle
  unfolding power_control_def by (intro feature_intros)

interpretation path_loss: hci_procedure "path_loss_monitor handle timeout" for handle timeout
  unfolding path_loss_monitor_def by (intro feature_intros)

section \<open>Nothing else is lost\<close>

lemma le_subevent_judge_iff:
  "le_subevent_judge subevent handle off predicate p = Inr (Some x) \<longleftrightarrow>
     p = (H4_EVENT, Some EVT_LE_META, x) \<and> x \<noteq> [] \<and> x ! 0 = subevent \<and> predicate x \<and>
     (case handle of None \<Rightarrow> True | Some hnd \<Rightarrow> (case off of None \<Rightarrow> False | Some i \<Rightarrow>
        i + 2 \<le> length x \<and> from_le (pslice i (i + 2) x) AND 0x0FFF = hnd))"
  by (cases p) (auto simp: le_subevent_judge_def Let_def split: if_splits option.splits)

text \<open>A wait for an LE Meta subevent loses nothing: when it returns an event, that event is the only
  packet gone from what the controller had sent, it has the subevent code, the connection handle at
  the asked offset and satisfies the predicate; when it expires everything is still there; and it
  raises only what the transport raises.\<close>

lemma wait_le_subevent_keeps_others:
  "case wait_le_subevent subevent (Some hnd) (Some off) predicate timeout h of
     (Inr (Some x), h') \<Rightarrow> inbox h = add_mset (H4_EVENT, Some EVT_LE_META, x) (inbox h') \<and> sent h' = sent h \<and>
        x ! 0 = subevent \<and> predicate x \<and> from_le (pslice off (off + 2) x) mod 4096 = hnd
   | (Inr None, h') \<Rightarrow> inbox h' = inbox h \<and> sent h' = sent h
   | (Inl e, h') \<Rightarrow> (\<exists>t h1. read_wire t h1 = (Inl e, h'))"
proof -
  let ?J = "le_subevent_judge subevent (Some hnd) (Some off) predicate"
  obtain r h' where w: "wait_le_subevent subevent (Some hnd) (Some off) predicate timeout h = (r, h')" by fastforce
  then have u: "read_until True True 200000 ?J (clock h + timeout) [] h = (r, h')" by (simp add: wait_le_subevent_def)
  have judge: "?J p \<noteq> Inl e" for p e
    by (cases p) (simp add: le_subevent_judge_def Let_def)
  consider (hit) x where "r = Inr (Some x)" | (none) "r = Inr None" | (err) e where "r = Inl e"
    by (cases r, blast, metis option.exhaust)
  then show ?thesis
  proof cases
    case hit
    with wait_takes_match [OF u [unfolded hit]] w show ?thesis by (auto simp: le_subevent_judge_iff)
  next
    case none
    with wait_expires_keeping [OF u [unfolded none]] w show ?thesis by simp
  next
    case err
    from read_until_end [OF u [unfolded err]] have "\<exists>t h1. read_wire t h1 = (Inl e, h')"
      by cases (use judge in auto)
    with w err show ?thesis by simp
  qed
qed

lemma command_ok_iff:
  "command_ok opcode block name h = (Inr data, h') \<longleftrightarrow>
     (\<exists>bs. block = Inr bs \<and> command opcode bs 3000000 True h = (Inr (0, data), h'))"
  by (cases block) (auto simp: command_ok_def request_def bind_s_Inr_iff split: if_splits)

lemma required_iff: "required msg args m h = (Inr x, h') \<longleftrightarrow> m h = (Inr (Some x), h')"
  by (auto simp: required_def bind_s_Inr_iff split: option.splits)

lemma wait_le_subevent_takes:
  assumes "wait_le_subevent subevent (Some hnd) (Some off) predicate timeout h = (Inr (Some x), h')"
  shows "inbox h = add_mset (H4_EVENT, Some EVT_LE_META, x) (inbox h')" "sent h' = sent h" "x ! 0 = subevent"
    "predicate x" "from_le (pslice off (off + 2) x) mod 4096 = hnd"
  using wait_takes_match [OF assms [unfolded wait_le_subevent_def]] by (auto simp: le_subevent_judge_iff)

text \<open>A PHY change is reported as done only when the controller confirmed it three times: it accepted
  LE Set PHY, a PHY Update Complete event for this connection named the asked PHY in both directions,
  and LE Read PHY read it back. Those three packets are all the procedure takes, and the two commands
  are all it writes.\<close>

lemma set_phy_confirmed:
  assumes "set_phy hnd phy h = (Inr (), h')"
  shows "\<exists>accepted x answer data m1 d1 m2.
    inbox h = inbox h' + {#accepted, (H4_EVENT, Some EVT_LE_META, x), answer#} \<and>
    sent h' = sent h @ [command_packet 0x2032 (to_le 2 hnd @ [0, phy, phy, 0, 0]), command_packet 0x2030 (to_le 2 hnd)] \<and>
    command_answer 0x2032 accepted = Inr (Some (m1, 0, d1)) \<and>
    x ! 0 = 0x0C \<and> x ! 1 = 0 \<and> from_le (pslice 2 4 x) mod 4096 = hnd \<and> x ! 4 = phy \<and> x ! 5 = phy \<and>
    command_answer 0x2030 answer = Inr (Some (m2, 0, data)) \<and> data ! 2 = phy \<and> data ! 3 = phy"
proof -
  from assms obtain bs1 d1 h1 x h2 bs2 data where
    1: "struct_pack [FH hnd, FB 0, FB (unat phy), FB (unat phy), FH 0] = Inr bs1"
      "command 0x2032 bs1 3000000 True h = (Inr (0, d1), h1)"
    and 2: "wait_le_subevent 0x0C (Some hnd) (Some 2)
       (\<lambda>event. 6 \<le> length event \<and> event ! 1 = 0 \<and> event ! 4 = phy \<and> event ! 5 = phy) 5000000 h1 = (Inr (Some x), h2)"
    and 3: "struct_pack [FH hnd] = Inr bs2" "command 0x2030 bs2 3000000 True h2 = (Inr (0, data), h')"
      "data ! 2 = phy" "data ! 3 = phy"
    by (auto simp: set_phy_def bind_s_Inr_iff command_ok_iff required_iff request_def lift_r_def split: if_splits)
  have bs: "bs1 = to_le 2 hnd @ [0, phy, phy, 0, 0]" "bs2 = to_le 2 hnd"
    using 1(1) 3(1) by (auto simp: struct_pack_def cat.simps pack_le_def bind_r_iff to_le_2 split: if_splits)
  from command_takes_answer [OF 1(2)] obtain a1 m1 where a1: "command_answer 0x2032 a1 = Inr (Some (m1, 0, d1))"
    "inbox h = add_mset a1 (inbox h1)" "sent h1 = sent h @ [command_packet 0x2032 bs1]" by blast
  from command_takes_answer [OF 3(2)] obtain a2 m2 where a2: "command_answer 0x2030 a2 = Inr (Some (m2, 0, data))"
    "inbox h2 = add_mset a2 (inbox h')" "sent h' = sent h2 @ [command_packet 0x2030 bs2]" by blast
  note x = wait_le_subevent_takes [OF 2]
  have "inbox h = inbox h' + {#a1, (H4_EVENT, Some EVT_LE_META, x), a2#}"
    using a1(2) a2(2) x(1) by simp
  moreover have "sent h' = sent h @ [command_packet 0x2032 bs1, command_packet 0x2030 bs2]"
    using a1(3) a2(3) x(2) by simp
  ultimately show ?thesis using a1(1) a2(1) 3(3,4) x(3-5) unfolding bs by (intro exI conjI) auto
qed

lemma set_phy_confirmed_witness:
  "\<exists>h'. set_phy 1 2 (hci_init [(5, Inr (reply_to 0x2032 [])), (5, Inr (4, Some 0x3E, [0x0C, 0, 1, 0, 2, 2])),
      (5, Inr (reply_to 0x2030 [1, 0, 2, 2]))] [] 0) = (Inr (), h') \<and>
    sent h' = [command_packet 0x2032 (to_le 2 1 @ [0, 2, 2, 0, 0]), command_packet 0x2030 (to_le 2 1)]"
proof -
  let ?h = "hci_init [(5, Inr (reply_to 0x2032 [])), (5, Inr (4, Some 0x3E, [0x0C, 0, 1, 0, 2, 2])),
      (5, Inr (reply_to 0x2030 [1, 0, 2, 2]))] [] 0"
  have "fst (set_phy 1 2 ?h) = Inr ()"
    by (simp add: set_phy_def command_ok_def request_def required_def bind_s_def struct_pack_def cat.simps pack_le_def
      command_replied hci_init_def wait_le_subevent_def read_until.simps hci_read_packet_def read_wire_def on_event_def
      le_subevent_judge_def Let_def restore_def)
  then obtain h' where "set_phy 1 2 ?h = (Inr (), h')" by (metis prod.collapse)
  with set_phy_confirmed [OF this] show ?thesis by (auto simp: hci_init_def)
qed

end
