(* ===== verification/Hci_Pair.thy ===== *)
theory Hci_Pair
  imports Connected_Features
begin

text \<open>
  Two controllers on one bench, \<open>python/hcicontroller/hci_pair.py\<close>: preparing a controller, legacy
  advertising and connecting, waiting for the connection on both sides, and disconnecting. The
  state is the central and the peripheral. Time is shared: while one is read, what the other sends
  is buffered by its transport. Finding and opening the serial ports is not modelled.
\<close>

section \<open>Two controllers\<close>

type_synonym pair = "hci \<times> hci"

definition catch_up :: "nat \<Rightarrow> hci \<Rightarrow> hci" where
  "catch_up dt h = h\<lparr>clock := clock h + dt, wire := elapse dt (wire h)\<rparr>"

definition on_central :: "(hci, 'a) action \<Rightarrow> (pair, 'a) action" where
  "on_central m s = (case m (fst s) of (r, c) \<Rightarrow> (r, (c, catch_up (clock c - clock (fst s)) (snd s))))"

definition on_peripheral :: "(hci, 'a) action \<Rightarrow> (pair, 'a) action" where
  "on_peripheral m s = (case m (snd s) of (r, p) \<Rightarrow> (r, (catch_up (clock p - clock (snd s)) (fst s), p)))"

section \<open>Preparing, advertising, connecting\<close>

definition DEFAULT_LE_EVENT_MASK :: bytes where
  "DEFAULT_LE_EVENT_MASK = [0xff, 0xff, 0xff, 0xff, 0xff, 0xff, 0xff, 0x1f]"

definition prepare_controller :: "bytes \<Rightarrow> (hci, bytes \<times> byte \<times> string) action" where
  "prepare_controller event_mask =
     bind_s hci_setup (\<lambda>_.
     bind_s (command3 OP_LE_SET_EVENT_MASK event_mask) (\<lambda>_.
     bind_s (identity None) (\<lambda>(own, addr_type, source).
     bind_s (if addr_type = 0x01 then bind_s (command3 OP_LE_SET_RANDOM_ADDRESS own) (\<lambda>_. ret ()) else ret ()) (\<lambda>_.
     ret (own, addr_type, source)))))"

definition start_legacy_advertising :: "byte \<Rightarrow> bool \<Rightarrow> (hci, unit) action" where
  "start_legacy_advertising addr_type connectable =
     (let adv_type = (if connectable then 0x00 else 0x03); adv = [2, 0x01, 0x06] in
      bind_s (lift_r (struct_pack [FH 0x00A0, FH 0x00A0])) (\<lambda>intervals.
      bind_s (command3 0x2006 (intervals @ [adv_type, addr_type, 0x00] @ zeros 6 @ [0x07, 0x00])) (\<lambda>_.
      bind_s (command3 0x2008 ([of_nat (length adv)] @ adv @ zeros (31 - length adv))) (\<lambda>_.
      bind_s (command3 0x2009 (zeros 32)) (\<lambda>_.
      bind_s (command3 0x200A [0x01]) (\<lambda>_. ret ()))))))"

definition start_legacy_connection :: "byte \<Rightarrow> bytes \<Rightarrow> byte \<Rightarrow> (hci, unit) action" where
  "start_legacy_connection central_type peer_addr peer_type =
     bind_s (request 0x200D (cat [struct_pack [FH 0x0060, FH 0x0030], Inr [0x00, peer_type], Inr peer_addr,
        Inr [central_type], struct_pack [FH 0x0018, FH 0x0028], struct_pack [FH 0, FH 400],
        struct_pack [FH 0, FH 0]])) (\<lambda>(status, _).
     if status \<noteq> 0 then throw (HciError ''LE Create Connection returned 0x%02X'' [unat status]) else ret ())"

section \<open>Waiting for the connection on both sides\<close>

text \<open>One read of one side, and what is made of the packet. The CIS test has the same loop with other messages,
  so the two messages, the first with the status, are arguments.\<close>

type_synonym acl_words = "(nat \<Rightarrow> exn) \<times> string"

definition connection_judge :: "acl_words \<Rightarrow> byte \<Rightarrow> packet option \<Rightarrow> nat option result" where
  "connection_judge words expected_role packet =
     (case packet of
        None \<Rightarrow> Inr None
      | Some (kind, code, body) \<Rightarrow>
          if kind \<noteq> H4_EVENT \<or> code \<noteq> Some EVT_LE_META then Inr None
          else bind_r (parse_connection body) (\<lambda>info.
            case info of
              None \<Rightarrow> Inr None
            | Some c \<Rightarrow>
                if conn_status c \<noteq> 0
                then Inl (fst words (unat (conn_status c)))
                else if conn_role c \<noteq> expected_role
                then Inl (HciError (snd words)
                            [unat (conn_role c), unat expected_role])
                else Inr (Some (conn_handle c))))"

definition read_connection :: "acl_words \<Rightarrow> byte \<Rightarrow> (hci, nat option) action" where
  "read_connection words expected_role =
     bind_s (hci_read_packet 100000) (\<lambda>packet. lift_r (connection_judge words expected_role packet))"

definition pair_budget :: "nat \<Rightarrow> pair \<Rightarrow> nat" where
  "pair_budget deadline s = budget deadline (fst s) + length (pending (snd s)) + length (wire (snd s))"

lemma length_elapse [simp]: "length (elapse t w) = length w"
  by (induction t w rule: elapse.induct) simp_all

lemma read_connection_state:
  assumes "read_connection words role h = (Inr x, h')"
  shows "\<exists>po. hci_read_packet 100000 h = (Inr po, h') \<and> connection_judge words role po = Inr x"
  using assms by (auto simp: read_connection_def bind_s_Inr_iff)

lemma read_packet_lengths:
  assumes "hci_read_packet t h = (Inr po, h')"
  shows "length (pending h') + length (wire h') \<le> length (pending h) + length (wire h)" "clock h \<le> clock h'"
  using read_wire_spec [of h t] assms by (cases "pending h"; cases po; auto simp: hci_read_packet_def)+

lemma pair_read_budget:
  assumes c: "on_central (read_connection l1 r1) s = (Inr x, s1)"
    and p: "on_peripheral (read_connection l2 r2) s1 = (Inr y, s2)" and t: "clock (fst s) < deadline"
  shows "pair_budget deadline s2 < pair_budget deadline s"
proof -
  obtain a where a: "read_connection l1 r1 (fst s) = (Inr x, a)" "s1 = (a, catch_up (clock a - clock (fst s)) (snd s))"
    using c by (auto simp: on_central_def split: prod.splits)
  obtain b where b: "read_connection l2 r2 (snd s1) = (Inr y, b)" "s2 = (catch_up (clock b - clock (snd s1)) a, b)"
    using p a(2) by (auto simp: on_peripheral_def split: prod.splits)
  obtain po where "hci_read_packet 100000 (fst s) = (Inr po, a)" using read_connection_state [OF a(1)] by blast
  then have "budget deadline a < budget deadline (fst s)" using hci_read_packet_budget t by simp
  moreover obtain po' where "hci_read_packet 100000 (snd s1) = (Inr po', b)" using read_connection_state [OF b(1)] by blast
  then have "length (pending b) + length (wire b) \<le> length (pending (snd s)) + length (wire (snd s))"
    using read_packet_lengths(1) a(2) by (fastforce simp: catch_up_def)
  ultimately show ?thesis by (simp add: pair_budget_def budget_def b(2) catch_up_def)
qed

definition newer :: "'a option \<Rightarrow> 'a option \<Rightarrow> 'a option" where
  "newer old new = (case new of None \<Rightarrow> old | Some x \<Rightarrow> Some x)"

function wait_acl_loop :: "acl_words \<Rightarrow> acl_words \<Rightarrow> nat \<Rightarrow> nat option \<Rightarrow> nat option \<Rightarrow> (pair, nat option \<times> nat option) action" where
  "wait_acl_loop wc wp deadline hc hp s =
     (if clock (fst s) < deadline \<and> (hc = None \<or> hp = None) then
        (case on_central (read_connection wc 0) s of
           (Inl e, s1) \<Rightarrow> (Inl e, s1)
         | (Inr nc, s1) \<Rightarrow>
             (case on_peripheral (read_connection wp 1) s1 of
                (Inl e, s2) \<Rightarrow> (Inl e, s2)
              | (Inr np, s2) \<Rightarrow> wait_acl_loop wc wp deadline (newer hc nc) (newer hp np) s2))
      else (Inr (hc, hp), s))"
  by pat_completeness auto
termination
proof (relation "measure (\<lambda>(_, _, deadline, _, _, s). pair_budget deadline s)", simp, unfold in_measure case_prod_conv)
  fix wc wp deadline hc hp and s s1 s2 :: pair and rc rp nc np
  assume "clock (fst s) < deadline \<and> (hc = None \<or> hp = None)" "(rc, s1) = on_central (read_connection wc 0) s" "rc = Inr nc"
    "(rp, s2) = on_peripheral (read_connection wp 1) s1" "rp = Inr np"
  then show "pair_budget deadline s2 < pair_budget deadline s" by (intro pair_read_budget [of wc 0 s nc s1 wp 1 np]) simp_all
qed

declare wait_acl_loop.simps [simp del]

definition wait_acl_by :: "acl_words \<Rightarrow> acl_words \<Rightarrow> nat \<Rightarrow> (pair, nat \<times> nat) action" where
  "wait_acl_by wc wp timeout s =
     bind_s (wait_acl_loop wc wp (clock (fst s) + timeout) None None) (\<lambda>(hc, hp).
     case (hc, hp) of
       (Some c, Some p) \<Rightarrow> ret (c, p)
     | _ \<Rightarrow> throw (HciError ''timed out waiting for both ACL connection events'' [])) s"

definition pair_words :: "string \<Rightarrow> acl_words" where
  "pair_words label =
     (\<lambda>status. HciError (label @ '' connection failed: 0x%02X'') [status], label @ '' reported role %u, expected %u'')"

definition wait_acl_pair :: "nat \<Rightarrow> (pair, nat \<times> nat) action" where
  "wait_acl_pair = wait_acl_by (pair_words ''central'') (pair_words ''peripheral'')"

record acl_pair =
  central_identity :: bytes
  central_identity_source :: string
  peripheral_identity :: bytes
  peripheral_identity_source :: string
  central_handle :: nat
  peripheral_handle :: nat

definition establish_legacy_acl_pair :: "(pair, acl_pair) action" where
  "establish_legacy_acl_pair =
     bind_s (on_peripheral (prepare_controller DEFAULT_LE_EVENT_MASK)) (\<lambda>(peripheral_id, peripheral_type, peripheral_source).
     bind_s (on_central (prepare_controller DEFAULT_LE_EVENT_MASK)) (\<lambda>(central_id, central_type, central_source).
     bind_s (on_peripheral (start_legacy_advertising peripheral_type True)) (\<lambda>_.
     bind_s (on_central (start_legacy_connection central_type peripheral_id peripheral_type)) (\<lambda>_.
     bind_s (wait_acl_pair 10000000) (\<lambda>(c, p).
     ret \<lparr>central_identity = central_id, central_identity_source = central_source,
          peripheral_identity = peripheral_id, peripheral_identity_source = peripheral_source,
          central_handle = c, peripheral_handle = p\<rparr>)))))"

section \<open>Disconnecting\<close>

definition disconnected_judge :: "nat \<Rightarrow> packet \<Rightarrow> unit option result" where
  "disconnected_judge handle p =
     (case p of (kind, code, body) \<Rightarrow>
        if kind \<noteq> H4_EVENT \<or> code \<noteq> Some EVT_DISCONNECTION_COMPLETE then Inr None
        else if length body < 3 then Inr None
        else if from_le (pslice 1 3 body) AND 0x0FFF = handle then Inr (Some ()) else Inr None)"

definition wait_disconnected :: "nat \<Rightarrow> nat \<Rightarrow> (hci, bool) action" where
  "wait_disconnected handle timeout =
     bind_s (\<lambda>h. read_until False False 100000 (disconnected_judge handle) (clock h + timeout) [] h)
       (\<lambda>found. ret (found \<noteq> None))"

text \<open>\<open>try: m except (HciError, HciGone): pass\<close>.\<close>

definition quietly :: "('s, 'a) action \<Rightarrow> ('s, unit) action" where
  "quietly m = catch_s (bind_s m (\<lambda>_. ret ())) (\<lambda>e. if is_HciError e \<or> is_HciGone e then ret () else throw e)"

definition disconnect_acl_pair :: "nat option \<Rightarrow> nat option \<Rightarrow> (pair, unit) action" where
  "disconnect_acl_pair hc hp =
     bind_s (case hc of None \<Rightarrow> ret ()
             | Some c \<Rightarrow> quietly (on_central (request OP_DISCONNECT (struct_pack [FH c, FB 0x13])))) (\<lambda>_.
     bind_s (case hc of None \<Rightarrow> ret () | Some c \<Rightarrow> quietly (on_central (wait_disconnected c 3000000))) (\<lambda>_.
     bind_s (case hp of None \<Rightarrow> ret () | Some p \<Rightarrow> quietly (on_peripheral (wait_disconnected p 3000000))) (\<lambda>_.
     quietly (on_peripheral (request 0x200A (Inr [0x00]))))))"

section \<open>Both handles come from successful connections in the right roles\<close>

definition connected_as :: "byte \<Rightarrow> nat \<Rightarrow> packet multiset \<Rightarrow> bool" where
  "connected_as role handle ps \<longleftrightarrow> (\<exists>body c. (H4_EVENT, Some EVT_LE_META, body) \<in># ps \<and>
     parse_connection body = Inr (Some c) \<and> conn_status c = 0 \<and> conn_role c = role \<and> conn_handle c = handle)"

lemma packets_of_elapse [simp]: "packets_of (elapse t w) = packets_of w"
proof (induction t w rule: elapse.induct)
  case (2 t d x w)
  then show ?case by (cases x) simp_all
qed simp

lemma inbox_catch_up [simp]: "inbox (catch_up dt h) = inbox h"
  by (simp add: inbox_def catch_up_def)

lemma read_packet_inbox:
  assumes "hci_read_packet t h = (Inr po, h')"
  shows "inbox h = (case po of None \<Rightarrow> inbox h' | Some p \<Rightarrow> add_mset p (inbox h'))"
proof (cases po)
  case None
  with hci_read_packet_None assms show ?thesis by (fastforce simp: inbox_def)
next
  case (Some p)
  with hci_read_packet_Some [of t h p h'] assms show ?thesis by (metis inbox_def mset.simps(2) option.simps(5))
qed

lemma read_connection_sound:
  assumes "read_connection words role h = (Inr x, h')"
  shows "inbox h' \<subseteq># inbox h \<and> (case x of None \<Rightarrow> True | Some hnd \<Rightarrow> connected_as role hnd (inbox h))"
proof -
  obtain po where po: "hci_read_packet 100000 h = (Inr po, h')" "connection_judge words role po = Inr x"
    using read_connection_state [OF assms] by blast
  note i = read_packet_inbox [OF po(1)]
  show ?thesis
  proof (cases x)
    case None
    with i show ?thesis by (cases po) (simp_all add: subset_mset.add_increasing2)
  next
    case (Some hnd)
    with po(2) obtain body c where "po = Some (H4_EVENT, Some EVT_LE_META, body)" "parse_connection body = Inr (Some c)"
      "conn_status c = 0" "conn_role c = role" "conn_handle c = hnd"
      by (auto simp: connection_judge_def bind_r_iff split: option.splits prod.splits if_splits)
    with i Some show ?thesis by (auto simp: connected_as_def)
  qed
qed

lemma connected_as_mono: "connected_as role hnd ps \<Longrightarrow> ps \<subseteq># qs \<Longrightarrow> connected_as role hnd qs"
proof -
  assume "connected_as role hnd ps" "ps \<subseteq># qs"
  then obtain body c where b: "(H4_EVENT, Some EVT_LE_META, body) \<in># ps" and
    c: "parse_connection body = Inr (Some c)" "conn_status c = 0" "conn_role c = role" "conn_handle c = hnd"
    unfolding connected_as_def by blast
  from mset_subset_eqD [OF \<open>ps \<subseteq># qs\<close> b] c show ?thesis unfolding connected_as_def by blast
qed

lemma wait_acl_loop_sound:
  "wait_acl_loop wc wp deadline hc hp s = (Inr (c, p), s') \<Longrightarrow>
     (c \<noteq> hc \<longrightarrow> (\<exists>hnd. c = Some hnd \<and> connected_as 0 hnd (inbox (fst s)))) \<and>
     (p \<noteq> hp \<longrightarrow> (\<exists>hnd. p = Some hnd \<and> connected_as 1 hnd (inbox (snd s))))"
proof (induction wc wp deadline hc hp s rule: wait_acl_loop.induct)
  case (1 wc wp deadline hc hp s)
  show ?case
  proof (cases "clock (fst s) < deadline \<and> (hc = None \<or> hp = None)")
    case False
    with 1(2) show ?thesis by (auto simp: wait_acl_loop.simps [of wc wp deadline hc hp s])
  next
    case True
    obtain rc s1 where c: "on_central (read_connection wc 0) s = (rc, s1)" by (metis surj_pair)
    with 1(2) True obtain nc where nc: "rc = Inr nc"
      by (cases rc) (simp_all add: wait_acl_loop.simps [of wc wp deadline hc hp s])
    obtain rp s2 where p: "on_peripheral (read_connection wp 1) s1 = (rp, s2)" by (metis surj_pair)
    with 1(2) True c nc obtain np where np: "rp = Inr np"
      by (cases rp) (simp_all add: wait_acl_loop.simps [of wc wp deadline hc hp s])
    have loop: "wait_acl_loop wc wp deadline (newer hc nc) (newer hp np) s2 = (Inr (c, p), s')"
      using 1(2) True c nc p np by (simp add: wait_acl_loop.simps [of wc wp deadline hc hp s])
    note ih = 1(1) [OF True c [symmetric] nc p [symmetric] np loop]
    obtain a where a: "read_connection wc 0 (fst s) = (Inr nc, a)" "fst s1 = a" "inbox (snd s1) = inbox (snd s)"
      using c nc by (auto simp: on_central_def split: prod.splits)
    obtain b where b: "read_connection wp 1 (snd s1) = (Inr np, b)" "snd s2 = b" "inbox (fst s2) = inbox a"
      using p np a(2) by (auto simp: on_peripheral_def split: prod.splits)
    note ra = read_connection_sound [OF a(1)] and rb = read_connection_sound [OF b(1), unfolded a(3)]
    have old: "connected_as 0 hnd (inbox (fst s2)) \<Longrightarrow> connected_as 0 hnd (inbox (fst s))"
      "connected_as 1 hnd (inbox (snd s2)) \<Longrightarrow> connected_as 1 hnd (inbox (snd s))" for hnd
      using connected_as_mono ra rb unfolding b by blast+
    have "newer hc nc \<noteq> hc \<Longrightarrow> \<exists>hnd. newer hc nc = Some hnd \<and> connected_as 0 hnd (inbox (fst s))"
      "newer hp np \<noteq> hp \<Longrightarrow> \<exists>hnd. newer hp np = Some hnd \<and> connected_as 1 hnd (inbox (snd s))"
      using ra rb by (cases nc; cases np; simp add: newer_def)+
    with ih old show ?thesis by metis
  qed
qed

text \<open>When the wait for a connection between two controllers returns, each of the two handles is the
  one reported by a successful connection event of that controller, with the central's role on the
  central and the peripheral's on the peripheral.\<close>

lemma wait_acl_by_sound:
  assumes "wait_acl_by wc wp timeout s = (Inr (c, p), s')"
  shows "connected_as 0 c (inbox (fst s)) \<and> connected_as 1 p (inbox (snd s))"
proof -
  from assms have "wait_acl_loop wc wp (clock (fst s) + timeout) None None s = (Inr (Some c, Some p), s')"
    by (auto simp: wait_acl_by_def bind_s_Inr_iff split: option.splits prod.splits)
  from wait_acl_loop_sound [OF this] show ?thesis by simp
qed

end
