(* ===== verification/Periodic.thy ===== *)
theory Periodic
  imports Hci_Pair
begin

text \<open>
  The procedures of one controller in \<open>python/hcicontroller/periodic_features.py\<close>: extended and
  periodic advertising sets, decoding advertising reports, synchronizing to exactly one advertiser,
  sync transfer and PAwR subevents and responses. The reader thread of the PAwR advertiser and the
  phases are not part of this theory.
\<close>

section \<open>Constants\<close>

abbreviation (input) LE_EXTENDED_ADVERTISING_REPORT :: byte where "LE_EXTENDED_ADVERTISING_REPORT \<equiv> 0x0D"
abbreviation (input) LE_PERIODIC_SYNC_ESTABLISHED :: byte where "LE_PERIODIC_SYNC_ESTABLISHED \<equiv> 0x0E"
abbreviation (input) LE_PERIODIC_ADV_REPORT :: byte where "LE_PERIODIC_ADV_REPORT \<equiv> 0x0F"
abbreviation (input) LE_PAST_RECEIVED :: byte where "LE_PAST_RECEIVED \<equiv> 0x18"
abbreviation (input) LE_PERIODIC_SYNC_ESTABLISHED_V2 :: byte where "LE_PERIODIC_SYNC_ESTABLISHED_V2 \<equiv> 0x24"
abbreviation (input) LE_PERIODIC_ADV_REPORT_V2 :: byte where "LE_PERIODIC_ADV_REPORT_V2 \<equiv> 0x25"
abbreviation (input) LE_PAST_RECEIVED_V2 :: byte where "LE_PAST_RECEIVED_V2 \<equiv> 0x26"
abbreviation (input) LE_PERIODIC_ADV_SUBEVENT_DATA_REQUEST :: byte where
  "LE_PERIODIC_ADV_SUBEVENT_DATA_REQUEST \<equiv> 0x27"
abbreviation (input) LE_PERIODIC_ADV_RESPONSE_REPORT :: byte where "LE_PERIODIC_ADV_RESPONSE_REPORT \<equiv> 0x28"
abbreviation (input) ADV_HANDLE_PERIODIC :: byte where "ADV_HANDLE_PERIODIC \<equiv> 0"
abbreviation (input) ADV_HANDLE_CONNECTABLE :: byte where "ADV_HANDLE_CONNECTABLE \<equiv> 1"
abbreviation (input) ADV_SID_PERIODIC :: byte where "ADV_SID_PERIODIC \<equiv> 0"

definition text_bytes :: "string \<Rightarrow> bytes" where
  "text_bytes s = map of_char s"

definition PERIODIC_MARKER :: bytes where "PERIODIC_MARKER = text_bytes ''HCI periodic OTA''"
definition EXT_ADV_DISCOVERY_MARKER :: bytes where "EXT_ADV_DISCOVERY_MARKER = text_bytes ''HCI periodic source''"
definition PAWR_SUBEVENT_MARKER :: bytes where "PAWR_SUBEVENT_MARKER = text_bytes ''HCI PAwR subevent''"
definition PAWR_RESPONSE_MARKER :: bytes where "PAWR_RESPONSE_MARKER = text_bytes ''HCI PAwR response''"

definition EXT_ADV_DISCOVERY_DATA :: bytes where
  "EXT_ADV_DISCOVERY_DATA =
     [2, 1, 6] @ [of_nat (length EXT_ADV_DISCOVERY_MARKER + 1), 0x09] @ EXT_ADV_DISCOVERY_MARKER"

abbreviation (input) PAWR_NUM_SUBEVENTS :: nat where "PAWR_NUM_SUBEVENTS \<equiv> 2"

text \<open>\<open>marker in data\<close>.\<close>

definition contains :: "bytes \<Rightarrow> bytes \<Rightarrow> bool" where
  "contains marker data \<longleftrightarrow> list_ex (\<lambda>i. take (length marker) (drop i data) = marker) [0 ..< Suc (length data)]"

text \<open>\<open>_u24\<close>: the low 24 bits.\<close>

definition low24 :: "nat \<Rightarrow> bytes" where
  "low24 v = to_le 3 v"

section \<open>Advertising sets\<close>

definition ext_adv_params :: "byte \<Rightarrow> byte \<Rightarrow> nat \<Rightarrow> byte \<Rightarrow> bytes result" where
  "ext_adv_params handle own_addr_type properties sid =
     bind_r (struct_pack [FH properties]) (\<lambda>props.
       let payload = [handle] @ props @ low24 0x00A0 @ low24 0x00A0 @ [0x07, own_addr_type, 0x00] @ zeros 6
             @ [0x00, 0x7F, 0x01, 0x00, 0x01, sid, 0x00]
       in if length payload \<noteq> 25 then Inl (AssertionError ''extended advertising parameter length'' [])
          else Inr payload)"

definition configure_ext_set :: "byte \<Rightarrow> byte \<Rightarrow> nat \<Rightarrow> byte \<Rightarrow> bytes \<Rightarrow> (hci, unit) action" where
  "configure_ext_set handle own_addr_type properties sid data =
     bind_s (command_ok 0x2036 (ext_adv_params handle own_addr_type properties sid)
               ''LE Set Extended Advertising Parameters'') (\<lambda>_.
     bind_s (if own_addr_type = 0x01 then
               bind_s (identity None) (\<lambda>(own_addr, identity_type, _).
               if identity_type \<noteq> 0x01 \<or> length own_addr \<noteq> 6
               then throw (HciError ''no usable random identity for extended advertising set'' [])
               else bind_s (command_ok 0x2035 (Inr ([handle] @ own_addr)) ''LE Set Advertising Set Random Address'')
                      (\<lambda>_. ret ()))
             else ret ()) (\<lambda>_.
     if data = [] then ret ()
     else if 251 < length data then throw (HciError ''extended advertising marker too large'' [])
     else bind_s (command_ok 0x2037 (Inr ([handle, 0x03, 0x01, of_nat (length data)] @ data))
                    ''LE Set Extended Advertising Data'') (\<lambda>_. ret ())))"

definition ext_adv_enable :: "byte \<Rightarrow> bool \<Rightarrow> (hci, unit) action" where
  "ext_adv_enable handle enable =
     bind_s (command_ok 0x2039 (if enable then cat [Inr [1, 1, handle], struct_pack [FH 0], Inr [0]] else Inr [0, 0])
               ''LE Set Extended Advertising Enable'') (\<lambda>_. ret ())"

definition configure_periodic :: "byte \<Rightarrow> bytes \<Rightarrow> (hci, unit) action" where
  "configure_periodic own_addr_type marker =
     bind_s (configure_ext_set ADV_HANDLE_PERIODIC own_addr_type 0x0000 ADV_SID_PERIODIC EXT_ADV_DISCOVERY_DATA) (\<lambda>_.
     bind_s (command_ok 0x203E (struct_pack [FB 0, FH 0x0060, FH 0x0060, FH 0])
               ''LE Set Periodic Advertising Parameters'') (\<lambda>_.
     bind_s (command_ok 0x203F (cat [bytes_of [0, 0x03, length marker], Inr marker])
               ''LE Set Periodic Advertising Data'') (\<lambda>_. ret ())))"

definition start_periodic :: "(hci, unit) action" where
  "start_periodic =
     bind_s (ext_adv_enable ADV_HANDLE_PERIODIC True) (\<lambda>_.
     bind_s (command_ok 0x2040 (Inr [1, ADV_HANDLE_PERIODIC]) ''LE Set Periodic Advertising Enable'') (\<lambda>_. ret ()))"

definition stop_periodic :: "(hci, unit) action" where
  "stop_periodic =
     bind_s (quietly (request 0x2040 (Inr [0, ADV_HANDLE_PERIODIC]))) (\<lambda>_. quietly (request 0x2039 (Inr [0, 0])))"

section \<open>Scanning\<close>

definition set_sync_scan :: "bool \<Rightarrow> bool \<Rightarrow> (hci, unit) action" where
  "set_sync_scan enable allow_fail =
     (let payload = cat [Inr [if enable then 0x01 else 0x00, 0x00], struct_pack [FH 0, FH 0]] in
      if allow_fail then quietly (request 0x2042 payload)
      else bind_s (command_ok 0x2042 payload ''LE Set Extended Scan Enable'') (\<lambda>_. ret ()))"

definition cancel_pending_periodic_sync :: "(hci, unit) action" where
  "cancel_pending_periodic_sync = quietly (request 0x2045 (Inr []))"

type_synonym report = "byte \<times> bytes \<times> byte \<times> nat \<times> bytes"

text \<open>The loop over the reports of one event: \<open>n\<close> reports are left, the next one starts at \<open>at\<close>.\<close>

fun report_loop :: "nat \<Rightarrow> nat \<Rightarrow> bytes \<Rightarrow> report list" where
  "report_loop 0 at body = []"
| "report_loop (Suc n) at body =
     (if length body < at + 24 then []
      else
        let data_len = unat (body ! (at + 23)) in
        if length body < at + 24 + data_len then []
        else (body ! (at + 2), pslice (at + 3) (at + 9) body, body ! (at + 11),
              from_le (pslice (at + 14) (at + 16) body), pslice (at + 24) (at + 24 + data_len) body)
             # report_loop n (at + 24 + data_len) body)"

definition extended_reports :: "bytes \<Rightarrow> report list" where
  "extended_reports body =
     (if length body < 2 \<or> body ! 0 \<noteq> LE_EXTENDED_ADVERTISING_REPORT then []
      else report_loop (unat (body ! 1)) 2 body)"

definition periodic_source_matches :: "report \<Rightarrow> bytes \<Rightarrow> byte \<Rightarrow> byte \<Rightarrow> bool" where
  "periodic_source_matches rep addr addr_type sid =
     (case rep of (report_type, report_addr, report_sid, periodic_interval, data) \<Rightarrow>
        report_type = addr_type \<and> report_addr = addr \<and> report_sid = sid \<and> periodic_interval \<noteq> 0 \<and>
        contains EXT_ADV_DISCOVERY_MARKER data)"

definition start_periodic_source_scan :: "(hci, unit) action" where
  "start_periodic_source_scan =
     bind_s (identity None) (\<lambda>(_, own_addr_type, _).
     bind_s (command_ok 0x2041 (cat [Inr [own_addr_type, 0x00, 0x01, 0x00], struct_pack [FH 0x0060, FH 0x0030]])
               ''LE Set Extended Scan Parameters'') (\<lambda>_.
     set_sync_scan True False))"

definition source_judge :: "bytes \<Rightarrow> byte \<Rightarrow> byte \<Rightarrow> packet \<Rightarrow> (byte \<times> bytes \<times> byte \<times> nat) option result" where
  "source_judge addr addr_type sid p =
     (case p of (kind, code, body) \<Rightarrow>
        if kind \<noteq> H4_EVENT \<or> code \<noteq> Some EVT_LE_META then Inr None
        else Inr (map_option (\<lambda>(t, a, s, i, _). (t, a, s, i))
                    (find (\<lambda>rep. periodic_source_matches rep addr addr_type sid) (extended_reports body))))"

definition observe_periodic_advertiser ::
  "bytes \<Rightarrow> byte \<Rightarrow> byte \<Rightarrow> nat \<Rightarrow> bool \<Rightarrow> (hci, byte \<times> bytes \<times> byte \<times> nat) action" where
  "observe_periodic_advertiser addr addr_type sid timeout scan_started =
     bind_s (if scan_started then ret () else start_periodic_source_scan) (\<lambda>_.
     bind_s (\<lambda>h. read_until False True 200000 (source_judge addr addr_type sid) (clock h + timeout) [] h) (\<lambda>found.
     case found of
       Some src \<Rightarrow> ret src
     | None \<Rightarrow> bind_s (set_sync_scan False True) (\<lambda>_.
         throw (HciError ''expected periodic source extended advertisement with SyncInfo was not observed'' []))))"

section \<open>Waits that keep some packets and drop others\<close>

text \<open>What a loop does with a packet: keep it for later, drop it, or stop with a result. The packets kept
  are put back by the caller, because some loops send a command first.\<close>

datatype 'a sorted_out = Keep | Drop | Stop 'a

function sift :: "(packet \<Rightarrow> 'a sorted_out) \<Rightarrow> nat \<Rightarrow> packet list \<Rightarrow> (hci, 'a option \<times> packet list) action" where
  "sift judge deadline deferred h =
     (if clock h < deadline then
        (case hci_read_packet (min 200000 (deadline - clock h)) h of
           (Inl e, h') \<Rightarrow> (Inl e, h')
         | (Inr None, h') \<Rightarrow> sift judge deadline deferred h'
         | (Inr (Some p), h') \<Rightarrow>
             (case judge p of
                Keep \<Rightarrow> sift judge deadline (deferred @ [p]) h'
              | Drop \<Rightarrow> sift judge deadline deferred h'
              | Stop x \<Rightarrow> (Inr (Some x, deferred), h')))
      else (Inr (None, deferred), h))"
  by pat_completeness auto
termination
  by (relation "measure (\<lambda>(_, deadline, _, h). budget deadline h)")
    (auto intro!: hci_read_packet_budget [OF sym])

declare sift.simps [simp del]

definition put_back :: "packet list \<Rightarrow> (hci, unit) action" where
  "put_back packets = modify_s (restore packets)"

section \<open>Synchronizing\<close>

definition is_sync_established_packet :: "packet \<Rightarrow> bool" where
  "is_sync_established_packet p =
     (case p of (kind, code, body) \<Rightarrow> kind = H4_EVENT \<and> code = Some EVT_LE_META \<and> body \<noteq> [] \<and>
        (body ! 0 = LE_PERIODIC_SYNC_ESTABLISHED \<or> body ! 0 = LE_PERIODIC_SYNC_ESTABLISHED_V2))"

definition discard_pre_create_sync_events :: "(hci, unit) action" where
  "discard_pre_create_sync_events =
     modify_s (\<lambda>h. h\<lparr>pending := filter (\<lambda>p. \<not> is_sync_established_packet p) (pending h)\<rparr>)"

definition sync_established_source :: "bytes \<Rightarrow> (byte \<times> bytes \<times> byte) option" where
  "sync_established_source body =
     (if length body < 12 \<or> \<not> (body ! 0 = LE_PERIODIC_SYNC_ESTABLISHED \<or> body ! 0 = LE_PERIODIC_SYNC_ESTABLISHED_V2)
      then None else Some (body ! 5, pslice 6 12 body, body ! 4))"

definition create_periodic_sync :: "bytes \<Rightarrow> byte \<Rightarrow> byte \<Rightarrow> bool \<Rightarrow> (hci, byte \<times> bytes \<times> byte) action" where
  "create_periodic_sync addr addr_type sid scan_started =
     bind_s (observe_periodic_advertiser addr addr_type sid 5000000 scan_started) (\<lambda>(observed_type, observed_addr, observed_sid, _).
     bind_s (request 0x2044 (cat [Inr [0, observed_sid, observed_type], Inr observed_addr,
               struct_pack [FH 0, FH 0x0200, FB 0]])) (\<lambda>(status, _).
     bind_s discard_pre_create_sync_events (\<lambda>_.
     if status \<noteq> 0 then
       bind_s (set_sync_scan False True) (\<lambda>_.
       throw (HciError ''LE Periodic Advertising Create Sync returned %s'' [unat status]))
     else ret (observed_type, observed_addr, observed_sid))))"

text \<open>What the wait for a sync makes of a packet: the terminal event of this procedure, malformed or
  not, or one of another advertiser or version, which is dropped for good.\<close>

definition sync_judge :: "(byte \<times> bytes \<times> byte) option \<Rightarrow> bool \<Rightarrow> packet \<Rightarrow> bytes option sorted_out" where
  "sync_judge expected_source require_v2 p =
     (case p of (kind, code, body) \<Rightarrow>
        if kind = H4_EVENT \<and> code = Some EVT_LE_META \<and> 1 \<le> length body \<and>
           (body ! 0 = LE_PERIODIC_SYNC_ESTABLISHED \<or> body ! 0 = LE_PERIODIC_SYNC_ESTABLISHED_V2)
        then (case sync_established_source body of
                None \<Rightarrow> Stop None
              | Some source \<Rightarrow>
                  if expected_source \<noteq> None \<and> Some source \<noteq> expected_source then Drop
                  else if require_v2 \<and> body ! 0 \<noteq> LE_PERIODIC_SYNC_ESTABLISHED_V2 then Drop
                  else Stop (Some body))
        else Keep)"

definition wait_sync_established ::
  "(byte \<times> bytes \<times> byte) option \<Rightarrow> nat \<Rightarrow> bool \<Rightarrow> bool \<Rightarrow> (hci, nat \<times> bytes) action" where
  "wait_sync_established expected_source timeout require_v2 keep_scan =
     bind_s (\<lambda>h. sift (sync_judge expected_source require_v2) (clock h + timeout) [] h) (\<lambda>(found, deferred).
     case found of
       None \<Rightarrow>
         bind_s cancel_pending_periodic_sync (\<lambda>_.
         bind_s (set_sync_scan False True) (\<lambda>_.
         bind_s (put_back deferred) (\<lambda>_.
         throw (HciError ''timed out waiting for Periodic Advertising Sync Established'' []))))
     | Some None \<Rightarrow>
         bind_s (put_back deferred) (\<lambda>_. throw (HciError ''malformed Periodic Sync Established event'' []))
     | Some (Some body) \<Rightarrow>
         if body ! 1 \<noteq> 0 then
           bind_s (set_sync_scan False True) (\<lambda>_.
           bind_s (put_back deferred) (\<lambda>_.
           throw (HciError ''Periodic Sync Established returned %s'' [unat (body ! 1)])))
         else
           bind_s (if keep_scan then ret () else set_sync_scan False True) (\<lambda>_.
           bind_s (put_back deferred) (\<lambda>_.
           ret (from_le (pslice 2 4 body) AND 0x0FFF, body))))"

definition periodic_report_data :: "bytes \<Rightarrow> (nat \<times> nat option \<times> byte option \<times> bytes) option" where
  "periodic_report_data body =
     (if body = [] then None
      else if body ! 0 = LE_PERIODIC_ADV_REPORT then
        (if length body < 8 then None
         else let len = unat (body ! 7) in
           if length body < 8 + len then None
           else Some (from_le (pslice 1 3 body) AND 0x0FFF, None, None, pslice 8 (8 + len) body))
      else if body ! 0 = LE_PERIODIC_ADV_REPORT_V2 then
        (if length body < 11 then None
         else let len = unat (body ! 10) in
           if length body < 11 + len then None
           else Some (from_le (pslice 1 3 body) AND 0x0FFF, Some (from_le (pslice 6 8 body)), Some (body ! 8),
                      pslice 11 (11 + len) body))
      else None)"

text \<open>The loops that end with what they waited for or with a message.\<close>

definition sift_or :: "string \<Rightarrow> (packet \<Rightarrow> 'a result sorted_out) \<Rightarrow> nat \<Rightarrow> (hci, 'a) action" where
  "sift_or msg judge timeout =
     bind_s (\<lambda>h. sift judge (clock h + timeout) [] h) (\<lambda>(found, deferred).
     bind_s (put_back deferred) (\<lambda>_.
     case found of None \<Rightarrow> throw (HciError msg []) | Some x \<Rightarrow> lift_r x))"

definition periodic_report_judge ::
  "nat \<Rightarrow> bytes \<Rightarrow> bool \<Rightarrow> packet \<Rightarrow> (nat \<times> nat option \<times> byte option \<times> bytes) result sorted_out" where
  "periodic_report_judge sync_handle marker require_v2 p =
     (case p of (kind, code, body) \<Rightarrow>
        if kind = H4_EVENT \<and> code = Some EVT_LE_META then
          (case periodic_report_data body of
             Some (handle, counter, subevent, data) \<Rightarrow>
               if handle \<noteq> sync_handle then Keep
               else if require_v2 \<and> body ! 0 \<noteq> LE_PERIODIC_ADV_REPORT_V2 then Keep
               else if contains marker data then Stop (Inr (handle, counter, subevent, data))
               else Keep
           | None \<Rightarrow> Keep)
        else Keep)"

definition wait_periodic_report ::
  "nat \<Rightarrow> bytes \<Rightarrow> nat \<Rightarrow> bool \<Rightarrow> (hci, nat \<times> nat option \<times> byte option \<times> bytes) action" where
  "wait_periodic_report sync_handle marker timeout require_v2 =
     sift_or ''timed out waiting for periodic advertising marker'' (periodic_report_judge sync_handle marker require_v2) timeout"

definition terminate_sync :: "nat \<Rightarrow> (hci, unit) action" where
  "terminate_sync handle = quietly (request 0x2046 (struct_pack [FH handle]))"

section \<open>Extended connections and sync transfer\<close>

definition start_extended_connection :: "byte \<Rightarrow> bytes \<Rightarrow> byte \<Rightarrow> (hci, unit) action" where
  "start_extended_connection central_type peer_addr peer_type =
     bind_s (lift_r (cat [Inr [0, central_type, peer_type], Inr peer_addr, Inr [0x01],
       struct_pack [FH 0x0060, FH 0x0030, FH 0x0018, FH 0x0028, FH 0, FH 400, FH 0, FH 0]])) (\<lambda>payload.
     if length payload \<noteq> 26 then throw (AssertionError ''extended create connection parameter length'' [])
     else bind_s (command_ok 0x2043 (Inr payload) ''LE Extended Create Connection'') (\<lambda>_. ret ()))"

definition past_judge :: "nat \<Rightarrow> nat \<Rightarrow> packet \<Rightarrow> nat result sorted_out" where
  "past_judge hnd service_data p =
     (case p of (kind, code, body) \<Rightarrow>
        if kind = H4_EVENT \<and> code = Some EVT_LE_META \<and> 8 \<le> length body \<and>
           (body ! 0 = LE_PAST_RECEIVED \<or> body ! 0 = LE_PAST_RECEIVED_V2) \<and>
           from_le (pslice 2 4 body) AND 0x0FFF = hnd \<and> from_le (pslice 4 6 body) = service_data
        then if body ! 1 \<noteq> 0 then Stop (Inl (HciError ''PAST Received returned %s'' [unat (body ! 1)]))
             else Stop (Inr (from_le (pslice 6 8 body) AND 0x0FFF))
        else Keep)"

definition wait_past_received :: "nat \<Rightarrow> nat \<Rightarrow> nat \<Rightarrow> (hci, nat) action" where
  "wait_past_received hnd service_data timeout =
     sift_or ''timed out waiting for LE Periodic Advertising Sync Transfer Received''
       (past_judge hnd service_data) timeout"

section \<open>PAwR\<close>

definition pawr_diag_counters :: "(hci, nat list option) action" where
  "pawr_diag_counters =
     bind_s (request OP_VS_READ_COUNTERS (Inr [])) (\<lambda>(status, data).
     if status \<noteq> 0 \<or> length data < 1 + 38 * 4 \<or> data ! 0 < 5 then ret None
     else bind_s (lift_r (counter_words 34 4 data)) (\<lambda>vs. ret (Some vs)))"

definition is_command_complete_for :: "packet \<Rightarrow> nat \<Rightarrow> bool" where
  "is_command_complete_for p opcode =
     (case p of (kind, code, body) \<Rightarrow> kind = H4_EVENT \<and> code = Some EVT_COMMAND_COMPLETE \<and> 3 \<le> length body \<and>
        from_le (pslice 1 3 body) = opcode)"

text \<open>Counters are 32 bits and wrap.\<close>

definition verify_pawr_response_completion :: "nat list option \<Rightarrow> nat list option \<Rightarrow> nat \<Rightarrow> (hci, unit) action" where
  "verify_pawr_response_completion before after expected_count h0 =
     (let duplicates = filter (\<lambda>p. is_command_complete_for p 0x2083) (pending h0);
          h = h0\<lparr>pending := filter (\<lambda>p. \<not> is_command_complete_for p 0x2083) (pending h0)\<rparr>;
          delta = (case (before, after) of
                     (Some b, Some a) \<Rightarrow> Some (map (\<lambda>i. nat ((int (a ! i) - int (b ! i)) mod 2 ^ 32)) [0, 1, 2, 3])
                   | _ \<Rightarrow> None)
      in if duplicates \<noteq> []
         then (Inl (HciError ''duplicate Command Complete for opcode 0x2083 (%u extra)%s''
                      (length duplicates # (case delta of None \<Rightarrow> [] | Some d \<Rightarrow> d))), h)
         else case delta of
                None \<Rightarrow> (Inr (), h)
              | Some d \<Rightarrow>
                  if d \<noteq> replicate 4 expected_count \<and> d \<noteq> [0, 0, 0, 0]
                  then (Inl (HciError ''PAwR completion path mismatch after %u response command(s): candidate=%u handler=%u suppressed=%u sdc_complete=%u''
                               (expected_count # d)), h)
                  else (Inr (), h))"

definition configure_pawr :: "byte \<Rightarrow> (hci, unit) action" where
  "configure_pawr own_addr_type =
     bind_s (configure_ext_set ADV_HANDLE_PERIODIC own_addr_type 0x0000 ADV_SID_PERIODIC EXT_ADV_DISCOVERY_DATA) (\<lambda>_.
     bind_s (command_ok 0x2086 (struct_pack [FB 0, FH 0x00FF, FH 0x00FF, FH 0, FB PAWR_NUM_SUBEVENTS, FB 0x60, FB 0x40,
               FB 0x50, FB 1]) ''LE Set Periodic Advertising Parameters v2'') (\<lambda>_. ret ()))"

definition wait_pawr_data_request :: "nat \<Rightarrow> (hci, nat \<times> nat) action" where
  "wait_pawr_data_request timeout =
     bind_s (required ''no LE Periodic Advertising Subevent Data Request event'' []
       (wait_le_subevent LE_PERIODIC_ADV_SUBEVENT_DATA_REQUEST None None
          (\<lambda>event. 4 \<le> length event \<and> event ! 1 = ADV_HANDLE_PERIODIC \<and> 0 < event ! 3) timeout)) (\<lambda>body.
     ret (unat (body ! 2), unat (body ! 3)))"

definition subevent_element :: "nat \<Rightarrow> bytes result" where
  "subevent_element subevent =
     cat [bytes_of [subevent, 0, 1, length PAWR_SUBEVENT_MARKER], Inr PAWR_SUBEVENT_MARKER]"

definition set_requested_pawr_subevent_data :: "nat \<Rightarrow> nat \<Rightarrow> (hci, nat) action" where
  "set_requested_pawr_subevent_data start num =
     (if PAWR_NUM_SUBEVENTS \<le> start
      then throw (HciError ''PAwR data request start exceeds configured subevents'' [])
      else if num = 0 \<or> PAWR_NUM_SUBEVENTS < num
      then throw (HciError ''PAwR data request count exceeds configured subevents'' [])
      else bind_s (lift_r (cat [bytes_of [0, num],
             cat (map (\<lambda>offset. subevent_element ((start + offset) mod PAWR_NUM_SUBEVENTS)) [0 ..< num])])) (\<lambda>payload.
        if 0xFF < length payload then throw (HciError ''PAwR subevent data does not fit one HCI command'' [])
        else bind_s (command_ok 0x2082 (Inr payload) ''LE Set Periodic Advertising Subevent Data'') (\<lambda>_. ret start)))"

fun response_loop :: "nat \<Rightarrow> nat \<Rightarrow> bytes \<Rightarrow> bytes \<Rightarrow> bool" where
  "response_loop 0 at marker body = False"
| "response_loop (Suc n) at marker body =
     (if length body < at + 6 then False
      else
        let data_len = unat (body ! (at + 5)) in
        if length body < at + 6 + data_len then False
        else if contains marker (pslice (at + 6) (at + 6 + data_len) body) then True
        else response_loop n (at + 6 + data_len) marker body)"

definition pawr_response_has_marker :: "bytes \<Rightarrow> bytes \<Rightarrow> bool" where
  "pawr_response_has_marker body marker =
     (if length body < 5 \<or> body ! 0 \<noteq> LE_PERIODIC_ADV_RESPONSE_REPORT \<or> body ! 1 \<noteq> ADV_HANDLE_PERIODIC then False
      else response_loop (unat (body ! 4)) 5 marker body)"

definition same_sync_report :: "nat \<Rightarrow> packet \<Rightarrow> bool" where
  "same_sync_report sync_handle p =
     (case p of (kind, code, body) \<Rightarrow> kind = H4_EVENT \<and> code = Some EVT_LE_META \<and>
        (case periodic_report_data body of Some (handle, _) \<Rightarrow> handle = sync_handle | None \<Rightarrow> False) \<and>
        (body ! 0 = LE_PERIODIC_ADV_REPORT \<or> body ! 0 = LE_PERIODIC_ADV_REPORT_V2))"

definition discard_pre_pawr_sync_reports :: "nat \<Rightarrow> (hci, unit) action" where
  "discard_pre_pawr_sync_reports sync_handle =
     modify_s (\<lambda>h. h\<lparr>pending := filter (\<lambda>p. \<not> same_sync_report sync_handle p) (pending h)\<rparr>)"

definition set_pawr_sync_subevent :: "nat \<Rightarrow> nat \<Rightarrow> (hci, unit) action" where
  "set_pawr_sync_subevent sync_handle subevent =
     bind_s (command_ok 0x2084 (cat [struct_pack [FH sync_handle, FH 0, FB 1], bytes_of [subevent]])
               ''LE Set Periodic Sync Subevent'') (\<lambda>_.
     discard_pre_pawr_sync_reports sync_handle)"

definition pawr_report_judge ::
  "nat \<Rightarrow> byte \<Rightarrow> bytes \<Rightarrow> packet \<Rightarrow> (nat \<times> nat option \<times> byte option \<times> bytes) result sorted_out" where
  "pawr_report_judge sync_handle subevent marker p =
     (case p of (kind, code, body) \<Rightarrow>
        if kind = H4_EVENT \<and> code = Some EVT_LE_META then
          (case periodic_report_data body of
             Some (handle, counter, sub, data) \<Rightarrow>
               if handle \<noteq> sync_handle then Keep
               else if body ! 0 \<noteq> LE_PERIODIC_ADV_REPORT_V2 then Drop
               else if sub \<noteq> Some subevent then Drop
               else if contains marker data then Stop (Inr (handle, counter, sub, data))
               else Drop
           | None \<Rightarrow> Keep)
        else Keep)"

definition wait_pawr_periodic_report ::
  "nat \<Rightarrow> byte \<Rightarrow> bytes \<Rightarrow> nat \<Rightarrow> (hci, nat \<times> nat option \<times> byte option \<times> bytes) action" where
  "wait_pawr_periodic_report sync_handle subevent marker timeout =
     sift_or ''timed out waiting for selected PAwR periodic advertising marker''
       (pawr_report_judge sync_handle subevent marker) timeout"

definition set_pawr_response :: "nat \<Rightarrow> nat \<Rightarrow> nat \<Rightarrow> nat \<Rightarrow> (hci, unit) action" where
  "set_pawr_response sync_handle event_counter request_subevent response_subevent =
     bind_s (command_ok 0x2083 (cat [struct_pack [FH sync_handle, FH event_counter, FB request_subevent,
               FB response_subevent, FB 0, FB (length PAWR_RESPONSE_MARKER)], Inr PAWR_RESPONSE_MARKER])
               ''LE Set Periodic Advertising Response Data'') (\<lambda>_. ret ())"

definition response_report_judge :: "bytes \<Rightarrow> packet \<Rightarrow> unit result sorted_out" where
  "response_report_judge marker p =
     (case p of (kind, code, body) \<Rightarrow>
        if kind = H4_EVENT \<and> code = Some EVT_LE_META \<and> 5 \<le> length body \<and> body ! 0 = LE_PERIODIC_ADV_RESPONSE_REPORT
        then if body ! 1 \<noteq> ADV_HANDLE_PERIODIC then Keep
             else if response_loop (unat (body ! 4)) 5 marker body then Stop (Inr ()) else Keep
        else Keep)"

definition wait_pawr_response_report :: "bytes \<Rightarrow> nat \<Rightarrow> (hci, unit) action" where
  "wait_pawr_response_report marker timeout =
     sift_or ''no PAwR response report containing the response marker'' (response_report_judge marker) timeout"

section \<open>What a wait takes and what it leaves\<close>

definition sifted :: "(packet \<Rightarrow> 'a sorted_out) \<Rightarrow> packet list \<Rightarrow> hci \<Rightarrow> 'a option \<Rightarrow> packet list \<Rightarrow> hci \<Rightarrow> bool" where
  "sifted judge ds h found ds' h' \<longleftrightarrow> (\<exists>kept dropped hit. ds' = ds @ kept \<and>
     inbox h = mset kept + mset dropped + hit + inbox h' \<and> sent h' = sent h \<and>
     list_all (\<lambda>p. judge p = Keep) kept \<and> list_all (\<lambda>p. judge p = Drop) dropped \<and>
     (case found of None \<Rightarrow> hit = {#} | Some x \<Rightarrow> (\<exists>p. judge p = Stop x \<and> hit = {#p#})))"

lemma sifted_Keep:
  assumes "judge p = Keep" "inbox h = add_mset p (inbox h1)" "sent h1 = sent h" "sifted judge (ds @ [p]) h1 found ds' h'"
  shows "sifted judge ds h found ds' h'"
proof -
  from assms(4) obtain kept dropped hit where *: "ds' = (ds @ [p]) @ kept" "inbox h1 = mset kept + mset dropped + hit + inbox h'"
    "sent h' = sent h1" "list_all (\<lambda>p. judge p = Keep) kept" "list_all (\<lambda>p. judge p = Drop) dropped"
    "case found of None \<Rightarrow> hit = {#} | Some x \<Rightarrow> (\<exists>p. judge p = Stop x \<and> hit = {#p#})"
    by (auto simp: sifted_def)
  show ?thesis unfolding sifted_def
    by (rule exI [of _ "p # kept"], rule exI [of _ dropped], rule exI [of _ hit]) (use * assms(1-3) in simp)
qed

lemma sifted_Drop:
  assumes "judge p = Drop" "inbox h = add_mset p (inbox h1)" "sent h1 = sent h" "sifted judge ds h1 found ds' h'"
  shows "sifted judge ds h found ds' h'"
proof -
  from assms(4) obtain kept dropped hit where *: "ds' = ds @ kept" "inbox h1 = mset kept + mset dropped + hit + inbox h'"
    "sent h' = sent h1" "list_all (\<lambda>p. judge p = Keep) kept" "list_all (\<lambda>p. judge p = Drop) dropped"
    "case found of None \<Rightarrow> hit = {#} | Some x \<Rightarrow> (\<exists>p. judge p = Stop x \<and> hit = {#p#})"
    by (auto simp: sifted_def)
  show ?thesis unfolding sifted_def
    by (rule exI [of _ kept], rule exI [of _ "p # dropped"], rule exI [of _ hit]) (use * assms(1-3) in simp)
qed

lemma read_packet_sent: "hci_read_packet t h = (Inr po, h') \<Longrightarrow> sent h' = sent h"
  using read_wire_spec [of h t] by (cases "pending h"; cases po) (auto simp: hci_read_packet_def)

lemma sift_end: "sift judge deadline ds h = (Inr (found, ds'), h') \<Longrightarrow> sifted judge ds h found ds' h'"
proof (induction judge deadline ds h rule: sift.induct)
  case (1 judge deadline ds h)
  show ?case
  proof (cases "clock h < deadline")
    case False
    with 1(4) show ?thesis by (auto simp: sift.simps [of judge deadline ds h] sifted_def)
  next
    case True
    obtain out h1 where rd: "hci_read_packet (min 200000 (deadline - clock h)) h = (out, h1)" by fastforce
    with True 1(4) obtain po where out: "out = Inr po" by (cases out) (simp_all add: sift.simps [of judge deadline ds h])
    note i = read_packet_inbox [OF rd [unfolded out]] and s = read_packet_sent [OF rd [unfolded out]]
    show ?thesis
    proof (cases po)
      case None
      from 1(1) [OF True rd [symmetric] out None] 1(4) True rd out None i s show ?thesis
        by (simp add: sift.simps [of judge deadline ds h] sifted_def)
    next
      case (Some p)
      show ?thesis
      proof (cases "judge p")
        case Keep
        have "sift judge deadline (ds @ [p]) h1 = (Inr (found, ds'), h')"
          using 1(4) True rd out Some Keep by (simp add: sift.simps [of judge deadline ds h])
        from 1(2) [OF True rd [symmetric] out Some Keep this] have ih: "sifted judge (ds @ [p]) h1 found ds' h'" .
        have "inbox h = add_mset p (inbox h1)" using i Some by simp
        from sifted_Keep [where judge = judge and p = p, OF Keep this s ih] show ?thesis .
      next
        case Drop
        have "sift judge deadline ds h1 = (Inr (found, ds'), h')"
          using 1(4) True rd out Some Drop by (simp add: sift.simps [of judge deadline ds h])
        from 1(3) [OF True rd [symmetric] out Some Drop this] have ih: "sifted judge ds h1 found ds' h'" .
        have "inbox h = add_mset p (inbox h1)" using i Some by simp
        from sifted_Drop [where judge = judge and p = p, OF Drop this s ih] show ?thesis .
      next
        case (Stop x)
        with 1(4) True rd out Some have r: "found = Some x" "ds' = ds" "h' = h1"
          by (simp_all add: sift.simps [of judge deadline ds h])
        show ?thesis unfolding sifted_def r
          by (rule exI [of _ "[]"], rule exI [of _ "[]"], rule exI [of _ "{#p#}"]) (use i s Some Stop in \<open>auto intro: prod_cases3 [of p]\<close>)
      qed
    qed
  qed
qed

lemma sync_judge_Stop:
  assumes "sync_judge (Some src) v2 p = Stop (Some body)"
  shows "p = (H4_EVENT, Some EVT_LE_META, body) \<and> sync_established_source body = Some src \<and>
    (v2 \<longrightarrow> body ! 0 = LE_PERIODIC_SYNC_ESTABLISHED_V2)"
  using assms by (cases p) (auto simp: sync_judge_def split: if_splits option.splits)

lemma sift_found:
  assumes "sift judge deadline ds h = (Inr (Some x, ds'), h')"
  shows "\<exists>p. p \<in># inbox h \<and> judge p = Stop x"
proof -
  from sift_end [OF assms] obtain p where p: "judge p = Stop x" "p \<in># inbox h" by (auto simp: sifted_def)
  then show ?thesis by blast
qed

text \<open>Synchronizing is to the advertiser asked for: when the wait returns a sync handle, a successful
  Sync Established event with exactly the expected address type, address and set identifier was
  received, of version 2 where that was required, and the handle is the one in that event. An event of
  another advertiser on the same bench is never taken for it.\<close>

lemma wait_sync_found:
  assumes "wait_sync_established (Some src) timeout v2 keep_scan h = (Inr (hnd, body), h')"
  shows "(H4_EVENT, Some EVT_LE_META, body) \<in># inbox h \<and> sync_established_source body = Some src \<and>
    body ! 1 = 0 \<and> (if v2 then body ! 0 = LE_PERIODIC_SYNC_ESTABLISHED_V2 else True) \<and> hnd = from_le (pslice 2 4 body) mod 4096"
proof -
  let ?J = "sync_judge (Some src) v2"
  obtain found ds h1 where s: "sift ?J (clock h + timeout) [] h = (Inr (found, ds), h1)"
    using assms by (auto simp: wait_sync_established_def bind_s_Inr_iff)
  have f: "found = Some (Some body)" "body ! 1 = 0" "hnd = from_le (pslice 2 4 body) mod 4096"
    using assms s by (auto simp: wait_sync_established_def bind_s_Inr_iff split: option.splits if_splits)
  from sift_found [OF s [unfolded f(1)]] obtain p where p: "?J p = Stop (Some body)" "p \<in># inbox h" by blast
  from sync_judge_Stop [OF p(1)] p(2) f(2,3) show ?thesis by simp
qed

end
