(* ===== verification/Hci_Inbox.thy ===== *)
theory Hci_Inbox
  imports Periodic
begin

text \<open>
  What a procedure can have seen. Every procedure of a controller only takes packets out of its inbox,
  however it ends; so a packet found late in a run was delivered by the controller in that run. The
  locale \<open>reader\<close> is that contract, and the procedures of a release phase are interpreted in it.
\<close>

locale reader =
  fixes view :: "'s \<Rightarrow> packet multiset" and act :: "('s, 'a) action"
  assumes shrinks: "view (snd (act s)) \<subseteq># view s"
begin

lemma takes: "act s = (r, s') \<Longrightarrow> view s' \<subseteq># view s"
  using shrinks [of s] by simp

lemma seen: "act s = (r, s') \<Longrightarrow> p \<in># view s' \<Longrightarrow> p \<in># view s"
  using takes by (blast dest: mset_subset_eqD)

end

lemma readerI: "(\<And>s r s'. act s = (r, s') \<Longrightarrow> view s' \<subseteq># view s) \<Longrightarrow> reader view act"
  by unfold_locales (metis surj_pair snd_conv)

lemma reader_quiet: "reader view (ret x)" "reader view (throw e)" "reader view (lift_r v)"
  by (unfold_locales; simp)+

lemma reader_modify: "(\<And>s. view (f s) \<subseteq># view s) \<Longrightarrow> reader view (modify_s f)"
  by unfold_locales simp

lemma reader_bind:
  assumes "reader view m" "\<And>x. reader view (f x)"
  shows "reader view (bind_s m f)"
proof (rule readerI)
  fix s r s' assume run: "bind_s m f s = (r, s')"
  obtain rm s1 where m: "m s = (rm, s1)" by (metis surj_pair)
  note first = reader.takes [OF assms(1) m]
  show "view s' \<subseteq># view s"
  proof (cases rm)
    case (Inl e)
    with run m first show ?thesis by (simp add: bind_s_def)
  next
    case (Inr x)
    with run m have "f x s1 = (r, s')" by (simp add: bind_s_def)
    from reader.takes [OF assms(2) this] first show ?thesis by (rule subset_mset.order_trans)
  qed
qed

lemma reader_split: "(\<And>x y. reader view (g x y)) \<Longrightarrow> reader view (case z of (x, y) \<Rightarrow> g x y)"
  by (simp split: prod.split)

lemma reader_if: "(c \<Longrightarrow> reader view a) \<Longrightarrow> (\<not> c \<Longrightarrow> reader view b) \<Longrightarrow> reader view (if c then a else b)"
  by simp

lemma reader_option:
  "reader view n \<Longrightarrow> (\<And>x. reader view (f x)) \<Longrightarrow> reader view (case z of None \<Rightarrow> n | Some x \<Rightarrow> f x)"
  by (simp split: option.split)

lemma reader_catch:
  assumes "reader view m" "\<And>e. reader view (f e)"
  shows "reader view (catch_s m f)"
proof (rule readerI)
  fix s r s' assume run: "catch_s m f s = (r, s')"
  obtain rm s1 where m: "m s = (rm, s1)" by (metis surj_pair)
  note first = reader.takes [OF assms(1) m]
  show "view s' \<subseteq># view s"
  proof (cases rm)
    case (Inl e)
    with run m have "f e s1 = (r, s')" by (simp add: catch_s_def)
    from reader.takes [OF assms(2) this] first show ?thesis by (rule subset_mset.order_trans)
  next
    case (Inr x)
    with run m first show ?thesis by (simp add: catch_s_def)
  qed
qed

lemma reader_quietly: "reader view m \<Longrightarrow> reader view (quietly m)"
  unfolding quietly_def by (intro reader_catch reader_bind reader_quiet reader_if)

lemmas reader_intros = reader_bind reader_quiet reader_split reader_if reader_option reader_quietly

section \<open>Reading and commands\<close>

lemma inbox_rest: "wire h = (d, out) # rest \<Longrightarrow> mset (pending h) + mset (packets_of rest) \<subseteq># inbox h"
  by (cases out) (simp_all add: inbox_def)

lemma read_wire_inbox: "inbox (snd (read_wire t h)) \<subseteq># inbox h"
proof (cases "wire h")
  case (Cons x rest)
  obtain d out where x: "x = (d, out)" by fastforce
  let ?h = "h\<lparr>clock := clock h + d, wire := rest\<rparr>"
  have rest: "inbox ?h \<subseteq># inbox h" using inbox_rest [of h d out rest] Cons x by (simp add: inbox_def)
  have ev: "inbox (snd (bind_s (on_event c body) (\<lambda>_. ret y) ?h)) = inbox ?h" for c body and y :: "packet option"
  proof -
    obtain r h1 where e: "on_event c body ?h = (r, h1)" by fastforce
    then have "inbox h1 = inbox ?h" using on_event_frame [of c body ?h] by (simp add: inbox_def)
    with e show ?thesis by (cases r) (simp_all add: bind_s_def)
  qed
  have later: "inbox (h\<lparr>clock := clock h + t, wire := (d - t, out) # rest\<rparr>) = inbox h"
    using Cons x by (cases out) (simp_all add: inbox_def)
  from Cons x rest ev later show ?thesis
    by (auto simp: read_wire_def Let_def split: sum.splits option.splits bool.splits)
qed (simp add: read_wire_def inbox_def)

interpretation reads: reader inbox "hci_read_packet t" for t
proof
  fix h show "inbox (snd (hci_read_packet t h)) \<subseteq># inbox h"
    using read_wire_inbox [of t h] by (cases "pending h") (simp_all add: hci_read_packet_def inbox_def)
qed

text \<open>However a command ends, and the packets it had deferred with it.\<close>

lemma command_end_inbox: "command_end opcode af [] h r h' \<Longrightarrow> inbox h' \<subseteq># inbox h"
proof (erule command_endE)
  fix skipped h1 e assume a: "pending h @ packets_of (wire h) = skipped @ packets_of (wire h1)" "pending h1 = []"
    "read_wire 200000 h1 = (Inl e, h')"
  have "inbox h' \<subseteq># inbox h1" using read_wire_inbox [of 200000 h1] a(3) by simp
  moreover have "inbox h = mset skipped + inbox h1" unfolding inbox_def a(1) using a(2) by simp
  ultimately show ?thesis by (simp add: subset_mset.add_increasing)
qed (simp_all add: inbox_def)

interpretation commands: reader inbox "command opcode payload timeout af" for opcode payload timeout af
proof (rule readerI)
  fix h r h' assume run: "command opcode payload timeout af h = (r, h')"
  have w: "inbox (snd (hci_write_packet pkt h)) = inbox h" for pkt
    by (auto simp: hci_write_packet_def inbox_def split: list.splits option.splits)
  have l: "inbox (snd (command_loop opcode af dl [] h1)) \<subseteq># inbox h1" for dl h1
    using command_end_inbox [OF command_loop_end] by (metis prod.collapse)
  show "inbox h' \<subseteq># inbox h"
  proof (cases "command_header opcode payload")
    case (Inr pkt)
    obtain rw h1 where h1: "hci_write_packet pkt h = (rw, h1)" by fastforce
    with w [of pkt] have "inbox h1 = inbox h" by simp
    with run Inr h1 l [of "clock h1 + timeout" h1] show ?thesis
      by (cases rw) (simp_all add: command_def bind_s_def)
  qed (use run in \<open>simp add: command_def bind_s_def\<close>)
qed

text \<open>The deadline loop, with and without putting back what it passed over.\<close>

lemma wait_end_inbox: "wait_end keep judge [] h r h' \<Longrightarrow> inbox h' \<subseteq># inbox h"
proof (induction rule: wait_end.induct)
  case (broken skipped h1 t e h')
  have "inbox h' \<subseteq># inbox h1" using read_wire_inbox [of t h1] broken(4) by simp
  moreover have "inbox h = mset skipped + inbox h1" unfolding inbox_def broken(1) using broken(3) by simp
  ultimately show ?case by (simp add: subset_mset.add_increasing)
qed (simp_all add: inbox_def)

lemma reader_wait: "reader inbox (\<lambda>h. read_until keep bounded cap judge (clock h + timeout) [] h)"
  by (rule readerI) (rule wait_end_inbox [OF read_until_end])

section \<open>Loops that hold packets back\<close>

lemma sift_raises: "sift judge deadline ds h = (Inl e, h') \<Longrightarrow> inbox h' \<subseteq># inbox h"
proof (induction judge deadline ds h rule: sift.induct)
  case (1 judge deadline ds h)
  obtain out h1 where rd: "hci_read_packet (min 200000 (deadline - clock h)) h = (out, h1)" by fastforce
  note first = reads.takes [OF rd]
  have t: "clock h < deadline" using 1(4) by (auto simp: sift.simps [of judge deadline ds h] split: if_splits)
  have "inbox h' \<subseteq># inbox h1"
    using 1(1-3) [OF t rd [symmetric]] 1(4) t rd
    by (simp add: sift.simps [of judge deadline ds h] split: sum.splits option.splits sorted_out.splits)
  then show ?case using first by (rule subset_mset.order_trans)
qed

text \<open>An action that may put the packets \<open>ds\<close> back.\<close>

definition carries :: "packet list \<Rightarrow> (hci, 'a) action \<Rightarrow> bool" where
  "carries ds m \<longleftrightarrow> (\<forall>h r h'. m h = (r, h') \<longrightarrow> inbox h' \<subseteq># mset ds + inbox h)"

lemma carries_put_back: "reader inbox g \<Longrightarrow> carries ds (bind_s (put_back ds) (\<lambda>_. g))"
  unfolding carries_def
proof (intro allI impI)
  fix h r h' assume "reader inbox g" "bind_s (put_back ds) (\<lambda>_. g) h = (r, h')"
  then have "inbox h' \<subseteq># inbox (restore ds h)" by (simp add: bind_s_def put_back_def reader.takes)
  then show "inbox h' \<subseteq># mset ds + inbox h" by (simp add: inbox_def add.assoc)
qed

lemma carries_bind: "reader inbox m \<Longrightarrow> (\<And>x. carries ds (f x)) \<Longrightarrow> carries ds (bind_s m f)"
  unfolding carries_def
proof (intro allI impI)
  fix h r h'
  assume m: "reader inbox m" and f: "\<And>x. \<forall>h r h'. f x h = (r, h') \<longrightarrow> inbox h' \<subseteq># mset ds + inbox h"
    and run: "bind_s m f h = (r, h')"
  obtain rm h1 where h1: "m h = (rm, h1)" by fastforce
  note first = reader.takes [OF m h1]
  show "inbox h' \<subseteq># mset ds + inbox h"
  proof (cases rm)
    case (Inl e)
    with run h1 first show ?thesis by (simp add: bind_s_def subset_mset.add_increasing)
  next
    case (Inr x)
    with run h1 f have "inbox h' \<subseteq># mset ds + inbox h1" by (simp add: bind_s_def)
    also have "\<dots> \<subseteq># mset ds + inbox h" using first by simp
    finally show ?thesis .
  qed
qed

lemma reader_sift:
  assumes "\<And>found ds. carries ds (f found ds)"
  shows "reader inbox (bind_s (\<lambda>h. sift judge (clock h + timeout) [] h) (\<lambda>(found, ds). f found ds))"
proof (rule readerI)
  fix h r h' assume run: "bind_s (\<lambda>h. sift judge (clock h + timeout) [] h) (\<lambda>(found, ds). f found ds) h = (r, h')"
  obtain rs h1 where s: "sift judge (clock h + timeout) [] h = (rs, h1)" by fastforce
  show "inbox h' \<subseteq># inbox h"
  proof (cases rs)
    case (Inl e)
    with run s sift_raises show ?thesis by (auto simp: bind_s_def)
  next
    case (Inr z)
    obtain found ds where z: "z = (found, ds)" by fastforce
    with run s Inr assms have "inbox h' \<subseteq># mset ds + inbox h1" by (simp add: bind_s_def carries_def)
    moreover obtain dropped hit where "inbox h = mset ds + mset dropped + hit + inbox h1"
      using sift_end [OF s [unfolded Inr z]] by (auto simp: sifted_def)
    then have "mset ds + inbox h1 \<subseteq># inbox h" by simp
    ultimately show ?thesis by (rule subset_mset.order_trans)
  qed
qed

section \<open>The procedures of a controller\<close>

lemma reader_request: "reader inbox (request opcode block)"
  unfolding request_def by (intro reader_intros commands.reader_axioms)

lemma reader_command_ok: "reader inbox (command_ok opcode block name)"
  unfolding command_ok_def by (intro reader_intros reader_request)

lemma reader_sift_or: "reader inbox (sift_or msg judge timeout)"
  unfolding sift_or_def by (intro reader_sift carries_put_back reader_intros)

lemma reader_required: "reader inbox m \<Longrightarrow> reader inbox (required msg args m)"
  unfolding required_def by (intro reader_intros)

lemma reader_subevent: "reader inbox (wait_le_subevent subevent handle off predicate timeout)"
  unfolding wait_le_subevent_def by (rule reader_wait)

lemmas reader_steps = reader_intros commands.reader_axioms reader_request reader_command_ok reader_sift_or
  reader_required reader_subevent

lemma reader_setup: "reader inbox hci_setup"
proof -
  have "reader inbox (\<lambda>h. (Inr (), if size = 0 then h
      else h\<lparr>acl_size := size, acl_credits := int count, acl_advertised := count\<rparr>))" for size count
    by unfold_locales (simp add: inbox_def)
  then show ?thesis unfolding hci_setup_def Let_def by (intro reader_steps)
qed

lemma reader_identity: "reader inbox (identity override)"
proof -
  have "reader inbox (\<lambda>h. let h' = (if status = 0x01 then h\<lparr>unsupported := unsupported h @ us\<rparr> else h) in (Inr (g h), h'))"
    for status :: byte and us and g :: "hci \<Rightarrow> bytes \<times> byte \<times> string"
    by unfold_locales (simp add: inbox_def)
  then show ?thesis unfolding identity_def by (intro reader_steps)
qed

interpretation prepares: reader inbox "prepare_controller event_mask" for event_mask
  unfolding prepare_controller_def by (intro reader_steps reader_setup reader_identity)

interpretation ext_set: reader inbox "configure_ext_set handle own properties sid data" for handle own properties sid data
  unfolding configure_ext_set_def Let_def by (intro reader_steps reader_identity)

interpretation ext_enable: reader inbox "ext_adv_enable handle enable" for handle enable
  unfolding ext_adv_enable_def by (intro reader_steps)

interpretation per_conf: reader inbox "configure_periodic own marker" for own marker
  unfolding configure_periodic_def by (intro reader_steps ext_set.reader_axioms)

interpretation per_start: reader inbox start_periodic
  unfolding start_periodic_def by (intro reader_steps ext_enable.reader_axioms)

interpretation per_stop: reader inbox stop_periodic
  unfolding stop_periodic_def by (intro reader_steps)

interpretation sync_scan: reader inbox "set_sync_scan enable allow_fail" for enable allow_fail
  unfolding set_sync_scan_def Let_def by (intro reader_steps)

interpretation source_scan: reader inbox start_periodic_source_scan
  unfolding start_periodic_source_scan_def by (intro reader_steps reader_identity sync_scan.reader_axioms)

interpretation observes: reader inbox "observe_periodic_advertiser addr addr_type sid timeout started"
  for addr addr_type sid timeout started
  unfolding observe_periodic_advertiser_def
  by (intro reader_steps source_scan.reader_axioms sync_scan.reader_axioms reader_wait)

lemma reader_discard: "reader inbox (modify_s (\<lambda>h. h\<lparr>pending := filter q (pending h)\<rparr>))"
  by (rule reader_modify) (simp add: inbox_def)

interpretation sync_create: reader inbox "create_periodic_sync addr addr_type sid started" for addr addr_type sid started
  unfolding create_periodic_sync_def discard_pre_create_sync_events_def
  by (intro reader_steps observes.reader_axioms reader_discard sync_scan.reader_axioms)

lemma carries_cases:
  "carries ds n \<Longrightarrow> (\<And>x. carries ds (f x)) \<Longrightarrow> carries ds (case z of None \<Rightarrow> n | Some x \<Rightarrow> f x)"
  "carries ds a \<Longrightarrow> carries ds b \<Longrightarrow> carries ds (if c then a else b)"
  by (simp_all split: option.split)

interpretation sync_wait: reader inbox "wait_sync_established src timeout v2 keep_scan" for src timeout v2 keep_scan
  unfolding wait_sync_established_def cancel_pending_periodic_sync_def
  by (intro reader_sift carries_cases carries_put_back reader_quiet
      carries_bind [OF reader_quietly [OF reader_request]] carries_bind [OF sync_scan.reader_axioms]
      carries_bind [OF reader_if [OF reader_quiet(1) sync_scan.reader_axioms]])

interpretation ext_connect: reader inbox "start_extended_connection own addr addr_type" for own addr addr_type
  unfolding start_extended_connection_def by (intro reader_steps)

interpretation per_report: reader inbox "wait_periodic_report sync_handle marker timeout v2" for sync_handle marker timeout v2
  unfolding wait_periodic_report_def by (rule reader_sift_or)

interpretation past_wait: reader inbox "wait_past_received hnd service_data timeout" for hnd service_data timeout
  unfolding wait_past_received_def by (rule reader_sift_or)

interpretation pawr_diag: reader inbox pawr_diag_counters
  unfolding pawr_diag_counters_def by (intro reader_steps)

interpretation pawr_conf: reader inbox "configure_pawr own" for own
  unfolding configure_pawr_def by (intro reader_steps ext_set.reader_axioms)

interpretation pawr_request: reader inbox "wait_pawr_data_request timeout" for timeout
  unfolding wait_pawr_data_request_def by (intro reader_steps)

interpretation pawr_data: reader inbox "set_requested_pawr_subevent_data start num" for start num
  unfolding set_requested_pawr_subevent_data_def Let_def by (intro reader_steps)

interpretation pawr_subevent: reader inbox "set_pawr_sync_subevent sync_handle subevent" for sync_handle subevent
  unfolding set_pawr_sync_subevent_def discard_pre_pawr_sync_reports_def by (intro reader_steps reader_discard)

interpretation pawr_report: reader inbox "wait_pawr_periodic_report sync_handle subevent marker timeout"
  for sync_handle subevent marker timeout
  unfolding wait_pawr_periodic_report_def by (rule reader_sift_or)

interpretation pawr_response: reader inbox "set_pawr_response sync_handle ec rs ps" for sync_handle ec rs ps
  unfolding set_pawr_response_def by (intro reader_steps)

end
