(* ===== verification/Result_Book.thy ===== *)
theory Result_Book
  imports Hci_Pair
begin

text \<open>
  \<open>python/hcicontroller/results.py\<close>, the accounting of a release run, and the bench a phase of the
  harness works on: the result book, the two controllers, and the variables its \<open>finally\<close> block
  reads. A detail is its format and the numbers printed with it. Printing the report is not modelled.
\<close>

section \<open>The book\<close>

datatype verdict = PASS | FAIL | NA | INCOMPLETE

type_synonym detail = "string \<times> int list"

record result_row =
  r_group :: string
  r_name :: string
  r_status :: verdict
  r_detail :: detail

type_synonym book = "result_row list"

definition book_add :: "string \<Rightarrow> string \<Rightarrow> verdict \<Rightarrow> detail \<Rightarrow> book \<Rightarrow> book" where
  "book_add grp name status det results =
     results @ [\<lparr>r_group = grp, r_name = name, r_status = status, r_detail = det\<rparr>]"

definition passed :: "string \<Rightarrow> string \<Rightarrow> detail \<Rightarrow> book \<Rightarrow> book" where
  "passed grp name det = book_add grp name PASS det"

definition failed :: "string \<Rightarrow> string \<Rightarrow> detail \<Rightarrow> book \<Rightarrow> book" where
  "failed grp name det = book_add grp name FAIL det"

definition not_applicable :: "string \<Rightarrow> string \<Rightarrow> detail \<Rightarrow> book \<Rightarrow> book" where
  "not_applicable grp name det = book_add grp name NA det"

definition incomplete :: "string \<Rightarrow> string \<Rightarrow> detail \<Rightarrow> book \<Rightarrow> book" where
  "incomplete grp name det = book_add grp name INCOMPLETE det"

definition has_failures :: "book \<Rightarrow> bool" where
  "has_failures results \<longleftrightarrow> list_ex (\<lambda>r. r_status r = FAIL) results"

definition has_incomplete :: "book \<Rightarrow> bool" where
  "has_incomplete results \<longleftrightarrow> list_ex (\<lambda>r. r_status r = INCOMPLETE) results"

definition release_passed :: "book \<Rightarrow> bool" where
  "release_passed results \<longleftrightarrow> results \<noteq> [] \<and> \<not> has_failures results \<and> \<not> has_incomplete results"

definition exit_code :: "book \<Rightarrow> nat" where
  "exit_code results = (if release_passed results then 0 else 1)"

section \<open>The bench\<close>

datatype side = Central | Peripheral

record bench =
  bn_book :: book
  bn_pair :: pair
  bn_handles :: "(nat \<times> nat) option"
  bn_prepared :: "side list"

definition on_pair :: "(pair, 'a) action \<Rightarrow> ('x bench_scheme, 'a) action" where
  "on_pair m b = (case m (bn_pair b) of (r, s) \<Rightarrow> (r, b\<lparr>bn_pair := s\<rparr>))"

definition on_side :: "side \<Rightarrow> (hci, 'a) action \<Rightarrow> ('x bench_scheme, 'a) action" where
  "on_side sd m = on_pair (case sd of Central \<Rightarrow> on_central m | Peripheral \<Rightarrow> on_peripheral m)"

definition write_book :: "(book \<Rightarrow> book) \<Rightarrow> ('x bench_scheme, unit) action" where
  "write_book f = modify_s (\<lambda>b. b\<lparr>bn_book := f (bn_book b)\<rparr>)"

text \<open>\<open>str(err)\<close> of the two exceptions the phases handle.\<close>

definition error_detail :: "exn \<Rightarrow> detail" where
  "error_detail e = (case e of HciError m args \<Rightarrow> (m, map int args) | HciGone m \<Rightarrow> (m, []) | _ \<Rightarrow> ('''', []))"

text \<open>\<open>try: m except HciError as err: book.failed(grp, name, str(err))\<close>, and the outer handler of a
  phase, which also takes \<open>HciGone\<close>.\<close>

definition or_failed :: "string \<Rightarrow> string \<Rightarrow> ('x bench_scheme, unit) action \<Rightarrow> ('x bench_scheme, unit) action" where
  "or_failed grp name m =
     catch_s m (\<lambda>e. if is_HciError e then write_book (failed grp name (error_detail e)) else throw e)"

definition or_failed_setup :: "string \<Rightarrow> string \<Rightarrow> ('x bench_scheme, unit) action \<Rightarrow> ('x bench_scheme, unit) action" where
  "or_failed_setup grp name m =
     catch_s m (\<lambda>e. if is_HciError e \<or> is_HciGone e then write_book (failed grp name (error_detail e)) else throw e)"

text \<open>\<open>try: m finally: f\<close>.\<close>

definition finally_s :: "('s, 'a) action \<Rightarrow> ('s, unit) action \<Rightarrow> ('s, 'a) action" where
  "finally_s m f s = (case m s of (r, s1) \<Rightarrow> (case f s1 of (Inl e, s2) \<Rightarrow> (Inl e, s2) | (Inr _, s2) \<Rightarrow> (r, s2)))"

section \<open>What a step records\<close>

definition key :: "result_row \<Rightarrow> string \<times> string" where
  "key r = (r_group r, r_name r)"

text \<open>A step only adds rows, and when it returns it has either recorded a failure or exactly the rows
  it is there for.\<close>

definition recorded :: "(string \<times> string) list \<Rightarrow> 'a result \<Rightarrow> 'x bench_scheme \<Rightarrow> 'x bench_scheme \<Rightarrow> bool" where
  "recorded names r b b' \<longleftrightarrow> (\<exists>rows. bn_book b' = bn_book b @ rows \<and>
     (case r of Inl _ \<Rightarrow> True | Inr _ \<Rightarrow> has_failures rows \<or> map key rows = names))"

locale records =
  fixes names :: "(string \<times> string) list" and act :: "('x bench_scheme, 'a) action"
  assumes recorded: "act b = (r, b') \<Longrightarrow> recorded names r b b'"
begin

lemma clean_is_complete:
  assumes "act b = (Inr x, b')" "release_passed (bn_book b')"
  shows "map key (drop (length (bn_book b)) (bn_book b')) = names"
  using recorded [OF assms(1)] assms(2) by (auto simp: recorded_def release_passed_def has_failures_def)

end

lemma records_quiet:
  assumes "\<And>b. bn_book (snd (act b)) = bn_book b"
  shows "records [] act"
proof
  fix b r b' assume "act b = (r, b')"
  with assms [of b] show "recorded [] r b b'" by (auto simp: recorded_def split: sum.splits)
qed

lemma records_pair: "records [] (on_pair m)" "records [] (on_side sd m')"
  by (rule records_quiet, simp add: on_pair_def on_side_def split: prod.split)+

lemma records_ret: "records [] (ret x)" "records [] (lift_r v)" "records names (throw e)"
proof -
  show "records names (throw e)" by unfold_locales (auto simp: recorded_def)
qed (rule records_quiet, simp)+

lemma records_modify: "(\<And>b. bn_book (f b) = bn_book b) \<Longrightarrow> records [] (modify_s f)"
  by (rule records_quiet) simp

lemma has_failures_append [simp]: "has_failures (xs @ ys) \<longleftrightarrow> has_failures xs \<or> has_failures ys"
  by (simp add: has_failures_def)

lemma records_bind:
  assumes "records ns m" "\<And>x. records ms (f x)"
  shows "records (ns @ ms) (bind_s m f)"
proof
  fix b r b' assume run: "bind_s m f b = (r, b')"
  obtain rm b1 where m: "m b = (rm, b1)" by fastforce
  from records.recorded [OF assms(1) m] obtain rows where rows: "bn_book b1 = bn_book b @ rows"
    "case rm of Inl _ \<Rightarrow> True | Inr _ \<Rightarrow> has_failures rows \<or> map key rows = ns" by (auto simp: recorded_def)
  show "recorded (ns @ ms) r b b'"
  proof (cases rm)
    case (Inl e)
    with run m rows show ?thesis by (auto simp: bind_s_def recorded_def)
  next
    case (Inr x)
    with run m have "f x b1 = (r, b')" by (simp add: bind_s_def)
    from records.recorded [OF assms(2) this] obtain rows' where "bn_book b' = bn_book b1 @ rows'"
      "case r of Inl _ \<Rightarrow> True | Inr _ \<Rightarrow> has_failures rows' \<or> map key rows' = ms" by (auto simp: recorded_def)
    with rows Inr show ?thesis unfolding recorded_def
      by (intro exI [of _ "rows @ rows'"]) (auto split: sum.splits)
  qed
qed

lemma records_write:
  "records [(grp, name)] (write_book (passed grp name det))"
  "records [(grp, name)] (write_book (incomplete grp name det))"
  "records names (write_book (failed grp name det))"
  by (unfold_locales; auto simp: recorded_def write_book_def passed_def incomplete_def failed_def book_add_def key_def
      has_failures_def)+

lemma records_handler:
  assumes "records names m" "\<And>e. records names (f e)"
    "\<And>e b b' x. f e b = (Inr x, b') \<Longrightarrow> \<exists>rows. bn_book b' = bn_book b @ rows \<and> has_failures rows"
  shows "records names (catch_s m f)"
proof
  fix b r b' assume run: "catch_s m f b = (r, b')"
  obtain rm b1 where m: "m b = (rm, b1)" by fastforce
  from records.recorded [OF assms(1) m] obtain rows where rows: "bn_book b1 = bn_book b @ rows"
    "case rm of Inl _ \<Rightarrow> True | Inr _ \<Rightarrow> has_failures rows \<or> map key rows = names" by (auto simp: recorded_def)
  show "recorded names r b b'"
  proof (cases rm)
    case (Inr x)
    with run m rows show ?thesis by (auto simp: catch_s_def recorded_def)
  next
    case (Inl e)
    with run m have f: "f e b1 = (r, b')" by (simp add: catch_s_def)
    from records.recorded [OF assms(2) f] obtain rows' where rows': "bn_book b' = bn_book b1 @ rows'"
      by (auto simp: recorded_def)
    show ?thesis
    proof (cases r)
      case (Inl e')
      with rows rows' show ?thesis by (simp add: recorded_def)
    next
      case (Inr x)
      from assms(3) [OF f [unfolded Inr]] rows Inr show ?thesis by (fastforce simp: recorded_def)
    qed
  qed
qed

lemma failed_rows:
  "write_book (failed grp name det) b = (Inr x, b') \<Longrightarrow> \<exists>rows. bn_book b' = bn_book b @ rows \<and> has_failures rows"
  by (auto simp: write_book_def failed_def book_add_def has_failures_def)

lemma records_or_failed:
  "records names m \<Longrightarrow> records names (or_failed grp name m)"
  "records names m \<Longrightarrow> records names (or_failed_setup grp name m)"
  unfolding or_failed_def or_failed_setup_def
  by (rule records_handler; auto simp: records_write records_ret dest: failed_rows split: if_splits)+

lemma records_finally:
  assumes "records names m" "\<And>b. bn_book (snd (f b)) = bn_book b"
  shows "records names (finally_s m f)"
proof
  fix b r b' assume run: "finally_s m f b = (r, b')"
  obtain rm b1 where m: "m b = (rm, b1)" by fastforce
  obtain rf b2 where f: "f b1 = (rf, b2)" by fastforce
  from assms(2) [of b1] f have "bn_book b2 = bn_book b1" by simp
  with records.recorded [OF assms(1) m] run m f show "recorded names r b b'"
    by (cases rf) (auto simp: finally_s_def recorded_def)
qed

lemmas records_intros = records_bind records_or_failed records_write records_ret records_pair

end
