(* ===== verification/Feature_Phases.thy ===== *)
theory Feature_Phases
  imports Result_Book
begin

text \<open>
  The phases of \<open>python/hcicontroller/connected_features.py\<close> that need two controllers and a
  connection between them, and what a release verdict says about them. A label is ASCII text; one
  that is not raises when the marker is encoded.
\<close>

section \<open>The connected features\<close>

definition encode_ascii :: "string \<Rightarrow> bytes result" where
  "encode_ascii s =
     (if list_all (\<lambda>c. (of_char c :: nat) < 128) s then Inr (map of_char s)
      else Inl (ValueError ''ordinal not in range(128)''))"

abbreviation (input) TEST_CID :: nat where "TEST_CID \<equiv> 0x0040"
abbreviation (input) PHY_1M :: byte where "PHY_1M \<equiv> 0x01"
abbreviation (input) PHY_2M :: byte where "PHY_2M \<equiv> 0x02"

text \<open>Prepare both, advertise, connect: how both phases begin and how the connection is kept for the
  \<open>finally\<close> block. \<open>middle\<close> is what happens between preparing and advertising.\<close>

definition connect_pair :: "(bench, unit) action \<Rightarrow> (bench, nat \<times> nat) action" where
  "connect_pair middle =
     bind_s (on_side Peripheral (prepare_controller DEFAULT_LE_EVENT_MASK)) (\<lambda>(peripheral_id, peripheral_type, _).
     bind_s (on_side Central (prepare_controller DEFAULT_LE_EVENT_MASK)) (\<lambda>(_, central_type, _).
     bind_s middle (\<lambda>_.
     bind_s (on_side Peripheral (start_legacy_advertising peripheral_type True)) (\<lambda>_.
     bind_s (on_side Central (start_legacy_connection central_type peripheral_id peripheral_type)) (\<lambda>_.
     bind_s (on_pair (wait_acl_pair 10000000)) (\<lambda>(c, p).
     bind_s (modify_s (\<lambda>b. b\<lparr>bn_handles := Some (c, p)\<rparr>)) (\<lambda>_.
     ret (c, p))))))))"

definition disconnect_handles :: "('x bench_scheme, unit) action" where
  "disconnect_handles = with_s (\<lambda>b. case bn_handles b of None \<Rightarrow> ret ()
     | Some (c, p) \<Rightarrow> on_pair (disconnect_acl_pair (Some c) (Some p)))"

text \<open>A marker from one side to the other.\<close>

definition acl_data :: "string \<Rightarrow> string \<Rightarrow> side \<Rightarrow> nat \<Rightarrow> side \<Rightarrow> nat \<Rightarrow> string \<Rightarrow> (bench, unit) action" where
  "acl_data label arrow sender from receiver into name =
     bind_s (lift_r (encode_ascii (label @ arrow))) (\<lambda>marker.
     bind_s (on_side sender (send_acl from TEST_CID marker)) (\<lambda>_.
     bind_s (on_side receiver (wait_acl_marker into TEST_CID marker 5000000)) (\<lambda>seen.
     if seen then write_book (passed ''ACL data'' (label @ name) ('''', []))
     else write_book (failed ''ACL data'' (label @ name) (''marker not received'', [])))))"

definition side_name :: "side \<Rightarrow> string" where
  "side_name sd = (case sd of Central \<Rightarrow> ''Central'' | Peripheral \<Rightarrow> ''Peripheral'')"

definition check_connection :: "string \<Rightarrow> side \<Rightarrow> nat \<Rightarrow> (bench, unit) action" where
  "check_connection label sd handle =
     (let rssi = label @ '' '' @ side_name sd @ '' RSSI'';
          features = label @ '' '' @ side_name sd @ '' remote features'' in
      bind_s (or_failed ''Connection'' rssi
        (bind_s (on_side sd (read_rssi handle)) (\<lambda>v. write_book (passed ''Connection'' rssi (''%d dBm'', [v]))))) (\<lambda>_.
      or_failed ''Connection'' features
        (bind_s (on_side sd (read_remote_features handle)) (\<lambda>fs.
           write_book (passed ''Connection'' features (''hex'', map uint fs))))))"

definition check_data_length :: "string \<Rightarrow> nat \<Rightarrow> (bench, unit) action" where
  "check_data_length label c =
     or_failed ''DLE'' label
       (bind_s (on_side Central (set_data_length c)) (\<lambda>(tx, rx).
          write_book (passed ''DLE'' label (''tx %u / rx %u octets'', [int tx, int rx]))))"

definition check_phy :: "string \<Rightarrow> nat \<Rightarrow> nat \<Rightarrow> (bench, unit) action" where
  "check_phy label c p =
     or_failed ''PHY'' label
       (bind_s (on_side Central (set_phy c PHY_2M)) (\<lambda>_.
        bind_s (write_book (passed ''PHY'' (label @ '' 2M'') ('''', []))) (\<lambda>_.
        bind_s (on_side Peripheral (set_phy p PHY_1M)) (\<lambda>_.
        write_book (passed ''PHY'' (label @ '' return to 1M'') ('''', []))))))"

definition check_power :: "string \<Rightarrow> side \<Rightarrow> nat \<Rightarrow> (bench, unit) action" where
  "check_power label sd handle =
     (let sca = label @ '' '' @ side_name sd @ '' request''; power = label @ '' '' @ side_name sd in
      bind_s (or_failed ''SCA'' sca
        (bind_s (on_side sd (request_peer_sca handle)) (\<lambda>v.
           write_book (passed ''SCA'' sca (''peer SCA code %u'', [uint v]))))) (\<lambda>_.
      or_failed ''Power control'' power
        (bind_s (on_side sd (power_control handle)) (\<lambda>_. write_book (passed ''Power control'' power ('''', []))))))"

definition check_path_loss :: "string \<Rightarrow> nat \<Rightarrow> (bench, unit) action" where
  "check_path_loss label c =
     or_failed ''Path loss'' label
       (bind_s (on_side Central (path_loss_monitor c 3000000)) (\<lambda>crossed.
        if crossed then write_book (passed ''Path loss'' (label @ '' threshold event'') ('''', []))
        else write_book (incomplete ''Path loss'' (label @ '' threshold event'')
               (''configuration accepted but no threshold crossing observed'', []))))"

definition connected_body :: "string \<Rightarrow> (bench, unit) action" where
  "connected_body label =
     bind_s (connect_pair (ret ())) (\<lambda>(c, p).
     bind_s (write_book (passed ''ACL roles'' label (''central 0x%04X / peripheral 0x%04X'', [int c, int p]))) (\<lambda>_.
     bind_s (acl_data label '' central->peripheral'' Central c Peripheral p '' central -> peripheral'') (\<lambda>_.
     bind_s (acl_data label '' peripheral->central'' Peripheral p Central c '' peripheral -> central'') (\<lambda>_.
     bind_s (check_connection label Central c) (\<lambda>_.
     bind_s (check_connection label Peripheral p) (\<lambda>_.
     bind_s (check_data_length label c) (\<lambda>_.
     bind_s (check_phy label c p) (\<lambda>_.
     bind_s (check_power label Central c) (\<lambda>_.
     bind_s (check_power label Peripheral p) (\<lambda>_.
     check_path_loss label c))))))))))"

definition run_connected_feature_phase :: "string \<Rightarrow> (bench, unit) action" where
  "run_connected_feature_phase label =
     bind_s (modify_s (\<lambda>b. b\<lparr>bn_handles := None\<rparr>)) (\<lambda>_.
     finally_s (or_failed_setup ''Connection'' (label @ '' setup'') (connected_body label)) disconnect_handles)"

section \<open>Connection subrating\<close>

abbreviation (input) SUBRATING_HOST_SUPPORT_BIT :: byte where "SUBRATING_HOST_SUPPORT_BIT \<equiv> 38"

definition enable_subrating :: "side \<Rightarrow> string \<Rightarrow> (bench, unit) action" where
  "enable_subrating sd name =
     bind_s (on_side sd (command_ok 0x2074 (Inr [SUBRATING_HOST_SUPPORT_BIT, 1]) (name @ '' LE Set Host Feature''))) (\<lambda>_.
     modify_s (\<lambda>b. b\<lparr>bn_prepared := bn_prepared b @ [sd]\<rparr>))"

fun disable_subrating :: "side list \<Rightarrow> (bench, unit) action" where
  "disable_subrating [] = ret ()"
| "disable_subrating (sd # sds) =
     bind_s (quietly (on_side sd (request 0x2074 (Inr [SUBRATING_HOST_SUPPORT_BIT, 0])))) (\<lambda>_. disable_subrating sds)"

definition subrate_body :: "string \<Rightarrow> (bench, unit) action" where
  "subrate_body label =
     bind_s (connect_pair (bind_s (enable_subrating Central ''central'') (\<lambda>_. enable_subrating Peripheral ''peripheral''))) (\<lambda>(c, p).
     bind_s (on_side Central (command_ok 0x207E (struct_pack [FH c, FH 1, FH 1, FH 0, FH 0, FH 300]) ''LE Subrate Request'')) (\<lambda>_.
     bind_s (on_side Central (required ''no successful LE Subrate Change event'' []
               (wait_le_subevent 0x23 (Some c) (Some 2) (\<lambda>event. 12 \<le> length event \<and> event ! 1 = 0) 5000000))) (\<lambda>body.
     write_book (passed ''Connection subrating'' label (''factor %u'', [int (from_le (pslice 4 6 body))])))))"

definition run_subrate_phase :: "string \<Rightarrow> (bench, unit) action" where
  "run_subrate_phase label =
     bind_s (modify_s (\<lambda>b. b\<lparr>bn_handles := None, bn_prepared := []\<rparr>)) (\<lambda>_.
     finally_s (or_failed_setup ''Connection subrating'' label (subrate_body label))
       (bind_s disconnect_handles (\<lambda>_. with_s (\<lambda>b. disable_subrating (bn_prepared b)))))"

section \<open>What the phases record\<close>

lemma book_on_pair [simp]: "bn_book (snd (on_pair m b)) = bn_book b" "bn_book (snd (on_side sd m' b)) = bn_book b"
  by (simp_all add: on_pair_def on_side_def split: prod.split)


lemma book_bind:
  assumes "\<And>b. bn_book (snd (m b)) = bn_book b" "\<And>x b. bn_book (snd (f x b)) = bn_book b"
  shows "bn_book (snd (bind_s m f b)) = bn_book b"
proof -
  obtain r b1 where m: "m b = (r, b1)" by fastforce
  then have "bn_book b1 = bn_book b" using assms(1) [of b] by simp
  with m assms(2) show ?thesis by (cases r) (simp_all add: bind_s_def)
qed

lemma book_quietly:
  assumes "\<And>b. bn_book (snd (m b)) = bn_book b"
  shows "bn_book (snd (quietly m b)) = bn_book b"
proof -
  obtain r b1 where m: "bind_s m (\<lambda>_. ret ()) b = (r, b1)" by fastforce
  have "bn_book b1 = bn_book b" using book_bind [OF assms, of "\<lambda>_. ret ()" b] m by simp
  with m show ?thesis by (cases r) (simp_all add: quietly_def catch_s_def)
qed

lemma book_disconnect: "bn_book (snd (disconnect_handles b)) = bn_book b"
  by (simp add: disconnect_handles_def split: option.split prod.split)

lemma book_disable: "bn_book (snd (disable_subrating sds b)) = bn_book b"
proof (induction sds arbitrary: b)
  case (Cons sd sds)
  then show ?case unfolding disable_subrating.simps by (intro book_bind book_quietly) simp_all
qed simp

lemma records_if:
  "(c \<Longrightarrow> records names a) \<Longrightarrow> (\<not> c \<Longrightarrow> records names b) \<Longrightarrow> records names (if c then a else b)"
  "(\<And>x y. records names (g x y)) \<Longrightarrow> records names (case z of (x, y) \<Rightarrow> g x y)"
  by (simp_all split: prod.split)

text \<open>Binding a step that records nothing, and one that ends a chain.\<close>

lemma records_first: "records [] m \<Longrightarrow> (\<And>x. records names (f x)) \<Longrightarrow> records names (bind_s m f)"
  using records_bind [of "[]" m names f] by simp

lemma records_one: "records [n] m \<Longrightarrow> (\<And>x. records names (f x)) \<Longrightarrow> records (n # names) (bind_s m f)"
  using records_bind [of "[n]" m names f] by simp

lemmas step_intros = records_if records_or_failed records_write records_pair

interpretation connect: records "[]" "connect_pair (ret ())"
  unfolding connect_pair_def
  by (intro records_first records_pair records_if records_ret) (simp_all add: records_modify records_ret)

interpretation acl: records "[(''ACL data'', label @ name)]" "acl_data label arrow sender from receiver into name"
  for label arrow sender "from" receiver into name
  unfolding acl_data_def by (intro records_first [OF records_ret(2)] records_first [OF records_pair(2)] step_intros)

interpretation conn_check: records
  "[(''Connection'', label @ '' '' @ side_name sd @ '' RSSI''), (''Connection'', label @ '' '' @ side_name sd @ '' remote features'')]"
  "check_connection label sd handle" for label sd handle
  unfolding check_connection_def Let_def by (intro records_one records_first [OF records_pair(2)] step_intros)

interpretation dle: records "[(''DLE'', label)]" "check_data_length label c" for label c
  unfolding check_data_length_def by (intro step_intros records_first [OF records_pair(2)])

interpretation phy_check: records "[(''PHY'', label @ '' 2M''), (''PHY'', label @ '' return to 1M'')]" "check_phy label c p"
  for label c p
  unfolding check_phy_def
  by (intro records_or_failed records_first [OF records_pair(2)] records_one [OF records_write(1)] records_write(1))

interpretation power_check: records
  "[(''SCA'', label @ '' '' @ side_name sd @ '' request''), (''Power control'', label @ '' '' @ side_name sd)]"
  "check_power label sd handle" for label sd handle
  unfolding check_power_def Let_def by (intro records_one records_first [OF records_pair(2)] step_intros)

interpretation loss: records "[(''Path loss'', label @ '' threshold event'')]" "check_path_loss label c" for label c
  unfolding check_path_loss_def by (intro step_intros records_first [OF records_pair(2)])

text \<open>The rows a complete run of the phase records, in order.\<close>

definition connected_rows :: "string \<Rightarrow> (string \<times> string) list" where
  "connected_rows label =
     [(''ACL roles'', label), (''ACL data'', label @ '' central -> peripheral''),
      (''ACL data'', label @ '' peripheral -> central''),
      (''Connection'', label @ '' Central RSSI''), (''Connection'', label @ '' Central remote features''),
      (''Connection'', label @ '' Peripheral RSSI''), (''Connection'', label @ '' Peripheral remote features''),
      (''DLE'', label), (''PHY'', label @ '' 2M''), (''PHY'', label @ '' return to 1M''),
      (''SCA'', label @ '' Central request''), (''Power control'', label @ '' Central''),
      (''SCA'', label @ '' Peripheral request''), (''Power control'', label @ '' Peripheral''),
      (''Path loss'', label @ '' threshold event'')]"

lemma records_two: "records [n1, n2] m \<Longrightarrow> (\<And>x. records names (f x)) \<Longrightarrow> records (n1 # n2 # names) (bind_s m f)"
  using records_bind [of "[n1, n2]" m names f] by simp

lemma connected_body_records: "records (connected_rows label) (connected_body label)"
  unfolding connected_body_def connected_rows_def
  using conn_check.records_axioms [of label Central] conn_check.records_axioms [of label Peripheral]
    power_check.records_axioms [of label Central] power_check.records_axioms [of label Peripheral]
  by (intro records_first [OF connect.records_axioms] records_if(2) records_one [OF records_write(1)]
      records_one [OF acl.records_axioms] records_two records_one [OF dle.records_axioms]
      phy_check.records_axioms loss.records_axioms) (simp_all add: side_name_def)

interpretation connected_phase: records "connected_rows label" "run_connected_feature_phase label" for label
  unfolding run_connected_feature_phase_def
  by (intro records_first records_finally records_or_failed connected_body_records book_disconnect)
    (simp add: records_modify)

interpretation subrate_phase: records "[(''Connection subrating'', label)]" "run_subrate_phase label" for label
proof -
  have enable: "records [] (enable_subrating sd name)" for sd name
    unfolding enable_subrating_def by (intro records_first [OF records_pair(2)] records_modify) simp
  have "records [] (connect_pair (bind_s (enable_subrating Central ''central'') (\<lambda>_. enable_subrating Peripheral ''peripheral'')))"
    unfolding connect_pair_def
    by (intro records_first records_pair records_if enable) (simp_all add: records_modify records_ret)
  then have "records [(''Connection subrating'', label)] (subrate_body label)"
    unfolding subrate_body_def by (intro records_first records_if(2) records_pair records_write(1))
  moreover have "bn_book (snd (bind_s disconnect_handles (\<lambda>_. with_s (\<lambda>b. disable_subrating (bn_prepared b))) b)) = bn_book b" for b
    by (intro book_bind book_disconnect) (simp add: book_disable)
  ultimately show "records [(''Connection subrating'', label)] (run_subrate_phase label)"
    unfolding run_subrate_phase_def
    by (intro records_first records_finally records_or_failed) (simp_all add: records_modify)
qed

section \<open>What escapes\<close>

text \<open>Actions that raise neither of the two exceptions of the HCI engine.\<close>

definition polite :: "('s, 'a) action \<Rightarrow> bool" where
  "polite m \<longleftrightarrow> (\<forall>s e s'. m s = (Inl e, s') \<longrightarrow> \<not> is_HciError e \<and> \<not> is_HciGone e)"

lemma politeI: "(\<And>s e s'. m s = (Inl e, s') \<Longrightarrow> \<not> is_HciError e \<and> \<not> is_HciGone e) \<Longrightarrow> polite m"
  by (auto simp: polite_def)

lemma politeD: "polite m \<Longrightarrow> m s = (Inl e, s') \<Longrightarrow> \<not> is_HciError e \<and> \<not> is_HciGone e"
  unfolding polite_def by blast

lemma polite_ret: "polite (ret x)" "polite (modify_s f)" "polite (quietly m)" "polite (or_failed_setup grp name m')"
  by (auto simp: polite_def quietly_def or_failed_setup_def write_book_def catch_s_def split: prod.splits sum.splits if_splits)

lemma polite_bind: "polite m \<Longrightarrow> (\<And>x. polite (f x)) \<Longrightarrow> polite (bind_s m f)"
  by (rule politeI) (auto simp: bind_s_def split: prod.splits sum.splits dest: politeD)

lemma polite_finally: "polite m \<Longrightarrow> polite f \<Longrightarrow> polite (finally_s m f)"
  by (rule politeI) (auto simp: finally_s_def split: prod.splits sum.splits dest: politeD)

lemma polite_option: "polite n \<Longrightarrow> (\<And>x. polite (f x)) \<Longrightarrow> polite (case z of None \<Rightarrow> n | Some x \<Rightarrow> f x)"
  by (simp split: option.split)

lemma polite_disconnect: "polite disconnect_handles"
proof -
  have "polite (disconnect_acl_pair hc hp)" for hc hp
    unfolding disconnect_acl_pair_def by (intro polite_bind polite_ret polite_option)
  then have "polite (on_pair (disconnect_acl_pair hc hp))" for hc hp
    by (intro politeI) (auto simp: on_pair_def split: prod.splits dest: politeD)
  then show ?thesis unfolding disconnect_handles_def
    by (intro politeI) (auto split: option.splits prod.splits dest: politeD)
qed

lemma polite_phase: "polite (run_connected_feature_phase label)"
  unfolding run_connected_feature_phase_def
  by (intro polite_bind polite_finally polite_ret polite_disconnect)

text \<open>What the verdict of a phase says, for every phase that records its rows and lets no exception of
  the engine escape.\<close>

context records
begin

lemma verdict:
  assumes "polite act"
  shows "case act b of
     (Inl e, b') \<Rightarrow> \<not> is_HciError e \<and> \<not> is_HciGone e \<and> (\<exists>rows. bn_book b' = bn_book b @ rows)
   | (Inr _, b') \<Rightarrow> \<exists>rows. bn_book b' = bn_book b @ rows \<and>
       (if has_failures rows then exit_code (bn_book b') = 1 else map key rows = names)"
proof -
  obtain r b' where run: "act b = (r, b')" by (metis surj_pair)
  from recorded [OF run] obtain rows where rows: "bn_book b' = bn_book b @ rows"
    "case r of Inl _ \<Rightarrow> True | Inr _ \<Rightarrow> has_failures rows \<or> map key rows = names"
    by (auto simp: recorded_def)
  show ?thesis
  proof (cases r)
    case (Inl e)
    with run rows politeD [OF assms] show ?thesis by auto
  next
    case (Inr u)
    with run rows show ?thesis by (auto simp: exit_code_def release_passed_def)
  qed
qed

end

text \<open>The verdict of the connected feature phase: whatever the two controllers do, the phase only adds
  rows to the book and raises none of the engine's exceptions; and when it returns it has recorded
  either a failure, so that the release does not pass, or exactly the fifteen rows of its procedures.
  A phase that is cut short is never counted as passed.\<close>

lemma connected_phase_verdict:
  "case run_connected_feature_phase label b of
     (Inl e, b') \<Rightarrow> \<not> is_HciError e \<and> \<not> is_HciGone e \<and> (\<exists>rows. bn_book b' = bn_book b @ rows)
   | (Inr _, b') \<Rightarrow> \<exists>rows. bn_book b' = bn_book b @ rows \<and>
       (if has_failures rows then exit_code (bn_book b') = 1 else map key rows = connected_rows label)"
  by (rule connected_phase.verdict [OF polite_phase])

end
