(* ===== verification/Phase_Rules.thy ===== *)
theory Phase_Rules
  imports Hci_Inbox Feature_Phases
begin

text \<open>
  Rules for phases on the bench: what a phase may have seen of each controller, when it only adds one
  row to the book, and partial correctness triples that collect, step by step, what a run that passed
  must have received. The locale \<open>scored\<close> is the contract of a test: it writes its pass last, and only
  with evidence.
\<close>

section \<open>Phases that record one row\<close>

text \<open>A procedure of one controller seen from the bench.\<close>

abbreviation scan_inbox :: "'x bench_scheme \<Rightarrow> packet multiset" where "scan_inbox b \<equiv> inbox (fst (bn_pair b))"
abbreviation adv_inbox :: "'x bench_scheme \<Rightarrow> packet multiset" where "adv_inbox b \<equiv> inbox (snd (bn_pair b))"

lemma reader_side:
  "reader inbox m \<Longrightarrow> reader scan_inbox (on_side sd m)"
  "reader inbox m \<Longrightarrow> reader adv_inbox (on_side sd m)"
  by (rule readerI; cases sd;
      auto simp: on_side_def on_pair_def on_central_def on_peripheral_def reader.takes split: prod.splits)+

lemma on_side_Inr:
  assumes "on_side Central m b = (Inr x, b')"
  shows "\<exists>h'. m (fst (bn_pair b)) = (Inr x, h')"
  using assms by (auto simp: on_side_def on_pair_def on_central_def split: prod.splits)

definition silent :: "('x bench_scheme, 'a) action \<Rightarrow> bool" where
  "silent m \<longleftrightarrow> (\<forall>b. bn_book (snd (m b)) = bn_book b)"

lemma silent_side: "silent (on_side sd m)" "silent (on_pair m')"
  by (simp_all add: silent_def)

lemma silent_modify: "(\<And>b. bn_book (f b) = bn_book b) \<Longrightarrow> silent (modify_s f)"
  by (simp add: silent_def)

lemma silent_bind: "silent m \<Longrightarrow> (\<And>x. silent (f x)) \<Longrightarrow> silent (bind_s m f)"
  unfolding silent_def by (blast intro: book_bind)

text \<open>A test that writes its one pass as its last step and nothing before.\<close>

definition scores :: "string \<Rightarrow> string \<Rightarrow> ('x bench_scheme, unit) action \<Rightarrow> bool" where
  "scores grp name m \<longleftrightarrow> (\<forall>b r b'. m b = (r, b') \<longrightarrow>
     (case r of Inl _ \<Rightarrow> bn_book b' = bn_book b | Inr _ \<Rightarrow> \<exists>det. bn_book b' = passed grp name det (bn_book b)))"

lemma scores_write: "scores grp name (write_book (passed grp name det))" "scores grp name (throw e)"
  unfolding scores_def write_book_def by (auto simp del: split_paired_Ex)

lemma scoresD:
  "scores grp name m \<Longrightarrow> m b = (Inl e, b') \<Longrightarrow> bn_book b' = bn_book b"
  "scores grp name m \<Longrightarrow> m b = (Inr u, b') \<Longrightarrow> \<exists>det. bn_book b' = passed grp name det (bn_book b)"
  unfolding scores_def by (drule spec, drule spec, drule spec, drule (1) mp, simp del: split_paired_Ex)+

lemma scores_bind:
  assumes m: "silent m" and f: "\<And>x. scores grp name (f x)"
  shows "scores grp name (bind_s m f)"
  unfolding scores_def
proof (intro allI impI)
  fix b r b' assume run: "bind_s m f b = (r, b')"
  obtain rm b1 where b1: "m b = (rm, b1)" by (metis surj_pair)
  have book: "bn_book b1 = bn_book b" using m b1 by (metis silent_def snd_conv)
  show "case r of Inl _ \<Rightarrow> bn_book b' = bn_book b | Inr _ \<Rightarrow> \<exists>det. bn_book b' = passed grp name det (bn_book b)"
  proof (cases rm)
    case (Inl e)
    with run b1 book show ?thesis by (auto simp: bind_s_def)
  next
    case (Inr x)
    with run b1 have "f x b1 = (r, b')" by (simp add: bind_s_def)
    with f [of x] book show ?thesis unfolding scores_def by metis
  qed
qed

lemma scores_cases:
  "(\<And>x y. scores grp name (g x y)) \<Longrightarrow> scores grp name (case z of (x, y) \<Rightarrow> g x y)"
  "(c \<Longrightarrow> scores grp name m) \<Longrightarrow> (\<not> c \<Longrightarrow> scores grp name n) \<Longrightarrow> scores grp name (if c then m else n)"
  by (simp_all split: prod.split)

lemmas scores_intros = scores_bind scores_write scores_cases silent_side

text \<open>The test added one row: a pass that is backed by \<open>evidence\<close>, or a failure.\<close>

definition judged :: "string \<Rightarrow> string \<Rightarrow> bool \<Rightarrow> book \<Rightarrow> book \<Rightarrow> bool" where
  "judged grp name evidence old new \<longleftrightarrow> (\<exists>row. new = old @ [row] \<and> key row = (grp, name) \<and>
     (if r_status row = PASS then evidence else r_status row = FAIL))"

lemma judged_failed: "judged grp name ev old (failed grp name det old)"
  unfolding judged_def failed_def book_add_def
  by (rule exI [of _ "\<lparr>r_group = grp, r_name = name, r_status = FAIL, r_detail = det\<rparr>"]) (simp add: key_def)

lemma judged_passed: "ev \<Longrightarrow> judged grp name ev old (passed grp name det old)"
  unfolding judged_def passed_def book_add_def
  by (rule exI [of _ "\<lparr>r_group = grp, r_name = name, r_status = PASS, r_detail = det\<rparr>"]) (simp add: key_def)

text \<open>\<open>try: m except <caught> as err: book.failed(grp, name, <detail>)\<close>, with a detail that may use the variables
  of the phase; the handler most phases have takes the two exceptions of the engine.\<close>

definition failing :: "(exn \<Rightarrow> bool) \<Rightarrow> ('x bench_scheme \<Rightarrow> exn \<Rightarrow> detail) \<Rightarrow> string \<Rightarrow> string \<Rightarrow>
    ('x bench_scheme, unit) action \<Rightarrow> ('x bench_scheme, unit) action" where
  "failing c det grp name m =
     catch_s m (\<lambda>e. if c e then with_s (\<lambda>b. write_book (failed grp name (det b e))) else throw e)"

definition engine_error :: "exn \<Rightarrow> bool" where
  "engine_error e \<longleftrightarrow> is_HciError e \<or> is_HciGone e"

lemma with_const: "with_s (\<lambda>_. f) = f"
  by (rule ext) simp

lemma or_failed_setup_failing: "or_failed_setup grp name m = failing engine_error (\<lambda>_. error_detail) grp name m"
  unfolding or_failed_setup_def failing_def engine_error_def with_const ..

text \<open>What a pass of the test is worth: \<open>evidence\<close> is about the bench the test started on.\<close>

locale scored =
  fixes grp name :: string and body :: "('x bench_scheme, unit) action" and evidence :: "'x bench_scheme \<Rightarrow> bool"
  assumes scores: "scores grp name body"
    and earned: "body b = (Inr (), b') \<Longrightarrow> evidence b"
begin

lemma verdict:
  assumes run: "finally_s (failing c det grp name body) cleanup b = (r, b')"
    and cleanup: "silent cleanup" "\<And>s e s'. cleanup s = (Inl e, s') \<Longrightarrow> \<not> c e"
  shows "case r of
      Inl e \<Rightarrow> \<not> c e \<and> (\<exists>rows. bn_book b' = bn_book b @ rows)
    | Inr _ \<Rightarrow> judged grp name (evidence b) (bn_book b) (bn_book b')"
proof -
  obtain rb b1 where b1: "body b = (rb, b1)" by (metis surj_pair)
  obtain rc b2 where b2: "failing c det grp name body b = (rc, b2)" by (metis surj_pair)
  obtain rf b3 where b3: "cleanup b2 = (rf, b3)" by (metis surj_pair)
  have book: "bn_book b3 = bn_book b2" using cleanup(1) b3 by (metis silent_def snd_conv)
  have b': "b' = b3" "r = (case rf of Inl e \<Rightarrow> Inl e | Inr _ \<Rightarrow> rc)"
    using run b2 b3 by (auto simp: finally_s_def split: sum.splits)
  have rc: "case rc of Inl e \<Rightarrow> \<not> c e \<and> bn_book b2 = bn_book b
    | Inr _ \<Rightarrow> judged grp name (evidence b) (bn_book b) (bn_book b2)"
  proof (cases rb)
    case (Inl e)
    with scoresD(1) [OF scores] b1 have "bn_book b1 = bn_book b" by simp
    with Inl b1 b2 show ?thesis
      by (auto simp: failing_def catch_s_def write_book_def judged_failed split: if_splits)
  next
    case (Inr u)
    with scoresD(2) [OF scores] b1 obtain det' where "bn_book b1 = passed grp name det' (bn_book b)" by blast
    with Inr b1 b2 earned [of b b1] show ?thesis
      by (auto simp: failing_def catch_s_def judged_passed)
  qed
  show ?thesis
  proof (cases rf)
    case (Inl e)
    with cleanup(2) [OF b3 [unfolded Inl]] rc book b' show ?thesis by (auto simp: judged_def split: sum.splits)
  next
    case (Inr u)
    with rc book b' show ?thesis by (auto split: sum.splits)
  qed
qed

text \<open>A phase: the variables are set, the test runs, and the bench is cleaned up whatever happened.\<close>

lemma phase_verdict_with:
  assumes "silent cleanup" "polite cleanup" "evidence (g b) = E" "bn_book (g b) = bn_book b"
  shows "case bind_s (modify_s g) (\<lambda>_. finally_s (failing engine_error det grp name body) cleanup) b of
      (Inl e, b') \<Rightarrow> \<not> is_HciError e \<and> \<not> is_HciGone e \<and> (\<exists>rows. bn_book b' = bn_book b @ rows)
    | (Inr _, b') \<Rightarrow> judged grp name E (bn_book b) (bn_book b')"
proof -
  obtain r b' where fin: "finally_s (failing engine_error det grp name body) cleanup (g b) = (r, b')" by (metis surj_pair)
  have "\<not> engine_error e" if "cleanup s = (Inl e, s')" for s e s'
    using politeD [OF assms(2) that] by (simp add: engine_error_def)
  from verdict [OF fin assms(1) this] fin assms(3,4) show ?thesis
    by (cases r) (simp_all add: bind_s_def engine_error_def)
qed

lemma phase_verdict:
  assumes "silent cleanup" "polite cleanup" "evidence (g b) = E" "bn_book (g b) = bn_book b"
  shows "case bind_s (modify_s g) (\<lambda>_. finally_s (or_failed_setup grp name body) cleanup) b of
      (Inl e, b') \<Rightarrow> \<not> is_HciError e \<and> \<not> is_HciGone e \<and> (\<exists>rows. bn_book b' = bn_book b @ rows)
    | (Inr _, b') \<Rightarrow> judged grp name E (bn_book b) (bn_book b')"
  unfolding or_failed_setup_failing by (rule phase_verdict_with [where g = g, OF assms])

end

section \<open>What a run that returns has received\<close>

definition yields :: "('s \<Rightarrow> bool) \<Rightarrow> ('s, 'a) action \<Rightarrow> ('a \<Rightarrow> 's \<Rightarrow> bool) \<Rightarrow> bool" where
  "yields P m Q \<longleftrightarrow> (\<forall>s x s'. P s \<longrightarrow> m s = (Inr x, s') \<longrightarrow> Q x s')"

lemma yieldsI: "(\<And>s x s'. P s \<Longrightarrow> m s = (Inr x, s') \<Longrightarrow> Q x s') \<Longrightarrow> yields P m Q"
  by (simp add: yields_def)

lemma yieldsD: "yields P m Q \<Longrightarrow> P s \<Longrightarrow> m s = (Inr x, s') \<Longrightarrow> Q x s'"
  unfolding yields_def by blast

lemma yields_write: "E \<Longrightarrow> yields P (write_book f) (\<lambda>_ _. E)"
  by (simp add: yields_def)

lemma yields_throw: "yields P (throw e) Q" "yields P (bind_s (throw e) f) Q"
  by (simp_all add: yields_def)

lemma yields_cases:
  "(c \<Longrightarrow> yields P m Q) \<Longrightarrow> (\<not> c \<Longrightarrow> yields P n Q) \<Longrightarrow> yields P (if c then m else n) Q"
  "(\<And>x y. z = (x, y) \<Longrightarrow> yields P (g x y) Q) \<Longrightarrow> yields P (case z of (x, y) \<Rightarrow> g x y) Q"
  by (simp_all split: prod.split)

lemma yields_bind: "yields P m R \<Longrightarrow> (\<And>x. yields (R x) (f x) Q) \<Longrightarrow> yields P (bind_s m f) Q"
proof (rule yieldsI)
  fix s y s' assume m: "yields P m R" and f: "\<And>x. yields (R x) (f x) Q" and s: "P s" "bind_s m f s = (Inr y, s')"
  from s(2) obtain x s1 where x: "m s = (Inr x, s1)" "f x s1 = (Inr y, s')" unfolding bind_s_Inr_iff by blast
  from yieldsD [OF f yieldsD [OF m s(1) x(1)] x(2)] show "Q y s'" .
qed

lemma yields_pure: "(F \<Longrightarrow> yields P m Q) \<Longrightarrow> yields (\<lambda>b. P b \<and> F) m Q"
  unfolding yields_def by blast

lemma yields_call:
  "yields P m (\<lambda>x b. P b \<and> F x) \<Longrightarrow> (\<And>x. F x \<Longrightarrow> yields P (f x) Q) \<Longrightarrow> yields P (bind_s m f) Q"
  by (rule yields_bind, assumption, rule yields_pure) blast

lemma yields_ret: "F x \<Longrightarrow> yields P (ret x) (\<lambda>x b. P b \<and> F x)"
  by (simp add: yields_def)

text \<open>Both inboxes only shrink: \<open>within\<close> what the bench held when the phase began.\<close>

definition within :: "packet multiset \<Rightarrow> packet multiset \<Rightarrow> 'x bench_scheme \<Rightarrow> bool" where
  "within I J b \<longleftrightarrow> scan_inbox b \<subseteq># I \<and> adv_inbox b \<subseteq># J"

lemma within_self: "within (scan_inbox b) (adv_inbox b) b"
  by (simp add: within_def)

text \<open>An LE Meta event with this body.\<close>

abbreviation meta :: "bytes \<Rightarrow> packet" where "meta body \<equiv> (H4_EVENT, Some EVT_LE_META, body)"

definition received :: "packet multiset \<Rightarrow> (hci, 'a) action \<Rightarrow> 'a \<Rightarrow> bool" where
  "received I m x \<longleftrightarrow> (\<exists>h h'. inbox h \<subseteq># I \<and> m h = (Inr x, h'))"

lemma received_subevent:
  assumes "received I (required msg args (wait_le_subevent subevent handle off predicate timeout)) body"
  shows "(H4_EVENT, Some EVT_LE_META, body) \<in># I" "body ! 0 = subevent" "predicate body"
    "handle = Some hnd \<Longrightarrow> off = Some i \<Longrightarrow> from_le (pslice i (i + 2) body) mod 4096 = hnd"
proof -
  obtain h h' where h: "inbox h \<subseteq># I" "wait_le_subevent subevent handle off predicate timeout h = (Inr (Some body), h')"
    using assms by (auto simp: received_def required_iff)
  obtain p where p: "le_subevent_judge subevent handle off predicate p = Inr (Some body)" "inbox h = add_mset p (inbox h')"
    using wait_takes_match [OF h(2) [unfolded wait_le_subevent_def]] by blast
  have "p \<in># I" using p(2) h(1) by (metis mset_subset_eqD union_single_eq_member)
  with p(1) show "(H4_EVENT, Some EVT_LE_META, body) \<in># I" "body ! 0 = subevent" "predicate body"
    "handle = Some hnd \<Longrightarrow> off = Some i \<Longrightarrow> from_le (pslice i (i + 2) body) mod 4096 = hnd"
    unfolding le_subevent_judge_iff by simp_all
qed

lemma received_bind:
  assumes "received I (bind_s m f) x" "reader inbox m"
  obtains y where "received I m y" "received I (f y) x"
proof -
  from assms(1) obtain h h' where h: "inbox h \<subseteq># I" "bind_s m f h = (Inr x, h')" by (auto simp: received_def)
  then obtain y h1 where y: "m h = (Inr y, h1)" "f y h1 = (Inr x, h')" by (auto simp: bind_s_Inr_iff)
  have "inbox h1 \<subseteq># I" using reader.takes [OF assms(2) y(1)] h(1) by (rule subset_mset.order_trans)
  with h(1) y that show ?thesis unfolding received_def by blast
qed

definition heard_event :: "packet multiset \<Rightarrow> byte \<Rightarrow> (bytes \<Rightarrow> bool) \<Rightarrow> bool" where
  "heard_event ps subevent q \<longleftrightarrow> (\<exists>body. (H4_EVENT, Some EVT_LE_META, body) \<in># ps \<and> body ! 0 = subevent \<and> q body)"

lemma received_event:
  assumes "received I (bind_s (command_ok opcode block name) (\<lambda>_. bind_s (required msg args
     (wait_le_subevent subevent handle off predicate timeout)) f)) x"
  shows "\<exists>body. heard_event I subevent (\<lambda>e. e = body \<and> predicate e) \<and> received I (f body) x"
proof -
  from assms obtain y where "received I (bind_s (required msg args (wait_le_subevent subevent handle off predicate timeout)) f) x"
    by (rule received_bind [OF _ reader_command_ok])
  then obtain body where b: "received I (required msg args (wait_le_subevent subevent handle off predicate timeout)) body" "received I (f body) x"
    by (rule received_bind [OF _ reader_required [OF reader_subevent]])
  from received_subevent [OF b(1)] b(2) show ?thesis unfolding heard_event_def by (intro exI [of _ body]) simp
qed

lemma yields_side:
  assumes "reader inbox m"
  shows "yields (within I J) (on_side sd m) (\<lambda>x b. within I J b \<and>
    received (case sd of Central \<Rightarrow> I | Peripheral \<Rightarrow> J) m x)"
proof (rule yieldsI)
  fix b b' and x assume w: "within I J b" and run: "on_side sd m b = (Inr x, b')"
  have "within I J b'" using w reader.takes [OF reader_side(1) [OF assms] run] reader.takes [OF reader_side(2) [OF assms] run]
    unfolding within_def by (blast intro: subset_mset.order_trans)
  moreover have "received (case sd of Central \<Rightarrow> I | Peripheral \<Rightarrow> J) m x"
    using w run unfolding within_def received_def
    by (cases sd) (auto simp: on_side_def on_pair_def on_central_def on_peripheral_def split: prod.splits)
  ultimately show "within I J b' \<and> received (case sd of Central \<Rightarrow> I | Peripheral \<Rightarrow> J) m x" ..
qed

lemma step_central:
  assumes "reader inbox m" "\<And>x. received I m x \<Longrightarrow> yields (within I J) (f x) Q"
  shows "yields (within I J) (bind_s (on_side Central m) f) Q"
  using yields_side [OF assms(1), of I J Central] by (rule yields_bind) (auto intro!: yields_pure assms(2))

lemma step_peripheral:
  assumes "reader inbox m" "\<And>x. received J m x \<Longrightarrow> yields (within I J) (f x) Q"
  shows "yields (within I J) (bind_s (on_side Peripheral m) f) Q"
  using yields_side [OF assms(1), of I J Peripheral] by (rule yields_bind) (auto intro!: yields_pure assms(2))

lemma step_modify:
  assumes "\<And>b. bn_pair (g b) = bn_pair b" "yields (within I J) (f ()) Q"
  shows "yields (within I J) (bind_s (modify_s g) f) Q"
proof (rule yieldsI)
  fix b y b' assume w: "within I J b" and run: "bind_s (modify_s g) f b = (Inr y, b')"
  have "within I J (g b)" using w assms(1) by (simp add: within_def)
  moreover have "f () (g b) = (Inr y, b')" using run by (simp add: bind_s_def)
  ultimately show "Q y b'" using yieldsD [OF assms(2)] by blast
qed

text \<open>The first step, whose state is the one the phase began in.\<close>

lemma step_first:
  assumes "reader inbox m"
    "\<And>x b1. on_side sd m b = (Inr x, b1) \<Longrightarrow> yields (within (scan_inbox b) (adv_inbox b)) (f x) Q"
  shows "yields (\<lambda>s. s = b) (bind_s (on_side sd m) f) Q"
proof (rule yieldsI)
  fix s y s' assume "s = b" "bind_s (on_side sd m) f s = (Inr y, s')"
  then obtain x b1 where b1: "on_side sd m b = (Inr x, b1)" "f x b1 = (Inr y, s')" by (auto simp: bind_s_Inr_iff)
  have "within (scan_inbox b) (adv_inbox b) b1" using yieldsD [OF yields_side [OF assms(1)] within_self b1(1)] by blast
  from yieldsD [OF assms(2) [OF b1(1)] this b1(2)] show "Q y s'" .
qed

lemma yields_start: "yields (within (scan_inbox b) (adv_inbox b)) m Q \<Longrightarrow> yields (\<lambda>s. s = b) m Q"
  unfolding yields_def using within_self by blast

lemma step_lift:
  "(\<And>x. v = Inr x \<Longrightarrow> yields P (f x) Q) \<Longrightarrow> yields P (bind_s (lift_r v) f) Q"
  by (cases v) (auto simp: yields_def bind_s_def)

lemma received_mono: "received I m x \<Longrightarrow> I \<subseteq># I' \<Longrightarrow> received I' m x"
  unfolding received_def by (blast intro: subset_mset.order_trans)

lemma reader_book: "reader scan_inbox (write_book f)" "reader adv_inbox (write_book f)"
  unfolding write_book_def by (rule reader_modify, simp)+

lemma reader_failing:
  assumes "reader view m" "\<And>f. reader view (write_book f)"
  shows "reader view (failing c det grp name m)"
  unfolding failing_def
proof (intro reader_catch assms(1) reader_if reader_quiet(2))
  show "reader view (with_s (\<lambda>b. write_book (failed grp name (det b e))))" for e
    by (rule readerI) (simp add: reader.takes [OF assms(2)])
qed

lemma reader_finally: "reader view m \<Longrightarrow> reader view f \<Longrightarrow> reader view (finally_s m f)"
proof (rule readerI)
  fix s r s' assume m: "reader view m" and f: "reader view f" and run: "finally_s m f s = (r, s')"
  obtain rm s1 where s1: "m s = (rm, s1)" by (metis surj_pair)
  obtain rf s2 where s2: "f s1 = (rf, s2)" by (metis surj_pair)
  have "s' = s2" using run s1 s2 by (auto simp: finally_s_def split: sum.splits)
  with reader.takes [OF f s2] reader.takes [OF m s1] show "view s' \<subseteq># view s" by (blast intro: subset_mset.order_trans)
qed

section \<open>Waiting for the connection\<close>

lemma read_connection_reader: "reader inbox (read_connection words role)"
  unfolding read_connection_def by (intro reader_steps reads.reader_axioms)

lemma reader_pair_side:
  assumes "reader inbox m"
  shows "reader (\<lambda>s. inbox (fst s)) (on_central m)" "reader (\<lambda>s. inbox (snd s)) (on_central m)"
    "reader (\<lambda>s. inbox (fst s)) (on_peripheral m)" "reader (\<lambda>s. inbox (snd s)) (on_peripheral m)"
  by (rule readerI; auto simp: on_central_def on_peripheral_def reader.takes [OF assms] split: prod.splits)+

lemma wait_acl_loop_inbox:
  "reader view (on_central (read_connection wc 0)) \<Longrightarrow> reader view (on_peripheral (read_connection wp 1)) \<Longrightarrow>
   view (snd (wait_acl_loop wc wp deadline hc hp s)) \<subseteq># view s"
proof (induction wc wp deadline hc hp s rule: wait_acl_loop.induct)
  case (1 wc wp deadline hc hp s)
  note c = 1(2) and p = 1(3)
  show ?case
  proof (cases "clock (fst s) < deadline \<and> (hc = None \<or> hp = None)")
    case True
    obtain rc s1 where rc: "on_central (read_connection wc 0) s = (rc, s1)" by (metis surj_pair)
    obtain rp s2 where rp: "on_peripheral (read_connection wp 1) s1 = (rp, s2)" by (metis surj_pair)
    have s2: "view s2 \<subseteq># view s" using reader.takes [OF p rp] reader.takes [OF c rc] by (rule subset_mset.order_trans)
    show ?thesis
    proof (cases rc)
      case (Inl e)
      with True rc reader.takes [OF c rc] show ?thesis by (simp add: wait_acl_loop.simps [of wc wp deadline hc hp s])
    next
      case nc: (Inr nc)
      show ?thesis
      proof (cases rp)
        case (Inl e)
        with True rc nc rp s2 show ?thesis by (simp add: wait_acl_loop.simps [of wc wp deadline hc hp s])
      next
        case (Inr np)
        from 1(1) [OF True rc [symmetric] nc rp [symmetric] Inr c p] s2 True rc nc rp Inr show ?thesis
          by (simp add: wait_acl_loop.simps [of wc wp deadline hc hp s])
      qed
    qed
  qed (subst wait_acl_loop.simps, subst if_not_P, simp_all)
qed

lemma wait_acl_by_reader:
  assumes "reader view (on_central (read_connection wc 0))"
    "reader view (on_peripheral (read_connection wp 1))"
  shows "reader view (wait_acl_by wc wp timeout)"
proof
  fix s
  have "view (snd (wait_acl_by wc wp timeout s)) = view (snd (wait_acl_loop wc wp (clock (fst s) + timeout) None None s))"
    by (auto simp: wait_acl_by_def bind_s_def split: prod.splits sum.splits option.splits)
  with wait_acl_loop_inbox [OF assms] show "view (snd (wait_acl_by wc wp timeout s)) \<subseteq># view s" by simp
qed

lemma wait_acl_by_heard:
  assumes "wait_acl_by wc wp timeout s = (Inr (c, p), s')"
  shows "inbox (fst s') \<subseteq># inbox (fst s)" "inbox (snd s') \<subseteq># inbox (snd s)"
    "connected_as 0 c (inbox (fst s))" "connected_as 1 p (inbox (snd s))"
proof -
  note rd = read_connection_reader [THEN reader_pair_side(1)] read_connection_reader [THEN reader_pair_side(3)]
    read_connection_reader [THEN reader_pair_side(2)] read_connection_reader [THEN reader_pair_side(4)]
  show "inbox (fst s') \<subseteq># inbox (fst s)" "inbox (snd s') \<subseteq># inbox (snd s)"
    using reader.takes [OF wait_acl_by_reader [OF rd(1,2)] assms] reader.takes [OF wait_acl_by_reader [OF rd(3,4)] assms] .
  have "wait_acl_loop wc wp (clock (fst s) + timeout) None None s = (Inr (Some c, Some p), s')"
    using assms by (auto simp: wait_acl_by_def bind_s_Inr_iff split: option.splits prod.splits)
  from wait_acl_loop_sound [OF this] show "connected_as 0 c (inbox (fst s))" "connected_as 1 p (inbox (snd s))" by auto
qed

lemmas wait_acl_pair_reader = wait_acl_by_reader [of _ "pair_words ''central''" "pair_words ''peripheral''", folded wait_acl_pair_def]

lemmas wait_acl_pair_heard = wait_acl_by_heard [of "pair_words ''central''" "pair_words ''peripheral''", folded wait_acl_pair_def]

lemma step_pair:
  assumes "\<And>c p. connected_as 0 c I \<Longrightarrow> connected_as 1 p J \<Longrightarrow> yields (within I J) (f (c, p)) Q"
  shows "yields (within I J) (bind_s (on_pair (wait_acl_pair timeout)) f) Q"
proof (rule yieldsI)
  fix b y b' assume w: "within I J b" and run: "bind_s (on_pair (wait_acl_pair timeout)) f b = (Inr y, b')"
  then obtain c p s' where s': "wait_acl_pair timeout (bn_pair b) = (Inr (c, p), s')" "f (c, p) (b\<lparr>bn_pair := s'\<rparr>) = (Inr y, b')"
    by (auto simp: bind_s_Inr_iff on_pair_def split: prod.splits)
  note heard = wait_acl_pair_heard [OF s'(1)]
  from w heard(1,2) have "within I J (b\<lparr>bn_pair := s'\<rparr>)" by (auto simp: within_def intro: subset_mset.order_trans)
  moreover from w heard(3,4) have "connected_as 0 c I" "connected_as 1 p J"
    by (auto simp: within_def intro: connected_as_mono)
  ultimately show "Q y b'" using yieldsD [OF assms] s'(2) by blast
qed

interpretation legacy_adv: reader inbox "start_legacy_advertising own connectable" for own connectable
  unfolding start_legacy_advertising_def Let_def by (intro reader_steps)

interpretation legacy_conn: reader inbox "start_legacy_connection own peer peer_type" for own peer peer_type
  unfolding start_legacy_connection_def by (intro reader_steps)

section \<open>Cleaning up\<close>

lemma polite_pair: "polite m \<Longrightarrow> polite (on_pair m)"
  by (rule politeI) (auto simp: on_pair_def split: prod.splits dest: politeD)

lemma polite_side: "polite m \<Longrightarrow> polite (on_side sd m)"
  unfolding on_side_def
  by (rule polite_pair, rule politeI)
    (auto simp: on_central_def on_peripheral_def split: prod.splits side.splits dest: politeD)

lemma polite_with: "(\<And>b. polite (f b)) \<Longrightarrow> polite (with_s f)"
  by (rule politeI) (auto dest: politeD)

lemma silent_with: "(\<And>b. silent (f b)) \<Longrightarrow> silent (with_s f)" "silent (ret x)"
  "silent n \<Longrightarrow> (\<And>x. silent (g x)) \<Longrightarrow> silent (case z of None \<Rightarrow> n | Some x \<Rightarrow> g x)"
  by (simp_all add: silent_def split: option.split)

lemma silent_throw: "silent (throw e)"
  by (simp add: silent_def)

lemma silent_if: "silent m \<Longrightarrow> silent n \<Longrightarrow> silent (if c then m else n)"
  "silent n \<Longrightarrow> (\<And>x xs. silent (f x xs)) \<Longrightarrow> silent (case ys of [] \<Rightarrow> n | x # xs \<Rightarrow> f x xs)"
  "(\<And>x y. silent (g x y)) \<Longrightarrow> silent (case z of (x, y) \<Rightarrow> g x y)"
  by (simp_all split: list.split prod.split)

lemma polite_if: "polite m \<Longrightarrow> polite n \<Longrightarrow> polite (if c then m else n)"
  by simp

lemma silent_quietly: "silent m \<Longrightarrow> silent (quietly m)"
  unfolding silent_def by (blast intro: book_quietly)

lemma silent_disconnect: "silent disconnect_handles"
  by (simp add: silent_def book_disconnect)

lemma polite_stop_periodic: "polite stop_periodic" "polite (terminate_sync hnd)"
  unfolding stop_periodic_def terminate_sync_def by (intro polite_bind polite_ret)+

lemmas cleanup_intros = silent_bind silent_side silent_with silent_quietly silent_disconnect
  polite_bind polite_side polite_with polite_option polite_ret polite_disconnect polite_stop_periodic

text \<open>A test whose handler takes every exception always returns.\<close>

context scored
begin

lemma caught:
  assumes "failing (\<lambda>_. True) det grp name body b = (r, b')"
  shows "r = Inr () \<and> judged grp name (evidence b) (bn_book b) (bn_book b')"
proof -
  have "finally_s (failing (\<lambda>_. True) det grp name body) (ret ()) b = (r, b')" using assms by (simp add: finally_s_def)
  from verdict [OF this silent_with(2)] have "case r of Inl _ \<Rightarrow> False | Inr _ \<Rightarrow> judged grp name (evidence b) (bn_book b) (bn_book b')"
    by (cases r) simp_all
  then show ?thesis by (cases r) simp_all
qed

end

end
