(* ===== verification/Periodic_Phases.thy ===== *)
theory Periodic_Phases
  imports Phase_Rules
begin

text \<open>
  The two-controller phases of \<open>python/hcicontroller/periodic_features.py\<close>: periodic synchronization
  and sync transfer. On the bench the scanner (or receiver) is the central side and the advertiser the
  peripheral side. A pass is shown to rest on what the controllers delivered: the Sync Established
  event of this advertiser and the marker received over the air on that sync.
\<close>

section \<open>Periodic synchronization\<close>

text \<open>The variable the \<open>finally\<close> blocks read besides the connection handles.\<close>

record sync_bench = bench +
  sb_sync :: "nat option"

abbreviation (input) PAST_SERVICE_DATA :: nat where "PAST_SERVICE_DATA \<equiv> 0x4843"
abbreviation (input) ADV_SID_CONNECTABLE :: byte where "ADV_SID_CONNECTABLE \<equiv> 1"

definition keep_sync :: "nat option \<Rightarrow> ('x sync_bench_scheme, unit) action" where
  "keep_sync hnd = modify_s (\<lambda>b. b\<lparr>sb_sync := hnd\<rparr>)"

definition sync_body :: "string \<Rightarrow> ('x sync_bench_scheme, unit) action" where
  "sync_body label =
     bind_s (on_side Peripheral (prepare_controller DEFAULT_LE_EVENT_MASK)) (\<lambda>(adv_id, adv_type, _).
     bind_s (on_side Central (prepare_controller DEFAULT_LE_EVENT_MASK)) (\<lambda>_.
     bind_s (on_side Peripheral (configure_periodic adv_type PERIODIC_MARKER)) (\<lambda>_.
     bind_s (on_side Peripheral start_periodic) (\<lambda>_.
     bind_s (on_side Central (create_periodic_sync adv_id adv_type ADV_SID_PERIODIC False)) (\<lambda>sync_source.
     bind_s (on_side Central (wait_sync_established (Some sync_source) 10000000 False False)) (\<lambda>(sync_handle, _).
     bind_s (keep_sync (Some sync_handle)) (\<lambda>_.
     bind_s (on_side Central (wait_periodic_report sync_handle PERIODIC_MARKER 8000000 False)) (\<lambda>_.
     write_book (passed ''Periodic advertising'' ''Advertiser -> periodic sync''
       (label @ '' sync 0x%04X + OTA marker'', [int sync_handle]))))))))))"

text \<open>\<open>if sync_handle is not None: _terminate_sync(scanner, sync_handle)\<close>.\<close>

definition drop_sync :: "('x sync_bench_scheme, unit) action" where
  "drop_sync = with_s (\<lambda>b. case sb_sync b of None \<Rightarrow> ret () | Some hnd \<Rightarrow> on_side Central (terminate_sync hnd))"

definition run_periodic_sync_phase :: "string \<Rightarrow> ('x sync_bench_scheme, unit) action" where
  "run_periodic_sync_phase label =
     bind_s (keep_sync None) (\<lambda>_.
     finally_s (or_failed_setup ''Periodic advertising'' ''Advertiser -> periodic sync'' (sync_body label))
       (bind_s drop_sync (\<lambda>_. on_side Peripheral stop_periodic)))"

section \<open>Sync transfer\<close>

definition past_body :: "string \<Rightarrow> ('x sync_bench_scheme, unit) action" where
  "past_body label =
     bind_s (on_side Peripheral (prepare_controller DEFAULT_LE_EVENT_MASK)) (\<lambda>(adv_id, adv_type, _).
     bind_s (on_side Central (prepare_controller DEFAULT_LE_EVENT_MASK)) (\<lambda>(_, receiver_type, _).
     bind_s (on_side Peripheral (configure_periodic adv_type PERIODIC_MARKER)) (\<lambda>_.
     bind_s (on_side Peripheral (configure_ext_set ADV_HANDLE_CONNECTABLE adv_type 0x0001 ADV_SID_CONNECTABLE [0x02, 0x01, 0x06])) (\<lambda>_.
     bind_s (on_side Peripheral start_periodic) (\<lambda>_.
     bind_s (on_side Peripheral (ext_adv_enable ADV_HANDLE_CONNECTABLE True)) (\<lambda>_.
     bind_s (on_side Central (start_extended_connection receiver_type adv_id adv_type)) (\<lambda>_.
     bind_s (on_pair (wait_acl_pair 10000000)) (\<lambda>(receiver_handle, advertiser_handle).
     bind_s (modify_s (\<lambda>b. b\<lparr>bn_handles := Some (receiver_handle, advertiser_handle)\<rparr>)) (\<lambda>_.
     bind_s (on_side Central (command_ok 0x205C (struct_pack [FH receiver_handle, FB 0x02, FH 0, FH 0x0200, FB 0])
               ''LE Set Periodic Advertising Sync Transfer Parameters'')) (\<lambda>_.
     bind_s (on_side Peripheral (read_remote_features advertiser_handle)) (\<lambda>features.
     if \<not> bit (from_le features) 25 then throw (HciError ''peer does not advertise PAST Recipient'' [])
     else
     bind_s (on_side Peripheral (command_ok 0x205B (struct_pack [FH advertiser_handle, FH PAST_SERVICE_DATA, FB 0])
               ''LE Periodic Advertising Set Info Transfer'')) (\<lambda>_.
     bind_s (on_side Central (wait_past_received receiver_handle PAST_SERVICE_DATA 8000000)) (\<lambda>transferred_sync.
     bind_s (keep_sync (Some transferred_sync)) (\<lambda>_.
     bind_s (on_side Central (wait_periodic_report transferred_sync PERIODIC_MARKER 10000000 False)) (\<lambda>_.
     write_book (passed ''PAST'' ''sender and receiver''
       (label @ '' set-info transfer -> sync 0x%04X + OTA marker'', [int transferred_sync])))))))))))))))))"

definition run_past_phase :: "string \<Rightarrow> ('x sync_bench_scheme, unit) action" where
  "run_past_phase label =
     bind_s (modify_s (\<lambda>b. b\<lparr>bn_handles := None, sb_sync := None\<rparr>)) (\<lambda>_.
     finally_s (or_failed_setup ''PAST'' ''sender and receiver'' (past_body label))
       (bind_s drop_sync (\<lambda>_.
        bind_s disconnect_handles (\<lambda>_.
        bind_s (quietly (on_side Peripheral (ext_adv_enable ADV_HANDLE_CONNECTABLE False))) (\<lambda>_.
        on_side Peripheral stop_periodic)))))"

section \<open>What the waits have heard\<close>

definition heard_sync :: "packet multiset \<Rightarrow> byte \<times> bytes \<times> byte \<Rightarrow> nat \<Rightarrow> bool" where
  "heard_sync ps src hnd \<longleftrightarrow> (\<exists>body. (H4_EVENT, Some EVT_LE_META, body) \<in># ps \<and>
     sync_established_source body = Some src \<and> body ! 1 = 0 \<and> hnd = from_le (pslice 2 4 body) mod 4096)"

definition heard_marker :: "packet multiset \<Rightarrow> nat \<Rightarrow> bytes \<Rightarrow> bool" where
  "heard_marker ps hnd marker \<longleftrightarrow> (\<exists>body counter subevent data. (H4_EVENT, Some EVT_LE_META, body) \<in># ps \<and>
     periodic_report_data body = Some (hnd, counter, subevent, data) \<and> contains marker data)"

definition heard_past :: "packet multiset \<Rightarrow> nat \<Rightarrow> nat \<Rightarrow> nat \<Rightarrow> bool" where
  "heard_past ps hnd service_data sync \<longleftrightarrow> (\<exists>body. (H4_EVENT, Some EVT_LE_META, body) \<in># ps \<and> 8 \<le> length body \<and>
     (body ! 0 = LE_PAST_RECEIVED \<or> body ! 0 = LE_PAST_RECEIVED_V2) \<and> body ! 1 = 0 \<and>
     from_le (pslice 2 4 body) mod 4096 = hnd \<and> from_le (pslice 4 6 body) = service_data \<and>
     sync = from_le (pslice 6 8 body) mod 4096)"

lemma heard_mono:
  assumes "ps \<subseteq># qs"
  shows "heard_sync ps src hnd \<Longrightarrow> heard_sync qs src hnd" "heard_marker ps hnd marker \<Longrightarrow> heard_marker qs hnd marker"
    "heard_past ps hnd service_data sync \<Longrightarrow> heard_past qs hnd service_data sync"
  using mset_subset_eqD [OF assms] unfolding heard_sync_def heard_marker_def heard_past_def by blast+

lemma sift_or_Inr:
  assumes "sift_or msg judge timeout h = (Inr x, h')"
  shows "\<exists>p. p \<in># inbox h \<and> judge p = Stop (Inr x)"
proof -
  obtain found ds h1 where s: "sift judge (clock h + timeout) [] h = (Inr (found, ds), h1)" "found = Some (Inr x)"
    using assms by (auto simp: sift_or_def bind_s_Inr_iff lift_r_def split: option.splits)
  from sift_found [OF s(1) [unfolded s(2)]] show ?thesis .
qed

lemma wait_sync_heard:
  assumes "wait_sync_established (Some src) timeout v2 keep_scan h = (Inr (hnd, body), h')"
  shows "heard_sync (inbox h) src hnd"
  using wait_sync_found [OF assms] unfolding heard_sync_def by blast

lemma wait_report_heard:
  assumes "wait_periodic_report hnd marker timeout v2 h = (Inr x, h')"
  shows "heard_marker (inbox h) hnd marker"
proof -
  obtain kind code body where p: "(kind, code, body) \<in># inbox h"
    "periodic_report_judge hnd marker v2 (kind, code, body) = Stop (Inr x)"
    using sift_or_Inr [OF assms [unfolded wait_periodic_report_def]] by (metis prod_cases3)
  from p(2) have "kind = H4_EVENT" "code = Some EVT_LE_META"
    "\<exists>counter subevent data. periodic_report_data body = Some (hnd, counter, subevent, data) \<and> contains marker data"
    by (auto simp: periodic_report_judge_def split: if_splits option.splits)
  with p(1) show ?thesis unfolding heard_marker_def by blast
qed

lemma wait_past_heard:
  assumes "wait_past_received hnd service_data timeout h = (Inr sync, h')"
  shows "heard_past (inbox h) hnd service_data sync"
proof -
  obtain kind code body where p: "(kind, code, body) \<in># inbox h" "past_judge hnd service_data (kind, code, body) = Stop (Inr sync)"
    using sift_or_Inr [OF assms [unfolded wait_past_received_def]] by (metis prod_cases3)
  from p(2) have "kind = H4_EVENT" "code = Some EVT_LE_META" "8 \<le> length body"
    "body ! 0 = LE_PAST_RECEIVED \<or> body ! 0 = LE_PAST_RECEIVED_V2" "body ! 1 = 0"
    "from_le (pslice 2 4 body) mod 4096 = hnd" "from_le (pslice 4 6 body) = service_data"
    "sync = from_le (pslice 6 8 body) mod 4096"
    by (auto simp: past_judge_def split: if_splits)
  with p(1) show ?thesis unfolding heard_past_def by blast
qed

text \<open>The source that is synchronized to is the one that was looked for.\<close>

lemma observe_source:
  assumes "observe_periodic_advertiser addr addr_type sid timeout started h = (Inr (t, a, s, i), h')"
  shows "t = addr_type \<and> a = addr \<and> s = sid"
proof -
  obtain h1 where w: "read_until False True 200000 (source_judge addr addr_type sid) (clock h1 + timeout) [] h1 = (Inr (Some (t, a, s, i)), h')"
    using assms by (auto simp: observe_periodic_advertiser_def bind_s_Inr_iff split: option.splits)
  from read_until_end [OF w] obtain p where "source_judge addr addr_type sid p = Inr (Some (t, a, s, i))"
    by (elim wait_end_foundE) simp
  then show ?thesis
    by (cases p) (auto simp: source_judge_def periodic_source_matches_def find_Some_iff split: if_splits)
qed

lemma create_sync_source:
  assumes "create_periodic_sync addr addr_type sid started h = (Inr src, h')"
  shows "src = (addr_type, addr, sid)"
  using assms observe_source by (fastforce simp: create_periodic_sync_def bind_s_Inr_iff split: if_splits prod.splits)

lemma received_sync:
  "received I (wait_sync_established (Some src) timeout v2 keep_scan) (hnd, body) \<Longrightarrow> heard_sync I src hnd"
  unfolding received_def by (blast dest: wait_sync_heard heard_mono)

lemma received_marker: "received I (wait_periodic_report hnd marker timeout v2) x \<Longrightarrow> heard_marker I hnd marker"
  unfolding received_def by (blast dest: wait_report_heard heard_mono)

lemma received_past: "received I (wait_past_received hnd service_data timeout) sync \<Longrightarrow> heard_past I hnd service_data sync"
  unfolding received_def by (blast dest: wait_past_heard heard_mono)

lemma received_source: "received I (create_periodic_sync addr addr_type sid started) src \<Longrightarrow> src = (addr_type, addr, sid)"
  unfolding received_def by (blast dest: create_sync_source)

section \<open>A pass of the synchronization phase\<close>

text \<open>The event and the report that back a pass: the sync is to the advertiser with the address and
  type it was prepared with, and the marker came on that sync.\<close>

definition sync_evidence :: "'x bench_scheme \<Rightarrow> bool" where
  "sync_evidence b \<longleftrightarrow> (\<exists>own addr_type source b1 hnd.
     on_side Peripheral (prepare_controller DEFAULT_LE_EVENT_MASK) b = (Inr (own, addr_type, source), b1) \<and>
     heard_sync (scan_inbox b) (addr_type, own, ADV_SID_PERIODIC) hnd \<and> heard_marker (scan_inbox b) hnd PERIODIC_MARKER)"

lemma sync_body_yields: "yields (\<lambda>s. s = b) (sync_body label) (\<lambda>_ _. sync_evidence b)"
  unfolding sync_body_def keep_sync_def
proof (intro step_first step_central step_peripheral step_modify yields_cases yields_write
    prepares.reader_axioms per_conf.reader_axioms per_start.reader_axioms sync_create.reader_axioms
    sync_wait.reader_axioms per_report.reader_axioms)
qed (auto simp: sync_evidence_def dest!: received_sync received_marker received_source)

lemma drop_sync_clean: "silent drop_sync" "polite drop_sync"
  unfolding drop_sync_def by (intro cleanup_intros)+

interpretation sync_test: scored "''Periodic advertising''" "''Advertiser -> periodic sync''" "sync_body label" sync_evidence
  for label
proof
  show "scores ''Periodic advertising'' ''Advertiser -> periodic sync'' (sync_body label)"
    unfolding sync_body_def keep_sync_def by (intro scores_intros silent_modify) simp
  show "sync_body label b = (Inr (), b') \<Longrightarrow> sync_evidence b" for b :: "'a sync_bench_scheme" and b'
    by (rule yieldsD [OF sync_body_yields refl])
qed

text \<open>The periodic synchronization phase never raises an exception of the engine and adds exactly one
  row. A pass means that the scanner received, during the phase, a successful Sync Established event
  of the address and type the advertiser was prepared with, and on the sync handle of that event a
  periodic report that carries the marker.\<close>

lemma periodic_sync_phase_verdict:
  "case run_periodic_sync_phase label b of
     (Inl e, b') \<Rightarrow> \<not> is_HciError e \<and> \<not> is_HciGone e \<and> (\<exists>rows. bn_book b' = bn_book b @ rows)
   | (Inr _, b') \<Rightarrow> judged ''Periodic advertising'' ''Advertiser -> periodic sync'' (sync_evidence b) (bn_book b) (bn_book b')"
proof -
  have clean: "silent (bind_s drop_sync (\<lambda>_. on_side Peripheral stop_periodic))"
    "polite (bind_s drop_sync (\<lambda>_. on_side Peripheral stop_periodic))"
    by (intro cleanup_intros drop_sync_clean)+
  have ev: "sync_evidence (b\<lparr>sb_sync := None\<rparr>) = sync_evidence b"
    by (auto simp: sync_evidence_def on_side_def on_pair_def split: prod.splits)
  from sync_test.phase_verdict [where g = "\<lambda>b. b\<lparr>sb_sync := None\<rparr>", OF clean ev] show ?thesis
    by (simp add: run_periodic_sync_phase_def keep_sync_def)
qed

section \<open>A pass of the sync transfer phase\<close>

definition past_evidence :: "'x bench_scheme \<Rightarrow> bool" where
  "past_evidence b \<longleftrightarrow> (\<exists>hr ha features sync. connected_as 0 hr (scan_inbox b) \<and> connected_as 1 ha (adv_inbox b) \<and>
     received (adv_inbox b) (read_remote_features ha) features \<and> bit (from_le features) 25 \<and>
     heard_past (scan_inbox b) hr PAST_SERVICE_DATA sync \<and> heard_marker (scan_inbox b) sync PERIODIC_MARKER)"

lemma reader_features: "reader inbox (read_remote_features handle)"
  unfolding read_remote_features_def by (intro reader_steps)

lemma past_body_yields: "yields (\<lambda>s. s = b) (past_body label) (\<lambda>_ _. past_evidence b)"
  unfolding past_body_def keep_sync_def
proof (intro step_first step_central step_peripheral step_modify step_pair yields_cases yields_write yields_throw
    prepares.reader_axioms per_conf.reader_axioms per_start.reader_axioms ext_set.reader_axioms
    ext_enable.reader_axioms ext_connect.reader_axioms reader_command_ok reader_features
    past_wait.reader_axioms per_report.reader_axioms)
qed (auto simp: past_evidence_def dest!: received_past received_marker)

interpretation past_test: scored "''PAST''" "''sender and receiver''" "past_body label" past_evidence for label
proof
  show "scores ''PAST'' ''sender and receiver'' (past_body label)"
    unfolding past_body_def keep_sync_def by (intro scores_intros silent_modify) simp_all
  show "past_body label b = (Inr (), b') \<Longrightarrow> past_evidence b" for b :: "'a sync_bench_scheme" and b'
    by (rule yieldsD [OF past_body_yields refl])
qed

text \<open>The sync transfer phase never raises an exception of the engine and adds exactly one row. A
  pass means that the two controllers reported the connection in the right roles, that the advertiser
  read the recipient feature of its peer over that connection, that the receiver got a successful
  transfer with the service data of the test on its connection, and that the marker arrived on the
  sync handle of that transfer.\<close>

lemma past_phase_verdict:
  "case run_past_phase label b of
     (Inl e, b') \<Rightarrow> \<not> is_HciError e \<and> \<not> is_HciGone e \<and> (\<exists>rows. bn_book b' = bn_book b @ rows)
   | (Inr _, b') \<Rightarrow> judged ''PAST'' ''sender and receiver'' (past_evidence b) (bn_book b) (bn_book b')"
proof -
  let ?clean = "bind_s drop_sync (\<lambda>_. bind_s disconnect_handles (\<lambda>_.
        bind_s (quietly (on_side Peripheral (ext_adv_enable ADV_HANDLE_CONNECTABLE False))) (\<lambda>_.
        on_side Peripheral stop_periodic)))"
  have clean: "silent ?clean" "polite ?clean" by (intro cleanup_intros drop_sync_clean)+
  have ev: "past_evidence (b\<lparr>bn_handles := None, sb_sync := None\<rparr>) = past_evidence b" by (simp add: past_evidence_def)
  from past_test.phase_verdict [where g = "\<lambda>b. b\<lparr>bn_handles := None, sb_sync := None\<rparr>", OF clean ev] show ?thesis
    by (simp add: run_past_phase_def)
qed

end
