(* ===== verification/Pawr_Phase.thy ===== *)
theory Pawr_Phase
  imports Periodic_Phases
begin

text \<open>
  Periodic advertising with responses, \<open>run_pawr_phase\<close> of \<open>python/hcicontroller/periodic_features.py\<close>,
  with the thread that serves the advertiser while the main thread works the scanner. The threads
  share the service record only; each has its own controller. The thread is a step function, and
  \<open>pb_ticks\<close> says how many iterations it gets before each point where the main thread looks at the
  service: an arbitrary list is an arbitrary schedule. While the service runs the two controllers are
  timed by their own thread, and meet when it has ended. A thread that gets no iteration in the final
  join is still alive there.
\<close>

section \<open>The service\<close>

record service =
  sv_stop :: bool
  sv_response :: bool
  sv_deferred :: "packet list"
  sv_errors :: "exn list"
  sv_finished :: bool
  sv_running :: bool

definition service_init :: service where
  "service_init = \<lparr>sv_stop = False, sv_response = False, sv_deferred = [], sv_errors = [], sv_finished = False,
     sv_running = True\<rparr>"

record pawr_bench = sync_bench +
  pb_service :: "service option"
  pb_ticks :: "nat list"

text \<open>How the thread ends on an exception: the engine's two are kept for the main thread, any other one
  ends the thread.\<close>

definition worker_fails :: "exn \<Rightarrow> service \<Rightarrow> service" where
  "worker_fails e sv =
     (if is_HciError e \<or> is_HciGone e
      then sv\<lparr>sv_errors := sv_errors sv @ [e], sv_stop := True, sv_running := False\<rparr>
      else sv\<lparr>sv_running := False\<rparr>)"

definition is_data_request :: "packet \<Rightarrow> bool" where
  "is_data_request p =
     (case p of (kind, code, body) \<Rightarrow> kind = H4_EVENT \<and> code = Some EVT_LE_META \<and> 4 \<le> length body \<and>
        body ! 0 = LE_PERIODIC_ADV_SUBEVENT_DATA_REQUEST \<and> body ! 1 = ADV_HANDLE_PERIODIC \<and> 0 < body ! 3)"

definition is_response :: "packet \<Rightarrow> bool" where
  "is_response p =
     (case p of (kind, code, body) \<Rightarrow> kind = H4_EVENT \<and> code = Some EVT_LE_META \<and>
        pawr_response_has_marker body PAWR_RESPONSE_MARKER)"

definition worker_step :: "service \<times> hci \<Rightarrow> service \<times> hci" where
  "worker_step s =
     (case s of (sv, a) \<Rightarrow>
        if \<not> sv_running sv then (sv, a)
        else if sv_stop sv then (sv\<lparr>sv_running := False\<rparr>, a)
        else
          (case hci_read_packet 100000 a of
             (Inl e, a1) \<Rightarrow> (worker_fails e sv, a1)
           | (Inr None, a1) \<Rightarrow> (sv, a1)
           | (Inr (Some p), a1) \<Rightarrow>
               if is_data_request p then
                 (case set_requested_pawr_subevent_data (unat (snd (snd p) ! 2)) (unat (snd (snd p) ! 3)) a1 of
                    (Inl e, a2) \<Rightarrow> (worker_fails e sv, a2)
                  | (Inr _, a2) \<Rightarrow> (sv, a2))
               else if is_response p then (sv\<lparr>sv_response := True\<rparr>, a1)
               else (sv\<lparr>sv_deferred := sv_deferred sv @ [p]\<rparr>, a1)))"

fun worker_run :: "nat \<Rightarrow> service \<times> hci \<Rightarrow> service \<times> hci" where
  "worker_run 0 s = s"
| "worker_run (Suc n) s = worker_run n (worker_step s)"

definition start_pawr_data_service :: "(pawr_bench, unit) action" where
  "start_pawr_data_service = modify_s (\<lambda>b. b\<lparr>pb_service := Some service_init\<rparr>)"

text \<open>The iterations the thread gets before the main thread goes on.\<close>

definition let_worker :: "(pawr_bench, unit) action" where
  "let_worker = modify_s (\<lambda>b.
     case (pb_service b, pb_ticks b) of
       (Some sv, n # ns) \<Rightarrow>
         (case worker_run n (sv, snd (bn_pair b)) of
            (sv', a) \<Rightarrow> b\<lparr>pb_service := Some sv', pb_ticks := ns, bn_pair := (fst (bn_pair b), a)\<rparr>)
     | _ \<Rightarrow> b)"

text \<open>A step of the main thread on the scanner while the thread has the advertiser.\<close>

definition scanner_alone :: "(hci, 'a) action \<Rightarrow> (pawr_bench, 'a) action" where
  "scanner_alone m b = (case m (fst (bn_pair b)) of (r, c) \<Rightarrow> (r, b\<lparr>bn_pair := (c, snd (bn_pair b))\<rparr>))"

definition meet :: "pair \<Rightarrow> pair" where
  "meet s = (catch_up (clock (snd s) - clock (fst s)) (fst s), catch_up (clock (fst s) - clock (snd s)) (snd s))"

definition finish_pawr_data_service :: "(pawr_bench, unit) action" where
  "finish_pawr_data_service = with_s (\<lambda>b.
     case pb_service b of
       None \<Rightarrow> ret ()
     | Some sv \<Rightarrow>
         if sv_finished sv then ret ()
         else
           bind_s (modify_s (\<lambda>b. b\<lparr>pb_service := Some (sv\<lparr>sv_stop := True\<rparr>)\<rparr>)) (\<lambda>_.
           bind_s let_worker (\<lambda>_.
           bind_s (modify_s (\<lambda>b. b\<lparr>bn_pair := meet (bn_pair b)\<rparr>)) (\<lambda>_.
           with_s (\<lambda>b1. case pb_service b1 of
             None \<Rightarrow> ret ()
           | Some sv1 \<Rightarrow>
               if sv_running sv1 then throw (HciError ''PAwR data service did not stop'' [])
               else
                 bind_s (modify_s (\<lambda>b. b\<lparr>bn_pair := (fst (bn_pair b), restore (sv_deferred sv1) (snd (bn_pair b))),
                           pb_service := Some (sv1\<lparr>sv_deferred := [], sv_finished := True\<rparr>)\<rparr>)) (\<lambda>_.
                 case sv_errors sv1 of [] \<Rightarrow> ret () | e # _ \<Rightarrow> throw e))))))"

section \<open>The phase\<close>

abbreviation (input) PAWR_RESPONSE_ATTEMPTS :: nat where "PAWR_RESPONSE_ATTEMPTS \<equiv> 3"
abbreviation (input) PAWR_RESPONSE_WAIT :: nat where "PAWR_RESPONSE_WAIT \<equiv> 2 * 318750 + 100000"

definition responded :: "pawr_bench \<Rightarrow> bool" where
  "responded b = (case pb_service b of None \<Rightarrow> False | Some sv \<Rightarrow> sv_response sv)"

definition raise_errors :: "(pawr_bench, unit) action" where
  "raise_errors = with_s (\<lambda>b. case pb_service b of
     None \<Rightarrow> ret () | Some sv \<Rightarrow> (case sv_errors sv of [] \<Rightarrow> ret () | e # _ \<Rightarrow> throw e))"

lemma let_worker_scanner [simp]: "fst (bn_pair (snd (let_worker b))) = fst (bn_pair b)" "fst (let_worker b) = Inr ()"
  by (simp_all add: let_worker_def split: option.split list.split prod.split)

lemma response_wait_clock:
  assumes "bind_s (scanner_alone (sleep t)) (\<lambda>_. bind_s let_worker (\<lambda>_. raise_errors)) b = (Inr u, b2)"
  shows "clock (fst (bn_pair b2)) = clock (fst (bn_pair b)) + t"
proof -
  obtain b1 where b1: "scanner_alone (sleep t) b = (Inr (), b1)" "bind_s let_worker (\<lambda>_. raise_errors) b1 = (Inr u, b2)"
    using assms by (auto simp: bind_s_Inr_iff)
  then obtain b3 where b3: "let_worker b1 = (Inr (), b3)" "raise_errors b3 = (Inr u, b2)" by (auto simp: bind_s_Inr_iff)
  have "clock (fst (bn_pair b1)) = clock (fst (bn_pair b)) + t" using b1(1) by (auto simp: scanner_alone_def sleep_def)
  moreover have "fst (bn_pair b3) = fst (bn_pair b1)" using let_worker_scanner(1) [of b1] b3(1) by simp
  moreover have "b2 = b3" using b3(2) by (auto simp: raise_errors_def split: option.splits list.splits)
  ultimately show ?thesis by simp
qed

text \<open>The wait for the response, in slices of at most 50 ms.\<close>

function response_wait :: "nat \<Rightarrow> (pawr_bench, bool) action" where
  "response_wait deadline b =
     (if clock (fst (bn_pair b)) < deadline then
        let b1 = snd (let_worker b) in
        if responded b1 then (Inr True, b1)
        else
          (case bind_s (scanner_alone (sleep (min 50000 (deadline - clock (fst (bn_pair b1)))))) (\<lambda>_.
                bind_s let_worker (\<lambda>_. raise_errors)) b1 of
             (Inl e, b2) \<Rightarrow> (Inl e, b2)
           | (Inr _, b2) \<Rightarrow> response_wait deadline b2)
      else (Inr False, b))"
  by pat_completeness auto
termination
  by (relation "measure (\<lambda>(deadline, b). deadline - clock (fst (bn_pair b)))")
    (auto dest!: response_wait_clock [OF sym])

declare response_wait.simps [simp del]

definition respond :: "nat \<Rightarrow> nat \<Rightarrow> (pawr_bench, bool) action" where
  "respond sync_handle subevent =
     bind_s (scanner_alone (set_pawr_sync_subevent sync_handle subevent)) (\<lambda>_.
     bind_s (scanner_alone (wait_pawr_periodic_report sync_handle (of_nat subevent) PAWR_SUBEVENT_MARKER 12000000)) (\<lambda>(_, counter, sub, _).
     bind_s (case (counter, sub) of
               (Some c, Some s) \<Rightarrow> scanner_alone (set_pawr_response sync_handle c (unat s) subevent)
             | _ \<Rightarrow> throw StructError) (\<lambda>_.
     with_s (\<lambda>b. response_wait (clock (fst (bn_pair b)) + PAWR_RESPONSE_WAIT)))))"

text \<open>The attempts that are left, the number of the next one, and the number sent so far.\<close>

fun attempt_loop :: "nat \<Rightarrow> nat \<Rightarrow> nat \<Rightarrow> nat \<Rightarrow> nat \<Rightarrow> (pawr_bench, bool \<times> nat) action" where
  "attempt_loop 0 attempt attempts_sent sync_handle subevent = ret (False, attempts_sent)"
| "attempt_loop (Suc n) attempt attempts_sent sync_handle subevent =
     bind_s let_worker (\<lambda>_. with_s (\<lambda>b.
     if responded b then ret (True, attempts_sent)
     else
       bind_s let_worker (\<lambda>_.
       bind_s raise_errors (\<lambda>_.
       bind_s (respond sync_handle subevent) (\<lambda>seen.
       if seen then ret (True, attempt) else attempt_loop n (attempt + 1) attempt sync_handle subevent)))))"

definition pawr_body :: "string \<Rightarrow> (pawr_bench, unit) action" where
  "pawr_body label =
     bind_s (on_side Peripheral (prepare_controller DEFAULT_LE_EVENT_MASK)) (\<lambda>(adv_id, adv_type, _).
     bind_s (on_side Central (prepare_controller DEFAULT_LE_EVENT_MASK)) (\<lambda>_.
     bind_s (on_side Central pawr_diag_counters) (\<lambda>pawr_diag_before.
     bind_s (on_side Peripheral (configure_pawr adv_type)) (\<lambda>_.
     bind_s (on_side Central start_periodic_source_scan) (\<lambda>_.
     bind_s (on_side Peripheral (ext_adv_enable ADV_HANDLE_PERIODIC True)) (\<lambda>_.
     bind_s (on_side Peripheral (command_ok 0x2040 (Inr [1, ADV_HANDLE_PERIODIC]) ''LE Set Periodic Advertising Enable'')) (\<lambda>_.
     bind_s (on_side Peripheral (wait_pawr_data_request 8000000)) (\<lambda>(start, num).
     bind_s (on_side Peripheral (set_requested_pawr_subevent_data start num)) (\<lambda>subevent.
     bind_s start_pawr_data_service (\<lambda>_.
     bind_s (scanner_alone (create_periodic_sync adv_id adv_type ADV_SID_PERIODIC True)) (\<lambda>sync_source.
     bind_s (scanner_alone (wait_sync_established (Some sync_source) 12000000 True True)) (\<lambda>(sync_handle, _).
     bind_s (keep_sync (Some sync_handle)) (\<lambda>_.
     bind_s (attempt_loop PAWR_RESPONSE_ATTEMPTS 1 0 sync_handle subevent) (\<lambda>(response_seen, attempts_sent).
     bind_s finish_pawr_data_service (\<lambda>_.
     bind_s (modify_s (\<lambda>b. b\<lparr>pb_service := None\<rparr>)) (\<lambda>_.
     bind_s (on_side Central (set_sync_scan False True)) (\<lambda>_.
     bind_s (on_side Central pawr_diag_counters) (\<lambda>pawr_diag_after.
     bind_s (on_side Central (verify_pawr_response_completion pawr_diag_before pawr_diag_after attempts_sent)) (\<lambda>_.
     if \<not> response_seen
     then throw (HciError ''no PAwR response marker after %u fresh response attempts'' [attempts_sent])
     else write_book (passed ''PAwR'' ''advertiser and scanner''
            (if 1 < attempts_sent then (label @ '' subevent %u + OTA response slot after %u attempts'', [int subevent, int attempts_sent])
             else (label @ '' subevent %u + OTA response slot'', [int subevent]))))))))))))))))))))))"

definition run_pawr_phase :: "string \<Rightarrow> (pawr_bench, unit) action" where
  "run_pawr_phase label =
     bind_s (modify_s (\<lambda>b. b\<lparr>sb_sync := None, pb_service := None\<rparr>)) (\<lambda>_.
     finally_s (or_failed_setup ''PAwR'' ''advertiser and scanner'' (pawr_body label))
       (bind_s (with_s (\<lambda>b. if pb_service b = None then ret () else quietly finish_pawr_data_service)) (\<lambda>_.
        bind_s (on_side Central (set_sync_scan False True)) (\<lambda>_.
        bind_s drop_sync (\<lambda>_.
        on_side Peripheral stop_periodic)))))"

section \<open>What the two threads have received\<close>

definition heard_response :: "packet multiset \<Rightarrow> bool" where
  "heard_response ps \<longleftrightarrow> (\<exists>body. (H4_EVENT, Some EVT_LE_META, body) \<in># ps \<and>
     pawr_response_has_marker body PAWR_RESPONSE_MARKER)"

lemma heard_response_mono: "ps \<subseteq># qs \<Longrightarrow> heard_response ps \<Longrightarrow> heard_response qs"
  unfolding heard_response_def by (blast dest: mset_subset_eqD)

lemma is_response_heard: "p \<in># ps \<Longrightarrow> is_response p \<Longrightarrow> heard_response ps"
  by (cases p) (auto simp: is_response_def heard_response_def)

text \<open>What the service holds with its controller, and what it claims.\<close>

definition held :: "service \<times> hci \<Rightarrow> packet multiset" where
  "held s = mset (sv_deferred (fst s)) + inbox (snd s)"

definition honest :: "packet multiset \<Rightarrow> service \<times> hci \<Rightarrow> bool" where
  "honest J s \<longleftrightarrow> held s \<subseteq># J \<and> (sv_response (fst s) \<longrightarrow> heard_response J)"

lemma worker_fails_fields [simp]:
  "sv_deferred (worker_fails e sv) = sv_deferred sv" "sv_response (worker_fails e sv) = sv_response sv"
  by (simp_all add: worker_fails_def)

lemma honest_less:
  assumes "honest J (sv, a)" "inbox a1 \<subseteq># inbox a" "sv_deferred sv1 = sv_deferred sv" "sv_response sv1 = sv_response sv"
  shows "honest J (sv1, a1)"
proof -
  have "held (sv1, a1) \<subseteq># held (sv, a)" using assms(2,3) by (simp add: held_def)
  with assms(1,4) show ?thesis by (auto simp: honest_def intro: subset_mset.order_trans)
qed

lemma worker_step_honest:
  assumes "honest J s"
  shows "honest J (worker_step s)"
proof -
  obtain sv a where s: "s = (sv, a)" by fastforce
  obtain rd a1 where rd: "hci_read_packet 100000 a = (rd, a1)" by fastforce
  have a1: "inbox a1 \<subseteq># inbox a" by (rule reads.takes [OF rd])
  note less = honest_less [OF assms [unfolded s]]
  show ?thesis
  proof (cases "sv_running sv \<and> \<not> sv_stop sv")
    case False
    with assms s show ?thesis by (auto simp: worker_step_def honest_def held_def)
  next
    case True
    show ?thesis
    proof (cases rd)
      case (Inl e)
      with True s rd less [OF a1] show ?thesis by (simp add: worker_step_def)
    next
      case (Inr po)
      show ?thesis
      proof (cases po)
        case None
        with True s rd Inr less [OF a1] show ?thesis by (simp add: worker_step_def)
      next
        case (Some p)
        have p: "inbox a = add_mset p (inbox a1)" using read_packet_inbox [OF rd [unfolded Inr]] Some by simp
        obtain rq a2 where rq: "set_requested_pawr_subevent_data (unat (snd (snd p) ! 2)) (unat (snd (snd p) ! 3)) a1 = (rq, a2)"
          by fastforce
        have a2: "inbox a2 \<subseteq># inbox a" using pawr_data.takes [OF rq] a1 by (rule subset_mset.order_trans)
        consider (request) "is_data_request p" | (response) "\<not> is_data_request p" "is_response p"
          | (other) "\<not> is_data_request p" "\<not> is_response p" by blast
        then show ?thesis
        proof cases
          case request
          with True s rd Inr Some rq less [OF a2] show ?thesis by (cases rq) (simp_all add: worker_step_def)
        next
          case response
          have "p \<in># held s" using p s by (simp add: held_def)
          with assms have "heard_response J"
            using is_response_heard [OF _ response(2)] heard_response_mono unfolding honest_def by blast
          with response True s rd Inr Some less [OF a1, of sv] show ?thesis
            by (simp add: worker_step_def honest_def held_def)
        next
          case other
          with True s rd Inr Some p assms show ?thesis by (simp add: worker_step_def honest_def held_def)
        qed
      qed
    qed
  qed
qed

lemma worker_run_honest: "honest J s \<Longrightarrow> honest J (worker_run n s)"
  by (induction n arbitrary: s) (simp_all add: worker_step_honest)

text \<open>The invariant of the whole phase.\<close>

definition serving :: "packet multiset \<Rightarrow> packet multiset \<Rightarrow> pawr_bench \<Rightarrow> bool" where
  "serving I J b \<longleftrightarrow> scan_inbox b \<subseteq># I \<and>
     (case pb_service b of None \<Rightarrow> adv_inbox b \<subseteq># J | Some sv \<Rightarrow> honest J (sv, snd (bn_pair b)))"

lemma serving_worker: "serving I J b \<Longrightarrow> serving I J (snd (let_worker b))"
  using worker_run_honest [of J _ ]
  by (auto simp: serving_def let_worker_def split: option.splits list.splits prod.splits) metis

lemma serving_adv: "serving I J b \<Longrightarrow> adv_inbox b \<subseteq># J"
  by (auto simp: serving_def honest_def held_def split: option.splits intro: subset_mset.order_trans [rotated])

lemma serving_less:
  assumes "serving I J b" "inbox c \<subseteq># scan_inbox b" "inbox a \<subseteq># adv_inbox b"
  shows "serving I J (b\<lparr>bn_pair := (c, a)\<rparr>)"
  using assms honest_less [of J _ "snd (bn_pair b)" a]
  by (auto simp: serving_def split: option.splits intro: subset_mset.order_trans)

lemma serving_side:
  assumes m: "reader inbox m" and w: "serving I J b" and run: "on_side sd m b = (r, b')"
  shows "serving I J b'"
proof -
  have "inbox (fst (bn_pair b')) \<subseteq># scan_inbox b" "inbox (snd (bn_pair b')) \<subseteq># adv_inbox b"
    using reader.takes [OF reader_side(1) [OF m] run] reader.takes [OF reader_side(2) [OF m] run] .
  moreover have "b' = b\<lparr>bn_pair := (fst (bn_pair b'), snd (bn_pair b'))\<rparr>"
    using run by (auto simp: on_side_def on_pair_def split: prod.splits)
  ultimately show ?thesis using serving_less [OF w] by metis
qed

lemma pawr_central:
  assumes "reader inbox m" "\<And>x. received I m x \<Longrightarrow> yields (serving I J) (f x) Q"
  shows "yields (serving I J) (bind_s (on_side Central m) f) Q"
proof (rule yieldsI)
  fix b y b' assume w: "serving I J b" and "bind_s (on_side Central m) f b = (Inr y, b')"
  then obtain x b1 where b1: "on_side Central m b = (Inr x, b1)" "f x b1 = (Inr y, b')" by (auto simp: bind_s_Inr_iff)
  obtain h' where "m (fst (bn_pair b)) = (Inr x, h')" using on_side_Inr [OF b1(1)] by blast
  with w have "received I m x" unfolding received_def serving_def by blast
  from yieldsD [OF assms(2) [OF this] serving_side [OF assms(1) w b1(1)] b1(2)] show "Q y b'" .
qed

lemma pawr_peripheral:
  assumes "reader inbox m" "\<And>x. yields (serving I J) (f x) Q"
  shows "yields (serving I J) (bind_s (on_side Peripheral m) f) Q"
  by (rule yields_bind [OF yieldsI assms(2)]) (rule serving_side [OF assms(1)])

lemma pawr_alone:
  assumes "reader inbox m" "\<And>x. received I m x \<Longrightarrow> yields (serving I J) (f x) Q"
  shows "yields (serving I J) (bind_s (scanner_alone m) f) Q"
proof (rule yieldsI)
  fix b y b' assume w: "serving I J b" and "bind_s (scanner_alone m) f b = (Inr y, b')"
  then obtain x c where c: "m (fst (bn_pair b)) = (Inr x, c)" "f x (b\<lparr>bn_pair := (c, snd (bn_pair b))\<rparr>) = (Inr y, b')"
    by (auto simp: bind_s_Inr_iff scanner_alone_def split: prod.splits)
  have "received I m x" using w c(1) unfolding received_def serving_def by blast
  moreover have "serving I J (b\<lparr>bn_pair := (c, snd (bn_pair b))\<rparr>)"
    using serving_less [OF w reader.takes [OF assms(1) c(1)]] by simp
  ultimately show "Q y b'" using yieldsD [OF assms(2)] c(2) by blast
qed

lemma pawr_worker:
  assumes "yields (serving I J) (f ()) Q"
  shows "yields (serving I J) (bind_s let_worker f) Q"
proof (rule yieldsI)
  fix b y b' assume w: "serving I J b" and run: "bind_s let_worker f b = (Inr y, b')"
  obtain b1 where b1: "let_worker b = (Inr (), b1)" using let_worker_scanner(2) [of b] by (metis prod.collapse)
  with run have "f () (snd (let_worker b)) = (Inr y, b')" by (simp add: bind_s_def)
  from yieldsD [OF assms serving_worker [OF w] this] show "Q y b'" .
qed

lemma responded_heard: "serving I J b \<Longrightarrow> responded b \<Longrightarrow> heard_response J"
  by (auto simp: serving_def responded_def honest_def split: option.splits)

lemma raise_errors_same: "raise_errors b = (r, b') \<Longrightarrow> b' = b"
  by (auto simp: raise_errors_def split: option.splits list.splits)

lemma response_wait_yields:
  "response_wait deadline b = (Inr seen, b') \<Longrightarrow> serving I J b \<Longrightarrow> serving I J b' \<and> (seen \<longrightarrow> heard_response J)"
proof (induction deadline b rule: response_wait.induct)
  case (1 deadline b)
  let ?b1 = "snd (let_worker b)"
  let ?sleep = "bind_s (scanner_alone (sleep (min 50000 (deadline - clock (fst (bn_pair ?b1)))))) (\<lambda>_.
                bind_s let_worker (\<lambda>_. raise_errors))"
  have w1: "serving I J ?b1" using 1(3) by (rule serving_worker)
  consider (late) "\<not> clock (fst (bn_pair b)) < deadline" | (heard) "clock (fst (bn_pair b)) < deadline" "responded ?b1"
    | (slept) "clock (fst (bn_pair b)) < deadline" "\<not> responded ?b1" by blast
  then show ?case
  proof cases
    case late
    with 1(2,3) show ?thesis by (simp add: response_wait.simps [of deadline b])
  next
    case heard
    with 1(2) w1 responded_heard [OF w1] show ?thesis by (auto simp: response_wait.simps [of deadline b])
  next
    case slept
    obtain r b2 where b2: "?sleep ?b1 = (r, b2)" by (metis surj_pair)
    with slept 1(2) obtain u where r: "r = Inr u" by (cases r) (simp_all add: response_wait.simps [of deadline b])
    have sl: "reader inbox (sleep t)" for t by (rule readerI) (auto simp: sleep_def inbox_def)
    have "yields (serving I J) ?sleep (\<lambda>_. serving I J)"
      by (intro pawr_alone pawr_worker sl yieldsI) (auto dest: raise_errors_same)
    from yieldsD [OF this w1] b2 r have "serving I J b2" by blast
    moreover have "response_wait deadline b2 = (Inr seen, b')"
      using slept 1(2) b2 r by (simp add: response_wait.simps [of deadline b])
    ultimately show ?thesis using 1(1) [OF slept(1) refl slept(2) b2 [symmetric] r] by blast
  qed
qed

lemma pawr_errors: "yields (serving I J) (f ()) Q \<Longrightarrow> yields (serving I J) (bind_s raise_errors f) Q"
proof (rule yieldsI)
  fix b y b' assume f: "yields (serving I J) (f ()) Q" and w: "serving I J b" and "bind_s raise_errors f b = (Inr y, b')"
  then obtain u b1 where "raise_errors b = (Inr u, b1)" "f () b1 = (Inr y, b')" by (auto simp: bind_s_Inr_iff)
  then show "Q y b'" using yieldsD [OF f w] by (auto dest!: raise_errors_same)
qed

section \<open>What an attempt shows\<close>

lemma wait_pawr_heard:
  assumes "wait_pawr_periodic_report hnd subevent marker timeout h = (Inr x, h')"
  shows "heard_marker (inbox h) hnd marker"
proof -
  obtain kind code body where p: "(kind, code, body) \<in># inbox h"
    "pawr_report_judge hnd subevent marker (kind, code, body) = Stop (Inr x)"
    using sift_or_Inr [OF assms [unfolded wait_pawr_periodic_report_def]] by (metis prod_cases3)
  from p(2) have "kind = H4_EVENT" "code = Some EVT_LE_META"
    "\<exists>counter subevent data. periodic_report_data body = Some (hnd, counter, subevent, data) \<and> contains marker data"
    by (auto simp: pawr_report_judge_def split: if_splits option.splits)
  with p(1) show ?thesis unfolding heard_marker_def by blast
qed

lemma received_pawr: "received I (wait_pawr_periodic_report hnd subevent marker timeout) x \<Longrightarrow> heard_marker I hnd marker"
  unfolding received_def by (blast dest: wait_pawr_heard heard_mono)

lemma respond_yields:
  "yields (serving I J) (respond hnd subevent)
     (\<lambda>seen b. serving I J b \<and> heard_marker I hnd PAWR_SUBEVENT_MARKER \<and> (seen \<longrightarrow> heard_response J))"
  unfolding respond_def
proof (intro pawr_alone pawr_subevent.reader_axioms pawr_report.reader_axioms)
  fix u x assume x: "received I (wait_pawr_periodic_report hnd (of_nat subevent) PAWR_SUBEVENT_MARKER 12000000) x"
  obtain hnd' counter sub data where sx: "x = (hnd', counter, sub, data)" by (metis prod_cases4)
  have wait: "yields (serving I J) (with_s (\<lambda>b. response_wait (clock (fst (bn_pair b)) + PAWR_RESPONSE_WAIT)))
      (\<lambda>seen b. serving I J b \<and> heard_marker I hnd PAWR_SUBEVENT_MARKER \<and> (seen \<longrightarrow> heard_response J))"
    by (rule yieldsI) (use response_wait_yields received_pawr [OF x] in \<open>auto\<close>)
  show "yields (serving I J) (case x of (_, counter, sub, _) \<Rightarrow>
      bind_s (case (counter, sub) of (Some c, Some s) \<Rightarrow> scanner_alone (set_pawr_response hnd c (unat s) subevent) | _ \<Rightarrow> throw StructError)
        (\<lambda>_. with_s (\<lambda>b. response_wait (clock (fst (bn_pair b)) + PAWR_RESPONSE_WAIT))))
      (\<lambda>seen b. serving I J b \<and> heard_marker I hnd PAWR_SUBEVENT_MARKER \<and> (seen \<longrightarrow> heard_response J))"
    using wait by (cases counter; cases sub)
      (auto simp: sx intro!: yields_throw pawr_alone pawr_response.reader_axioms)
qed

text \<open>After the attempts: whether the response was seen, and how many were sent, fewer than \<open>m\<close>.\<close>

definition tried :: "packet multiset \<Rightarrow> packet multiset \<Rightarrow> nat \<Rightarrow> nat \<Rightarrow> bool \<times> nat \<Rightarrow> pawr_bench \<Rightarrow> bool" where
  "tried I J hnd m x b \<longleftrightarrow> serving I J b \<and> ((fst x \<longrightarrow> heard_response J) \<and> snd x < m \<and>
     (snd x = 0 \<or> heard_marker I hnd PAWR_SUBEVENT_MARKER))"

lemma attempt_loop_yields:
  assumes "attempts_sent = 0 \<or> heard_marker I hnd PAWR_SUBEVENT_MARKER" "attempts_sent < attempt"
  shows "yields (serving I J) (attempt_loop n attempt attempts_sent hnd subevent) (tried I J hnd (attempt + n))"
  using assms
proof (induction n arbitrary: attempt attempts_sent)
  case 0
  then show ?case by (auto simp: yields_def tried_def)
next
  case (Suc n)
  let ?again = "bind_s let_worker (\<lambda>_. bind_s raise_errors (\<lambda>_. bind_s (respond hnd subevent) (\<lambda>seen.
      if seen then ret (True, attempt) else attempt_loop n (attempt + 1) attempt hnd subevent)))"
  have next_one: "yields (serving I J) (if seen then ret (True, attempt) else attempt_loop n (attempt + 1) attempt hnd subevent)
      (tried I J hnd (attempt + Suc n))"
    if "heard_marker I hnd PAWR_SUBEVENT_MARKER \<and> (seen \<longrightarrow> heard_response J)" for seen
    using that Suc.IH [of attempt "attempt + 1"] by (cases seen) (simp_all add: yields_def tried_def)
  have "yields (serving I J) (bind_s (respond hnd subevent) (\<lambda>seen.
      if seen then ret (True, attempt) else attempt_loop n (attempt + 1) attempt hnd subevent)) (tried I J hnd (attempt + Suc n))"
    by (rule yields_bind [OF respond_yields], rule yields_pure, rule next_one)
  then have again: "yields (serving I J) ?again (tried I J hnd (attempt + Suc n))" by (intro pawr_worker pawr_errors)
  show ?case unfolding attempt_loop.simps
  proof (rule pawr_worker, rule yieldsI)
    fix b x b'
    assume w: "serving I J b" and run: "with_s (\<lambda>b. if responded b then ret (True, attempts_sent) else ?again) b = (Inr x, b')"
    show "tried I J hnd (attempt + Suc n) x b'"
    proof (cases "responded b")
      case True
      with run w responded_heard [OF w True] Suc.prems show ?thesis by (auto simp: tried_def)
    next
      case False
      with run have "?again b = (Inr x, b')" by simp
      from yieldsD [OF again w this] show ?thesis .
    qed
  qed
qed

lemma inbox_restore [simp]: "inbox (restore ds h) = mset ds + inbox h"
  by (simp add: inbox_def add.assoc)

section \<open>Ending the service\<close>

lemma meet_inbox [simp]: "inbox (fst (meet s)) = inbox (fst s)" "inbox (snd (meet s)) = inbox (snd s)"
  by (simp_all add: meet_def)

lemma finish_yields: "yields (serving I J) finish_pawr_data_service (\<lambda>_. serving I J)"
proof (rule yieldsI)
  fix b u b' assume w: "serving I J b" and run: "finish_pawr_data_service b = (Inr u, b')"
  show "serving I J b'"
  proof (cases "\<exists>sv. pb_service b = Some sv \<and> \<not> sv_finished sv")
    case False
    with w run show ?thesis by (auto simp: finish_pawr_data_service_def split: option.splits if_splits)
  next
    case True
    then obtain sv where sv: "pb_service b = Some sv" "\<not> sv_finished sv" by blast
    let ?b1 = "b\<lparr>pb_service := Some (sv\<lparr>sv_stop := True\<rparr>)\<rparr>"
    have "serving I J ?b1" using w sv(1) by (simp add: serving_def honest_def held_def)
    then have w2: "serving I J (snd (let_worker ?b1))" by (rule serving_worker)
    obtain b2 where b2: "let_worker ?b1 = (Inr (), b2)" using let_worker_scanner(2) [of ?b1] by (metis prod.collapse)
    obtain sv1 where sv1: "pb_service b2 = Some sv1"
      using b2 by (auto simp: let_worker_def split: list.splits prod.splits)
    have "b' = b2\<lparr>bn_pair := (fst (meet (bn_pair b2)), restore (sv_deferred sv1) (snd (meet (bn_pair b2)))),
        pb_service := Some (sv1\<lparr>sv_deferred := [], sv_finished := True\<rparr>)\<rparr>"
      using run sv b2 sv1
      by (auto simp: finish_pawr_data_service_def bind_s_def split: if_splits list.splits)
    with w2 b2 sv1 show ?thesis
      by (simp add: serving_def honest_def held_def)
  qed
qed

section \<open>The book and the cleaning up\<close>

lemma silent_worker: "silent let_worker" "silent raise_errors" "silent (scanner_alone m)"
  by (auto simp: silent_def let_worker_def raise_errors_def scanner_alone_def split: option.split list.split prod.split)

lemma silent_response_wait: "bn_book (snd (response_wait deadline b)) = bn_book b"
proof (induction deadline b rule: response_wait.induct)
  case (1 deadline b)
  let ?b1 = "snd (let_worker b)"
  let ?sleep = "bind_s (scanner_alone (sleep (min 50000 (deadline - clock (fst (bn_pair ?b1)))))) (\<lambda>_.
                bind_s let_worker (\<lambda>_. raise_errors))"
  have b1: "bn_book ?b1 = bn_book b" using silent_worker(1) by (simp add: silent_def)
  obtain r b2 where b2: "?sleep ?b1 = (r, b2)" by (metis surj_pair)
  have "silent ?sleep" by (intro silent_bind silent_worker)
  with b1 b2 have book: "bn_book b2 = bn_book b" by (metis silent_def snd_conv)
  show ?case
  proof (cases "clock (fst (bn_pair b)) < deadline \<and> \<not> responded ?b1")
    case True
    with 1 [OF conjunct1 [OF True] refl conjunct2 [OF True] b2 [symmetric]] b2 book show ?thesis
      by (cases r) (simp_all add: response_wait.simps [of deadline b])
  next
    case False
    with b1 show ?thesis by (auto simp: response_wait.simps [of deadline b])
  qed
qed

lemma silent_respond: "silent (respond hnd subevent)"
proof -
  have "silent (response_wait deadline)" for deadline by (simp add: silent_def silent_response_wait)
  then show ?thesis unfolding respond_def by (intro silent_bind silent_worker silent_if silent_with silent_throw)
qed

lemma silent_attempts: "silent (attempt_loop n attempt done_so_far hnd subevent)"
proof (induction n arbitrary: attempt done_so_far)
  case (Suc n)
  have "silent (if c then ret (True, k) else attempt_loop n (k + 1) k hnd subevent)" for c k
    using Suc by (simp add: silent_def)
  then have "silent (bind_s let_worker (\<lambda>_. bind_s raise_errors (\<lambda>_. bind_s (respond hnd subevent) (\<lambda>seen.
       if seen then ret (True, attempt) else attempt_loop n (attempt + 1) attempt hnd subevent))))"
    by (intro silent_bind silent_worker silent_respond)
  then have "silent (if responded b then ret (True, done_so_far) else bind_s let_worker (\<lambda>_. bind_s raise_errors (\<lambda>_.
       bind_s (respond hnd subevent) (\<lambda>seen.
       if seen then ret (True, attempt) else attempt_loop n (attempt + 1) attempt hnd subevent))))" for b
    by (simp add: silent_def)
  then show ?case unfolding attempt_loop.simps by (intro silent_bind silent_worker silent_with)
qed (simp add: silent_def)

lemma silent_finish: "silent finish_pawr_data_service"
  unfolding finish_pawr_data_service_def
  by (intro silent_with silent_if silent_bind silent_worker silent_throw silent_modify) simp_all

lemma polite_sync_scan: "polite (set_sync_scan enable True)"
  unfolding set_sync_scan_def Let_def by (simp add: polite_ret)

section \<open>A pass of the phase\<close>

definition pawr_evidence :: "pawr_bench \<Rightarrow> bool" where
  "pawr_evidence b \<longleftrightarrow> (\<exists>own addr_type source b1 hnd attempts.
     on_side Peripheral (prepare_controller DEFAULT_LE_EVENT_MASK) b = (Inr (own, addr_type, source), b1) \<and>
     heard_sync (scan_inbox b) (addr_type, own, ADV_SID_PERIODIC) hnd \<and> attempts \<le> PAWR_RESPONSE_ATTEMPTS \<and>
     (attempts = 0 \<or> heard_marker (scan_inbox b) hnd PAWR_SUBEVENT_MARKER) \<and> heard_response (adv_inbox b))"

lemma reader_verify: "reader inbox (verify_pawr_response_completion before after expected)"
  by (rule readerI)
    (auto simp: verify_pawr_response_completion_def Let_def inbox_def split: if_splits option.splits prod.splits)

lemma pawr_first:
  assumes "reader inbox m" "pb_service b = None"
    "\<And>x b1. on_side sd m b = (Inr x, b1) \<Longrightarrow> yields (serving (scan_inbox b) (adv_inbox b)) (f x) Q"
  shows "yields (\<lambda>s. s = b) (bind_s (on_side sd m) f) Q"
proof (rule yieldsI)
  fix s y s' assume "s = b" "bind_s (on_side sd m) f s = (Inr y, s')"
  then obtain x b1 where b1: "on_side sd m b = (Inr x, b1)" "f x b1 = (Inr y, s')" by (auto simp: bind_s_Inr_iff)
  have "serving (scan_inbox b) (adv_inbox b) b" using assms(2) by (simp add: serving_def)
  from yieldsD [OF assms(3) [OF b1(1)] serving_side [OF assms(1) this b1(1)] b1(2)] show "Q y s'" .
qed

lemma pawr_modify:
  assumes "\<And>b. serving I J b \<Longrightarrow> serving I J (g b)" "yields (serving I J) (f ()) Q"
  shows "yields (serving I J) (bind_s (modify_s g) f) Q"
  by (rule yields_bind [where R = "\<lambda>_. serving I J"]) (use assms in \<open>auto intro!: yieldsI\<close>)

lemma pawr_attempts:
  assumes "\<And>seen k. (seen \<longrightarrow> heard_response J) \<Longrightarrow> k < 4 \<Longrightarrow> k = 0 \<or> heard_marker I hnd PAWR_SUBEVENT_MARKER \<Longrightarrow>
    yields (serving I J) (f (seen, k)) Q"
  shows "yields (serving I J) (bind_s (attempt_loop 3 1 0 hnd subevent) f) Q"
proof (rule yields_bind [OF attempt_loop_yields])
  fix x :: "bool \<times> nat"
  show "yields (tried I J hnd (1 + 3) x) (f x) Q"
    unfolding tried_def by (cases x, rule yields_pure) (use assms in auto)
qed simp_all

lemma pawr_finish: "(\<And>x. yields (serving I J) (f x) Q) \<Longrightarrow> yields (serving I J) (bind_s finish_pawr_data_service f) Q"
  by (rule yields_bind [OF finish_yields])

lemma pawr_body_yields:
  assumes "pb_service b = None"
  shows "yields (\<lambda>s. s = b) (pawr_body label) (\<lambda>_ _. pawr_evidence b)"
  unfolding pawr_body_def keep_sync_def start_pawr_data_service_def
proof (intro pawr_first [OF prepares.reader_axioms assms] pawr_central pawr_peripheral pawr_alone pawr_attempts pawr_finish
    pawr_modify yields_cases yields_write yields_throw
    prepares.reader_axioms pawr_diag.reader_axioms pawr_conf.reader_axioms source_scan.reader_axioms
    ext_enable.reader_axioms reader_command_ok pawr_request.reader_axioms pawr_data.reader_axioms
    sync_create.reader_axioms sync_wait.reader_axioms sync_scan.reader_axioms reader_verify)
qed (auto simp: pawr_evidence_def serving_adv service_init_def honest_def held_def serving_def split: option.splits
    dest!: received_sync received_source)

interpretation pawr_test: scored "''PAwR''" "''advertiser and scanner''" "pawr_body label"
  "\<lambda>b. pb_service b = None \<longrightarrow> pawr_evidence b" for label
proof
  show "scores ''PAwR'' ''advertiser and scanner'' (pawr_body label)"
    unfolding pawr_body_def keep_sync_def start_pawr_data_service_def
    by (intro scores_intros silent_modify silent_worker silent_attempts silent_finish) simp_all
  show "pawr_body label b = (Inr (), b') \<Longrightarrow> pb_service b = None \<longrightarrow> pawr_evidence b" for b b'
    using yieldsD [OF pawr_body_yields refl] by blast
qed


end
