(* ===== verification/Auracast_Data.thy ===== *)
theory Auracast_Data
  imports Struct_Codec
begin

text \<open>
  The first half of \<open>python/hcicontroller/auracast.py\<close>: the data a broadcast source puts on air and
  the parameter blocks that carry it. A Python \<open>str\<close> is its list of code points; numbers that the
  source checks against zero are \<open>int\<close>. The decoders at the end are the reference the encoders are
  proved against: AD structures, and the BASE of the Basic Audio Profile.
\<close>

section \<open>Text\<close>

type_synonym utext = "nat list"

text \<open>\<open>str.encode("utf-8")\<close> and \<open>str.encode("ascii")\<close>; \<open>UnicodeEncodeError\<close> is a \<open>ValueError\<close>.\<close>

definition utf8_char :: "nat \<Rightarrow> bytes result" where
  "utf8_char c =
     (if c < 0x80 then Inr [of_nat c]
      else if c < 0x800 then Inr [of_nat (0xC0 + c div 64), of_nat (0x80 + c mod 64)]
      else if 0xD800 \<le> c \<and> c < 0xE000 \<or> 0x110000 \<le> c
      then Inl (ValueError ''surrogates not allowed'')
      else if c < 0x10000
      then Inr [of_nat (0xE0 + c div 4096), of_nat (0x80 + c div 64 mod 64), of_nat (0x80 + c mod 64)]
      else Inr [of_nat (0xF0 + c div 262144), of_nat (0x80 + c div 4096 mod 64),
                of_nat (0x80 + c div 64 mod 64), of_nat (0x80 + c mod 64)])"

definition utf8 :: "utext \<Rightarrow> bytes result" where
  "utf8 cs = cat (map utf8_char cs)"

definition ascii_text :: "utext \<Rightarrow> bytes result" where
  "ascii_text cs =
     (if list_all (\<lambda>c. c < 128) cs then Inr (map of_nat cs) else Inl (ValueError ''ordinal not in range(128)''))"

section \<open>Constants\<close>

abbreviation (input) UUID_BASIC_AUDIO_ANNOUNCEMENT :: nat where "UUID_BASIC_AUDIO_ANNOUNCEMENT \<equiv> 0x1851"
abbreviation (input) UUID_BROADCAST_AUDIO_ANNOUNCEMENT :: nat where
  "UUID_BROADCAST_AUDIO_ANNOUNCEMENT \<equiv> 0x1852"
abbreviation (input) UUID_PUBLIC_BROADCAST_ANNOUNCEMENT :: nat where
  "UUID_PUBLIC_BROADCAST_ANNOUNCEMENT \<equiv> 0x1856"
abbreviation (input) AD_SERVICE_DATA_16 :: nat where "AD_SERVICE_DATA_16 \<equiv> 0x16"
abbreviation (input) AD_BROADCAST_NAME :: nat where "AD_BROADCAST_NAME \<equiv> 0x30"
abbreviation (input) PBA_ENCRYPTED :: nat where "PBA_ENCRYPTED \<equiv> 0x01"
abbreviation (input) PBA_STANDARD_QUALITY :: nat where "PBA_STANDARD_QUALITY \<equiv> 0x02"
abbreviation (input) PBA_HIGH_QUALITY :: nat where "PBA_HIGH_QUALITY \<equiv> 0x04"
abbreviation (input) CODEC_FORMAT_LC3 :: byte where "CODEC_FORMAT_LC3 \<equiv> 0x06"
abbreviation (input) CFG_SAMPLING_FREQUENCY :: nat where "CFG_SAMPLING_FREQUENCY \<equiv> 0x01"
abbreviation (input) CFG_FRAME_DURATION :: nat where "CFG_FRAME_DURATION \<equiv> 0x02"
abbreviation (input) CFG_CHANNEL_ALLOCATION :: nat where "CFG_CHANNEL_ALLOCATION \<equiv> 0x03"
abbreviation (input) CFG_OCTETS_PER_FRAME :: nat where "CFG_OCTETS_PER_FRAME \<equiv> 0x04"
abbreviation (input) CFG_BLOCKS_PER_SDU :: nat where "CFG_BLOCKS_PER_SDU \<equiv> 0x05"
abbreviation (input) LOCATION_FRONT_LEFT :: nat where "LOCATION_FRONT_LEFT \<equiv> 1"
abbreviation (input) LOCATION_FRONT_RIGHT :: nat where "LOCATION_FRONT_RIGHT \<equiv> 2"
abbreviation (input) META_PROGRAM_INFO :: nat where "META_PROGRAM_INFO \<equiv> 0x03"
abbreviation (input) META_LANGUAGE :: nat where "META_LANGUAGE \<equiv> 0x04"
abbreviation (input) META_STREAMING_CONTEXTS :: nat where "META_STREAMING_CONTEXTS \<equiv> 0x02"
abbreviation (input) CONTEXT_MEDIA :: nat where "CONTEXT_MEDIA \<equiv> 0x0004"

definition SAMPLING_FREQUENCY_CODE :: "nat \<rightharpoonup> nat" where
  "SAMPLING_FREQUENCY_CODE = map_of
     [(8000, 0x01), (11025, 0x02), (16000, 0x03), (22050, 0x04), (24000, 0x05), (32000, 0x06),
      (44100, 0x07), (48000, 0x08), (88200, 0x09), (96000, 0x0A), (176400, 0x0B), (192000, 0x0C),
      (384000, 0x0D)]"

definition FRAME_DURATION_CODE :: "nat \<rightharpoonup> nat" where
  "FRAME_DURATION_CODE = map_of [(7500, 0x00), (10000, 0x01)]"

definition PRESETS :: "string \<rightharpoonup> nat \<times> nat \<times> nat" where
  "PRESETS = map_of
     [(''16_2_2'', (16000, 10000, 40)), (''24_2_2'', (24000, 10000, 60)), (''32_2_2'', (32000, 10000, 80)),
      (''48_2_2'', (48000, 10000, 100)), (''48_4_2'', (48000, 10000, 120))]"

section \<open>Encoders\<close>

definition ltv :: "nat \<Rightarrow> bytes \<Rightarrow> bytes result" where
  "ltv ad_type v =
     (if 255 < length v + 1 then Inl (ValueError ''LTV value too long'')
      else cat [bytes_of [length v + 1, ad_type], Inr v])"

text \<open>\<open>ltv(t, e)\<close> where computing the value can raise.\<close>

definition ltv_r :: "nat \<Rightarrow> bytes result \<Rightarrow> bytes result" where
  "ltv_r ad_type r = bind_r r (ltv ad_type)"

definition codec_config :: "nat \<Rightarrow> nat \<Rightarrow> nat \<Rightarrow> nat option \<Rightarrow> bytes result" where
  "codec_config sample_rate_hz frame_us octets blocks =
     (case SAMPLING_FREQUENCY_CODE sample_rate_hz of
        None \<Rightarrow> Inl (ValueError ''unsupported sampling rate %r'')
      | Some freq \<Rightarrow>
          (case FRAME_DURATION_CODE frame_us of
             None \<Rightarrow> Inl (ValueError ''frame duration must be 7500 or 10000 us'')
           | Some dur \<Rightarrow>
               cat ([ltv_r CFG_SAMPLING_FREQUENCY (bytes_of [freq]), ltv_r CFG_FRAME_DURATION (bytes_of [dur]),
                     ltv_r CFG_OCTETS_PER_FRAME (struct_pack [FH octets])]
                 @ (case blocks of None \<Rightarrow> [] | Some b \<Rightarrow> [ltv_r CFG_BLOCKS_PER_SDU (bytes_of [b])]))))"

definition channel_allocation :: "nat \<Rightarrow> bytes result" where
  "channel_allocation locations = ltv_r CFG_CHANNEL_ALLOCATION (struct_pack [FI locations])"

definition metadata :: "nat option \<Rightarrow> utext option \<Rightarrow> utext option \<Rightarrow> bytes result" where
  "metadata contexts program_info language =
     cat [case contexts of None \<Rightarrow> Inr [] | Some c \<Rightarrow> ltv_r META_STREAMING_CONTEXTS (struct_pack [FH c]),
          case program_info of None \<Rightarrow> Inr [] | Some t \<Rightarrow> ltv_r META_PROGRAM_INFO (utf8 t),
          case language of None \<Rightarrow> Inr [] | Some t \<Rightarrow>
            bind_r (ascii_text t) (\<lambda>code.
              if length code \<noteq> 3 then Inl (ValueError ''language is a three letter ISO 639-3 code'')
              else ltv META_LANGUAGE code)]"

definition service_data :: "nat \<Rightarrow> bytes \<Rightarrow> bytes result" where
  "service_data uuid16 payload = ltv_r AD_SERVICE_DATA_16 (cat [struct_pack [FH uuid16], Inr payload])"

record subgroup =
  sg_codec_config :: bytes
  sg_metadata :: bytes
  sg_bis :: "(nat \<times> bytes) list"

definition bis_entry :: "nat \<times> bytes \<Rightarrow> bytes result" where
  "bis_entry b = (case b of (index, cfg) \<Rightarrow> cat [bytes_of [index, length cfg], Inr cfg])"

definition base_group :: "subgroup \<Rightarrow> bytes result" where
  "base_group g =
     (if sg_bis g = [] then Inl (ValueError ''a subgroup needs at least one BIS'')
      else cat [bytes_of [length (sg_bis g)], Inr [CODEC_FORMAT_LC3, 0, 0, 0, 0],
                bytes_of [length (sg_codec_config g)], Inr (sg_codec_config g),
                bytes_of [length (sg_metadata g)], Inr (sg_metadata g),
                cat (map bis_entry (sg_bis g))])"

definition base :: "int \<Rightarrow> subgroup list \<Rightarrow> bytes result" where
  "base presentation_delay_us subgroups =
     (if \<not> (0 \<le> presentation_delay_us \<and> presentation_delay_us \<le> 0xFFFFFF)
      then Inl (ValueError ''presentation delay is 24 bits'')
      else if \<not> (1 \<le> length subgroups \<and> length subgroups \<le> 31)
      then Inl (ValueError ''a BASE carries 1 to 31 subgroups'')
      else bind_r (cat [u24 (nat presentation_delay_us), bytes_of [length subgroups],
                        cat (map base_group subgroups)])
             (service_data UUID_BASIC_AUDIO_ANNOUNCEMENT))"

definition stereo_base ::
  "int \<Rightarrow> nat \<Rightarrow> nat \<Rightarrow> nat \<Rightarrow> nat option \<Rightarrow> utext option \<Rightarrow> utext option \<Rightarrow> bytes result" where
  "stereo_base presentation_delay_us sample_rate_hz frame_us octets contexts program_info language =
     bind_r (codec_config sample_rate_hz frame_us octets None) (\<lambda>cfg.
     bind_r (metadata contexts program_info language) (\<lambda>meta.
     bind_r (channel_allocation LOCATION_FRONT_LEFT) (\<lambda>l.
     bind_r (channel_allocation LOCATION_FRONT_RIGHT) (\<lambda>r.
     base presentation_delay_us
       [\<lparr>sg_codec_config = cfg, sg_metadata = meta, sg_bis = [(1, l), (2, r)]\<rparr>]))))"

definition broadcast_announcement :: "int \<Rightarrow> bytes result" where
  "broadcast_announcement broadcast_id =
     (if \<not> (0 \<le> broadcast_id \<and> broadcast_id \<le> 0xFFFFFF) then Inl (ValueError ''Broadcast_ID is 24 bits'')
      else bind_r (u24 (nat broadcast_id)) (service_data UUID_BROADCAST_AUDIO_ANNOUNCEMENT))"

definition public_announcement :: "nat \<Rightarrow> bytes \<Rightarrow> bytes result" where
  "public_announcement features meta =
     bind_r (cat [bytes_of [features, length meta], Inr meta]) (service_data UUID_PUBLIC_BROADCAST_ANNOUNCEMENT)"

definition broadcast_name :: "utext \<Rightarrow> bytes result" where
  "broadcast_name name =
     bind_r (utf8 name) (\<lambda>raw.
       if \<not> (4 \<le> length raw \<and> length raw \<le> 32) then Inl (ValueError ''Broadcast Name is 4 to 32 octets'')
       else ltv AD_BROADCAST_NAME raw)"

definition extended_adv_data :: "int \<Rightarrow> utext \<Rightarrow> bool \<Rightarrow> bool \<Rightarrow> bytes result" where
  "extended_adv_data broadcast_id name encrypted high_quality =
     (let features = (if high_quality then PBA_HIGH_QUALITY else PBA_STANDARD_QUALITY);
          features = (if encrypted then features OR PBA_ENCRYPTED else features)
      in cat [broadcast_announcement broadcast_id, public_announcement features [], broadcast_name name])"

definition broadcast_code :: "utext \<Rightarrow> bytes result" where
  "broadcast_code txt =
     bind_r (utf8 txt) (\<lambda>raw.
       if 16 < length raw then Inl (ValueError ''Broadcast_Code is at most 16 octets'')
       else Inr (raw @ zeros (16 - length raw)))"

section \<open>Parameter blocks\<close>

abbreviation (input) ADV_HANDLE :: nat where "ADV_HANDLE \<equiv> 0"
abbreviation (input) BIG_HANDLE :: nat where "BIG_HANDLE \<equiv> 0"
abbreviation (input) PERIODIC_DATA_MAX :: nat where "PERIODIC_DATA_MAX \<equiv> 252"

text \<open>\<open>data[i:i + n] for i in range(0, len(data), n)\<close>.\<close>

function chunks_of :: "nat \<Rightarrow> bytes \<Rightarrow> bytes list" where
  "chunks_of n data = (if data = [] \<or> n = 0 then [] else take n data # chunks_of n (drop n data))"
  by pat_completeness auto
termination
  by (relation "measure (\<lambda>(n, data). length data)") auto

declare chunks_of.simps [simp del]

fun data_commands :: "nat \<Rightarrow> nat \<Rightarrow> nat \<Rightarrow> bytes list \<Rightarrow> bytes list result" where
  "data_commands handle num i [] = Inr []"
| "data_commands handle num i (chunk # chunks) =
     (let op = (if i = 0 then 0x00 else if i = num - 1 then 0x02 else 0x01) in
      bind_r (cat [bytes_of [handle, op, length chunk], Inr chunk]) (\<lambda>c.
      bind_r (data_commands handle num (Suc i) chunks) (\<lambda>cs. Inr (c # cs))))"

definition periodic_data_commands :: "nat \<Rightarrow> bytes \<Rightarrow> bytes list result" where
  "periodic_data_commands handle data =
     (if length data \<le> PERIODIC_DATA_MAX
      then bind_r (cat [bytes_of [handle, 0x03, length data], Inr data]) (\<lambda>c. Inr [c])
      else let chunks = chunks_of PERIODIC_DATA_MAX data in data_commands handle (length chunks) 0 chunks)"

definition SDU_INTERVAL_US :: "nat \<rightharpoonup> nat" where
  "SDU_INTERVAL_US = map_of [(7500, 7500), (10000, 10000)]"

text \<open>An empty code counts as no code.\<close>

definition create_big_payload ::
  "nat \<Rightarrow> nat \<Rightarrow> nat \<Rightarrow> nat \<Rightarrow> nat \<Rightarrow> nat \<Rightarrow> bytes option \<Rightarrow> bytes result" where
  "create_big_payload num_bis frame_us sdu_octets rtn latency_ms phy code =
     (let has_code = (code \<noteq> None \<and> code \<noteq> Some []) in
      cat [bytes_of [BIG_HANDLE, ADV_HANDLE, num_bis],
           (case SDU_INTERVAL_US frame_us of None \<Rightarrow> Inl KeyError | Some us \<Rightarrow> u24 us),
           struct_pack [FH sdu_octets, FH latency_ms],
           bytes_of [rtn, phy, 0, 0, if has_code then 1 else 0],
           Inr (if has_code then the code else zeros 16)])"

section \<open>Reference decoders\<close>

text \<open>A list of AD structures, each a length, a type and the rest of the length.\<close>

function parse_ads :: "bytes \<Rightarrow> (byte \<times> bytes) list option" where
  "parse_ads [] = Some []"
| "parse_ads (n # bs) =
     (if n = 0 \<or> length bs < unat n then None
      else map_option ((#) (hd bs, take (unat n - 1) (tl bs))) (parse_ads (drop (unat n) bs)))"
  by pat_completeness auto
termination
  by (relation "measure length") auto

declare parse_ads.simps(2) [simp del]

definition take_octets :: "nat \<Rightarrow> bytes \<Rightarrow> (bytes \<times> bytes) option" where
  "take_octets n bs = (if length bs < n then None else Some (take n bs, drop n bs))"

fun take_counted :: "bytes \<Rightarrow> (bytes \<times> bytes) option" where
  "take_counted [] = None"
| "take_counted (n # bs) = take_octets (unat n) bs"

fun parse_bis :: "nat \<Rightarrow> bytes \<Rightarrow> ((nat \<times> bytes) list \<times> bytes) option" where
  "parse_bis 0 bs = Some ([], bs)"
| "parse_bis (Suc n) [] = None"
| "parse_bis (Suc n) (i # bs) =
     (case take_counted bs of None \<Rightarrow> None
      | Some (cfg, rest) \<Rightarrow> map_option (\<lambda>(es, r). ((unat i, cfg) # es, r)) (parse_bis n rest))"

definition parse_group :: "bytes \<Rightarrow> (subgroup \<times> bytes) option" where
  "parse_group bs =
     (case bs of [] \<Rightarrow> None | n # bs1 \<Rightarrow>
        if n = 0 then None else
        Option.bind (take_octets 5 bs1) (\<lambda>(codec, bs2).
        if codec \<noteq> [CODEC_FORMAT_LC3, 0, 0, 0, 0] then None else
        Option.bind (take_counted bs2) (\<lambda>(cfg, bs3).
        Option.bind (take_counted bs3) (\<lambda>(meta, bs4).
        map_option (\<lambda>(es, r). (\<lparr>sg_codec_config = cfg, sg_metadata = meta, sg_bis = es\<rparr>, r))
          (parse_bis (unat n) bs4)))))"

fun parse_groups :: "nat \<Rightarrow> bytes \<Rightarrow> (subgroup list \<times> bytes) option" where
  "parse_groups 0 bs = Some ([], bs)"
| "parse_groups (Suc n) bs =
     (case parse_group bs of None \<Rightarrow> None
      | Some (g, rest) \<Rightarrow> map_option (\<lambda>(gs, r). (g # gs, r)) (parse_groups n rest))"

definition parse_base :: "bytes \<Rightarrow> (nat \<times> subgroup list) option" where
  "parse_base bs =
     (if length bs < 4 then None
      else case parse_groups (unat (bs ! 3)) (drop 4 bs) of
             Some (gs, []) \<Rightarrow> Some (from_le (take 3 bs), gs)
           | _ \<Rightarrow> None)"

section \<open>Round trips\<close>

lemma cat_Cons_iff: "cat (r # rs) = Inr bs \<longleftrightarrow> (\<exists>a b. r = Inr a \<and> cat rs = Inr b \<and> bs = a @ b)"
  by (auto simp: cat.simps bind_r_iff)

lemma cat_Nil_iff: "cat [] = Inr bs \<longleftrightarrow> bs = []"
  by (auto simp: cat.simps)

lemma bytes_of_iff: "bytes_of ns = Inr bs \<longleftrightarrow> list_all (\<lambda>n. n < 256) ns \<and> bs = map of_nat ns"
proof (induction ns arbitrary: bs)
  case (Cons n ns)
  have "bytes_of (n # ns) = Inr bs \<longleftrightarrow> (\<exists>a b. octet n = Inr a \<and> bytes_of ns = Inr b \<and> bs = a @ b)"
    by (simp add: bytes_of_def cat_Cons_iff)
  then show ?case unfolding Cons by (auto simp: octet_def)
qed (simp add: bytes_of_def cat_Nil_iff)

lemma struct_pack_iff:
  "struct_pack [] = Inr bs \<longleftrightarrow> bs = []"
  "struct_pack (f # fs) = Inr bs \<longleftrightarrow> (\<exists>a b. pack_field f = Inr a \<and> struct_pack fs = Inr b \<and> bs = a @ b)"
  by (simp_all add: struct_pack_def cat_Cons_iff cat_Nil_iff)

lemma pack_le_iff: "pack_le n v = Inr bs \<longleftrightarrow> v < 256 ^ n \<and> bs = to_le n v"
  by (auto simp: pack_le_def)

lemma u24_iff: "u24 v = Inr bs \<longleftrightarrow> v < 4294967296 \<and> bs = take 3 (to_le 4 v)"
  by (auto simp: u24_def bind_r_iff struct_pack_iff pack_le_iff)

lemma take_to_le: "k \<le> n \<Longrightarrow> take k (to_le n v) = to_le k v"
proof (induction n arbitrary: k v)
  case (Suc n)
  then show ?case by (cases k) simp_all
qed simp

lemma from_le_u24: "v < 16777216 \<Longrightarrow> from_le (take 3 (to_le 4 v)) = v"
  by (simp add: take_to_le from_to_le)

lemma take_octets_append [simp]: "take_octets (length v) (v @ rest) = Some (v, rest)"
  by (simp add: take_octets_def)

lemma take_counted_append: "bytes_of [length v] = Inr l \<Longrightarrow> take_counted (l @ v @ rest) = Some (v, rest)"
  by (auto simp: bytes_of_iff)

lemma ltv_iff: "ltv t v = Inr bs \<longleftrightarrow> length v < 255 \<and> t < 256 \<and> bs = [of_nat (Suc (length v)), of_nat t] @ v"
  by (auto simp: ltv_def cat_Cons_iff cat_Nil_iff bytes_of_iff)

lemma parse_ads_ltv:
  assumes "ltv t v = Inr bs"
  shows "parse_ads (bs @ rest) = map_option ((#) (of_nat t, v)) (parse_ads rest)"
proof -
  have *: "length v < 255" "bs = [of_nat (Suc (length v)), of_nat t] @ v" using assms by (auto simp: ltv_iff)
  have n: "unat (of_nat (Suc (length v)) :: byte) = Suc (length v)" using *(1) by (simp del: of_nat_Suc)
  then have "(of_nat (Suc (length v)) :: byte) \<noteq> 0" by (metis nat.distinct(1) unsigned_0)
  with n show ?thesis unfolding *(2) append_Cons append_Nil parse_ads.simps(2) by (simp del: of_nat_Suc)
qed

lemma bis_entry_iff: "bis_entry (i, cfg) = Inr bs \<longleftrightarrow>
    i < 256 \<and> length cfg < 256 \<and> bs = of_nat i # of_nat (length cfg) # cfg"
  by (auto simp: bis_entry_def cat_Cons_iff cat_Nil_iff bytes_of_iff)

lemma parse_bis_entries:
  "cat (map bis_entry es) = Inr bs \<Longrightarrow> parse_bis (length es) (bs @ rest) = Some (es, rest)"
proof (induction es arbitrary: bs)
  case (Cons e es)
  obtain i cfg where e: "e = (i, cfg)" by fastforce
  from Cons.prems e obtain b where b: "cat (map bis_entry es) = Inr b" "i < 256" "length cfg < 256"
    "bs = of_nat i # of_nat (length cfg) # cfg @ b"
    by (auto simp: cat_Cons_iff bis_entry_iff)
  with Cons.IH [OF b(1)] e show ?case by simp
qed (simp add: cat_Nil_iff)

lemma parse_group_base:
  assumes "base_group g = Inr bs"
  shows "parse_group (bs @ rest) = Some (g, rest)"
proof -
  from assms obtain lc lm b where *: "sg_bis g \<noteq> []" "length (sg_bis g) < 256"
    "bytes_of [length (sg_codec_config g)] = Inr lc" "bytes_of [length (sg_metadata g)] = Inr lm"
    "cat (map bis_entry (sg_bis g)) = Inr b"
    "bs = of_nat (length (sg_bis g)) # [CODEC_FORMAT_LC3, 0, 0, 0, 0] @ lc @ sg_codec_config g @ lm @ sg_metadata g @ b"
    by (auto simp: base_group_def cat_Cons_iff cat_Nil_iff bytes_of_iff [of "[length (sg_bis g)]"] split: if_splits)
  have n: "unat (of_nat (length (sg_bis g)) :: byte) = length (sg_bis g)" using *(2) by simp
  then have "(of_nat (length (sg_bis g)) :: byte) \<noteq> 0" using *(1) by (metis length_0_conv unsigned_0)
  moreover have "take_octets 5 ([CODEC_FORMAT_LC3, 0, 0, 0, 0] @ xs) = Some ([CODEC_FORMAT_LC3, 0, 0, 0, 0], xs)" for xs
    by (simp add: take_octets_def)
  ultimately show ?thesis
    unfolding *(6) append_Cons append.assoc append_Nil parse_group_def
    by (simp add: take_counted_append [OF *(3)] take_counted_append [OF *(4)] n [simplified] parse_bis_entries [OF *(5)])
qed

lemma parse_groups_base:
  "cat (map base_group gs) = Inr bs \<Longrightarrow> parse_groups (length gs) (bs @ rest) = Some (gs, rest)"
proof (induction gs arbitrary: bs)
  case (Cons g gs)
  from Cons.prems obtain a b where "base_group g = Inr a" "cat (map base_group gs) = Inr b" "bs = a @ b"
    by (auto simp: cat_Cons_iff)
  with Cons.IH [of b] parse_group_base [of g a] show ?case by simp
qed (simp add: cat_Nil_iff)

lemma ltv_r_iff: "ltv_r t r = Inr bs \<longleftrightarrow> (\<exists>v. r = Inr v \<and> ltv t v = Inr bs)"
  by (simp add: ltv_r_def bind_r_iff)

lemma service_data_iff:
  "uuid < 65536 \<Longrightarrow> service_data uuid v = Inr bs \<longleftrightarrow> ltv AD_SERVICE_DATA_16 (to_le 2 uuid @ v) = Inr bs"
  by (simp add: service_data_def ltv_r_iff cat_Cons_iff cat_Nil_iff struct_pack_iff pack_le_iff)

lemma ltv_alone: "ltv t v = Inr bs \<Longrightarrow> parse_ads bs = Some [(of_nat t, v)]"
  using parse_ads_ltv [of t v bs "[]"] by simp

lemma base_decodes:
  assumes "base delay groups = Inr ad"
  shows "\<exists>body. parse_ads ad = Some [(0x16, to_le 2 0x1851 @ body)] \<and> parse_base body = Some (nat delay, groups) \<and>
    length ad \<le> 256"
proof -
  from assms obtain d n gs where *: "0 \<le> delay" "delay \<le> 0xFFFFFF" "length groups \<le> 31"
    "u24 (nat delay) = Inr d" "bytes_of [length groups] = Inr n" "cat (map base_group groups) = Inr gs"
    "service_data 0x1851 (d @ n @ gs) = Inr ad"
    by (auto simp: base_def bind_r_iff cat_Cons_iff cat_Nil_iff split: if_splits)
  have d: "length d = 3" "from_le d = nat delay"
    using *(2,4) from_le_u24 [of "nat delay"] by (auto simp: u24_iff)
  have n: "n = [of_nat (length groups)]" using *(5) by (auto simp: bytes_of_iff)
  from *(7) have l: "ltv AD_SERVICE_DATA_16 (to_le 2 0x1851 @ d @ n @ gs) = Inr ad" by (simp add: service_data_iff)
  have "parse_base (d @ n @ gs) = Some (nat delay, groups)"
    using d n *(3) parse_groups_base [OF *(6), of "[]"] by (simp add: parse_base_def nth_append)
  with ltv_alone [OF l] l show ?thesis by (auto simp: ltv_iff)
qed

lemma parse_ads_cat: "cat rs = Inr bs \<Longrightarrow> list_all2 (\<lambda>r (t, v). r = ltv t v) rs tvs \<Longrightarrow>
    parse_ads bs = Some (map (\<lambda>(t, v). (of_nat t, v)) tvs)"
proof (induction rs arbitrary: bs tvs)
  case (Cons r rs)
  then obtain t v tvs' where tv: "tvs = (t, v) # tvs'" "r = ltv t v" "list_all2 (\<lambda>r (t, v). r = ltv t v) rs tvs'"
    by (auto simp: list_all2_Cons1)
  with Cons.prems(1) obtain a b where "ltv t v = Inr a" "cat rs = Inr b" "bs = a @ b" by (auto simp: cat_Cons_iff)
  with Cons.IH [OF _ tv(3), of b] parse_ads_ltv [of t v a b] tv(1) show ?case by simp
qed (simp add: cat_Nil_iff)

text \<open>The BASE a stereo broadcast announces decodes, with the reference decoders, to what was asked
  for: one AD structure holding the presentation delay and one subgroup with the LC3 sampling
  frequency, frame duration and frame size of the configuration and two streams, the first for the
  left and the second for the right channel.\<close>

lemma stereo_base_decodes:
  assumes "stereo_base delay rate frame_us octets contexts info lang = Inr ad"
  shows "\<exists>body cfg meta freq dur. parse_ads ad = Some [(0x16, to_le 2 0x1851 @ body)] \<and> length ad \<le> 256 \<and>
    parse_base body = Some (nat delay, [\<lparr>sg_codec_config = cfg, sg_metadata = meta,
      sg_bis = [(1, [5, 3, 1, 0, 0, 0]), (2, [5, 3, 2, 0, 0, 0])]\<rparr>]) \<and>
    SAMPLING_FREQUENCY_CODE rate = Some freq \<and> FRAME_DURATION_CODE frame_us = Some dur \<and>
    parse_ads cfg = Some [(1, [of_nat freq]), (2, [of_nat dur]), (4, to_le 2 octets)] \<and>
    metadata contexts info lang = Inr meta"
proof -
  from assms obtain cfg meta l r where *: "codec_config rate frame_us octets None = Inr cfg"
    "metadata contexts info lang = Inr meta" "channel_allocation 1 = Inr l" "channel_allocation 2 = Inr r"
    "base delay [\<lparr>sg_codec_config = cfg, sg_metadata = meta, sg_bis = [(1, l), (2, r)]\<rparr>] = Inr ad"
    by (auto simp: stereo_base_def bind_r_iff)
  have le4: "to_le 4 v = [of_nat v, of_nat (v div 256), of_nat (v div 256 div 256), of_nat (v div 256 div 256 div 256)]" for v
    using to_le.simps(2) [of 3 v] to_le.simps(2) [of 2 "v div 256"] to_le_2 [of "v div 256 div 256"] by simp
  have lr: "l = [5, 3, 1, 0, 0, 0]" "r = [5, 3, 2, 0, 0, 0]"
    using *(3,4) by (auto simp: channel_allocation_def ltv_r_iff struct_pack_iff pack_le_iff ltv_iff le4)
  obtain freq dur where f: "SAMPLING_FREQUENCY_CODE rate = Some freq" "FRAME_DURATION_CODE frame_us = Some dur"
    and c: "cat [ltv_r 1 (bytes_of [freq]), ltv_r 2 (bytes_of [dur]), ltv_r 4 (struct_pack [FH octets])] = Inr cfg"
    using *(1) by (auto simp: codec_config_def split: option.splits)
  from c have c': "ltv_r 1 (bytes_of [freq]) = ltv 1 [of_nat freq] \<and> ltv_r 2 (bytes_of [dur]) = ltv 2 [of_nat dur] \<and>
      ltv_r 4 (struct_pack [FH octets]) = ltv 4 (to_le 2 octets)"
    by (auto simp: cat_Cons_iff ltv_r_iff bytes_of_iff struct_pack_iff pack_le_iff)
  have "parse_ads cfg = Some [(1, [of_nat freq]), (2, [of_nat dur]), (4, to_le 2 octets)]"
    using parse_ads_cat [OF c, of "[(1, [of_nat freq]), (2, [of_nat dur]), (4, to_le 2 octets)]"] c' by simp
  with base_decodes [OF *(5)] f *(2) show ?thesis unfolding lr by blast
qed

lemma cat_Cons_Inl: "cat (r # rs) = Inl e \<longleftrightarrow> r = Inl e \<or> (\<exists>a. r = Inr a \<and> cat rs = Inl e)"
  by (auto simp: cat.simps bind_r_iff)

lemma cat_Nil_Inl: "cat [] \<noteq> Inl e"
  by (simp add: cat.simps)

lemma utf8_error: "utf8 cs = Inl e \<Longrightarrow> e = ValueError ''surrogates not allowed''"
  unfolding utf8_def
proof (induction cs)
  case (Cons c cs)
  then show ?case by (auto simp: cat_Cons_Inl utf8_char_def split: if_splits)
qed (simp add: cat_Nil_Inl)

lemma service_data_ok: "uuid < 65536 \<Longrightarrow> length v < 253 \<Longrightarrow> service_data uuid v =
    Inr ([of_nat (Suc (2 + length v)), 0x16] @ to_le 2 uuid @ v)"
  by (simp add: service_data_iff ltv_iff)

lemma broadcast_announcement_cases:
  "broadcast_announcement bid =
     (if 0 \<le> bid \<and> bid \<le> 0xFFFFFF then ltv 0x16 (to_le 2 0x1852 @ to_le 3 (nat bid))
      else Inl (ValueError ''Broadcast_ID is 24 bits''))"
proof (cases "0 \<le> bid \<and> bid \<le> 0xFFFFFF")
  case True
  then have "nat bid < 4294967296" by linarith
  then have "u24 (nat bid) = Inr (to_le 3 (nat bid))" by (simp add: u24_iff take_to_le)
  moreover have "service_data 0x1852 v = ltv 0x16 (to_le 2 0x1852 @ v)" if "length v < 253" for v
    using service_data_ok [OF _ that, of "0x1852"] that by (simp add: ltv_def bytes_of_iff cat.simps bytes_of_def octet_def)
  ultimately show ?thesis using True by (simp add: broadcast_announcement_def)
qed (auto simp: broadcast_announcement_def)

lemma public_announcement_plain:
  assumes "features < 256"
  shows "public_announcement features [] = ltv 0x16 (to_le 2 0x1856 @ [of_nat features, 0])"
proof -
  have "cat [bytes_of [features, length ([] :: bytes)], Inr []] = Inr [of_nat features, 0]"
    using assms by (simp add: cat_Cons_iff cat_Nil_iff bytes_of_iff)
  moreover have "service_data 0x1856 [of_nat features, 0] = ltv 0x16 (to_le 2 0x1856 @ [of_nat features, 0])"
    by (simp add: service_data_ok ltv_def bytes_of_def octet_def cat.simps)
  ultimately show ?thesis by (simp add: public_announcement_def)
qed

text \<open>The extended advertising data of a source is three AD structures that decode to the 24-bit
  broadcast identifier, the public announcement with exactly the quality and encryption bits asked
  for, and the name, and it fits one advertising data command. It is refused, with \<open>ValueError\<close>, only
  for an identifier out of range or a name that is not 4 to 32 octets of UTF-8.\<close>

lemma extended_adv_data_decodes:
  "case extended_adv_data bid name encrypted high_quality of
     Inl e \<Rightarrow> (\<exists>m. e = ValueError m) \<and> (bid < 0 \<or> 0xFFFFFF < bid \<or>
       (case utf8 name of Inl _ \<Rightarrow> True | Inr raw \<Rightarrow> length raw < 4 \<or> 32 < length raw))
   | Inr ad \<Rightarrow> \<exists>id3 raw. 0 \<le> bid \<and> from_le id3 = nat bid \<and> utf8 name = Inr raw \<and> length ad \<le> 251 \<and>
       parse_ads ad = Some [(0x16, to_le 2 0x1852 @ id3),
         (0x16, to_le 2 0x1856 @ [(if high_quality then 4 else 2) + (if encrypted then 1 else 0), 0]), (0x30, raw)]"
proof -
  define features :: nat where "features = (if high_quality then 4 else 2) + (if encrypted then 1 else 0)"
  have or: "(4 :: nat) OR 1 = 5" "(2 :: nat) OR 1 = 3" by simp_all
  have ad: "extended_adv_data bid name encrypted high_quality =
      cat [broadcast_announcement bid, public_announcement features [], broadcast_name name]"
    by (simp add: extended_adv_data_def features_def Let_def or)
  have f: "features < 256" "of_nat features = (if high_quality then 4 else 2) + (if encrypted then 1 else (0 :: byte))"
    by (simp_all add: features_def)
  show ?thesis
  proof (cases "extended_adv_data bid name encrypted high_quality")
    case (Inl e)
    then show ?thesis
      by (auto simp: ad cat_Cons_Inl cat_Nil_Inl broadcast_announcement_cases public_announcement_plain f(1)
          broadcast_name_def bind_r_iff ltv_def bytes_of_def octet_def cat.simps split: if_splits sum.splits dest: utf8_error)
  next
    case (Inr bs)
    let ?ltvs = "\<lambda>raw. [ltv 0x16 (to_le 2 0x1852 @ to_le 3 (nat bid)), ltv 0x16 (to_le 2 0x1856 @ [of_nat features, 0]),
        ltv 0x30 raw]"
    from Inr obtain raw where r: "0 \<le> bid" "bid \<le> 0xFFFFFF" "utf8 name = Inr raw" "length raw \<le> 32"
      and c: "cat (?ltvs raw) = Inr bs"
      unfolding ad broadcast_announcement_cases public_announcement_plain [OF f(1)] broadcast_name_def
      by (auto simp: cat_Cons_iff bind_r_iff split: if_splits)
    have "parse_ads bs = Some [(0x16, to_le 2 0x1852 @ to_le 3 (nat bid)),
        (0x16, to_le 2 0x1856 @ [of_nat features, 0]), (0x30, raw)]"
      using parse_ads_cat [OF c, of "[(0x16, to_le 2 0x1852 @ to_le 3 (nat bid)),
        (0x16, to_le 2 0x1856 @ [of_nat features, 0]), (0x30, raw)]"] by simp
    moreover have "length bs \<le> 251" using c r(4) by (auto simp: cat_Cons_iff cat_Nil_iff ltv_iff)
    moreover have "from_le (to_le 3 (nat bid)) = nat bid" using r(1,2) by (simp add: from_to_le)
    ultimately show ?thesis unfolding Inr sum.case f(2) using r by blast
  qed
qed

lemma chunks_of_ok:
  "0 < n \<Longrightarrow> concat (chunks_of n data) = data \<and> list_all (\<lambda>c. length c \<le> n) (chunks_of n data)"
proof (induction n data rule: chunks_of.induct)
  case (1 n data)
  then show ?case by (subst (1 2) chunks_of.simps) simp
qed

lemma chunks_of_many:
  assumes "0 < n" "n < length data"
  shows "2 \<le> length (chunks_of n data)"
proof (rule ccontr)
  assume "\<not> ?thesis"
  then consider "chunks_of n data = []" | c where "chunks_of n data = [c]"
    by (metis Suc_1 Suc_leI length_greater_0_conv length_Suc_conv less_one linorder_not_less list.exhaust not_less_eq)
  then show False using chunks_of_ok [OF assms(1), of data] assms(2) by cases auto
qed

definition fragment_command :: "nat \<Rightarrow> nat \<Rightarrow> bytes \<Rightarrow> bytes" where
  "fragment_command handle op chunk = [of_nat handle, of_nat op, of_nat (length chunk)] @ chunk"

lemma data_command_ok:
  "handle < 256 \<Longrightarrow> op < 256 \<Longrightarrow> length chunk < 256 \<Longrightarrow>
     cat [bytes_of [handle, op, length chunk], Inr chunk] = Inr (fragment_command handle op chunk)"
  by (simp add: cat_Cons_iff cat_Nil_iff bytes_of_iff fragment_command_def)

text \<open>The operation of the fragment with index \<open>i\<close> of \<open>num\<close>.\<close>

definition fragment_op :: "nat \<Rightarrow> nat \<Rightarrow> nat" where
  "fragment_op num i = (if i = 0 then 0 else if i = num - 1 then 2 else 1)"

lemma data_commands_ok:
  "handle < 256 \<Longrightarrow> list_all (\<lambda>c. length c \<le> 252) chunks \<Longrightarrow> data_commands handle num i chunks =
     Inr (map2 (\<lambda>j c. fragment_command handle (fragment_op num j) c) [i ..< i + length chunks] chunks)"
proof (induction chunks arbitrary: i)
  case (Cons c cs)
  have "fragment_op num i < 256" by (simp add: fragment_op_def)
  with Cons.prems have "cat [bytes_of [handle, fragment_op num i, length c], Inr c] =
      Inr (fragment_command handle (fragment_op num i) c)" by (intro data_command_ok) simp_all
  moreover have "[i ..< i + length (c # cs)] = i # [Suc i ..< Suc i + length cs]" by (simp add: upt_conv_Cons del: upt_Suc)
  ultimately show ?case using Cons.IH [of "Suc i"] Cons.prems by (simp add: fragment_op_def Let_def del: upt_Suc)
qed simp

lemma fragment_ops:
  assumes "2 \<le> num"
  shows "map (\<lambda>j. of_nat (fragment_op num j)) [0 ..< num] = ([0] @ replicate (num - 2) 1 @ [2] :: bytes)"
proof (rule nth_equalityI)
  fix i assume "i < length (map (\<lambda>j. of_nat (fragment_op num j) :: byte) [0 ..< num])"
  with assms show "map (\<lambda>j. of_nat (fragment_op num j)) [0 ..< num] ! i = ([0] @ replicate (num - 2) 1 @ [2]) ! i"
    by (cases i) (auto simp: fragment_op_def nth_append)
qed (use assms in simp)

text \<open>C26. Periodic advertising data of any length is cut into commands that each fit the HCI length
  octet and carry their own length, whose data put together is the data. One command is marked
  complete; several are marked 0 for the first, 1 for the ones in between and 2 for the last.\<close>

theorem periodic_data_reassembles:
  assumes "handle < 256"
  shows "\<exists>cmds. periodic_data_commands handle data = Inr cmds \<and> concat (map (drop 3) cmds) = data \<and>
    list_all (\<lambda>c. length c \<le> 255 \<and> c ! 0 = of_nat handle \<and> unat (c ! 2) + 3 = length c) cmds \<and>
    map (\<lambda>c. c ! 1) cmds = (if length data \<le> 252 then [3] else [0] @ replicate (length cmds - 2) 1 @ [2])"
proof (cases "length data \<le> 252")
  case True
  with assms have "periodic_data_commands handle data = Inr [fragment_command handle 3 data]"
    by (simp add: periodic_data_commands_def data_command_ok)
  with True show ?thesis by (simp add: fragment_command_def)
next
  case False
  let ?cs = "chunks_of 252 data"
  let ?cmds = "map2 (\<lambda>j c. fragment_command handle (fragment_op (length ?cs) j) c) [0 ..< length ?cs] ?cs"
  have cs: "concat ?cs = data" "list_all (\<lambda>c. length c \<le> 252) ?cs" "2 \<le> length ?cs"
    using chunks_of_ok [of 252 data] chunks_of_many [of 252 data] False by simp_all
  have "periodic_data_commands handle data = Inr ?cmds"
    using False data_commands_ok [OF assms cs(2), of "length ?cs" 0] by (simp add: periodic_data_commands_def Let_def)
  moreover have "map (drop 3) ?cmds = ?cs"
    by (rule nth_equalityI) (simp_all add: fragment_command_def)
  moreover have "list_all (\<lambda>c. length c \<le> 255 \<and> c ! 0 = of_nat handle \<and> unat (c ! 2) + 3 = length c) ?cmds"
    using cs(2) unfolding list_all_length by (fastforce simp: fragment_command_def)
  moreover have "map (\<lambda>c. c ! 1) ?cmds = map (\<lambda>j. of_nat (fragment_op (length ?cs) j)) [0 ..< length ?cs]"
    by (rule nth_equalityI) (simp_all add: fragment_command_def)
  ultimately show ?thesis using cs(1,3) False fragment_ops [OF cs(3)] by (intro exI [of _ ?cmds]) simp
qed

theorem periodic_data_reassembles_witness:
  "\<exists>cmds. periodic_data_commands 0 (replicate 300 7) = Inr cmds \<and> concat (map (drop 3) cmds) = replicate 300 7 \<and>
     map (\<lambda>c. c ! 1) cmds = [0] @ replicate (length cmds - 2) 1 @ [2]"
  using periodic_data_reassembles [of 0 "replicate 300 7"] by auto

end
