(* ===== verification/Auracast_Source.thy ===== *)
theory Auracast_Source
  imports Auracast_Data Periodic
begin

text \<open>
  The second half of \<open>python/hcicontroller/auracast.py\<close>: class \<open>AuracastSource\<close>, which configures a
  controller as a broadcast source, streams one frame per BIS and interval, and takes it down again.
  The state is the source object and the engine. What the callable \<open>frames\<close> returns is a list of frame
  sets, ended by \<open>None\<close>; the frame interval is exact in microseconds.
\<close>

section \<open>State\<close>

record source =
  src_rate :: nat
  src_frame_us :: nat
  src_octets :: nat
  src_broadcast_id :: int
  src_name :: utext
  src_delay_us :: int
  src_rtn :: nat
  src_latency_ms :: nat
  src_phy :: nat
  src_code :: "bytes option"
  src_program_info :: "utext option"
  src_language :: "utext option"
  src_bis_handles :: "nat list"
  src_started :: bool

definition source_init ::
  "int \<Rightarrow> utext \<Rightarrow> string \<Rightarrow> int \<Rightarrow> nat \<Rightarrow> nat \<Rightarrow> nat \<Rightarrow> utext option \<Rightarrow> utext option \<Rightarrow> utext option \<Rightarrow> source result"
  where
  "source_init broadcast_id name preset presentation_delay_us rtn latency_ms phy password program_info language =
     (case PRESETS preset of
        None \<Rightarrow> Inl (ValueError ''unknown preset %r'')
      | Some (rate, frame_us, octets) \<Rightarrow>
          bind_r (case password of None \<Rightarrow> Inr None | Some pw \<Rightarrow>
                    if pw = [] then Inr None else bind_r (broadcast_code pw) (\<lambda>c. Inr (Some c))) (\<lambda>code.
          Inr \<lparr>src_rate = rate, src_frame_us = frame_us, src_octets = octets, src_broadcast_id = broadcast_id,
               src_name = name, src_delay_us = presentation_delay_us, src_rtn = rtn, src_latency_ms = latency_ms,
               src_phy = phy, src_code = code, src_program_info = program_info, src_language = language,
               src_bis_handles = [], src_started = False\<rparr>))"

section \<open>Starting\<close>

fun set_periodic_data :: "bytes list \<Rightarrow> (hci, unit) action" where
  "set_periodic_data [] = ret ()"
| "set_periodic_data (payload # payloads) =
     bind_s (command_ok 0x203F (Inr payload) ''LE Set Periodic Advertising Data'') (\<lambda>_. set_periodic_data payloads)"

fun setup_paths :: "nat list \<Rightarrow> (hci, unit) action" where
  "setup_paths [] = ret ()"
| "setup_paths (handle # handles) = bind_s (setup_iso_path handle ISO_DIRECTION_INPUT) (\<lambda>_. setup_paths handles)"

text \<open>The handles of a BIG Complete event, from index \<open>i\<close>.\<close>

fun big_handles :: "nat \<Rightarrow> nat \<Rightarrow> bytes \<Rightarrow> nat list result" where
  "big_handles 0 i body = Inr []"
| "big_handles (Suc n) i body =
     bind_r (unpack_le 2 (pslice (19 + 2 * i) (21 + 2 * i) body)) (\<lambda>v.
     bind_r (big_handles n (Suc i) body) (\<lambda>vs. Inr ((v AND 0x0FFF) # vs)))"

definition create_big :: "source \<Rightarrow> (hci, bytes) action" where
  "create_big src =
     bind_s (request 0x2068 (create_big_payload 2 (src_frame_us src) (src_octets src) (src_rtn src)
               (src_latency_ms src) (src_phy src) (src_code src))) (\<lambda>(status, _).
     if status \<noteq> 0 then throw (HciError ''LE Create BIG returned 0x%02X'' [unat status])
     else
       bind_s (required ''no LE Create BIG Complete event'' []
         (wait_le_subevent 0x1B None None (\<lambda>e. 21 \<le> length e \<and> e ! 2 = of_nat BIG_HANDLE) 10000000)) (\<lambda>body.
       if body ! 1 \<noteq> 0 then throw (HciError ''LE Create BIG Complete status 0x%02X'' [unat (body ! 1)])
       else ret body))"

definition announce :: "source \<Rightarrow> (hci, unit) action" where
  "announce src =
     bind_s (prepare_controller DEFAULT_LE_EVENT_MASK) (\<lambda>(_, addr_type, _).
     bind_s (lift_r (extended_adv_data (src_broadcast_id src) (src_name src) (src_code src \<noteq> None) False)) (\<lambda>adv_data.
     bind_s (configure_ext_set (of_nat ADV_HANDLE) addr_type 0x0000 ADV_SID_PERIODIC adv_data) (\<lambda>_.
     bind_s (command_ok 0x203E (struct_pack [FB ADV_HANDLE, FH 0x0050, FH 0x0050, FH 0])
               ''LE Set Periodic Advertising Parameters'') (\<lambda>_.
     bind_s (lift_r (stereo_base (src_delay_us src) (src_rate src) (src_frame_us src) (src_octets src)
               (Some CONTEXT_MEDIA) (src_program_info src) (src_language src))) (\<lambda>base_ad.
     bind_s (lift_r (periodic_data_commands ADV_HANDLE base_ad)) (\<lambda>payloads.
     bind_s (set_periodic_data payloads) (\<lambda>_.
     bind_s (ext_adv_enable (of_nat ADV_HANDLE) True) (\<lambda>_.
     bind_s (command_ok 0x2040 (Inr [1, of_nat ADV_HANDLE]) ''LE Set Periodic Advertising Enable'') (\<lambda>_.
     ret ())))))))))"

definition source_start :: "(source \<times> hci, unit) action" where
  "source_start = with_s (\<lambda>(src, _).
     bind_s (on_snd (announce src)) (\<lambda>_.
     bind_s (on_snd (create_big src)) (\<lambda>body.
     bind_s (lift_r (big_handles (unat (body ! 18)) 0 body)) (\<lambda>handles.
     bind_s (modify_s (apfst (\<lambda>s. s\<lparr>src_bis_handles := handles\<rparr>))) (\<lambda>_.
     bind_s (on_snd (setup_paths handles)) (\<lambda>_.
     modify_s (apfst (\<lambda>s. s\<lparr>src_started := True\<rparr>))))))))"

section \<open>Streaming\<close>

fun send_frames :: "nat \<Rightarrow> (nat \<times> bytes) list \<Rightarrow> (hci, unit) action" where
  "send_frames sq [] = ret ()"
| "send_frames sq ((handle, sdu) # fs) = bind_s (send_iso handle sq sdu) (\<lambda>_. send_frames sq fs)"

text \<open>Reading until it is time for the next frame set; the packets are not used.\<close>

function drain_until :: "nat \<Rightarrow> (hci, unit) action" where
  "drain_until deadline h =
     (if clock h < deadline then
        (case hci_read_packet (min (deadline - clock h) 2000) h of
           (Inl e, h') \<Rightarrow> (Inl e, h')
         | (Inr _, h') \<Rightarrow> drain_until deadline h')
      else (Inr (), h))"
  by pat_completeness auto
termination
  by (relation "measure (\<lambda>(deadline, h). budget deadline h)") (auto intro!: hci_read_packet_budget [OF sym])

declare drain_until.simps [simp del]

fun stream_loop :: "source \<Rightarrow> nat option \<Rightarrow> nat \<Rightarrow> nat \<Rightarrow> bytes list list \<Rightarrow> (hci, unit) action" where
  "stream_loop src stop sq deadline [] = ret ()"
| "stream_loop src stop sq deadline (frame_set # frames) = with_s (\<lambda>h.
     if (case stop of None \<Rightarrow> True | Some t \<Rightarrow> clock h < t) then
       bind_s (send_frames sq (zip (src_bis_handles src) frame_set)) (\<lambda>_.
       bind_s (drain_until (deadline + src_frame_us src)) (\<lambda>_.
       stream_loop src stop ((sq + 1) AND 0xFFFF) (deadline + src_frame_us src) frames))
     else ret ())"

definition source_stream :: "bytes list list \<Rightarrow> nat option \<Rightarrow> (source \<times> hci, unit) action" where
  "source_stream frames seconds = with_s (\<lambda>(src, h).
     on_snd (stream_loop src (map_option (\<lambda>t. clock h + t * 1000000) seconds) 0 (clock h) frames))"

section \<open>Stopping\<close>

definition remove_iso_path :: "nat \<Rightarrow> nat \<Rightarrow> (hci, unit) action" where
  "remove_iso_path handle direction_mask = quietly (request 0x206F (struct_pack [FH handle, FB direction_mask]))"

fun remove_paths :: "nat list \<Rightarrow> (hci, unit) action" where
  "remove_paths [] = ret ()"
| "remove_paths (handle # handles) = bind_s (remove_iso_path handle 0x01) (\<lambda>_. remove_paths handles)"

text \<open>\<open>except Exception: pass\<close>.\<close>

definition whatever :: "('s, 'a) action \<Rightarrow> ('s, unit) action" where
  "whatever m = catch_s (bind_s m (\<lambda>_. ret ())) (\<lambda>_. ret ())"

definition source_stop :: "(source \<times> hci, unit) action" where
  "source_stop = with_s (\<lambda>(src, _).
     bind_s (on_snd (remove_paths (src_bis_handles src))) (\<lambda>_.
     bind_s (if src_started src then on_snd (whatever (request 0x206A (Inr [of_nat BIG_HANDLE, 0x16]))) else ret ()) (\<lambda>_.
     bind_s (on_snd stop_periodic) (\<lambda>_.
     modify_s (apfst (\<lambda>s. s\<lparr>src_bis_handles := [], src_started := False\<rparr>))))))"

section \<open>Frames go out in sequence\<close>

definition sdu_packet :: "nat \<Rightarrow> nat \<times> bytes \<Rightarrow> bytes" where
  "sdu_packet sq f = [H4_ISO] @ to_le 2 (fst f mod 4096 + 8192) @ to_le 2 (4 + length (snd f)) @
     to_le 2 sq @ to_le 2 (length (snd f)) @ snd f"

lemma send_frames_sent:
  assumes "tx_faults h = []" "sq < 65536" "list_all (\<lambda>f. length (snd f) \<le> 4095) fs"
  shows "send_frames sq fs h = (Inr (), h\<lparr>sent := sent h @ map (sdu_packet sq) fs\<rparr>)"
  using assms
proof (induction fs arbitrary: h)
  case (Cons f fs)
  obtain handle sdu where f: "f = (handle, sdu)" by fastforce
  have "send_iso handle sq sdu h = (Inr (), h\<lparr>sent := sent h @ [sdu_packet sq f]\<rparr>)"
    using Cons.prems f iso_packet_eq [of sdu handle sq]
    by (simp add: send_iso_def hci_write_packet_def sdu_packet_def)
  with Cons f show ?case by (simp add: bind_s_def)
qed simp

lemma drain_until_keeps:
  "drain_until deadline h = (Inr (), h') \<Longrightarrow> sent h' = sent h \<and> tx_faults h' = tx_faults h \<and> deadline \<le> clock h'"
proof (induction deadline h rule: drain_until.induct)
  case (1 deadline h)
  show ?case
  proof (cases "clock h < deadline")
    case False
    with 1(2) show ?thesis by (simp add: drain_until.simps [of deadline h])
  next
    case True
    obtain out h1 where rd: "hci_read_packet (min (deadline - clock h) 2000) h = (out, h1)" by fastforce
    with True 1(2) obtain po where po: "out = Inr po" by (cases out) (simp_all add: drain_until.simps [of deadline h])
    from 1(1) [OF True rd [symmetric] po] 1(2) True rd po show ?thesis
      using read_packet_sent [of _ h po h1] hci_read_packet_tx_faults [OF rd]
      by (simp add: drain_until.simps [of deadline h])
  qed
qed

lemma stream_loop_sent:
  assumes "stream_loop src None sq deadline frames h = (Inr (), h')" "tx_faults h = []" "sq < 65536"
    "list_all (list_all (\<lambda>sdu. length sdu \<le> 4095)) frames"
  shows "sent h' = sent h @ concat (map (\<lambda>(i, fs). map (sdu_packet (i mod 65536)) (zip (src_bis_handles src) fs))
    (enumerate sq frames))"
  using assms
proof (induction frames arbitrary: sq deadline h)
  case (Cons fs frames)
  let ?zs = "zip (src_bis_handles src) fs"
  have "list_all (\<lambda>f. length (snd f) \<le> 4095) ?zs"
    using Cons.prems(4) unfolding list.pred_set by (auto dest: set_zip_rightD)
  note snt = send_frames_sent [OF Cons.prems(2,3) this]
  let ?h = "h\<lparr>sent := sent h @ map (sdu_packet sq) ?zs\<rparr>"
  from Cons.prems(1) snt obtain h1 where h1: "drain_until (deadline + src_frame_us src) ?h = (Inr (), h1)"
    "stream_loop src None ((sq + 1) mod 65536) (deadline + src_frame_us src) frames h1 = (Inr (), h')"
    by (auto simp: bind_s_Inr_iff)
  have "tx_faults h1 = []" "sent h1 = sent h @ map (sdu_packet sq) ?zs"
    using drain_until_keeps [OF h1(1)] Cons.prems(2) by simp_all
  moreover have "map (\<lambda>(i, fs). map (sdu_packet (i mod 65536)) (zip (src_bis_handles src) fs)) (enumerate (Suc sq) frames) =
      map (\<lambda>(i, fs). map (sdu_packet (i mod 65536)) (zip (src_bis_handles src) fs)) (enumerate ((sq + 1) mod 65536) frames)"
    by (rule nth_equalityI) (simp_all add: nth_enumerate_eq mod_simps)
  ultimately show ?case using Cons.IH [OF h1(2)] Cons.prems(3,4) by simp
qed simp

text \<open>C29. Streaming: a stream that ends because the audio is over has written, in order and nothing else,
  for each frame set one ISO packet per BIS, the frame of that stream on that stream's handle, with
  the index of the frame set modulo 2 to the 16 as sequence number.\<close>

theorem stream_in_sequence:
  assumes "source_stream frames None (src, h) = (Inr (), s')" "tx_faults h = []"
    "list_all (list_all (\<lambda>sdu. length sdu \<le> 4095)) frames"
  shows "sent (snd s') = sent h @ concat (map (\<lambda>(i, fs). map (sdu_packet (i mod 65536)) (zip (src_bis_handles src) fs))
    (enumerate 0 frames))"
proof -
  from assms(1) have "stream_loop src None 0 (clock h) frames h = (Inr (), snd s')"
    by (auto simp: source_stream_def prod_eq_iff)
  from stream_loop_sent [OF this assms(2) _ assms(3)] show ?thesis by simp
qed

theorem stream_in_sequence_witness:
  "\<exists>src s'. source_init 1 [65, 66, 67, 68] ''48_2_2'' 40000 4 65 2 None None None = Inr src \<and>
     source_stream [[[1], [2]], [[3], [4]]] None (src\<lparr>src_bis_handles := [5, 6]\<rparr>, hci_init [] [] 0) = (Inr (), s') \<and>
     sent (snd s') = [sdu_packet 0 (5, [1]), sdu_packet 0 (6, [2]), sdu_packet 1 (5, [3]), sdu_packet 1 (6, [4])]"
proof -
  obtain src where src: "source_init 1 [65, 66, 67, 68] ''48_2_2'' 40000 4 65 2 None None None = Inr src"
    by (simp add: source_init_def PRESETS_def)
  then have us: "src_frame_us src = 10000" by (auto simp: source_init_def PRESETS_def)
  let ?s = "(src\<lparr>src_bis_handles := [5, 6]\<rparr>, hci_init [] [] 0)"
  have "fst (source_stream [[[1], [2]], [[3], [4]]] None ?s) = Inr ()"
    using us by (simp add: source_stream_def bind_s_def send_frames_sent [simplified] hci_init_def drain_until.simps
        hci_read_packet_def read_wire_def send_iso_def iso_packet_eq [simplified] hci_write_packet_def)
  then obtain s' where r: "source_stream [[[1], [2]], [[3], [4]]] None ?s = (Inr (), s')" by (metis prod.collapse)
  have "sent (snd s') = [sdu_packet 0 (5, [1]), sdu_packet 0 (6, [2]), sdu_packet 1 (5, [3]), sdu_packet 1 (6, [4])]"
    using stream_in_sequence [OF r] by (simp add: hci_init_def)
  with src r show ?thesis by blast
qed

end
