(* ===== verification/Bis_Phase.thy ===== *)
theory Bis_Phase
  imports Periodic_Phases Auracast_Source
begin

text \<open>
  The broadcast isochronous phase, \<open>python/hcicontroller/bis_features.py\<close>: a source creates a BIG on a
  periodic train, a sink synchronizes to it, one SDU goes over the air, everything is taken down and
  the sink synchronizes once more. The sink is the central side of the bench, the source the
  peripheral side. Opening and closing the two ports is not modelled.
\<close>

section \<open>Procedures\<close>

abbreviation (input) SOURCE_BIG_HANDLE :: byte where "SOURCE_BIG_HANDLE \<equiv> 0"
abbreviation (input) SINK_BIG_HANDLE :: byte where "SINK_BIG_HANDLE \<equiv> 1"
abbreviation (input) BIS_INDEX :: byte where "BIS_INDEX \<equiv> 1"
abbreviation (input) BIG_TERMINATE_REASON :: byte where "BIG_TERMINATE_REASON \<equiv> 0x16"

definition BIS_MARKER :: bytes where "BIS_MARKER = text_bytes ''BIS source->sink''"

definition wait_biginfo :: "nat \<Rightarrow> nat \<Rightarrow> (hci, unit) action" where
  "wait_biginfo sync_handle timeout =
     bind_s (required ''no LE BIGInfo Advertising Report for periodic sync'' []
       (wait_le_subevent 0x22 (Some sync_handle) (Some 1) (\<lambda>event. 4 \<le> length event \<and> 1 \<le> event ! 3) timeout))
       (\<lambda>_. ret ())"

definition bis_create_big :: "(hci, nat) action" where
  "bis_create_big =
     bind_s (lift_r (cat [Inr [SOURCE_BIG_HANDLE, ADV_HANDLE_PERIODIC, 1], Inr [0x10, 0x27, 0x00],
       struct_pack [FH 40, FH 20], Inr [2, 1, 0, 0, 0], Inr (zeros 16)])) (\<lambda>payload.
     if length payload \<noteq> 31 then throw (AssertionError ''LE Create BIG payload length'' [])
     else
       bind_s (command_ok 0x2068 (Inr payload) ''LE Create BIG'') (\<lambda>_.
       bind_s (required ''no successful LE Create BIG Complete event'' []
         (wait_le_subevent 0x1B None None
            (\<lambda>event. 21 \<le> length event \<and> event ! 1 = 0 \<and> event ! 2 = SOURCE_BIG_HANDLE \<and> event ! 18 = 1) 10000000)) (\<lambda>body.
       ret (from_le (pslice 19 21 body) AND 0x0FFF))))"

definition create_big_sync :: "nat \<Rightarrow> (hci, nat) action" where
  "create_big_sync periodic_sync =
     bind_s (command_ok 0x206B (cat [Inr [SINK_BIG_HANDLE], struct_pack [FH periodic_sync], Inr ([0] @ zeros 16), Inr [0],
       struct_pack [FH 0x0200], Inr [1, BIS_INDEX]]) ''LE BIG Create Sync'') (\<lambda>_.
     bind_s (required ''no successful LE BIG Sync Established event'' []
       (wait_le_subevent 0x1D None None
          (\<lambda>event. 17 \<le> length event \<and> event ! 1 = 0 \<and> event ! 2 = SINK_BIG_HANDLE \<and> event ! 14 = 1) 10000000)) (\<lambda>body.
     ret (from_le (pslice 15 17 body) AND 0x0FFF)))"

definition wait_big_terminated :: "nat \<Rightarrow> (hci, unit) action" where
  "wait_big_terminated timeout =
     bind_s (required ''no LE Terminate BIG Complete event'' []
       (wait_le_subevent 0x1C None None (\<lambda>event. 3 \<le> length event \<and> event ! 1 = SOURCE_BIG_HANDLE) timeout)) (\<lambda>body.
     if body ! 2 \<noteq> BIG_TERMINATE_REASON
     then throw (HciError ''LE Terminate BIG Complete reason 0x%02X, expected 0x%02X'' [unat (body ! 2), 0x16])
     else ret ())"

definition terminate_big :: "(hci, unit) action" where
  "terminate_big =
     bind_s (command_ok 0x206A (Inr [SOURCE_BIG_HANDLE, BIG_TERMINATE_REASON]) ''LE Terminate BIG'') (\<lambda>_.
     wait_big_terminated 8000000)"

definition terminate_big_sync :: "(hci, unit) action" where
  "terminate_big_sync = bind_s (command_ok 0x206C (Inr [SINK_BIG_HANDLE]) ''LE BIG Terminate Sync'') (\<lambda>_. ret ())"

definition counter_delta :: "nat list option \<Rightarrow> nat list option \<Rightarrow> nat \<Rightarrow> int option" where
  "counter_delta before after index =
     (case (before, after) of
        (Some b, Some a) \<Rightarrow>
          if length b \<le> index \<or> length a \<le> index then None else Some (int (a ! index) - int (b ! index))
      | _ \<Rightarrow> None)"

section \<open>The phase\<close>

record bis_bench = sync_bench +
  bi_source_bis :: "nat option"
  bi_sink_bis :: "nat option"
  bi_created :: bool
  bi_synced :: bool

text \<open>Synchronizing the sink to the train; the sync is not compared with the source here.\<close>

definition sink_sync :: "bytes \<Rightarrow> byte \<Rightarrow> (bis_bench, nat) action" where
  "sink_sync source_id source_type =
     bind_s (on_side Central (create_periodic_sync source_id source_type ADV_SID_PERIODIC False)) (\<lambda>_.
     bind_s (on_side Central (wait_sync_established None 10000000 False False)) (\<lambda>(periodic_sync, _).
     bind_s (keep_sync (Some periodic_sync)) (\<lambda>_.
     bind_s (on_side Central (wait_periodic_report periodic_sync PERIODIC_MARKER 8000000 False)) (\<lambda>_.
     ret periodic_sync))))"

definition bis_open :: "nat \<Rightarrow> (bis_bench, nat \<times> nat) action" where
  "bis_open periodic_sync =
     bind_s (on_side Peripheral bis_create_big) (\<lambda>source_bis.
     bind_s (modify_s (\<lambda>b. b\<lparr>bi_source_bis := Some source_bis, bi_created := True\<rparr>)) (\<lambda>_.
     bind_s (on_side Central (wait_biginfo periodic_sync 8000000)) (\<lambda>_.
     bind_s (on_side Central (create_big_sync periodic_sync)) (\<lambda>sink_bis.
     bind_s (modify_s (\<lambda>b. b\<lparr>bi_sink_bis := Some sink_bis, bi_synced := True\<rparr>)) (\<lambda>_.
     bind_s (on_side Peripheral (setup_iso_path source_bis ISO_DIRECTION_INPUT)) (\<lambda>_.
     bind_s (on_side Central (setup_iso_path sink_bis ISO_DIRECTION_OUTPUT)) (\<lambda>_.
     bind_s (on_side Peripheral (read_iso_buffers ''BIS source'')) (\<lambda>source_iso.
     bind_s (on_side Central (read_iso_buffers ''BIS sink'')) (\<lambda>sink_iso.
     if min source_iso sink_iso < length BIS_MARKER + 4
     then throw (HciError ''HCI ISO buffer is too small for BIS marker'' [])
     else ret (source_bis, sink_bis))))))))))"

definition bis_transfer :: "nat \<Rightarrow> nat \<Rightarrow> (bis_bench, unit) action" where
  "bis_transfer source_bis sink_bis =
     bind_s (on_side Peripheral read_counters) (\<lambda>source_before.
     bind_s (on_side Peripheral (send_iso source_bis 0 BIS_MARKER)) (\<lambda>_.
     bind_s (on_side Central (wait_iso ''BIS sink'' sink_bis BIS_MARKER 8000000)) (\<lambda>_.
     bind_s (on_side Peripheral read_counters) (\<lambda>source_after.
     let source_taken = counter_delta source_before source_after 17;
         source_drop = counter_delta source_before source_after 14 in
     if source_drop \<noteq> None \<and> source_drop \<noteq> Some 0 then throw (HciError ''routing layer dropped BIS source ISO data'' [])
     else if (case source_taken of None \<Rightarrow> False | Some n \<Rightarrow> n < 1)
     then throw (HciError ''BIS source ISO packet never reached SDC'' [])
     else ret ()))))"

definition bis_close :: "nat \<Rightarrow> nat \<Rightarrow> nat \<Rightarrow> (bis_bench, unit) action" where
  "bis_close source_bis sink_bis periodic_sync =
     bind_s (on_side Peripheral (remove_iso_path source_bis 0x01)) (\<lambda>_.
     bind_s (modify_s (\<lambda>b. b\<lparr>bi_source_bis := None\<rparr>)) (\<lambda>_.
     bind_s (on_side Central (remove_iso_path sink_bis 0x02)) (\<lambda>_.
     bind_s (modify_s (\<lambda>b. b\<lparr>bi_sink_bis := None\<rparr>)) (\<lambda>_.
     bind_s (on_side Central terminate_big_sync) (\<lambda>_.
     bind_s (modify_s (\<lambda>b. b\<lparr>bi_synced := False\<rparr>)) (\<lambda>_.
     bind_s (on_side Peripheral terminate_big) (\<lambda>_.
     bind_s (modify_s (\<lambda>b. b\<lparr>bi_created := False\<rparr>)) (\<lambda>_.
     bind_s (on_side Central (terminate_sync periodic_sync)) (\<lambda>_.
     keep_sync None)))))))))"

definition bis_body :: "string \<Rightarrow> (bis_bench, unit) action" where
  "bis_body label =
     bind_s (on_side Peripheral (prepare_controller DEFAULT_LE_EVENT_MASK)) (\<lambda>(source_id, source_type, _).
     bind_s (on_side Central (prepare_controller DEFAULT_LE_EVENT_MASK)) (\<lambda>_.
     bind_s (on_side Peripheral (configure_periodic source_type PERIODIC_MARKER)) (\<lambda>_.
     bind_s (on_side Peripheral start_periodic) (\<lambda>_.
     bind_s (sink_sync source_id source_type) (\<lambda>periodic_sync.
     bind_s (bis_open periodic_sync) (\<lambda>(source_bis, sink_bis).
     bind_s (bis_transfer source_bis sink_bis) (\<lambda>_.
     bind_s (bis_close source_bis sink_bis periodic_sync) (\<lambda>_.
     bind_s (sink_sync source_id source_type) (\<lambda>resync.
     bind_s (on_side Central (terminate_sync resync)) (\<lambda>_.
     bind_s (keep_sync None) (\<lambda>_.
     bind_s (on_side Peripheral stop_periodic) (\<lambda>_.
     write_book (passed ''ISO'' ''BIS Source -> Sink''
       (label @ '' unencrypted BIG, OTA SDU + synchronous BIG teardown + sink resync'', []))))))))))))))"

definition bis_cleanup :: "(bis_bench, unit) action" where
  "bis_cleanup =
     bind_s (with_s (\<lambda>b. case bi_source_bis b of None \<Rightarrow> ret () | Some h \<Rightarrow> on_side Peripheral (remove_iso_path h 0x01))) (\<lambda>_.
     bind_s (with_s (\<lambda>b. case bi_sink_bis b of None \<Rightarrow> ret () | Some h \<Rightarrow> on_side Central (remove_iso_path h 0x02))) (\<lambda>_.
     bind_s (with_s (\<lambda>b. if bi_synced b then quietly (on_side Central (request 0x206C (Inr [SINK_BIG_HANDLE]))) else ret ())) (\<lambda>_.
     bind_s (with_s (\<lambda>b. if bi_created b
       then quietly (on_side Peripheral (request 0x206A (Inr [SOURCE_BIG_HANDLE, BIG_TERMINATE_REASON]))) else ret ())) (\<lambda>_.
     bind_s drop_sync (\<lambda>_.
     on_side Peripheral stop_periodic)))))"

definition run_bis_phase :: "string \<Rightarrow> (bis_bench, unit) action" where
  "run_bis_phase label =
     bind_s (modify_s (\<lambda>b. b\<lparr>sb_sync := None, bi_source_bis := None, bi_sink_bis := None, bi_created := False, bi_synced := False\<rparr>)) (\<lambda>_.
     finally_s (or_failed_setup ''ISO'' ''BIS Source -> Sink'' (bis_body label)) bis_cleanup)"

section \<open>What the phase has received\<close>

definition heard_iso :: "packet multiset \<Rightarrow> nat \<Rightarrow> bytes \<Rightarrow> bool" where
  "heard_iso ps hnd sdu \<longleftrightarrow> (\<exists>code body i. (H4_ISO, code, body) \<in># ps \<and> parse_iso body = Inr i \<and>
     iso_handle i = hnd \<and> iso_pb i = ISO_PB_COMPLETE \<and> iso_fragment i = sdu)"

lemma received_iso: "received I (wait_iso label hnd sdu timeout) x \<Longrightarrow> heard_iso I hnd sdu"
proof -
  assume "received I (wait_iso label hnd sdu timeout) x"
  then obtain h h' where h: "inbox h \<subseteq># I"
    "read_until False False 100000 (wait_iso_judge label hnd sdu) (clock h + timeout) [] h = (Inr (Some ()), h')"
    by (auto simp: received_def wait_iso_def bind_s_Inr_iff split: option.splits)
  from read_until_end [OF h(2)] obtain skipped p left where p:
    "pending h @ packets_of (wire h) = skipped @ p # left @ packets_of (wire h')" "wait_iso_judge label hnd sdu p = Inr (Some ())"
    by (elim wait_end_foundE) blast
  have "p \<in># inbox h" unfolding inbox_def p(1) by simp
  with h(1) have "p \<in># I" by (rule mset_subset_eqD)
  with p(2) show ?thesis unfolding wait_iso_judge_found heard_iso_def by blast
qed

text \<open>What the phase takes from the four events of the BIG.\<close>

definition heard_big :: "packet multiset \<Rightarrow> nat \<Rightarrow> bool" where
  "heard_big ps hnd \<longleftrightarrow> heard_event ps 0x1B (\<lambda>e. e ! 1 = 0 \<and> e ! 2 = SOURCE_BIG_HANDLE \<and> e ! 18 = 1 \<and>
     hnd = from_le (pslice 19 21 e) mod 4096)"

definition heard_big_sync :: "packet multiset \<Rightarrow> nat \<Rightarrow> bool" where
  "heard_big_sync ps hnd \<longleftrightarrow> heard_event ps 0x1D (\<lambda>e. e ! 1 = 0 \<and> e ! 2 = SINK_BIG_HANDLE \<and> e ! 14 = 1 \<and>
     hnd = from_le (pslice 15 17 e) mod 4096)"

definition heard_terminated :: "packet multiset \<Rightarrow> bool" where
  "heard_terminated ps \<longleftrightarrow> heard_event ps 0x1C (\<lambda>e. e ! 1 = SOURCE_BIG_HANDLE \<and> e ! 2 = BIG_TERMINATE_REASON)"

lemma received_big:
  assumes "received I bis_create_big hnd"
  shows "heard_big I hnd"
proof -
  let ?q = "\<lambda>event :: bytes. 21 \<le> length event \<and> event ! 1 = 0 \<and> event ! 2 = SOURCE_BIG_HANDLE \<and> event ! 18 = 1"
  from assms [unfolded bis_create_big_def] obtain payload where
    "received I (bind_s (command_ok 0x2068 (Inr payload) ''LE Create BIG'') (\<lambda>_.
       bind_s (required ''no successful LE Create BIG Complete event'' [] (wait_le_subevent 0x1B None None ?q 10000000)) (\<lambda>body.
       ret (from_le (pslice 19 21 body) AND 0x0FFF)))) hnd"
    by (rule received_bind [OF _ reader_quiet(3)]) (auto simp: received_def split: if_splits)
  from received_event [OF this] obtain body where
    "heard_event I 0x1B (\<lambda>e. e = body \<and> ?q e)" "hnd = from_le (pslice 19 21 body) mod 4096" by (auto simp: received_def)
  then show ?thesis unfolding heard_big_def heard_event_def by blast
qed

lemma received_big_sync:
  assumes "received I (create_big_sync sync) hnd"
  shows "heard_big_sync I hnd"
proof -
  from received_event [OF assms [unfolded create_big_sync_def]] obtain body where
    "heard_event I 0x1D (\<lambda>e. e = body \<and> 17 \<le> length e \<and> e ! 1 = 0 \<and> e ! 2 = SINK_BIG_HANDLE \<and> e ! 14 = 1)"
    "hnd = from_le (pslice 15 17 body) mod 4096" by (auto simp: received_def)
  then show ?thesis unfolding heard_big_sync_def heard_event_def by blast
qed

lemma received_terminated:
  assumes "received I terminate_big x"
  shows "heard_terminated I"
proof -
  from received_event [OF assms [unfolded terminate_big_def wait_big_terminated_def]] obtain body where
    "heard_event I 0x1C (\<lambda>e. e = body \<and> 3 \<le> length e \<and> e ! 1 = SOURCE_BIG_HANDLE)" "body ! 2 = BIG_TERMINATE_REASON"
    by (auto simp: received_def split: if_splits)
  then show ?thesis unfolding heard_terminated_def heard_event_def by blast
qed

interpretation big_reader: reader inbox bis_create_big
  unfolding bis_create_big_def by (intro reader_steps)

interpretation big_sync_reader: reader inbox "create_big_sync periodic_sync" for periodic_sync
  unfolding create_big_sync_def by (intro reader_steps)

interpretation biginfo_reader: reader inbox "wait_biginfo sync_handle timeout" for sync_handle timeout
  unfolding wait_biginfo_def by (intro reader_steps)

interpretation big_end_reader: reader inbox terminate_big
  unfolding terminate_big_def wait_big_terminated_def by (intro reader_steps)

interpretation big_sync_end_reader: reader inbox terminate_big_sync
  unfolding terminate_big_sync_def by (intro reader_steps)

interpretation path_reader: reader inbox "setup_iso_path handle direction" for handle direction
  unfolding setup_iso_path_def by (intro reader_steps)

interpretation path_end_reader: reader inbox "remove_iso_path handle mask" for handle mask
  unfolding remove_iso_path_def by (intro reader_steps)

interpretation buffers_reader: reader inbox "read_iso_buffers label" for label
  unfolding read_iso_buffers_def Let_def by (intro reader_steps)

interpretation counters_reader: reader inbox read_counters
  unfolding read_counters_def by (intro reader_steps)

interpretation iso_wait_reader: reader inbox "wait_iso label hnd sdu timeout" for label hnd sdu timeout
  unfolding wait_iso_def by (intro reader_steps reader_wait)

interpretation iso_send_reader: reader inbox "send_iso hnd sq sdu" for hnd sq sdu
proof -
  have "reader inbox (hci_write_packet p)" for p
    by (rule readerI) (auto simp: hci_write_packet_def inbox_def split: list.splits option.splits)
  then show "reader inbox (send_iso hnd sq sdu)" unfolding send_iso_def by (intro reader_steps)
qed

interpretation sync_end_reader: reader inbox "terminate_sync hnd" for hnd
  unfolding terminate_sync_def by (intro reader_steps)

lemmas bis_readers = prepares.reader_axioms per_conf.reader_axioms per_start.reader_axioms per_stop.reader_axioms
  sync_create.reader_axioms sync_wait.reader_axioms per_report.reader_axioms big_reader.reader_axioms
  big_sync_reader.reader_axioms biginfo_reader.reader_axioms big_end_reader.reader_axioms
  big_sync_end_reader.reader_axioms path_reader.reader_axioms path_end_reader.reader_axioms
  buffers_reader.reader_axioms counters_reader.reader_axioms iso_wait_reader.reader_axioms
  iso_send_reader.reader_axioms sync_end_reader.reader_axioms

lemma sink_sync_yields:
  "yields (within I J) (sink_sync own addr_type) (\<lambda>hnd b. within I J b \<and> heard_marker I hnd PERIODIC_MARKER)"
  unfolding sink_sync_def keep_sync_def
  by (intro step_central step_modify yields_cases yields_ret bis_readers) (auto dest: received_marker)

lemma bis_open_yields:
  "yields (within I J) (bis_open sync) (\<lambda>x b. within I J b \<and> (heard_big J (fst x) \<and> heard_big_sync I (snd x)))"
  unfolding bis_open_def
  by (intro step_central step_peripheral step_modify yields_cases yields_throw
      yields_ret [where F = "\<lambda>x. heard_big J (fst x) \<and> heard_big_sync I (snd x)"] bis_readers)
    (auto dest: received_big received_big_sync)

lemma bis_transfer_yields:
  "yields (within I J) (bis_transfer source_bis sink_bis) (\<lambda>_ b. within I J b \<and> heard_iso I sink_bis BIS_MARKER)"
  unfolding bis_transfer_def Let_def
  by (intro step_central step_peripheral step_modify yields_cases yields_throw
      yields_ret [where F = "\<lambda>_. heard_iso I sink_bis BIS_MARKER"] bis_readers)
    (auto dest: received_iso)

lemma bis_close_yields:
  "yields (within I J) (bis_close source_bis sink_bis sync) (\<lambda>_ b. within I J b \<and> heard_terminated J)"
proof -
  have "heard_terminated J \<Longrightarrow> yields (within I J) (keep_sync hnd :: (bis_bench, unit) action) (\<lambda>_ b. within I J b \<and> heard_terminated J)" for hnd
    by (simp add: yields_def keep_sync_def within_def)
  then show ?thesis unfolding bis_close_def
    by (intro step_central step_peripheral step_modify bis_readers) (auto dest: received_terminated)
qed

definition bis_evidence :: "'x bench_scheme \<Rightarrow> bool" where
  "bis_evidence b \<longleftrightarrow> (\<exists>source_bis sink_bis sync resync.
     heard_marker (scan_inbox b) sync PERIODIC_MARKER \<and> heard_big (adv_inbox b) source_bis \<and>
     heard_big_sync (scan_inbox b) sink_bis \<and> heard_iso (scan_inbox b) sink_bis BIS_MARKER \<and>
     heard_terminated (adv_inbox b) \<and> heard_marker (scan_inbox b) resync PERIODIC_MARKER)"

lemma bis_body_yields: "yields (\<lambda>s. s = b) (bis_body label) (\<lambda>_ _. bis_evidence b)"
  unfolding bis_body_def keep_sync_def
proof (intro step_first step_central step_peripheral step_modify yields_call [OF sink_sync_yields]
    yields_call [OF bis_open_yields] yields_call [OF bis_transfer_yields] yields_call [OF bis_close_yields]
    yields_cases yields_write bis_readers)
qed (auto simp: bis_evidence_def)

lemma silent_parts: "silent (sink_sync own addr_type)" "silent (bis_open sync)" "silent (bis_transfer source_bis sink_bis)"
  "silent (bis_close source_bis sink_bis sync)"
  unfolding sink_sync_def bis_open_def bis_transfer_def bis_close_def keep_sync_def Let_def
  by (intro silent_bind silent_side silent_with silent_modify silent_if silent_throw; simp)+

lemma bis_cleanup_clean: "silent bis_cleanup" "polite bis_cleanup"
proof -
  have "polite (remove_iso_path h m)" for h m unfolding remove_iso_path_def by (rule polite_ret)
  then show "polite bis_cleanup" unfolding bis_cleanup_def by (intro cleanup_intros drop_sync_clean polite_if)
  show "silent bis_cleanup" unfolding bis_cleanup_def by (intro cleanup_intros drop_sync_clean silent_if)
qed

interpretation bis_test: scored "''ISO''" "''BIS Source -> Sink''" "bis_body label" bis_evidence for label
proof
  show "scores ''ISO'' ''BIS Source -> Sink'' (bis_body label)"
    unfolding bis_body_def keep_sync_def by (intro scores_intros silent_parts silent_modify) simp_all
  show "bis_body label b = (Inr (), b') \<Longrightarrow> bis_evidence b" for b b'
    by (rule yieldsD [OF bis_body_yields refl])
qed


end
