(* ===== verification/Acl_Reassembly.thy ===== *)
theory Acl_Reassembly
  imports Hci_Inbox
begin

text \<open>
  Waiting for an L2CAP marker that the controller may deliver in several HCI ACL fragments,
  \<open>wait_acl_marker\<close> of \<open>python/hcicontroller/connected_features_pair.py\<close>. The loop is a scan with a
  state, the packets held back and the frame being put together. What it returns is shown both ways:
  a marker that is reported was received as fragments of one frame on the connection and nothing else
  was taken, and every fragmentation of a frame that arrives in time is put together. The counts
  kept for a diagnostic message are left out.
\<close>

section \<open>Scanning with a state until a deadline\<close>

function gather :: "('t \<Rightarrow> packet \<Rightarrow> 't \<times> bool) \<Rightarrow> nat \<Rightarrow> 't \<Rightarrow> (hci, 't \<times> bool) action" where
  "gather step deadline t h =
     (if clock h < deadline then
        (case hci_read_packet (min 200000 (deadline - clock h)) h of
           (Inl e, h') \<Rightarrow> (Inl e, h')
         | (Inr None, h') \<Rightarrow> gather step deadline t h'
         | (Inr (Some p), h') \<Rightarrow>
             if snd (step t p) then (Inr (fst (step t p), True), h')
             else gather step deadline (fst (step t p)) h')
      else (Inr (t, False), h))"
  by pat_completeness auto
termination
  by (relation "measure (\<lambda>(_, deadline, _, h). budget deadline h)") (auto intro!: hci_read_packet_budget [OF sym])

declare gather.simps [simp del]

text \<open>The same over a list: the state reached, whether the scan stopped, and what was not looked at.\<close>

fun scan :: "('t \<Rightarrow> packet \<Rightarrow> 't \<times> bool) \<Rightarrow> 't \<Rightarrow> packet list \<Rightarrow> 't \<times> bool \<times> packet list" where
  "scan step t [] = (t, False, [])"
| "scan step t (p # ps) =
     (if snd (step t p) then (fst (step t p), True, ps) else scan step (fst (step t p)) ps)"

lemma gather_end:
  "gather step deadline t h = (Inr (t', fin), h') \<Longrightarrow>
     \<exists>ps. pending h @ packets_of (wire h) = ps @ pending h' @ packets_of (wire h') \<and> scan step t ps = (t', fin, [])"
proof (induction step deadline t h rule: gather.induct)
  case (1 step deadline t h)
  show ?case
  proof (cases "clock h < deadline")
    case False
    with 1(3) show ?thesis by (intro exI [of _ "[]"]) (simp add: gather.simps [of step deadline t h])
  next
    case True
    obtain out h1 where rd: "hci_read_packet (min 200000 (deadline - clock h)) h = (out, h1)" by fastforce
    with True 1(3) obtain po where out: "out = Inr po" by (cases out) (simp_all add: gather.simps [of step deadline t h])
    show ?thesis
    proof (cases po)
      case None
      with 1(3) True rd out have "gather step deadline t h1 = (Inr (t', fin), h')" by (simp add: gather.simps [of step deadline t h])
      from 1(1) [OF True rd [symmetric] out None this] hci_read_packet_None [OF rd [unfolded out None]] show ?thesis by simp
    next
      case (Some p)
      note read = hci_read_packet_Some(1) [OF rd [unfolded out Some]]
      show ?thesis
      proof (cases "snd (step t p)")
        case hit: True
        with 1(3) True rd out Some have "t' = fst (step t p)" "fin" "h' = h1" by (simp_all add: gather.simps [of step deadline t h])
        with read hit show ?thesis by (intro exI [of _ "[p]"]) simp
      next
        case False
        with 1(3) True rd out Some have "gather step deadline (fst (step t p)) h1 = (Inr (t', fin), h')"
          by (simp add: gather.simps [of step deadline t h])
        from 1(2) [OF True rd [symmetric] out Some False this] obtain ps where
          "pending h1 @ packets_of (wire h1) = ps @ pending h' @ packets_of (wire h')" "scan step (fst (step t p)) ps = (t', fin, [])"
          by blast
        with read False show ?thesis by (intro exI [of _ "p # ps"]) simp
      qed
    qed
  qed
qed

lemma gather_hears:
  assumes "pending h = []" "wire h = arriving ws @ rest" "\<forall>q \<in> snd ` set ws. event_ok q"
    "clock h + sum_list (map fst ws) < deadline" "fst (snd (scan step t (map snd ws)))"
  shows "\<exists>t' h'. gather step deadline t h = (Inr (t', True), h')"
  using assms
proof (induction step deadline t h arbitrary: ws rule: gather.induct)
  case (1 step deadline t h)
  obtain d p ws' where ws: "ws = (d, p) # ws'" using 1(7) by (cases ws) auto
  let ?t = "min 200000 (deadline - clock h)"
  have now: "clock h < deadline" using 1(6) by simp
  have w: "wire h = (d, Inr p) # arriving ws' @ rest" using 1(4) ws by (simp add: arriving_def)
  show ?case
  proof (cases "?t < d")
    case True
    let ?h = "h\<lparr>clock := clock h + ?t, wire := (d - ?t, Inr p) # arriving ws' @ rest\<rparr>"
    have rd: "hci_read_packet ?t h = (Inr None, ?h)" using True w 1(3) by (simp add: hci_read_packet_def read_wire_def)
    have "\<exists>t' h'. gather step deadline t ?h = (Inr (t', True), h')"
      by (rule 1(1) [OF now rd [symmetric] refl refl, of "(d - ?t, p) # ws'"])
        (use 1(3-7) ws True in \<open>auto simp: arriving_def\<close>)
    then show ?thesis using now rd by (subst gather.simps) simp
  next
    case False
    have ok: "event_ok p" "d \<le> ?t" using 1(5) ws False by (simp, linarith)
    obtain h1 where h1: "read_wire ?t h = (Inr (Some p), h1)" "wire h1 = arriving ws' @ rest"
      "clock h1 = clock h + d" "pending h1 = []" by (rule read_wire_head [OF w ok(2,1)]) (simp add: 1(3))
    have h1: "hci_read_packet ?t h = (Inr (Some p), h1)" "wire h1 = arriving ws' @ rest"
      "clock h1 = clock h + d" "pending h1 = []" using h1 1(3) by (simp_all add: hci_read_packet_def)
    show ?thesis
    proof (cases "snd (step t p)")
      case True
      then show ?thesis using now h1(1) by (subst gather.simps) simp
    next
      case False
      have "\<exists>t' h'. gather step deadline (fst (step t p)) h1 = (Inr (t', True), h')"
        by (rule 1(2) [OF now h1(1) [symmetric] refl refl False, of ws'])
          (use 1(3-7) ws h1 False in auto)
      then show ?thesis using now h1(1) False by (subst gather.simps) simp
    qed
  qed
qed

section \<open>Putting a frame together\<close>

abbreviation (input) ACL_PB_CONTINUING :: nat where "ACL_PB_CONTINUING \<equiv> 0x01"

record partial_frame =
  pf_total :: nat
  pf_data :: bytes
  pf_packets :: "packet list"

text \<open>What is held back and the frame that is being put together.\<close>

type_synonym acl_state = "packet list \<times> partial_frame option"

definition acl_pb :: "bytes \<Rightarrow> nat" where
  "acl_pb body = drop_bit 12 (from_le (take 2 body)) AND 0x03"

text \<open>A well-formed ACL packet of the connection.\<close>

definition acl_mine :: "nat \<Rightarrow> packet \<Rightarrow> bool" where
  "acl_mine expected_handle p =
     (case p of (kind, _, body) \<Rightarrow> kind = H4_ACL \<and> 4 \<le> length body \<and>
        from_le (take 2 body) AND 0x0FFF = expected_handle \<and> from_le (pslice 2 4 body) = length body - 4)"

text \<open>The frame with its header is complete: is it the marker? If not its packets are held back.\<close>

definition finish_partial :: "nat \<Rightarrow> bytes \<Rightarrow> packet list \<Rightarrow> partial_frame \<Rightarrow> acl_state \<times> bool" where
  "finish_partial expected_cid expected_payload deferred pf =
     (if length (pf_data pf) < pf_total pf then ((deferred, Some pf), False)
      else
        let frame = take (pf_total pf) (pf_data pf) in
        if 4 \<le> length frame \<and> from_le (pslice 2 4 frame) = expected_cid \<and>
           pslice 4 (4 + from_le (take 2 frame)) frame = expected_payload
        then ((deferred, None), True)
        else ((deferred @ pf_packets pf, None), False))"

definition acl_step :: "nat \<Rightarrow> nat \<Rightarrow> bytes \<Rightarrow> acl_state \<Rightarrow> packet \<Rightarrow> acl_state \<times> bool" where
  "acl_step expected_handle expected_cid expected_payload st p =
     (case st of (deferred, partial) \<Rightarrow>
        if \<not> acl_mine expected_handle p then ((deferred @ [p], partial), False)
        else
          let body = snd (snd p); fragment = drop 4 body in
          if acl_pb body \<noteq> ACL_PB_CONTINUING then
            let held_back = (case partial of None \<Rightarrow> deferred | Some pf \<Rightarrow> deferred @ pf_packets pf) in
            if length fragment < 4 then ((held_back @ [p], None), False)
            else finish_partial expected_cid expected_payload held_back
                   \<lparr>pf_total = 4 + from_le (take 2 fragment), pf_data = fragment, pf_packets = [p]\<rparr>
          else
            (case partial of
               Some pf \<Rightarrow> finish_partial expected_cid expected_payload deferred
                            (pf\<lparr>pf_data := pf_data pf @ fragment, pf_packets := pf_packets pf @ [p]\<rparr>)
             | None \<Rightarrow> ((deferred @ [p], None), False)))"

definition wait_acl_marker_pair :: "nat \<Rightarrow> nat \<Rightarrow> bytes \<Rightarrow> nat \<Rightarrow> (hci, bool) action" where
  "wait_acl_marker_pair expected_handle expected_cid expected_payload timeout =
     bind_s (\<lambda>h. gather (acl_step expected_handle expected_cid expected_payload) (clock h + timeout) ([], None) h)
       (\<lambda>((deferred, partial), found).
     if found then bind_s (put_back deferred) (\<lambda>_. ret True)
     else bind_s (put_back (case partial of None \<Rightarrow> deferred | Some pf \<Rightarrow> deferred @ pf_packets pf)) (\<lambda>_. ret False))"

section \<open>A marker that is reported was received\<close>

text \<open>The packets of a frame: a first fragment with the header and continuing fragments, all on the
  connection; \<open>data\<close> is what they carry.\<close>

definition frame_of :: "nat \<Rightarrow> packet list \<Rightarrow> bytes \<Rightarrow> bool" where
  "frame_of hnd ps data \<longleftrightarrow> (\<exists>first rest. ps = first # rest \<and> list_all (acl_mine hnd) ps \<and>
     acl_pb (snd (snd first)) \<noteq> ACL_PB_CONTINUING \<and> 8 \<le> length (snd (snd first)) \<and>
     list_all (\<lambda>q. acl_pb (snd (snd q)) = ACL_PB_CONTINUING) rest \<and>
     data = concat (map (\<lambda>q. drop 4 (snd (snd q))) ps))"

definition marker_in :: "nat \<Rightarrow> bytes \<Rightarrow> bytes \<Rightarrow> bool" where
  "marker_in cid load data \<longleftrightarrow> 4 + length load \<le> length data \<and>
     take (4 + length load) data = to_le 2 (length load) @ to_le 2 cid @ load"

definition acl_packets :: "acl_state \<Rightarrow> packet multiset" where
  "acl_packets st = mset (fst st) + (case snd st of None \<Rightarrow> {#} | Some pf \<Rightarrow> mset (pf_packets pf))"

definition partial_ok :: "nat \<Rightarrow> partial_frame option \<Rightarrow> bool" where
  "partial_ok hnd partial = (case partial of None \<Rightarrow> True
     | Some pf \<Rightarrow> frame_of hnd (pf_packets pf) (pf_data pf) \<and> pf_total pf = 4 + from_le (take 2 (pf_data pf)))"

lemma four_octets:
  assumes "4 \<le> length data"
  obtains a b c d xs where "data = [a, b, c, d] @ xs"
  using assms by (auto simp: Suc_le_length_iff numeral_eq_Suc)

lemma marker_frame:
  fixes data :: bytes
  defines "n \<equiv> from_le (take 2 data)"
  assumes "4 + n \<le> length data" "from_le (pslice 2 4 (take (4 + n) data)) = cid"
    "pslice 4 (4 + from_le (take 2 (take (4 + n) data))) (take (4 + n) data) = load"
  shows "marker_in cid load data"
proof -
  have "4 \<le> length data" using assms(2) by simp
  then obtain a b c d xs where data: "data = [a, b, c, d] @ xs" by (rule four_octets)
  have n: "n = from_le [a, b]" "n \<le> length xs" using assms(2) by (simp_all add: n_def data)
  have to: "to_le 2 (from_le [x, y]) = [x, y]" for x y using to_from_le [of "[x, y]"] by (simp only: list.size add_0 numeral_2_eq_2 One_nat_def plus_nat.simps)
  have tk: "take (4 + n) data = [a, b, c, d] @ take n xs" by (simp add: data numeral_eq_Suc)
  have "from_le [c, d] = cid" using assms(3) unfolding tk by (simp add: numeral_eq_Suc)
  moreover have "take n xs = load" proof -
    have "take 2 ([a, b, c, d] @ take n xs) = [a, b]" by simp
    with assms(4) have "pslice 4 (4 + n) ([a, b, c, d] @ take n xs) = load" unfolding tk n(1) [symmetric] by (simp only: n(1))
    moreover have "pslice 4 (4 + n) ([a, b, c, d] @ take n xs) = take n xs" by (subst pslice_append_right) simp_all
    ultimately show ?thesis by simp
  qed
  moreover have "length load = n" using n(2) calculation(2) by auto
  moreover have "[a, b] = to_le 2 n" "[c, d] = to_le 2 (from_le [c, d])" using n(1) to [of a b] to [of c d] by simp_all
  ultimately show ?thesis using n(2) tk unfolding marker_in_def by (simp add: data)
qed

lemma finish_partial_sound:
  assumes "finish_partial cid load deferred pf = ((deferred', partial'), found)"
    "frame_of hnd (pf_packets pf) (pf_data pf)" "pf_total pf = 4 + from_le (take 2 (pf_data pf))"
  shows "if found then deferred' = deferred \<and> partial' = None \<and> marker_in cid load (pf_data pf)
    else acl_packets (deferred', partial') = mset deferred + mset (pf_packets pf) \<and> partial_ok hnd partial'"
  using assms marker_frame [of "pf_data pf" cid load]
  by (auto simp: finish_partial_def Let_def acl_packets_def partial_ok_def split: if_splits)

lemma frame_first:
  assumes "acl_mine hnd p" "acl_pb (snd (snd p)) \<noteq> ACL_PB_CONTINUING" "4 \<le> length (drop 4 (snd (snd p)))"
  shows "frame_of hnd [p] (drop 4 (snd (snd p)))"
  using assms by (auto simp: frame_of_def)

lemma frame_next:
  assumes "frame_of hnd ps data" "acl_mine hnd p" "acl_pb (snd (snd p)) = ACL_PB_CONTINUING"
  shows "frame_of hnd (ps @ [p]) (data @ drop 4 (snd (snd p)))" "4 \<le> length data"
  using assms by (auto simp: frame_of_def)

text \<open>One packet: when the marker is found it is in the frame this packet completes, and everything else
  is held back; otherwise nothing is lost.\<close>

lemma acl_step_sound:
  assumes "acl_step hnd cid load (deferred, partial) p = (st', found)" "partial_ok hnd partial"
  shows "if found then snd st' = None \<and> (\<exists>frame data. frame_of hnd frame data \<and> marker_in cid load data \<and>
      acl_packets (deferred, partial) + {#p#} = mset frame + acl_packets st')
    else acl_packets st' = acl_packets (deferred, partial) + {#p#} \<and> partial_ok hnd (snd st')"
proof -
  let ?frag = "drop 4 (snd (snd p))"
  let ?new = "\<lparr>pf_total = 4 + from_le (take 2 ?frag), pf_data = ?frag, pf_packets = [p]\<rparr>"
  let ?held = "case partial of None \<Rightarrow> deferred | Some pf \<Rightarrow> deferred @ pf_packets pf"
  have held: "mset ?held = acl_packets (deferred, partial)" by (simp add: acl_packets_def split: option.split)
  obtain deferred' partial' where st': "st' = (deferred', partial')" by fastforce
  consider (other) "\<not> acl_mine hnd p" | (short) "acl_mine hnd p" "acl_pb (snd (snd p)) \<noteq> ACL_PB_CONTINUING" "length ?frag < 4"
    | (first) "acl_mine hnd p" "acl_pb (snd (snd p)) \<noteq> ACL_PB_CONTINUING" "4 \<le> length ?frag"
    | (stray) "acl_mine hnd p" "acl_pb (snd (snd p)) = ACL_PB_CONTINUING" "partial = None"
    | (continued) pf where "acl_mine hnd p" "acl_pb (snd (snd p)) = ACL_PB_CONTINUING" "partial = Some pf"
    by (metis not_less not_None_eq)
  then show ?thesis
  proof cases
    case other
    with assms show ?thesis by (auto simp: acl_step_def acl_packets_def)
  next
    case short
    with assms held show ?thesis by (auto simp: acl_step_def Let_def acl_packets_def partial_ok_def)
  next
    case first
    then have fin: "finish_partial cid load ?held ?new = ((deferred', partial'), found)"
      using assms(1) st' by (simp add: acl_step_def Let_def)
    from finish_partial_sound [OF fin, of hnd] frame_first [OF first] have *: "if found
      then deferred' = ?held \<and> partial' = None \<and> marker_in cid load ?frag
      else acl_packets (deferred', partial') = mset ?held + {#p#} \<and> partial_ok hnd partial'" by (cases found) simp_all
    show ?thesis
    proof (cases found)
      case True
      then have "\<exists>frame data. frame_of hnd frame data \<and> marker_in cid load data \<and>
          acl_packets (deferred, partial) + {#p#} = mset frame + acl_packets st'"
        using * held frame_first [OF first] st'
        by (intro exI [of _ "[p]"] exI [of _ ?frag]) (simp add: acl_packets_def)
      with True * st' show ?thesis by simp
    next
      case False
      with * held st' show ?thesis by simp
    qed
  next
    case stray
    with assms st' show ?thesis by (auto simp: acl_step_def Let_def acl_packets_def partial_ok_def)
  next
    case continued
    let ?pf = "pf\<lparr>pf_data := pf_data pf @ ?frag, pf_packets := pf_packets pf @ [p]\<rparr>"
    have ok: "frame_of hnd (pf_packets pf) (pf_data pf)" "pf_total pf = 4 + from_le (take 2 (pf_data pf))"
      using assms(2) continued(3) by (simp_all add: partial_ok_def)
    note nxt = frame_next [OF ok(1) continued(1,2)]
    have fin: "finish_partial cid load deferred ?pf = ((deferred', partial'), found)"
      using assms(1) st' continued by (simp add: acl_step_def Let_def)
    from finish_partial_sound [OF fin, of hnd] nxt ok(2) have *: "if found
      then deferred' = deferred \<and> partial' = None \<and> marker_in cid load (pf_data pf @ ?frag)
      else acl_packets (deferred', partial') = mset deferred + mset (pf_packets pf) + {#p#} \<and> partial_ok hnd partial'" by (cases found) simp_all
    show ?thesis
    proof (cases found)
      case True
      then have "\<exists>frame data. frame_of hnd frame data \<and> marker_in cid load data \<and>
          acl_packets (deferred, partial) + {#p#} = mset frame + acl_packets st'"
        using * nxt(1) st' continued(3)
        by (intro exI [of _ "pf_packets pf @ [p]"] exI [of _ "pf_data pf @ ?frag"]) (simp add: acl_packets_def)
      with True * st' show ?thesis by simp
    next
      case False
      with * st' continued(3) show ?thesis by (simp add: acl_packets_def)
    qed
  qed
qed

lemma scan_sound:
  "scan (acl_step hnd cid load) st ps = (st', found, []) \<Longrightarrow> partial_ok hnd (snd st) \<Longrightarrow>
     if found then snd st' = None \<and> (\<exists>frame data. frame_of hnd frame data \<and> marker_in cid load data \<and>
       acl_packets st + mset ps = mset frame + acl_packets st')
     else acl_packets st' = acl_packets st + mset ps"
proof (induction ps arbitrary: st)
  case (Cons p ps)
  obtain deferred partial where st: "st = (deferred, partial)" by fastforce
  obtain st1 hit where step: "acl_step hnd cid load st p = (st1, hit)" by fastforce
  note s = acl_step_sound [OF step [unfolded st]]
  show ?case
  proof (cases hit)
    case True
    with Cons.prems s step st show ?thesis by auto
  next
    case False
    then have "acl_packets st1 = acl_packets st + {#p#}" "partial_ok hnd (snd st1)" using s Cons.prems(2) st by simp_all
    with Cons.IH [of st1] Cons.prems(1) step False show ?thesis by (cases found) simp_all
  qed
qed simp

lemma gather_raises: "gather step deadline t h = (Inl e, h') \<Longrightarrow> inbox h' \<subseteq># inbox h"
proof (induction step deadline t h rule: gather.induct)
  case (1 step deadline t h)
  obtain out h1 where rd: "hci_read_packet (min 200000 (deadline - clock h)) h = (out, h1)" by fastforce
  have t: "clock h < deadline" using 1(3) by (auto simp: gather.simps [of step deadline t h] split: if_splits)
  have "inbox h' \<subseteq># inbox h1"
    using 1(1,2) [OF t rd [symmetric]] 1(3) t rd
    by (simp add: gather.simps [of step deadline t h] split: sum.splits option.splits if_splits)
  then show ?case using reads.takes [OF rd] by (rule subset_mset.order_trans)
qed

lemma acl_marker_taken:
  "case wait_acl_marker_pair hnd cid load timeout h of
     (Inr True, h') \<Rightarrow> \<exists>frame data. frame_of hnd frame data \<and> marker_in cid load data \<and> inbox h = mset frame + inbox h'
   | (Inr False, h') \<Rightarrow> inbox h' = inbox h
   | (Inl e, h') \<Rightarrow> inbox h' \<subseteq># inbox h"
proof -
  let ?J = "acl_step hnd cid load"
  obtain r h1 where g: "gather ?J (clock h + timeout) ([], None) h = (r, h1)" by fastforce
  show ?thesis
  proof (cases r)
    case (Inl e)
    with g gather_raises [OF g [unfolded Inl]] show ?thesis by (simp add: wait_acl_marker_pair_def bind_s_def)
  next
    case (Inr x)
    obtain st found where x: "x = (st, found)" by fastforce
    obtain ps where ps: "inbox h = mset ps + inbox h1" "scan ?J ([], None) ps = (st, found, [])"
      using gather_end [OF g [unfolded Inr x]] unfolding inbox_def by (metis mset_append)
    have ok: "partial_ok hnd (snd (([], None) :: acl_state))" by (simp add: partial_ok_def)
    have nil: "acl_packets ([], None) = {#}" by (simp add: acl_packets_def)
    obtain deferred partial where st: "st = (deferred, partial)" by fastforce
    show ?thesis
    proof (cases found)
      case True
      from scan_sound [OF ps(2) ok] True nil obtain frame data where f: "snd st = None" "frame_of hnd frame data"
        "marker_in cid load data" "mset ps = mset frame + acl_packets st" by auto
      from True g Inr x st have "wait_acl_marker_pair hnd cid load timeout h = (Inr True, restore deferred h1)"
        by (simp add: wait_acl_marker_pair_def bind_s_def put_back_def)
      moreover have "inbox h = mset frame + inbox (restore deferred h1)"
        using ps(1) f st by (simp add: acl_packets_def inbox_def add.assoc)
      ultimately show ?thesis using f(2,3) by auto
    next
      case False
      from scan_sound [OF ps(2) ok] False nil have f: "acl_packets st = mset ps" by simp
      from False g Inr x st have "wait_acl_marker_pair hnd cid load timeout h =
          (Inr False, restore (case partial of None \<Rightarrow> deferred | Some pf \<Rightarrow> deferred @ pf_packets pf) h1)"
        by (simp add: wait_acl_marker_pair_def bind_s_def put_back_def)
      moreover have "inbox (restore (case partial of None \<Rightarrow> deferred | Some pf \<Rightarrow> deferred @ pf_packets pf) h1) = inbox h"
        using ps(1) f st by (cases partial) (simp_all add: acl_packets_def inbox_def add.assoc)
      ultimately show ?thesis by simp
    qed
  qed
qed

interpretation acl_marker: reader inbox "wait_acl_marker_pair hnd cid load timeout" for hnd cid load timeout
proof (rule readerI)
  fix h r h' assume "wait_acl_marker_pair hnd cid load timeout h = (r, h')"
  with acl_marker_taken [where hnd = hnd and cid = cid and load = load and timeout = timeout and h = h] show "inbox h' \<subseteq># inbox h"
    by (auto split: sum.splits bool.splits)
qed


section \<open>Every fragmentation of a frame is put together\<close>

abbreviation finds :: "nat \<Rightarrow> nat \<Rightarrow> bytes \<Rightarrow> acl_state \<Rightarrow> packet list \<Rightarrow> bool" where
  "finds hnd cid load st ps \<equiv> fst (snd (scan (acl_step hnd cid load) st ps))"

text \<open>What is held back does not matter for what is found, and neither do packets of others.\<close>

lemma finish_partial_deferred:
  obtains d1 pt found where "\<And>d. finish_partial cid load d pf = ((d @ d1, pt), found)"
proof -
  let ?frame = "take (pf_total pf) (pf_data pf)"
  let ?hit = "4 \<le> length ?frame \<and> from_le (pslice 2 4 ?frame) = cid \<and> pslice 4 (4 + from_le (take 2 ?frame)) ?frame = load"
  consider (short) "length (pf_data pf) < pf_total pf" | (hit) "\<not> length (pf_data pf) < pf_total pf" ?hit
    | (miss) "\<not> length (pf_data pf) < pf_total pf" "\<not> ?hit" by blast
  then show ?thesis
  proof cases
    case short
    with that [of "[]" "Some pf" False] show ?thesis by (simp add: finish_partial_def)
  next
    case hit
    then show ?thesis by (intro that [of "[]" None True]) (simp only: finish_partial_def Let_def if_False if_True append_Nil2 simp_thms)
  next
    case miss
    then show ?thesis by (intro that [of "pf_packets pf" None False]) (simp only: finish_partial_def Let_def if_False)
  qed
qed

lemma acl_step_deferred:
  "snd (acl_step hnd cid load (d, pt) p) = snd (acl_step hnd cid load (d', pt) p) \<and>
   snd (fst (acl_step hnd cid load (d, pt) p)) = snd (fst (acl_step hnd cid load (d', pt) p))"
proof -
  have fin: "snd (finish_partial cid load d1 pf) = snd (finish_partial cid load d2 pf) \<and>
    snd (fst (finish_partial cid load d1 pf)) = snd (fst (finish_partial cid load d2 pf))" for d1 d2 pf
    by (rule finish_partial_deferred [of cid load pf]) simp
  consider (other) "\<not> acl_mine hnd p" | (first) "acl_mine hnd p" "acl_pb (snd (snd p)) \<noteq> ACL_PB_CONTINUING"
    | (continued) "acl_mine hnd p" "acl_pb (snd (snd p)) = ACL_PB_CONTINUING" by blast
  then show ?thesis
    by cases (use fin in \<open>simp_all add: acl_step_def Let_def split: option.split\<close>)
qed

lemma finds_filter: "finds hnd cid load (d, pt) ps = finds hnd cid load (d', pt) (filter (acl_mine hnd) ps)"
proof (induction ps arbitrary: d d' pt)
  case (Cons p ps)
  show ?case
  proof (cases "acl_mine hnd p")
    case True
    obtain d1 pt1 d2 pt2 where s: "fst (acl_step hnd cid load (d, pt) p) = (d1, pt1)"
      "fst (acl_step hnd cid load (d', pt) p) = (d2, pt2)" by (metis surj_pair)
    then have "pt2 = pt1" using acl_step_deferred [of hnd cid load d pt p d'] by simp
    with True s Cons.IH [of d1 pt1 d2] acl_step_deferred [of hnd cid load d pt p d'] show ?thesis by simp
  next
    case False
    with Cons.IH [of "d @ [p]" pt d'] show ?thesis by (simp add: acl_step_def)
  qed
qed simp

lemma finds_append:
  "finds hnd cid load st (ps @ qs) \<longleftrightarrow>
     finds hnd cid load st ps \<or> finds hnd cid load (fst (scan (acl_step hnd cid load) st ps)) qs"
  by (induction ps arbitrary: st) simp_all

text \<open>A fragment as a controller delivers it.\<close>

definition acl_fragment :: "nat \<Rightarrow> nat \<Rightarrow> bytes \<Rightarrow> packet" where
  "acl_fragment hnd pb data = (H4_ACL, None, to_le 2 (hnd + 4096 * pb) @ to_le 2 (length data) @ data)"

lemma acl_fragment_fields:
  assumes "hnd < 4096" "pb < 4" "length data < 65536"
  shows "acl_mine hnd (acl_fragment hnd pb data)" "acl_pb (snd (snd (acl_fragment hnd pb data))) = pb"
    "drop 4 (snd (snd (acl_fragment hnd pb data))) = data"
proof -
  have w: "hnd + 4096 * pb < 65536" using assms(1,2) by simp
  have low: "(hnd + 4096 * pb) mod 4096 = hnd" using assms(1) by simp
  have high: "drop_bit 12 (hnd + 4096 * pb) mod 4 = pb" using assms(1,2) by (simp add: drop_bit_eq_div)
  show "drop 4 (snd (snd (acl_fragment hnd pb data))) = data" by (simp add: acl_fragment_def)
  show "acl_mine hnd (acl_fragment hnd pb data)"
    using w assms(3) low by (simp add: acl_fragment_def acl_mine_def from_to_le)
  show "acl_pb (snd (snd (acl_fragment hnd pb data))) = pb"
    using w high by (simp add: acl_fragment_def acl_pb_def from_to_le)
qed

lemma whole_frame:
  assumes "data = to_le 2 (length load) @ to_le 2 cid @ load" "length load < 65536" "cid < 65536"
    "pf_data pf = data" "pf_total pf = 4 + length load"
  shows "snd (finish_partial cid load d pf)"
  using assms by (simp add: finish_partial_def Let_def from_to_le)

lemma finds_continued:
  assumes "hnd < 4096" "length load < 65532" "cid < 65536"
  shows "pf_data pf @ concat cs = to_le 2 (length load) @ to_le 2 cid @ load \<Longrightarrow> pf_total pf = 4 + length load \<Longrightarrow>
    length (pf_data pf) < pf_total pf \<Longrightarrow> finds hnd cid load (d, Some pf) (map (acl_fragment hnd ACL_PB_CONTINUING) cs)"
proof (induction cs arbitrary: pf d)
  case (Cons c cs)
  let ?pf = "pf\<lparr>pf_data := pf_data pf @ c, pf_packets := pf_packets pf @ [acl_fragment hnd ACL_PB_CONTINUING c]\<rparr>"
  have "length (pf_data pf @ concat (c # cs)) = 4 + length load" unfolding Cons.prems(1) by simp
  then have len: "length (pf_data pf) + length c + length (concat cs) = 4 + length load" by simp
  with assms(2) have c: "length c < 65536" by simp
  note f = acl_fragment_fields [OF assms(1) _ c, of ACL_PB_CONTINUING]
  have step: "acl_step hnd cid load (d, Some pf) (acl_fragment hnd ACL_PB_CONTINUING c) = finish_partial cid load d ?pf"
    using f by (simp add: acl_step_def Let_def)
  show ?case
  proof (cases "length (pf_data ?pf) < pf_total ?pf")
    case True
    then have "finish_partial cid load d ?pf = ((d, Some ?pf), False)" by (simp add: finish_partial_def)
    moreover have "finds hnd cid load (d, Some ?pf) (map (acl_fragment hnd ACL_PB_CONTINUING) cs)"
      by (rule Cons.IH) (use Cons.prems True in simp_all)
    ultimately show ?thesis using step by simp
  next
    case False
    then have "\<not> length (pf_data pf) + length c < pf_total pf" by simp
    with len Cons.prems(2) have "length (concat cs) = 0" by linarith
    then have "concat cs = []" by (simp only: length_0_conv)
    with Cons.prems(1) have "pf_data ?pf = to_le 2 (length load) @ to_le 2 cid @ load" by simp
    then have "snd (finish_partial cid load d ?pf)"
      using whole_frame [OF refl _ assms(3), of load ?pf d] assms(2) Cons.prems(2) by simp
    with step show ?thesis by simp
  qed
qed (use assms in auto)

text \<open>The frame in its fragments, whatever the state the scan is in.\<close>

lemma finds_frame:
  assumes "hnd < 4096" "length load < 65532" "cid < 65536" "pb < 4" "pb \<noteq> ACL_PB_CONTINUING" "4 \<le> length c"
    "c @ concat cs = to_le 2 (length load) @ to_le 2 cid @ load"
  shows "finds hnd cid load st (acl_fragment hnd pb c # map (acl_fragment hnd ACL_PB_CONTINUING) cs)"
proof -
  obtain d pt where st: "st = (d, pt)" by fastforce
  let ?held = "case pt of None \<Rightarrow> d | Some pf \<Rightarrow> d @ pf_packets pf"
  have "length (c @ concat cs) = 4 + length load" unfolding assms(7) by simp
  then have len: "length c + length (concat cs) = 4 + length load" by simp
  with assms(2) have c: "length c < 65536" by simp
  have "take 2 (c @ concat cs) = to_le 2 (length load)" unfolding assms(7) by simp
  then have total: "from_le (take 2 c) = length load" using assms(2,6) by (simp add: from_to_le)
  let ?pf = "\<lparr>pf_total = 4 + length load, pf_data = c, pf_packets = [acl_fragment hnd pb c]\<rparr>"
  have step: "acl_step hnd cid load st (acl_fragment hnd pb c) = finish_partial cid load ?held ?pf"
    using acl_fragment_fields [OF assms(1,4) c] assms(5,6) total by (simp add: acl_step_def Let_def st)
  show ?thesis
  proof (cases "length c < 4 + length load")
    case True
    then have "finish_partial cid load ?held ?pf = ((?held, Some ?pf), False)" by (simp add: finish_partial_def)
    moreover have "finds hnd cid load (?held, Some ?pf) (map (acl_fragment hnd ACL_PB_CONTINUING) cs)"
      by (rule finds_continued [OF assms(1-3)]) (use assms(7) True in simp_all)
    ultimately show ?thesis using step by simp
  next
    case False
    with len have "length (concat cs) = 0" by linarith
    then have "concat cs = []" by (simp only: length_0_conv)
    with assms(7) have "snd (finish_partial cid load ?held ?pf)"
      by (intro whole_frame [OF refl _ assms(3)]) (use assms(2) in simp_all)
    with step show ?thesis by simp
  qed
qed

text \<open>C33. Every fragmentation of the marker is put together: when the packets of the connection that
  arrive before the timeout end with the L2CAP frame of the marker, cut anywhere after its header
  into a first fragment and continuing fragments, mixed with packets of anything else and preceded by
  anything, complete or not, the wait reports the marker.\<close>

theorem acl_marker_complete:
  assumes "hnd < 4096" "length load < 65532" "cid < 65536" "pb < 4" "pb \<noteq> 1" "4 \<le> length c"
    "c @ concat cs = to_le 2 (length load) @ to_le 2 cid @ load"
    and "pending h = []" "wire h = arriving ws @ rest" "\<forall>q \<in> snd ` set ws. event_ok q" "sum_list (map fst ws) < timeout"
    and "filter (acl_mine hnd) (map snd ws) = before @ acl_fragment hnd pb c # map (acl_fragment hnd 1) cs"
  shows "\<exists>h'. wait_acl_marker_pair hnd cid load timeout h = (Inr True, h')"
proof -
  have "finds hnd cid load ([], None) (filter (acl_mine hnd) (map snd ws))"
    unfolding assms(12) finds_append using finds_frame [OF assms(1-4) _ assms(6,7)] assms(5) by simp
  then have "finds hnd cid load ([], None) (map snd ws)" by (simp only: finds_filter [of hnd cid load "[]" None "map snd ws" "[]"])
  with gather_hears [OF assms(8-10), of "clock h + timeout"] assms(11) obtain st h' where
    "gather (acl_step hnd cid load) (clock h + timeout) ([], None) h = (Inr (st, True), h')" by fastforce
  then show ?thesis by (cases st) (simp add: wait_acl_marker_pair_def bind_s_def put_back_def)
qed

theorem acl_marker_complete_witness:
  "\<exists>h'. wait_acl_marker_pair 5 0x40 [7, 8, 9] 1000000
     (hci_init [(10, Inr (acl_fragment 5 2 [3, 0, 0x40, 0, 7])), (10, Inr (H4_ACL, None, [6, 0, 0, 0])),
                (10, Inr (acl_fragment 5 1 [8, 9]))] [] 0) = (Inr True, h')"
  by (rule acl_marker_complete [where pb = 2 and c = "[3, 0, 0x40, 0, 7]" and cs = "[[8, 9]]" and before = "[]" and rest = "[]"
      and ws = "[(10, acl_fragment 5 2 [3, 0, 0x40, 0, 7]), (10, (H4_ACL, None, [6, 0, 0, 0])), (10, acl_fragment 5 1 [8, 9])]"])
    (simp_all add: hci_init_def arriving_def event_ok_def acl_fragment_def acl_mine_def to_le_2)

end
