(* ===== verification/Pair_Phases.thy ===== *)
theory Pair_Phases
  imports Acl_Reassembly Phase_Rules
begin

text \<open>
  The connected feature phase of the release pair, \<open>python/hcicontroller/connected_features_pair.py\<close>:
  the phase of \<open>Feature_Phases\<close> with reassembled ACL markers, retries while the controller is busy, PHY
  changes from both sides and coded PHY with data in both directions. What the phase shares with the
  other one is taken from there.
\<close>

section \<open>Procedures of one controller\<close>

abbreviation (input) STATUS_CONTROLLER_BUSY :: byte where "STATUS_CONTROLLER_BUSY \<equiv> 0x3A"
abbreviation (input) PHY_CODED_MASK :: byte where "PHY_CODED_MASK \<equiv> 0x04"
abbreviation (input) PHY_CODED :: byte where "PHY_CODED \<equiv> 0x03"
abbreviation (input) PHY_ALL :: byte where "PHY_ALL \<equiv> 0x07"

text \<open>The retries that are left.\<close>

fun command_status_retry :: "nat \<Rightarrow> bytes result \<Rightarrow> nat \<Rightarrow> nat \<Rightarrow> (hci, byte \<times> bytes) action" where
  "command_status_retry opcode block 0 delay = request opcode block"
| "command_status_retry opcode block (Suc retries) delay =
     bind_s (request opcode block) (\<lambda>(status, data).
     if status \<noteq> STATUS_CONTROLLER_BUSY then ret (status, data)
     else bind_s (sleep delay) (\<lambda>_. command_status_retry opcode block retries delay))"

definition power_control_pair :: "nat \<Rightarrow> (hci, unit) action" where
  "power_control_pair handle =
     bind_s (request 0x2076 (struct_pack [FH handle, FB 1])) (\<lambda>(status, data).
     if status \<noteq> 0 \<or> length data < 5
     then throw (HciError ''LE Enhanced Read Transmit Power Level returned %s'' [unat status])
     else
     bind_s (command_status_retry 0x2077 (struct_pack [FH handle, FB 1]) 10 100000) (\<lambda>(status, _).
     if status \<noteq> 0 then throw (HciError ''LE Read Remote Transmit Power Level returned %s'' [unat status])
     else
     bind_s (required ''no successful LE Transmit Power Reporting event'' []
               (wait_le_subevent 0x21 (Some handle) (Some 2) (\<lambda>event. 8 \<le> length event \<and> event ! 1 = 0) 5000000)) (\<lambda>_.
     bind_s (command_ok 0x207A (struct_pack [FH handle, FB 1, FB 1]) ''LE Set Transmit Power Reporting Enable'') (\<lambda>_.
     bind_s (request 0x207A (struct_pack [FH handle, FB 0, FB 0])) (\<lambda>_. ret ())))))"

definition request_phy :: "nat \<Rightarrow> byte \<Rightarrow> byte option \<Rightarrow> nat \<Rightarrow> (hci, byte \<times> byte) action" where
  "request_phy handle phy expected_phy phy_options =
     bind_s (command_status_retry 0x2032 (struct_pack [FH handle, FB 0, FB (unat phy), FB (unat phy), FH phy_options]) 10 100000)
       (\<lambda>(status, _).
     if status \<noteq> 0 then throw (HciError ''LE Set PHY returned %s'' [unat status])
     else
     bind_s (required ''no successful PHY Update Complete event'' []
               (wait_le_subevent 0x0C (Some handle) (Some 2) (\<lambda>event. 6 \<le> length event \<and> event ! 1 = 0) 5000000)) (\<lambda>body.
     case expected_phy of
       None \<Rightarrow> ret (body ! 4, body ! 5)
     | Some e \<Rightarrow>
         if body ! 4 \<noteq> e \<or> body ! 5 \<noteq> e
         then throw (HciError ''PHY Update Complete reports tx %u rx %u, expected %u'' [unat (body ! 4), unat (body ! 5), unat e])
         else ret (body ! 4, body ! 5)))"

definition wait_peer_phy :: "nat \<Rightarrow> byte \<Rightarrow> nat \<Rightarrow> (hci, unit) action" where
  "wait_peer_phy handle phy timeout =
     bind_s (required ''peer did not report PHY %u update'' [unat phy]
       (wait_le_subevent 0x0C (Some handle) (Some 2)
          (\<lambda>event. 6 \<le> length event \<and> event ! 1 = 0 \<and> event ! 4 = phy \<and> event ! 5 = phy) timeout)) (\<lambda>_. ret ())"

definition read_phy_exact :: "nat \<Rightarrow> byte \<Rightarrow> (hci, unit) action" where
  "read_phy_exact handle phy =
     bind_s (request 0x2030 (struct_pack [FH handle])) (\<lambda>(status, data).
     if status \<noteq> 0 \<or> length data < 4 then throw (HciError ''LE Read PHY failed'' [])
     else if data ! 2 \<noteq> phy \<or> data ! 3 \<noteq> phy
     then throw (HciError ''LE Read PHY reports tx %u rx %u, expected %u'' [unat (data ! 2), unat (data ! 3), unat phy])
     else ret ())"

section \<open>Procedures of the pair\<close>

text \<open>One direction: the marker is sent and has to arrive.\<close>

definition verify_acl_one :: "string \<Rightarrow> string \<Rightarrow> side \<Rightarrow> nat \<Rightarrow> side \<Rightarrow> nat \<Rightarrow> string \<Rightarrow> ('x bench_scheme, unit) action" where
  "verify_acl_one marker_name arrow sender from receiver into msg =
     bind_s (lift_r (encode_ascii (marker_name @ arrow))) (\<lambda>marker.
     bind_s (on_side sender (send_acl from TEST_CID marker)) (\<lambda>_.
     bind_s (on_side receiver (wait_acl_marker_pair into TEST_CID marker 5000000)) (\<lambda>seen.
     if seen then ret () else throw (HciError (marker_name @ msg) []))))"

definition verify_acl_on_phy :: "nat \<Rightarrow> nat \<Rightarrow> string \<Rightarrow> ('x bench_scheme, unit) action" where
  "verify_acl_on_phy c p marker_name =
     bind_s (verify_acl_one marker_name '' central->peripheral'' Central c Peripheral p
               '' central -> peripheral ACL marker not received'') (\<lambda>_.
     verify_acl_one marker_name '' peripheral->central'' Peripheral p Central c
               '' peripheral -> central ACL marker not received'')"

definition run_coded_phy :: "string \<Rightarrow> nat \<Rightarrow> nat \<Rightarrow> nat \<Rightarrow> string \<Rightarrow> ('x bench_scheme, unit) action" where
  "run_coded_phy label c p phy_options option_name =
     (let marker_name = label @ '' Coded '' @ option_name in
     bind_s (on_side Central (request_phy c PHY_CODED_MASK (Some PHY_CODED) phy_options)) (\<lambda>_.
     bind_s (on_side Peripheral (wait_peer_phy p PHY_CODED 5000000)) (\<lambda>_.
     bind_s (on_side Central (read_phy_exact c PHY_CODED)) (\<lambda>_.
     bind_s (on_side Peripheral (read_phy_exact p PHY_CODED)) (\<lambda>_.
     bind_s (verify_acl_on_phy c p marker_name) (\<lambda>_.
     bind_s (write_book (passed ''PHY'' marker_name (''both controllers report Coded + bidirectional ACL'', []))) (\<lambda>_.
     bind_s (on_side Central (request_phy c PHY_1M (Some PHY_1M) 0)) (\<lambda>_.
     bind_s (on_side Peripheral (wait_peer_phy p PHY_1M 5000000)) (\<lambda>_.
     bind_s (on_side Central (read_phy_exact c PHY_1M)) (\<lambda>_.
     on_side Peripheral (read_phy_exact p PHY_1M)))))))))))"

definition run_phy_round_trip :: "string \<Rightarrow> nat \<Rightarrow> nat \<Rightarrow> ('x bench_scheme, unit) action" where
  "run_phy_round_trip label c p =
     bind_s (on_side Peripheral (request_phy p PHY_2M (Some PHY_2M) 0)) (\<lambda>_.
     bind_s (on_side Central (wait_peer_phy c PHY_2M 5000000)) (\<lambda>_.
     bind_s (write_book (passed ''PHY'' (label @ '' peripheral request 2M'') ('''', []))) (\<lambda>_.
     bind_s (on_side Central (request_phy c PHY_1M None 0)) (\<lambda>_.
     bind_s (on_side Peripheral (request_phy p PHY_ALL (Some PHY_1M) 0)) (\<lambda>_.
     bind_s (on_side Central (wait_peer_phy c PHY_1M 5000000)) (\<lambda>_.
     bind_s (on_side Central (read_phy_exact c PHY_1M)) (\<lambda>_.
     bind_s (on_side Peripheral (read_phy_exact p PHY_1M)) (\<lambda>_.
     bind_s (write_book (passed ''PHY'' (label @ '' return to 1M'') ('''', []))) (\<lambda>_.
     bind_s (run_coded_phy label c p 0x0001 ''S=2 preference'') (\<lambda>_.
     run_coded_phy label c p 0x0002 ''S=8 preference''))))))))))"

section \<open>The phase\<close>

definition acl_data_pair :: "string \<Rightarrow> string \<Rightarrow> side \<Rightarrow> nat \<Rightarrow> side \<Rightarrow> nat \<Rightarrow> string \<Rightarrow> (bench, unit) action" where
  "acl_data_pair label arrow sender from receiver into name =
     bind_s (lift_r (encode_ascii (label @ arrow))) (\<lambda>marker.
     bind_s (on_side sender (send_acl from TEST_CID marker)) (\<lambda>_.
     bind_s (on_side receiver (wait_acl_marker_pair into TEST_CID marker 5000000)) (\<lambda>seen.
     if seen then write_book (passed ''ACL data'' (label @ name) ('''', []))
     else write_book (failed ''ACL data'' (label @ name) (''marker not received'', [])))))"

definition check_phy_pair :: "string \<Rightarrow> nat \<Rightarrow> nat \<Rightarrow> (bench, unit) action" where
  "check_phy_pair label c p = or_failed ''PHY'' label (run_phy_round_trip label c p)"

definition check_power_pair :: "string \<Rightarrow> side \<Rightarrow> nat \<Rightarrow> (bench, unit) action" where
  "check_power_pair label sd handle =
     (let sca = label @ '' '' @ side_name sd @ '' request''; power = label @ '' '' @ side_name sd in
      bind_s (or_failed ''SCA'' sca
        (bind_s (on_side sd (request_peer_sca handle)) (\<lambda>v.
           write_book (passed ''SCA'' sca (''peer SCA code %u'', [uint v]))))) (\<lambda>_.
      or_failed ''Power control'' power
        (bind_s (on_side sd (power_control_pair handle)) (\<lambda>_. write_book (passed ''Power control'' power ('''', []))))))"

definition check_path_loss_pair :: "string \<Rightarrow> nat \<Rightarrow> (bench, unit) action" where
  "check_path_loss_pair label c =
     or_failed ''Path loss'' label
       (bind_s (on_side Central (path_loss_monitor c 3000000)) (\<lambda>crossed.
        bind_s (write_book (passed ''Path loss'' (label @ '' configuration'') ('''', []))) (\<lambda>_.
        if crossed then write_book (passed ''Path loss'' (label @ '' threshold event'') ('''', []))
        else write_book (incomplete ''Path loss'' (label @ '' threshold event'')
               (''no path-loss zone crossing was induced'', [])))))"

definition pair_body :: "string \<Rightarrow> (bench, unit) action" where
  "pair_body label =
     bind_s (connect_pair (ret ())) (\<lambda>(c, p).
     bind_s (write_book (passed ''ACL roles'' label (''central 0x%04X / peripheral 0x%04X'', [int c, int p]))) (\<lambda>_.
     bind_s (acl_data_pair label '' central->peripheral'' Central c Peripheral p '' central -> peripheral'') (\<lambda>_.
     bind_s (acl_data_pair label '' peripheral->central'' Peripheral p Central c '' peripheral -> central'') (\<lambda>_.
     bind_s (check_connection label Central c) (\<lambda>_.
     bind_s (check_connection label Peripheral p) (\<lambda>_.
     bind_s (check_data_length label c) (\<lambda>_.
     bind_s (check_phy_pair label c p) (\<lambda>_.
     bind_s (check_power_pair label Central c) (\<lambda>_.
     bind_s (check_power_pair label Peripheral p) (\<lambda>_.
     check_path_loss_pair label c))))))))))"

definition run_connected_feature_phase_pair :: "string \<Rightarrow> (bench, unit) action" where
  "run_connected_feature_phase_pair label =
     bind_s (modify_s (\<lambda>b. b\<lparr>bn_handles := None\<rparr>)) (\<lambda>_.
     finally_s (or_failed_setup ''Connection'' (label @ '' setup'') (pair_body label)) disconnect_handles)"

section \<open>What the phase records\<close>

lemma records_verify: "records [] (verify_acl_on_phy c p marker_name)"
  unfolding verify_acl_on_phy_def verify_acl_one_def
  by (intro records_first [OF records_ret(2)] records_first [OF records_pair(2)] records_first records_if records_ret)

interpretation coded: records "[(''PHY'', label @ '' Coded '' @ option_name)]" "run_coded_phy label c p phy_options option_name"
  for label c p phy_options option_name
  unfolding run_coded_phy_def Let_def
  by (intro records_first [OF records_pair(2)] records_first [OF records_verify] records_one [OF records_write(1)] records_pair(2))

text \<open>The rows of the PHY part and of the whole phase.\<close>

definition phy_rows :: "string \<Rightarrow> (string \<times> string) list" where
  "phy_rows label = [(''PHY'', label @ '' peripheral request 2M''), (''PHY'', label @ '' return to 1M''),
     (''PHY'', label @ '' Coded '' @ ''S=2 preference''), (''PHY'', label @ '' Coded '' @ ''S=8 preference'')]"

definition pair_rows :: "string \<Rightarrow> (string \<times> string) list" where
  "pair_rows label =
     [(''ACL roles'', label), (''ACL data'', label @ '' central -> peripheral''),
      (''ACL data'', label @ '' peripheral -> central''),
      (''Connection'', label @ '' Central RSSI''), (''Connection'', label @ '' Central remote features''),
      (''Connection'', label @ '' Peripheral RSSI''), (''Connection'', label @ '' Peripheral remote features''),
      (''DLE'', label)] @ phy_rows label @
     [(''SCA'', label @ '' Central request''), (''Power control'', label @ '' Central''),
      (''SCA'', label @ '' Peripheral request''), (''Power control'', label @ '' Peripheral''),
      (''Path loss'', label @ '' configuration''), (''Path loss'', label @ '' threshold event'')]"

interpretation phy_pair: records "phy_rows label" "check_phy_pair label c p" for label c p
  unfolding check_phy_pair_def run_phy_round_trip_def phy_rows_def
  by (intro records_or_failed records_first [OF records_pair(2)] records_one [OF records_write(1)]
      records_one [OF coded.records_axioms] coded.records_axioms)

interpretation acl_pair: records "[(''ACL data'', label @ name)]" "acl_data_pair label arrow sender from receiver into name"
  for label arrow sender "from" receiver into name
  unfolding acl_data_pair_def by (intro records_first [OF records_ret(2)] records_first [OF records_pair(2)] step_intros)

interpretation power_pair: records
  "[(''SCA'', label @ '' '' @ side_name sd @ '' request''), (''Power control'', label @ '' '' @ side_name sd)]"
  "check_power_pair label sd handle" for label sd handle
  unfolding check_power_pair_def Let_def by (intro records_one records_first [OF records_pair(2)] step_intros)

interpretation loss_pair: records "[(''Path loss'', label @ '' configuration''), (''Path loss'', label @ '' threshold event'')]"
  "check_path_loss_pair label c" for label c
  unfolding check_path_loss_pair_def
  by (intro records_or_failed records_first [OF records_pair(2)] records_one [OF records_write(1)] records_if records_write)

lemma records_more: "records ns m \<Longrightarrow> (\<And>x. records ms (f x)) \<Longrightarrow> records (ns @ ms) (bind_s m f)"
  by (rule records_bind)

lemma pair_body_records: "records (pair_rows label) (pair_body label)"
  unfolding pair_body_def pair_rows_def append_Cons append_Nil
  using conn_check.records_axioms [of label Central] conn_check.records_axioms [of label Peripheral]
    power_pair.records_axioms [of label Central] power_pair.records_axioms [of label Peripheral]
  by (intro records_first [OF connect.records_axioms] records_if(2) records_one [OF records_write(1)]
      records_one [OF acl_pair.records_axioms] records_two records_one [OF dle.records_axioms]
      records_bind [OF phy_pair.records_axioms] loss_pair.records_axioms) (simp_all add: side_name_def)

interpretation pair_phase: records "pair_rows label" "run_connected_feature_phase_pair label" for label
  unfolding run_connected_feature_phase_pair_def
  by (intro records_first records_finally records_or_failed pair_body_records book_disconnect)
    (simp add: records_modify)

lemma polite_pair_phase: "polite (run_connected_feature_phase_pair label)"
  unfolding run_connected_feature_phase_pair_def
  by (intro polite_bind polite_finally polite_ret polite_disconnect)

text \<open>The verdict of the phase of the release pair: as for the other phase, with the rows of this one.\<close>

lemma pair_phase_verdict:
  "case run_connected_feature_phase_pair label b of
     (Inl e, b') \<Rightarrow> \<not> is_HciError e \<and> \<not> is_HciGone e \<and> (\<exists>rows. bn_book b' = bn_book b @ rows)
   | (Inr _, b') \<Rightarrow> \<exists>rows. bn_book b' = bn_book b @ rows \<and>
       (if has_failures rows then exit_code (bn_book b') = 1 else map key rows = pair_rows label)"
  by (rule pair_phase.verdict [OF polite_pair_phase])

section \<open>Data on the coded PHY\<close>

definition heard_phy :: "packet multiset \<Rightarrow> nat \<Rightarrow> byte \<Rightarrow> bool" where
  "heard_phy ps hnd phy \<longleftrightarrow> heard_event ps 0x0C (\<lambda>e. e ! 1 = 0 \<and> from_le (pslice 2 4 e) mod 4096 = hnd \<and> e ! 4 = phy \<and> e ! 5 = phy)"

definition heard_frame :: "packet multiset \<Rightarrow> nat \<Rightarrow> nat \<Rightarrow> bytes \<Rightarrow> bool" where
  "heard_frame ps hnd cid load \<longleftrightarrow> (\<exists>frame data. frame_of hnd frame data \<and> marker_in cid load data \<and> mset frame \<subseteq># ps)"

lemma received_frame: "received I (wait_acl_marker_pair hnd cid load timeout) True \<Longrightarrow> heard_frame I hnd cid load"
proof -
  assume "received I (wait_acl_marker_pair hnd cid load timeout) True"
  then obtain h h' where h: "inbox h \<subseteq># I" "wait_acl_marker_pair hnd cid load timeout h = (Inr True, h')"
    by (auto simp: received_def)
  then obtain frame data where "frame_of hnd frame data" "marker_in cid load data" "inbox h = mset frame + inbox h'"
    using acl_marker_taken [where hnd = hnd and cid = cid and load = load and timeout = timeout and h = h] by auto
  then show ?thesis using h(1) unfolding heard_frame_def by (metis mset_subset_eq_add_left subset_mset.order_trans)
qed

lemma reader_sleep: "reader inbox (sleep t)"
  by (rule readerI) (auto simp: sleep_def inbox_def)

interpretation retrying: reader inbox "command_status_retry opcode block retries delay" for opcode block retries delay
proof (induction retries)
  case (Suc retries)
  then show ?case unfolding command_status_retry.simps by (intro reader_steps reader_sleep)
qed (simp add: reader_request)

interpretation phy_request: reader inbox "request_phy handle phy expected options" for handle phy expected options
  unfolding request_phy_def by (intro reader_steps retrying.reader_axioms)

interpretation phy_peer: reader inbox "wait_peer_phy handle phy timeout" for handle phy timeout
  unfolding wait_peer_phy_def by (intro reader_steps)

interpretation phy_exact: reader inbox "read_phy_exact handle phy" for handle phy
  unfolding read_phy_exact_def by (intro reader_steps)

interpretation acl_send: reader inbox "send_acl handle cid payload" for handle cid payload
proof (rule readerI)
  fix h r h' assume "send_acl handle cid payload h = (r, h')"
  then have "inbox h' = inbox h"
    by (auto simp: send_acl_def bind_s_def hci_write_packet_def inbox_def Let_def
        split: list.splits option.splits sum.splits prod.splits)
  then show "inbox h' \<subseteq># inbox h" by simp
qed

lemma received_phy:
  assumes "received I (request_phy hnd phy (Some e) options) x"
  shows "heard_phy I hnd e"
proof -
  from assms [unfolded request_phy_def] obtain s where "received I
      (bind_s (required ''no successful PHY Update Complete event'' []
               (wait_le_subevent 0x0C (Some hnd) (Some 2) (\<lambda>event. 6 \<le> length event \<and> event ! 1 = 0) 5000000)) (\<lambda>body.
        if body ! 4 \<noteq> e \<or> body ! 5 \<noteq> e
         then throw (HciError ''PHY Update Complete reports tx %u rx %u, expected %u'' [unat (body ! 4), unat (body ! 5), unat e])
         else ret (body ! 4, body ! 5))) x"
    by (rule received_bind [OF _ retrying.reader_axioms]) (auto simp: received_def split: if_splits prod.splits)
  then obtain body where b: "received I (required ''no successful PHY Update Complete event'' []
               (wait_le_subevent 0x0C (Some hnd) (Some 2) (\<lambda>event. 6 \<le> length event \<and> event ! 1 = 0) 5000000)) body"
    "body ! 4 = e" "body ! 5 = e"
    by (rule received_bind [OF _ reader_required [OF reader_subevent]]) (auto simp: received_def split: if_splits)
  from received_subevent [OF b(1)] b(2,3) show ?thesis unfolding heard_phy_def heard_event_def by fastforce
qed

lemma received_peer_phy:
  assumes "received I (wait_peer_phy hnd phy timeout) x"
  shows "heard_phy I hnd phy"
proof -
  from assms [unfolded wait_peer_phy_def] obtain body where b: "received I (required ''peer did not report PHY %u update'' [unat phy]
       (wait_le_subevent 0x0C (Some hnd) (Some 2)
          (\<lambda>event. 6 \<le> length event \<and> event ! 1 = 0 \<and> event ! 4 = phy \<and> event ! 5 = phy) timeout)) body"
    by (rule received_bind [OF _ reader_required [OF reader_subevent]])
  from received_subevent [OF b] show ?thesis unfolding heard_phy_def heard_event_def by fastforce
qed

text \<open>Both directions of the data check.\<close>

definition heard_both :: "packet multiset \<Rightarrow> packet multiset \<Rightarrow> nat \<Rightarrow> nat \<Rightarrow> string \<Rightarrow> bool" where
  "heard_both I J c p name \<longleftrightarrow> (\<exists>to_p to_c.
     encode_ascii (name @ '' central->peripheral'') = Inr to_p \<and> heard_frame J p TEST_CID to_p \<and>
     encode_ascii (name @ '' peripheral->central'') = Inr to_c \<and> heard_frame I c TEST_CID to_c)"

lemma verify_yields:
  "yields (within I J) (verify_acl_on_phy c p name) (\<lambda>_ b. within I J b \<and> heard_both I J c p name)"
proof -
  have to_p: "yields (within I J) (verify_acl_one name arrow Central c Peripheral p msg)
      (\<lambda>_ b. within I J b \<and> (\<exists>m. encode_ascii (name @ arrow) = Inr m \<and> heard_frame J p TEST_CID m))" for arrow msg
    unfolding verify_acl_one_def
    by (intro step_lift step_central step_peripheral yields_cases yields_throw acl_send.reader_axioms acl_marker.reader_axioms
        yields_ret [where F = "\<lambda>_. \<exists>m. encode_ascii (name @ arrow) = Inr m \<and> heard_frame J p TEST_CID m"])
      (auto dest: received_frame)
  have to_c: "yields (within I J) (verify_acl_one name arrow Peripheral p Central c msg)
      (\<lambda>_ b. within I J b \<and> (\<exists>m. encode_ascii (name @ arrow) = Inr m \<and> heard_frame I c TEST_CID m))" for arrow msg
    unfolding verify_acl_one_def
    by (intro step_lift step_central step_peripheral yields_cases yields_throw acl_send.reader_axioms acl_marker.reader_axioms
        yields_ret [where F = "\<lambda>_. \<exists>m. encode_ascii (name @ arrow) = Inr m \<and> heard_frame I c TEST_CID m"])
      (auto dest: received_frame)
  show ?thesis unfolding verify_acl_on_phy_def
    by (rule yields_call [OF to_p], rule yieldsI, drule (1) yieldsD [OF to_c]) (auto simp: heard_both_def)
qed

definition coded_evidence :: "packet multiset \<Rightarrow> packet multiset \<Rightarrow> nat \<Rightarrow> nat \<Rightarrow> string \<Rightarrow> bool" where
  "coded_evidence I J c p name \<longleftrightarrow> heard_phy I c PHY_CODED \<and> heard_phy J p PHY_CODED \<and> heard_both I J c p name \<and>
     heard_phy I c PHY_1M \<and> heard_phy J p PHY_1M"

lemma coded_yields:
  "yields (within I J) (run_coded_phy label c p options option_name)
     (\<lambda>_ _. coded_evidence I J c p (label @ '' Coded '' @ option_name))"
proof -
  have last: "E \<Longrightarrow> yields (within I J) (on_side sd m) (\<lambda>_ _. E)" for E sd and m :: "(hci, unit) action"
    by (simp add: yields_def)
  show ?thesis unfolding run_coded_phy_def Let_def write_book_def
    by (intro step_central step_peripheral step_modify yields_call [OF verify_yields] last
        phy_request.reader_axioms phy_peer.reader_axioms phy_exact.reader_axioms)
      (auto simp: coded_evidence_def dest: received_phy received_peer_phy)
qed

text \<open>A coded PHY check that returns rests on both controllers: each reported the change to the coded PHY
  on its connection, each received the reassembled marker of the other while it was in use, and each
  reported the change back.\<close>

lemma coded_phy_confirmed:
  "case run_coded_phy label c p options option_name b of
     (Inl _, b') \<Rightarrow> \<exists>rows. bn_book b' = bn_book b @ rows
   | (Inr _, b') \<Rightarrow> (\<exists>rows. bn_book b' = bn_book b @ rows \<and>
         (if has_failures rows then exit_code (bn_book b') = 1 else map key rows = [(''PHY'', label @ '' Coded '' @ option_name)])) \<and>
       coded_evidence (scan_inbox b) (adv_inbox b) c p (label @ '' Coded '' @ option_name)"
proof -
  obtain r b' where run: "run_coded_phy label c p options option_name b = (r, b')" by (metis surj_pair)
  show ?thesis
  proof (cases r)
    case (Inl e)
    with coded.recorded [OF run] run show ?thesis by (auto simp: recorded_def)
  next
    case (Inr u)
    with coded.recorded [OF run] obtain rows where "bn_book b' = bn_book b @ rows"
      "has_failures rows \<or> map key rows = [(''PHY'', label @ '' Coded '' @ option_name)]" by (auto simp: recorded_def)
    with yieldsD [OF coded_yields within_self] run Inr show ?thesis by (auto simp: exit_code_def release_passed_def)
  qed
qed

end
