(* ===== verification/Recovery_Phase.thy ===== *)
theory Recovery_Phase
  imports Periodic_Phases Pair_Phases
begin

text \<open>
  \<open>python/hcicontroller/recovery_features.py\<close>: both controllers are reset while a periodic train and
  its synchronization are active, and have to recover. On the bench the scanner is the central side and
  the advertiser the peripheral side; the connection at the end is made the other way round. A pass is
  shown to rest on events that are all different: three synchronizations, a report on each, and the loss
  of the second one.
\<close>

section \<open>The phase\<close>

abbreviation (input) LE_PERIODIC_SYNC_LOST :: byte where "LE_PERIODIC_SYNC_LOST \<equiv> 0x10"
abbreviation (input) RECOVERY_CID :: nat where "RECOVERY_CID \<equiv> 0x0040"

definition RECOVERY_MARKER :: bytes where
  "RECOVERY_MARKER = map of_char ''HCI recovery ACL''"

text \<open>The name of the step that runs, for the message of a failure.\<close>

record recovery_bench = sync_bench +
  rb_step :: string

definition at_step :: "string \<Rightarrow> ('x recovery_bench_scheme, unit) action" where
  "at_step s = modify_s (\<lambda>b. b\<lparr>rb_step := s\<rparr>)"

definition sync_once :: "bytes \<Rightarrow> byte \<Rightarrow> ('x bench_scheme, nat) action" where
  "sync_once adv_id adv_type =
     bind_s (on_side Central (create_periodic_sync adv_id adv_type ADV_SID_PERIODIC False)) (\<lambda>_.
     bind_s (on_side Central (wait_sync_established None 10000000 False False)) (\<lambda>(sync, _).
     bind_s (on_side Central (wait_periodic_report sync PERIODIC_MARKER 8000000 False)) (\<lambda>_.
     ret sync)))"

definition sync_lost_judge :: "nat \<Rightarrow> packet \<Rightarrow> unit result sorted_out" where
  "sync_lost_judge sync_handle p =
     (case p of (kind, code, body) \<Rightarrow>
        if kind = H4_EVENT \<and> code = Some EVT_LE_META \<and> 3 \<le> length body \<and> body ! 0 = LE_PERIODIC_SYNC_LOST \<and>
           from_le (pslice 1 3 body) AND 0x0FFF = sync_handle
        then Stop (Inr ()) else Keep)"

definition wait_sync_lost :: "nat \<Rightarrow> nat \<Rightarrow> (hci, unit) action" where
  "wait_sync_lost sync_handle timeout =
     sift_or ''timed out waiting for Periodic Advertising Sync Lost'' (sync_lost_judge sync_handle) timeout"

text \<open>A procedure of both controllers with their roles exchanged.\<close>

definition crossed :: "(pair, 'a) action \<Rightarrow> (pair, 'a) action" where
  "crossed m s = (case m (prod.swap s) of (r, s') \<Rightarrow> (r, prod.swap s'))"

definition recovery_acl :: "string \<Rightarrow> ('x recovery_bench_scheme, unit) action" where
  "recovery_acl label =
     bind_s (at_step ''ACL recovery after advanced-state resets'') (\<lambda>_.
     bind_s (on_side Central (prepare_controller DEFAULT_LE_EVENT_MASK)) (\<lambda>(peripheral_id, peripheral_type, _).
     bind_s (on_side Peripheral (prepare_controller DEFAULT_LE_EVENT_MASK)) (\<lambda>(_, central_type, _).
     bind_s (on_side Central (start_legacy_advertising peripheral_type True)) (\<lambda>_.
     bind_s (on_side Peripheral (start_legacy_connection central_type peripheral_id peripheral_type)) (\<lambda>_.
     bind_s (on_pair (crossed (wait_acl_pair 10000000))) (\<lambda>(central_handle, peripheral_handle).
     bind_s (modify_s (\<lambda>b. b\<lparr>bn_handles := Some (central_handle, peripheral_handle)\<rparr>)) (\<lambda>_.
     bind_s (on_side Peripheral (send_acl central_handle RECOVERY_CID RECOVERY_MARKER)) (\<lambda>_.
     bind_s (on_side Central (wait_acl_marker_pair peripheral_handle RECOVERY_CID RECOVERY_MARKER 5000000)) (\<lambda>seen.
     if \<not> seen then throw (HciError ''ACL marker missing after advanced-state recovery'' [])
     else write_book (passed ''Recovery'' ''reset/reconnect after active advanced procedures''
            (label @ '' scanner reset + advertiser reset + ACL recovery'', [])))))))))))"

definition recovery_body :: "string \<Rightarrow> ('x recovery_bench_scheme, unit) action" where
  "recovery_body label =
     bind_s (on_side Peripheral (prepare_controller DEFAULT_LE_EVENT_MASK)) (\<lambda>(adv_id, adv_type, _).
     bind_s (on_side Central (prepare_controller DEFAULT_LE_EVENT_MASK)) (\<lambda>_.
     bind_s (on_side Peripheral (configure_periodic adv_type PERIODIC_MARKER)) (\<lambda>_.
     bind_s (on_side Peripheral start_periodic) (\<lambda>_.
     bind_s (sync_once adv_id adv_type) (\<lambda>sync_handle.
     bind_s (keep_sync (Some sync_handle)) (\<lambda>_.
     bind_s (at_step ''periodic sync after scanner reset'') (\<lambda>_.
     bind_s (on_side Central (prepare_controller DEFAULT_LE_EVENT_MASK)) (\<lambda>_.
     bind_s (keep_sync None) (\<lambda>_.
     bind_s (sync_once adv_id adv_type) (\<lambda>old_sync.
     bind_s (keep_sync (Some old_sync)) (\<lambda>_.
     bind_s (at_step ''periodic sync lost after advertiser reset'') (\<lambda>_.
     bind_s (on_side Peripheral (prepare_controller DEFAULT_LE_EVENT_MASK)) (\<lambda>(adv_id, adv_type, _).
     bind_s (on_side Central (wait_sync_lost old_sync 7000000)) (\<lambda>_.
     bind_s (keep_sync None) (\<lambda>_.
     bind_s (at_step ''periodic sync after advertiser reset'') (\<lambda>_.
     bind_s (on_side Peripheral (configure_periodic adv_type PERIODIC_MARKER)) (\<lambda>_.
     bind_s (on_side Peripheral start_periodic) (\<lambda>_.
     bind_s (sync_once adv_id adv_type) (\<lambda>sync_handle.
     bind_s (keep_sync (Some sync_handle)) (\<lambda>_.
     bind_s (on_side Central (terminate_sync sync_handle)) (\<lambda>_.
     bind_s (keep_sync None) (\<lambda>_.
     bind_s (on_side Peripheral stop_periodic) (\<lambda>_.
     recovery_acl label)))))))))))))))))))))))"

definition disconnect_crossed :: "('x bench_scheme, unit) action" where
  "disconnect_crossed = with_s (\<lambda>b. case bn_handles b of None \<Rightarrow> ret ()
     | Some (c, p) \<Rightarrow> on_pair (crossed (disconnect_acl_pair (Some c) (Some p))))"

definition step_detail :: "'x recovery_bench_scheme \<Rightarrow> exn \<Rightarrow> detail" where
  "step_detail b e = (rb_step b @ '': '' @ fst (error_detail e), snd (error_detail e))"

definition run_recovery_phase :: "string \<Rightarrow> ('x recovery_bench_scheme, unit) action" where
  "run_recovery_phase label =
     bind_s (modify_s (\<lambda>b. b\<lparr>bn_handles := None, sb_sync := None, rb_step := ''initial periodic sync''\<rparr>)) (\<lambda>_.
     finally_s (failing engine_error step_detail ''Recovery'' ''reset/reconnect after active advanced procedures'' (recovery_body label))
       (bind_s disconnect_crossed (\<lambda>_. bind_s drop_sync (\<lambda>_. on_side Peripheral stop_periodic))))"

section \<open>Packets that are used up\<close>

text \<open>A procedure that takes the packets \<open>T\<close> for good, so that nothing later can rest on them again.\<close>

definition takes :: "(hci, 'a) action \<Rightarrow> ('a \<Rightarrow> packet multiset \<Rightarrow> bool) \<Rightarrow> bool" where
  "takes m F \<longleftrightarrow> (\<forall>h x h'. m h = (Inr x, h') \<longrightarrow> (\<exists>T. F x T \<and> T + inbox h' \<subseteq># inbox h))"

lemma takesI: "(\<And>h x h'. m h = (Inr x, h') \<Longrightarrow> \<exists>T. F x T \<and> T + inbox h' \<subseteq># inbox h) \<Longrightarrow> takes m F"
  unfolding takes_def by blast

lemma mset_takeD:
  assumes "T + A \<subseteq># I"
  shows "T \<subseteq># I" "A \<subseteq># I - T"
proof -
  have "count T p + count A p \<le> count I p" for p using mset_subset_eq_count [OF assms, of p] by simp
  then have "count T p \<le> count I p" "count A p \<le> count I p - count T p" for p by (metis add_leD1, metis add.commute add_le_imp_le_diff)
  then show "T \<subseteq># I" "A \<subseteq># I - T" by (simp_all add: subseteq_mset_def)
qed

lemma step_takes:
  assumes m: "takes m F" "reader inbox m"
    and f: "\<And>x T. F x T \<Longrightarrow> T \<subseteq># I \<Longrightarrow> yields (within (I - T) J) (f x) Q"
  shows "yields (within I J) (bind_s (on_side Central m) f) Q"
proof (rule yieldsI)
  fix b y b' assume w: "within I J b" and run: "bind_s (on_side Central m) f b = (Inr y, b')"
  obtain x b1 where x: "on_side Central m b = (Inr x, b1)" "f x b1 = (Inr y, b')" using run by (auto simp: bind_s_Inr_iff)
  obtain h1 where h1: "m (fst (bn_pair b)) = (Inr x, h1)" "scan_inbox b1 = inbox h1"
    using x(1) by (auto simp: on_side_def on_pair_def on_central_def split: prod.splits)
  obtain T where T: "F x T" "T + inbox h1 \<subseteq># scan_inbox b" using m(1) h1(1) unfolding takes_def by blast
  have all: "T + inbox h1 \<subseteq># I" using T(2) w unfolding within_def by (blast intro: subset_mset.order_trans)
  then have "T \<subseteq># I" "inbox h1 \<subseteq># I - T" by (rule mset_takeD)+
  moreover have "adv_inbox b1 \<subseteq># J"
    using reader.takes [OF reader_side(2) [OF m(2)] x(1)] w unfolding within_def by (blast intro: subset_mset.order_trans)
  ultimately have "within (I - T) J b1" using h1(2) by (simp add: within_def)
  from yieldsD [OF f [OF T(1) \<open>T \<subseteq># I\<close>] this x(2)] show "Q y b'" .
qed

lemma takes_sift_or: "takes (sift_or msg judge timeout) (\<lambda>x T. \<exists>p. T = {#p#} \<and> judge p = Stop (Inr x))"
proof (rule takesI)
  fix h x h' assume "sift_or msg judge timeout h = (Inr x, h')"
  then obtain ds h1 where s: "sift judge (clock h + timeout) [] h = (Inr (Some (Inr x), ds), h1)" "h' = restore ds h1"
    by (auto simp: sift_or_def bind_s_Inr_iff lift_r_def put_back_def split: option.splits)
  obtain dropped p where "inbox h = mset ds + mset dropped + {#p#} + inbox h1" "judge p = Stop (Inr x)"
    using sift_end [OF s(1)] by (auto simp: sifted_def)
  then show "\<exists>T. (\<exists>p. T = {#p#} \<and> judge p = Stop (Inr x)) \<and> T + inbox h' \<subseteq># inbox h"
    by (intro exI [of _ "{#p#}"]) (auto simp: s(2) inbox_def ac_simps)
qed

lemma takes_weaken: "takes m F \<Longrightarrow> (\<And>x T. F x T \<Longrightarrow> G x T) \<Longrightarrow> takes m G"
  unfolding takes_def by blast

text \<open>The events of the train, as the scanner receives them.\<close>

definition sync_event :: "nat \<Rightarrow> bytes \<Rightarrow> bool" where
  "sync_event hnd body \<longleftrightarrow> sync_established_source body \<noteq> None \<and> body ! 1 = 0 \<and> hnd = from_le (pslice 2 4 body) mod 4096"

definition marker_event :: "nat \<Rightarrow> bytes \<Rightarrow> bool" where
  "marker_event hnd body \<longleftrightarrow> (\<exists>counter subevent data.
     periodic_report_data body = Some (hnd, counter, subevent, data) \<and> contains PERIODIC_MARKER data)"

definition lost_event :: "nat \<Rightarrow> bytes \<Rightarrow> bool" where
  "lost_event hnd body \<longleftrightarrow> 3 \<le> length body \<and> body ! 0 = LE_PERIODIC_SYNC_LOST \<and> from_le (pslice 1 3 body) mod 4096 = hnd"

lemma takes_sync:
  "takes (wait_sync_established None timeout False False) (\<lambda>(hnd, _) T. \<exists>e. T = {#meta e#} \<and> sync_event hnd e)"
proof (rule takesI)
  fix h x h' assume run: "wait_sync_established None timeout False False h = (Inr x, h')"
  let ?J = "sync_judge None False"
  obtain found ds h1 where s: "sift ?J (clock h + timeout) [] h = (Inr (found, ds), h1)"
    using run by (auto simp: wait_sync_established_def bind_s_Inr_iff)
  obtain body h2 u where f: "found = Some (Some body)" "body ! 1 = 0" "x = (from_le (pslice 2 4 body) mod 4096, body)"
    "set_sync_scan False True h1 = (Inr u, h2)" "h' = restore ds h2"
    using run s by (auto simp: wait_sync_established_def bind_s_Inr_iff put_back_def split: option.splits if_splits)
  obtain dropped p where p: "inbox h = mset ds + mset dropped + {#p#} + inbox h1" "?J p = Stop (Some body)"
    using sift_end [OF s [unfolded f(1)]] by (auto simp: sifted_def)
  have e: "p = meta body" "sync_established_source body \<noteq> None"
    using p(2) by (cases p; auto simp: sync_judge_def split: if_splits option.splits)+
  have "inbox h2 \<subseteq># inbox h1" using reader.takes [OF sync_scan.reader_axioms f(4)] .
  then have "{#p#} + inbox h' \<subseteq># inbox h" unfolding p(1) f(5)
    by (auto simp: inbox_def ac_simps intro: subset_mset.add_increasing)
  then show "\<exists>T. (case x of (hnd, _) \<Rightarrow> \<lambda>T. \<exists>e. T = {#meta e#} \<and> sync_event hnd e) T \<and> T + inbox h' \<subseteq># inbox h"
    using e f(2,3) unfolding sync_event_def by (intro exI [of _ "{#p#}"]) auto
qed

lemma takes_report:
  "takes (wait_periodic_report hnd PERIODIC_MARKER timeout False) (\<lambda>_ T. \<exists>e. T = {#meta e#} \<and> marker_event hnd e)"
  unfolding wait_periodic_report_def marker_event_def
  by (rule takes_weaken [OF takes_sift_or]) (auto simp: periodic_report_judge_def split: if_splits option.splits)

lemma takes_lost: "takes (wait_sync_lost hnd timeout) (\<lambda>_ T. \<exists>e. T = {#meta e#} \<and> lost_event hnd e)"
  unfolding wait_sync_lost_def lost_event_def
  by (rule takes_weaken [OF takes_sift_or]) (auto simp: sync_lost_judge_def split: if_splits)

section \<open>What a pass rests on\<close>

lemma step_once:
  assumes "\<And>hnd e r. sync_event hnd e \<Longrightarrow> marker_event hnd r \<Longrightarrow> {#meta e, meta r#} \<subseteq># I \<Longrightarrow>
    yields (within (I - {#meta e, meta r#}) J) (f hnd) Q"
  shows "yields (within I J) (bind_s (sync_once adv_id adv_type) f) Q"
proof (rule yields_bind)
  let ?R = "\<lambda>hnd s. \<exists>e r. sync_event hnd e \<and> marker_event hnd r \<and> {#meta e, meta r#} \<subseteq># I \<and> within (I - {#meta e, meta r#}) J s"
  show "yields (within I J) (sync_once adv_id adv_type) ?R"
    unfolding sync_once_def
  proof (intro step_central [OF sync_create.reader_axioms] step_takes [OF takes_sync sync_wait.reader_axioms] yields_cases
      step_takes [OF takes_report per_report.reader_axioms])
    fix z :: "nat \<times> bytes" and T hnd body T' and u :: "nat \<times> nat option \<times> byte option \<times> bytes"
    assume z: "(case z of (hnd, _) \<Rightarrow> \<lambda>T. \<exists>e. T = {#meta e#} \<and> sync_event hnd e) T" "T \<subseteq># I" "z = (hnd, body)"
      and T': "\<exists>e. T' = {#meta e#} \<and> marker_event hnd e" "T' \<subseteq># I - T"
    then obtain e r where er: "T = {#meta e#}" "sync_event hnd e" "T' = {#meta r#}" "marker_event hnd r" by auto
    have "T + T' \<subseteq># I" using z(2) T'(2) by (metis add.commute subset_mset.le_diff_conv2)
    moreover have "I - T - T' = I - (T + T')" by simp
    ultimately have "?R hnd s" if "within (I - T - T') J s" for s
      using that er by (intro exI [of _ e] exI [of _ r]) (simp add: add_mset_commute)
    then show "yields (within (I - T - T') J) (ret hnd) ?R" by (auto simp: yields_def simp del: split_paired_Ex)
  qed
  show "yields (?R hnd) (f hnd) Q" for hnd using assms unfolding yields_def by blast
qed

lemma step_crossed:
  assumes "\<And>c p. connected_as 0 c J \<Longrightarrow> connected_as 1 p I \<Longrightarrow> yields (within I J) (f (c, p)) Q"
  shows "yields (within I J) (bind_s (on_pair (crossed (wait_acl_pair timeout))) f) Q"
proof (rule yieldsI)
  fix b y b' assume w: "within I J b" and run: "bind_s (on_pair (crossed (wait_acl_pair timeout))) f b = (Inr y, b')"
  then obtain c p s' where s': "wait_acl_pair timeout (prod.swap (bn_pair b)) = (Inr (c, p), s')"
    "f (c, p) (b\<lparr>bn_pair := prod.swap s'\<rparr>) = (Inr y, b')"
    by (auto simp: bind_s_Inr_iff on_pair_def crossed_def split: prod.splits)
  note heard = wait_acl_pair_heard [OF s'(1)]
  from w heard(1,2) have "within I J (b\<lparr>bn_pair := prod.swap s'\<rparr>)"
    by (auto simp: within_def prod.swap_def intro: subset_mset.order_trans)
  moreover from w heard(3,4) have "connected_as 0 c J" "connected_as 1 p I"
    by (auto simp: within_def prod.swap_def intro: connected_as_mono)
  ultimately show "Q y b'" using yieldsD [OF assms] s'(2) by blast
qed

definition recovery_evidence :: "'x bench_scheme \<Rightarrow> bool" where
  "recovery_evidence b \<longleftrightarrow> (\<exists>e1 r1 e2 r2 lost e3 r3 hnd1 hnd2 hnd3 c p.
     {#meta e1, meta r1#} + {#meta e2, meta r2#} + {#meta lost#} + {#meta e3, meta r3#} \<subseteq># scan_inbox b \<and>
     sync_event hnd1 e1 \<and> marker_event hnd1 r1 \<and> sync_event hnd2 e2 \<and> marker_event hnd2 r2 \<and>
     lost_event hnd2 lost \<and> sync_event hnd3 e3 \<and> marker_event hnd3 r3 \<and>
     connected_as 0 c (adv_inbox b) \<and> connected_as 1 p (scan_inbox b) \<and>
     heard_frame (scan_inbox b) p RECOVERY_CID RECOVERY_MARKER)"

lemma acl_yields:
  "yields (within I J) (recovery_acl label) (\<lambda>_ _. \<exists>c p. connected_as 0 c J \<and> connected_as 1 p I \<and>
     heard_frame I p RECOVERY_CID RECOVERY_MARKER)"
  unfolding recovery_acl_def at_step_def
proof (intro step_central step_peripheral step_modify step_crossed yields_cases yields_write yields_throw
    prepares.reader_axioms legacy_adv.reader_axioms legacy_conn.reader_axioms acl_send.reader_axioms acl_marker.reader_axioms)
qed (auto dest: received_frame)

lemma heard_frame_mono: "heard_frame I hnd cid load \<Longrightarrow> I \<subseteq># I' \<Longrightarrow> heard_frame I' hnd cid load"
  unfolding heard_frame_def by (blast intro: subset_mset.order_trans)

lemma reader_terminate: "reader inbox (terminate_sync hnd)"
  unfolding terminate_sync_def by (intro reader_steps reader_quietly)

lemma reader_lost: "reader inbox (wait_sync_lost hnd timeout)"
  unfolding wait_sync_lost_def by (rule reader_sift_or)

text \<open>Three bites out of the inbox, one after the other.\<close>

lemma mset_bites:
  assumes "A \<subseteq># I" "B \<subseteq># I - A" "C \<subseteq># I - A - B" "D \<subseteq># I - A - B - C"
  shows "A + B + C + D \<subseteq># I"
proof -
  have "A + B \<subseteq># I" using assms(1,2) by (metis add.commute subset_mset.le_diff_conv2)
  moreover from this have "A + B + C \<subseteq># I" using assms(3) by (metis add.commute diff_diff_add_mset subset_mset.le_diff_conv2)
  ultimately show ?thesis using assms(4) by (metis add.commute diff_diff_add_mset subset_mset.le_diff_conv2)
qed

lemma recovery_body_yields: "yields (\<lambda>s. s = b) (recovery_body label) (\<lambda>_ _. recovery_evidence b)"
  unfolding recovery_body_def keep_sync_def at_step_def
proof (intro yields_start step_once step_takes [OF takes_lost reader_lost] step_central step_peripheral step_modify yields_cases
    prepares.reader_axioms per_conf.reader_axioms per_start.reader_axioms per_stop.reader_axioms reader_terminate)
  let ?I = "scan_inbox b"
  fix hnd1 e1 r1 hnd2 e2 r2 T hnd3 e3 r3
  assume s1: "sync_event hnd1 e1" "marker_event hnd1 r1" "{#meta e1, meta r1#} \<subseteq># ?I"
    and s2: "sync_event hnd2 e2" "marker_event hnd2 r2" "{#meta e2, meta r2#} \<subseteq># ?I - {#meta e1, meta r1#}"
    and lost: "\<exists>e. T = {#meta e#} \<and> lost_event hnd2 e" "T \<subseteq># ?I - {#meta e1, meta r1#} - {#meta e2, meta r2#}"
    and s3: "sync_event hnd3 e3" "marker_event hnd3 r3"
      "{#meta e3, meta r3#} \<subseteq># ?I - {#meta e1, meta r1#} - {#meta e2, meta r2#} - T"
  let ?L = "?I - {#meta e1, meta r1#} - {#meta e2, meta r2#} - T - {#meta e3, meta r3#}"
  have L: "?L \<subseteq># ?I" by (intro subset_mset.order_trans [OF diff_subset_eq_self] subset_mset.order_refl)
  obtain e where e: "T = {#meta e#}" "lost_event hnd2 e" using lost(1) by blast
  note bites = mset_bites [OF s1(3) s2(3) lost(2) s3(3)]
  have "yields (within ?L (adv_inbox b)) (recovery_acl label) (\<lambda>_ _. \<exists>c p. connected_as 0 c (adv_inbox b) \<and> connected_as 1 p ?L \<and>
     heard_frame ?L p RECOVERY_CID RECOVERY_MARKER)" by (rule acl_yields)
  moreover have "recovery_evidence b" if "connected_as 0 c (adv_inbox b)" "connected_as 1 p ?L" "heard_frame ?L p RECOVERY_CID RECOVERY_MARKER" for c p
    unfolding recovery_evidence_def
    by (intro exI conjI, rule bites [unfolded e(1)]) (fact s1 s2 s3 e(2) that(1) connected_as_mono [OF that(2) L] heard_frame_mono [OF that(3) L])+
  ultimately show "yields (within ?L (adv_inbox b)) (recovery_acl label) (\<lambda>_ _. recovery_evidence b)"
    unfolding yields_def by blast
qed simp_all

section \<open>The verdict\<close>

lemma crossed_clean: "silent disconnect_crossed" "polite disconnect_crossed"
proof -
  show "silent disconnect_crossed"
    by (simp add: silent_def disconnect_crossed_def split: option.split prod.split)
  have "polite (disconnect_acl_pair hc hp)" for hc hp
    unfolding disconnect_acl_pair_def by (intro polite_bind polite_ret polite_option)
  then have "polite (crossed (disconnect_acl_pair hc hp))" for hc hp
    by (intro politeI) (auto simp: crossed_def split: prod.splits dest: politeD)
  then show "polite disconnect_crossed" unfolding disconnect_crossed_def
    by (intro politeI) (auto split: option.splits prod.splits dest: politeD [OF polite_pair])
qed

interpretation recovery_test: scored "''Recovery''" "''reset/reconnect after active advanced procedures''" "recovery_body label" recovery_evidence
  for label
proof
  show "scores ''Recovery'' ''reset/reconnect after active advanced procedures'' (recovery_body label)"
    unfolding recovery_body_def recovery_acl_def keep_sync_def at_step_def sync_once_def
    by (intro scores_intros silent_modify silent_bind silent_if(3) silent_with(2)) simp_all
  show "recovery_body label b = (Inr (), b') \<Longrightarrow> recovery_evidence b" for b :: "'a recovery_bench_scheme" and b'
    by (rule yieldsD [OF recovery_body_yields refl])
qed

text \<open>C35. The recovery phase never raises an exception of the engine and adds exactly one row. A pass means
  that the scanner received seven different events during the phase: three successful Sync Established
  events, on the sync handle of each a periodic report that carries the marker, and the Sync Lost event
  of the second synchronization, the one that the reset of the advertiser breaks; and that afterwards
  both controllers reported a connection in exchanged roles and the marker of the test arrived over it
  as one complete frame.\<close>

theorem recovery_phase_verdict:
  "case run_recovery_phase label b of
     (Inl e, b') \<Rightarrow> \<not> is_HciError e \<and> \<not> is_HciGone e \<and> (\<exists>rows. bn_book b' = bn_book b @ rows)
   | (Inr _, b') \<Rightarrow> judged ''Recovery'' ''reset/reconnect after active advanced procedures'' (recovery_evidence b)
       (bn_book b) (bn_book b')"
proof -
  let ?clean = "bind_s disconnect_crossed (\<lambda>_. bind_s drop_sync (\<lambda>_. on_side Peripheral stop_periodic))"
  let ?start = "\<lambda>b. b\<lparr>bn_handles := None, sb_sync := None, rb_step := ''initial periodic sync''\<rparr>"
  have clean: "silent ?clean" "polite ?clean" by (intro cleanup_intros drop_sync_clean crossed_clean)+
  have ev: "recovery_evidence (?start b) = recovery_evidence b" by (simp add: recovery_evidence_def)
  from recovery_test.phase_verdict_with [where g = ?start, OF clean ev] show ?thesis
    by (simp add: run_recovery_phase_def)
qed

end
