(* ===== verification/Core_Conditions.thy ===== *)
theory Core_Conditions
  imports Connected_Features
begin

text \<open>
  \<open>python/hcicontroller/hci_core_conditions.py\<close>: the commands a controller has to support because of the
  LE features it advertises, and \<open>python/hcicontroller/profile.py\<close>, which reads what a controller says of
  itself. An error message keeps its format and the numbers in it; the lines printed for conditions
  without a command are not modelled, the list of active conditions is returned.
\<close>

section \<open>Bits of the two masks\<close>

definition mask_bit :: "byte \<Rightarrow> nat \<Rightarrow> bool" where
  "mask_bit v b \<longleftrightarrow> uint v AND push_bit b 1 \<noteq> 0"

definition command_bit :: "bytes \<Rightarrow> nat \<Rightarrow> nat \<Rightarrow> bool result" where
  "command_bit commands oct b = bind_r (byte_at commands oct) (\<lambda>v. Inr (mask_bit v b))"

definition feature :: "bytes \<Rightarrow> nat \<Rightarrow> bool result" where
  "feature features b = bind_r (byte_at features (b div 8)) (\<lambda>v. Inr (mask_bit v (b mod 8)))"

section \<open>The conditions\<close>

type_synonym message = "string \<times> int list"
type_synonym command_row = "nat \<times> nat \<times> nat \<times> string"

definition missing :: "string option \<Rightarrow> command_row \<Rightarrow> message" where
  "missing condition row = (case row of (oct, b, opcode, name) \<Rightarrow>
     ((case condition of None \<Rightarrow> [] | Some c \<Rightarrow> if c = [] then [] else c @ '': '') @ name @
        '' (0x%04X) missing from Supported Commands octet %d bit %d'', [int opcode, int oct, int b]))"

definition require_command_bit :: "bytes \<Rightarrow> command_row \<Rightarrow> message list \<Rightarrow> string option \<Rightarrow> message list result" where
  "require_command_bit commands row errors condition = (case row of (oct, b, _, _) \<Rightarrow>
     bind_r (command_bit commands oct b) (\<lambda>present.
     Inr (if present then errors else errors @ [missing condition row])))"

fun require_group :: "bytes \<Rightarrow> string \<Rightarrow> command_row list \<Rightarrow> message list \<Rightarrow> message list result" where
  "require_group commands condition [] errors = Inr errors"
| "require_group commands condition (row # rows) errors =
     bind_r (require_command_bit commands row errors (Some condition)) (require_group commands condition rows)"

text \<open>\<open>if enabled: require_group(commands, condition, rows, errors)\<close>.\<close>

definition require_if :: "bool \<Rightarrow> bytes \<Rightarrow> string \<Rightarrow> command_row list \<Rightarrow> message list \<Rightarrow> message list result" where
  "require_if enabled commands condition rows errors =
     (if enabled then require_group commands condition rows errors else Inr errors)"

abbreviation (input) rows_c6 :: "command_row list" where
  "rows_c6 \<equiv> [(33, 4, 0x2020, ''LE Remote Connection Parameter Request Reply''),
     (33, 5, 0x2021, ''LE Remote Connection Parameter Request Negative Reply'')]"

abbreviation (input) rows_c39 :: "command_row list" where
  "rows_c39 \<equiv> [(41, 7, 0x2062, ''LE Set CIG Parameters''),
     (42, 0, 0x2063, ''LE Set CIG Parameters Test''),
     (42, 1, 0x2064, ''LE Create CIS''),
     (42, 2, 0x2065, ''LE Remove CIG'')]"

abbreviation (input) rows_c40 :: "command_row list" where
  "rows_c40 \<equiv> [(42, 3, 0x2066, ''LE Accept CIS Request''),
     (42, 4, 0x2067, ''LE Reject CIS Request'')]"

abbreviation (input) rows_c41 :: "command_row list" where
  "rows_c41 \<equiv> [(42, 5, 0x2068, ''LE Create BIG''),
     (42, 6, 0x2069, ''LE Create BIG Test''),
     (42, 7, 0x206A, ''LE Terminate BIG'')]"

abbreviation (input) rows_c42 :: "command_row list" where
  "rows_c42 \<equiv> [(43, 0, 0x206B, ''LE BIG Create Sync''),
     (43, 1, 0x206C, ''LE BIG Terminate Sync'')]"

abbreviation (input) rows_c44 :: "command_row list" where
  "rows_c44 \<equiv> [(43, 2, 0x206D, ''LE Request Peer SCA'')]"

abbreviation (input) rows_c45 :: "command_row list" where
  "rows_c45 \<equiv> [(41, 6, 0x2061, ''LE Read ISO TX Sync''),
     (43, 5, 0x2070, ''LE ISO Transmit Test'')]"

abbreviation (input) rows_c46 :: "command_row list" where
  "rows_c46 \<equiv> [(43, 6, 0x2071, ''LE ISO Receive Test''),
     (43, 7, 0x2072, ''LE ISO Read Test Counters'')]"

abbreviation (input) rows_c47 :: "command_row list" where
  "rows_c47 \<equiv> [(43, 3, 0x206E, ''LE Setup ISO Data Path''),
     (43, 4, 0x206F, ''LE Remove ISO Data Path''),
     (44, 0, 0x2073, ''LE ISO Test End'')]"

abbreviation (input) rows_c49 :: "command_row list" where
  "rows_c49 \<equiv> [(44, 1, 0x2074, ''LE Set Host Feature'')]"

abbreviation (input) rows_c55 :: "command_row list" where
  "rows_c55 \<equiv> [(41, 5, 0x2060, ''LE Read Buffer Size v2'')]"

abbreviation (input) rows_c51 :: "command_row list" where
  "rows_c51 \<equiv> [(44, 3, 0x2076, ''LE Enhanced Read Transmit Power Level''),
     (44, 4, 0x2077, ''LE Read Remote Transmit Power Level''),
     (44, 7, 0x207A, ''LE Set Transmit Power Reporting Enable'')]"

abbreviation (input) rows_c52 :: "command_row list" where
  "rows_c52 \<equiv> [(44, 5, 0x2078, ''LE Set Path Loss Reporting Parameters''),
     (44, 6, 0x2079, ''LE Set Path Loss Reporting Enable'')]"

abbreviation (input) rows_c57 :: "command_row list" where
  "rows_c57 \<equiv> [(46, 0, 0x207D, ''LE Set Default Subrate''),
     (46, 1, 0x207E, ''LE Subrate Request'')]"

abbreviation (input) rows_c66 :: "command_row list" where
  "rows_c66 \<equiv> [(46, 2, 0x207F, ''LE Set Extended Advertising Parameters v2'')]"

abbreviation (input) rows_c67 :: "command_row list" where
  "rows_c67 \<equiv> [(46, 5, 0x2082, ''LE Set Periodic Advertising Subevent Data''),
     (47, 0, 0x2085, ''LE Extended Create Connection v2''),
     (47, 1, 0x2086, ''LE Set Periodic Advertising Parameters v2'')]"

abbreviation (input) rows_c68 :: "command_row list" where
  "rows_c68 \<equiv> [(46, 6, 0x2083, ''LE Set Periodic Advertising Response Data''),
     (46, 7, 0x2084, ''LE Set Periodic Sync Subevent'')]"

abbreviation (input) power_disagree :: message where
  "power_disagree \<equiv> (''LE Power Control Request feature bits 33 and 34 disagree'', [])"

definition validate_conditional_commands :: "bytes \<Rightarrow> bytes \<Rightarrow> message list \<Rightarrow> (message list \<times> string list) result" where
  "validate_conditional_commands commands features errors =
     bind_r (feature features 1) (\<lambda>conn_param.
     bind_r (feature features 26) (\<lambda>sca.
     bind_r (feature features 28) (\<lambda>cis_central.
     bind_r (feature features 29) (\<lambda>cis_peripheral.
     bind_r (feature features 30) (\<lambda>iso_broadcaster.
     bind_r (feature features 31) (\<lambda>sync_receiver.
     bind_r (feature features 33) (\<lambda>power1.
     bind_r (feature features 34) (\<lambda>power2.
     bind_r (feature features 35) (\<lambda>path_loss.
     bind_r (feature features 37) (\<lambda>subrating.
     bind_r (feature features 39) (\<lambda>channel_class.
     bind_r (feature features 40) (\<lambda>adv_coding.
     bind_r (feature features 43) (\<lambda>pawr_adv.
     bind_r (feature features 44) (\<lambda>pawr_scan.
     let errors = (if power1 \<noteq> power2 then errors @ [power_disagree] else errors);
         power_control = (power1 \<and> power2);
         tx_iso = (cis_central \<or> cis_peripheral \<or> iso_broadcaster);
         rx_iso = (cis_central \<or> cis_peripheral \<or> sync_receiver);
         any_iso = (tx_iso \<or> sync_receiver) in
     bind_r (require_if conn_param commands ''C.6'' rows_c6 errors) (\<lambda>errors.
     bind_r (require_if cis_central commands ''C.39 CIS Central'' rows_c39 errors) (\<lambda>errors.
     bind_r (require_if cis_peripheral commands ''C.40 CIS Peripheral'' rows_c40 errors) (\<lambda>errors.
     bind_r (require_if iso_broadcaster commands ''C.41 Isochronous Broadcaster'' rows_c41 errors) (\<lambda>errors.
     bind_r (require_if sync_receiver commands ''C.42 Synchronized Receiver'' rows_c42 errors) (\<lambda>errors.
     bind_r (require_if (sca \<and> (cis_central \<or> cis_peripheral)) commands ''C.44 SCA Updates with CIS'' rows_c44 errors) (\<lambda>errors.
     bind_r (require_if tx_iso commands ''C.45 ISO transmit'' rows_c45 errors) (\<lambda>errors.
     bind_r (require_if rx_iso commands ''C.46 ISO receive'' rows_c46 errors) (\<lambda>errors.
     bind_r (require_if any_iso commands ''C.47 ISO data path/test'' rows_c47 errors) (\<lambda>errors.
     bind_r (require_if (cis_central \<or> cis_peripheral \<or> subrating \<or> adv_coding) commands ''C.49 Host-set feature bits'' rows_c49 errors) (\<lambda>errors.
     bind_r (require_if tx_iso commands ''C.55 ISO HCI buffers'' rows_c55 errors) (\<lambda>errors.
     bind_r (require_if power_control commands ''C.51 LE Power Control Request'' rows_c51 errors) (\<lambda>errors.
     bind_r (require_if path_loss commands ''C.52 LE Path Loss Monitoring'' rows_c52 errors) (\<lambda>errors.
     bind_r (require_if subrating commands ''C.57 Connection Subrating'' rows_c57 errors) (\<lambda>errors.
     bind_r (require_if adv_coding commands ''C.66 Advertising Coding Selection'' rows_c66 errors) (\<lambda>errors.
     bind_r (require_if pawr_adv commands ''C.67 PAwR Advertiser'' rows_c67 errors) (\<lambda>errors.
     bind_r (require_if pawr_scan commands ''C.68 PAwR Scanner'' rows_c68 errors) (\<lambda>errors.
     Inr (errors, map fst (filter snd [
          (''C.6'', conn_param),
          (''C.39'', cis_central),
          (''C.40'', cis_peripheral),
          (''C.41'', iso_broadcaster),
          (''C.42'', sync_receiver),
          (''C.44'', sca \<and> (cis_central \<or> cis_peripheral)),
          (''C.45'', tx_iso),
          (''C.46'', rx_iso),
          (''C.47'', any_iso),
          (''C.49'', cis_central \<or> cis_peripheral \<or> subrating \<or> adv_coding),
          (''C.51'', power_control),
          (''C.52'', path_loss),
          (''C.55'', tx_iso),
          (''C.57'', subrating),
          (''C.58'', channel_class),
          (''C.66'', adv_coding),
          (''C.67'', pawr_adv),
          (''C.68'', pawr_scan),
          (''C.69'', pawr_adv \<or> pawr_scan)])))))))))))))))))))))))))))))))))"

section \<open>What makes a command mandatory\<close>

text \<open>The same requirements read the other way round: a command, its bit in the mask of supported
  commands, and the sets of LE features any of which makes it mandatory.\<close>

definition command_needs :: "(nat list list \<times> nat \<times> nat \<times> nat) list" where
  "command_needs =
     [([[1]], 33, 4, 0x2020), ([[1]], 33, 5, 0x2021),
      ([[28]], 41, 7, 0x2062), ([[28]], 42, 0, 0x2063), ([[28]], 42, 1, 0x2064), ([[28]], 42, 2, 0x2065),
      ([[29]], 42, 3, 0x2066), ([[29]], 42, 4, 0x2067),
      ([[30]], 42, 5, 0x2068), ([[30]], 42, 6, 0x2069), ([[30]], 42, 7, 0x206A),
      ([[31]], 43, 0, 0x206B), ([[31]], 43, 1, 0x206C),
      ([[26, 28], [26, 29]], 43, 2, 0x206D),
      ([[28], [29], [30]], 41, 6, 0x2061), ([[28], [29], [30]], 43, 5, 0x2070),
      ([[28], [29], [31]], 43, 6, 0x2071), ([[28], [29], [31]], 43, 7, 0x2072),
      ([[28], [29], [30], [31]], 43, 3, 0x206E), ([[28], [29], [30], [31]], 43, 4, 0x206F), ([[28], [29], [30], [31]], 44, 0, 0x2073),
      ([[28], [29], [37], [40]], 44, 1, 0x2074),
      ([[28], [29], [30]], 41, 5, 0x2060),
      ([[33, 34]], 44, 3, 0x2076), ([[33, 34]], 44, 4, 0x2077), ([[33, 34]], 44, 7, 0x207A),
      ([[35]], 44, 5, 0x2078), ([[35]], 44, 6, 0x2079),
      ([[37]], 46, 0, 0x207D), ([[37]], 46, 1, 0x207E),
      ([[40]], 46, 2, 0x207F),
      ([[43]], 46, 5, 0x2082), ([[43]], 47, 0, 0x2085), ([[43]], 47, 1, 0x2086),
      ([[44]], 46, 6, 0x2083), ([[44]], 46, 7, 0x2084)]"

definition has_feature :: "bytes \<Rightarrow> nat \<Rightarrow> bool" where
  "has_feature features n = bit (features ! (n div 8)) (n mod 8)"

definition lacking :: "bytes \<Rightarrow> bytes \<Rightarrow> nat list" where
  "lacking commands features = map (\<lambda>(_, _, _, opcode). opcode)
     (filter (\<lambda>(alternatives, oct, b, _). list_ex (list_all (has_feature features)) alternatives \<and> \<not> bit (commands ! oct) b)
       command_needs)"

text \<open>The opcodes named by messages.\<close>

definition named_opcodes :: "message list \<Rightarrow> int set" where
  "named_opcodes ms = set (concat (map (\<lambda>(_, numbers). take 1 numbers) ms))"

lemma mask_bit_iff: "mask_bit v b \<longleftrightarrow> bit v b"
  by (auto simp: mask_bit_def push_bit_eq_mult and_exp_eq_0_iff_not_bit bit_uint_iff dest: bit_imp_le_length)

lemma feature_eq: "n div 8 < length features \<Longrightarrow> feature features n = Inr (has_feature features n)"
  by (simp add: feature_def byte_at_def has_feature_def mask_bit_iff)

lemma require_group_eq:
  assumes "list_all (\<lambda>(oct, _). oct < length commands) rows"
  shows "require_group commands condition rows errors = Inr (errors @ map (missing (Some condition))
    (filter (\<lambda>(oct, b, _). \<not> bit (commands ! oct) b) rows))"
  using assms by (induction rows arbitrary: errors)
    (auto simp: require_command_bit_def command_bit_def byte_at_def mask_bit_iff)

text \<open>The groups of the code, with the condition of each.\<close>

definition condition_groups :: "bytes \<Rightarrow> (bool \<times> string \<times> command_row list) list" where
  "condition_groups features =
     (let has = has_feature features in
         [(has 1, ''C.6'', rows_c6),
          (has 28, ''C.39 CIS Central'', rows_c39),
          (has 29, ''C.40 CIS Peripheral'', rows_c40),
          (has 30, ''C.41 Isochronous Broadcaster'', rows_c41),
          (has 31, ''C.42 Synchronized Receiver'', rows_c42),
          (has 26 \<and> (has 28 \<or> has 29), ''C.44 SCA Updates with CIS'', rows_c44),
          ((has 28 \<or> has 29 \<or> has 30), ''C.45 ISO transmit'', rows_c45),
          ((has 28 \<or> has 29 \<or> has 31), ''C.46 ISO receive'', rows_c46),
          ((has 28 \<or> has 29 \<or> has 30 \<or> has 31), ''C.47 ISO data path/test'', rows_c47),
          (has 28 \<or> has 29 \<or> has 37 \<or> has 40, ''C.49 Host-set feature bits'', rows_c49),
          ((has 28 \<or> has 29 \<or> has 30), ''C.55 ISO HCI buffers'', rows_c55),
          ((has 33 \<and> has 34), ''C.51 LE Power Control Request'', rows_c51),
          (has 35, ''C.52 LE Path Loss Monitoring'', rows_c52),
          (has 37, ''C.57 Connection Subrating'', rows_c57),
          (has 40, ''C.66 Advertising Coding Selection'', rows_c66),
          (has 43, ''C.67 PAwR Advertiser'', rows_c67),
          (has 44, ''C.68 PAwR Scanner'', rows_c68)])"

definition group_errors :: "bytes \<Rightarrow> bool \<times> string \<times> command_row list \<Rightarrow> message list" where
  "group_errors commands g = (case g of (enabled, condition, rows) \<Rightarrow>
     if enabled then map (missing (Some condition)) (filter (\<lambda>(oct, b, _). \<not> bit (commands ! oct) b) rows) else [])"

lemma require_if_eq:
  assumes "list_all (\<lambda>(oct, _). oct < length commands) rows"
  shows "require_if enabled commands condition rows errors = Inr (errors @ group_errors commands (enabled, condition, rows))"
  using require_group_eq [OF assms] by (simp add: require_if_def group_errors_def)

definition power_errors :: "bytes \<Rightarrow> message list" where
  "power_errors features = (if has_feature features 33 \<noteq> has_feature features 34 then [power_disagree] else [])"

lemma validate_eq:
  assumes "length commands = 64" "length features = 8"
  shows "\<exists>active. validate_conditional_commands commands features errors =
    Inr (errors @ power_errors features @ concat (map (group_errors commands) (condition_groups features)), active)"
proof -
  have "(if a then errors @ [x] else errors) = errors @ (if a then [x] else [])" for a and x :: message by simp
  then show ?thesis
    unfolding validate_conditional_commands_def condition_groups_def power_errors_def
    by (simp add: feature_eq require_if_eq assms Let_def)
qed

text \<open>Each command with whether it is needed, group by group and command by command: the same list.\<close>

lemma groups_are_needs:
  "concat (map (\<lambda>(enabled, _, rows). map (\<lambda>(oct, b, opcode, _). (enabled, oct, b, opcode)) rows) (condition_groups features)) =
   map (\<lambda>(alternatives, row). (list_ex (list_all (has_feature features)) alternatives, row)) command_needs"
  by (simp add: condition_groups_def command_needs_def Let_def) blast

lemma named_opcodes_append: "named_opcodes (xs @ ys) = named_opcodes xs \<union> named_opcodes ys"
  by (simp add: named_opcodes_def)

lemma named_missing: "named_opcodes (map (missing c) rows) = {int opcode | oct b opcode name. (oct, b, opcode, name) \<in> set rows}"
  by (induction rows) (auto simp: named_opcodes_def missing_def split: prod.splits)

lemma named_group:
  "named_opcodes (group_errors commands g) = int ` {opcode. \<exists>oct b.
     (True, oct, b, opcode) \<in> set ((\<lambda>(enabled, _, rows). map (\<lambda>(oct, b, opcode, _). (enabled, oct, b, opcode)) rows) g) \<and>
     \<not> bit (commands ! oct) b}"
proof -
  obtain en c rows where g: "g = (en, c, rows)" by (metis prod_cases3)
  have "(True, oct, b, opcode) \<in> set (map (\<lambda>(oct, b, opcode, _). (en, oct, b, opcode)) rows) \<longleftrightarrow>
    en \<and> (\<exists>name. (oct, b, opcode, name) \<in> set rows)" for oct b opcode by (force simp: image_iff)
  then show ?thesis unfolding g by (auto simp: group_errors_def named_missing named_opcodes_def [of "[]"])
qed

lemma named_groups:
  "named_opcodes (concat (map (group_errors commands) gs)) = int ` {opcode. \<exists>oct b.
     (True, oct, b, opcode) \<in> set (concat (map (\<lambda>(enabled, _, rows). map (\<lambda>(oct, b, opcode, _). (enabled, oct, b, opcode)) rows) gs)) \<and>
     \<not> bit (commands ! oct) b}"
proof (induction gs)
  case Nil
  then show ?case by (simp add: named_opcodes_def)
next
  case (Cons g gs)
  show ?case unfolding list.map concat.simps named_opcodes_append named_group Cons.IH set_append by blast
qed

lemma set_picked:
  "set (map (\<lambda>(_, _, _, opcode). opcode) (filter (\<lambda>(a, oct, b, _). P a \<and> \<not> Q oct b) xs)) =
   {opcode. \<exists>oct b. (True, oct, b, opcode) \<in> set (map (\<lambda>(a, row). (P a, row)) xs) \<and> \<not> Q oct b}"
proof -
  have "(True, oct, b, opcode) \<in> set (map (\<lambda>(a, row). (P a, row)) xs) \<longleftrightarrow> (\<exists>a. (a, oct, b, opcode) \<in> set xs \<and> P a)"
    for oct b opcode by (force simp: image_iff)
  then have "{opcode. \<exists>oct b. (True, oct, b, opcode) \<in> set (map (\<lambda>(a, row). (P a, row)) xs) \<and> \<not> Q oct b} =
    {opcode. \<exists>oct b a. (a, oct, b, opcode) \<in> set xs \<and> P a \<and> \<not> Q oct b}" by blast
  also have "\<dots> = set (map (\<lambda>(_, _, _, opcode). opcode) (filter (\<lambda>(a, oct, b, _). P a \<and> \<not> Q oct b) xs))"
    by (auto intro!: rev_image_eqI; blast)
  finally show ?thesis ..
qed

lemma set_lacking:
  "set (lacking commands features) = {opcode. \<exists>oct b. (True, oct, b, opcode) \<in>
     set (map (\<lambda>(alternatives, row). (list_ex (list_all (has_feature features)) alternatives, row)) command_needs) \<and>
     \<not> bit (commands ! oct) b}"
  unfolding lacking_def by (rule set_picked)

lemma group_errors_empty:
  "concat (map (group_errors commands) gs) = [] \<longleftrightarrow> named_opcodes (concat (map (group_errors commands) gs)) = {}"
proof -
  have "xs = [] \<longleftrightarrow> named_opcodes xs = {}" if "\<forall>m\<in>set xs. snd m \<noteq> []" for xs :: "message list"
    using that by (cases xs) (auto simp: named_opcodes_def neq_Nil_conv)
  moreover have "\<forall>m\<in>set (concat (map (group_errors commands) gs)). snd m \<noteq> []"
    by (auto simp: group_errors_def missing_def split: prod.splits if_splits)
  ultimately show ?thesis by blast
qed

text \<open>C37. The check of the conditional commands is exact. On the masks a controller returns (64 octets of
  supported commands, 8 octets of LE features) it never raises, it only adds messages, the opcodes they
  name are exactly those of the commands that some advertised feature or pair of features makes
  mandatory and the controller does not support, and it adds none if and only if no such command is
  missing and the two power control bits agree.\<close>

theorem conditional_commands_exact:
  assumes "length commands = 64" "length features = 8"
  shows "\<exists>added active. validate_conditional_commands commands features errors = Inr (errors @ added, active) \<and>
    named_opcodes added = int ` set (lacking commands features) \<and>
    (added = [] \<longleftrightarrow> lacking commands features = [] \<and> has_feature features 33 = has_feature features 34)"
proof -
  let ?g = "concat (map (group_errors commands) (condition_groups features))"
  have named: "named_opcodes ?g = int ` set (lacking commands features)"
    unfolding named_groups groups_are_needs set_lacking ..
  moreover have "named_opcodes (power_errors features) = {}" by (simp add: power_errors_def named_opcodes_def)
  moreover have "power_errors features @ ?g = [] \<longleftrightarrow> lacking commands features = [] \<and> has_feature features 33 = has_feature features 34"
    unfolding append_is_Nil_conv group_errors_empty named by (auto simp: power_errors_def)
  ultimately show ?thesis
    using validate_eq [OF assms] by (metis named_opcodes_append Un_empty_left)
qed

text \<open>At a controller that advertises CIS Central only and has none of the commands.\<close>

theorem conditional_commands_exact_witness:
  "length (replicate 64 0 :: bytes) = 64 \<and> length ([0, 0, 0, 0x10, 0, 0, 0, 0] :: bytes) = 8 \<and>
   (\<exists>added active. validate_conditional_commands (replicate 64 0) [0, 0, 0, 0x10, 0, 0, 0, 0] [] = Inr ([] @ added, active) \<and>
    named_opcodes added = int ` set (lacking (replicate 64 0) [0, 0, 0, 0x10, 0, 0, 0, 0]) \<and>
    (added = [] \<longleftrightarrow> lacking (replicate 64 0) [0, 0, 0, 0x10, 0, 0, 0, 0] = [] \<and>
       has_feature [0, 0, 0, 0x10, 0, 0, 0, 0] 33 = has_feature [0, 0, 0, 0x10, 0, 0, 0, 0] 34))"
  using conditional_commands_exact [of "replicate 64 0" "[0, 0, 0, 0x10, 0, 0, 0, 0]" "[]"] by simp

section \<open>What a controller says of itself\<close>

record capabilities =
  cap_version :: bytes
  cap_commands :: bytes
  cap_features :: bytes
  cap_states :: "bytes option"
  cap_all_local_features :: "bytes option"
  cap_minimum_connection_interval :: "bytes option"
  cap_connection_accept_timeout :: "bytes option"

definition command_supported :: "bytes \<Rightarrow> nat \<Rightarrow> nat \<Rightarrow> bool" where
  "command_supported commands oct b \<longleftrightarrow> oct < length commands \<and> mask_bit (commands ! oct) b"

text \<open>A read that has to succeed, and one whose failure leaves the entry empty.\<close>

definition must_read :: "nat \<Rightarrow> string \<Rightarrow> (hci, bytes) action" where
  "must_read opcode message =
     bind_s (request opcode (Inr [])) (\<lambda>(status, data).
     if status \<noteq> 0 then throw (RuntimeError message [unat status]) else ret data)"

definition may_read :: "nat \<Rightarrow> (hci, bytes option) action" where
  "may_read opcode =
     bind_s (request opcode (Inr [])) (\<lambda>(status, data). ret (if status = 0 then Some data else None))"

text \<open>The timeout is read and written back as it is.\<close>

definition exercise_accept_timeout :: "(hci, bytes option) action" where
  "exercise_accept_timeout =
     bind_s (request 0x0C15 (Inr [])) (\<lambda>(status, data).
     if status = 0 \<and> length data = 2 then
       bind_s (request 0x0C16 (Inr data)) (\<lambda>(write_status, write_data).
       ret (if write_status = 0 \<and> write_data = [] then Some data else None))
     else ret None)"

definition read_controller_capabilities :: "bool \<Rightarrow> (hci, capabilities) action" where
  "read_controller_capabilities reset =
     bind_s (if reset then bind_s (command 0x0C03 [] 3000000 False) (\<lambda>_. ret ()) else ret ()) (\<lambda>_.
     bind_s (must_read 0x1001 ''Read Local Version failed with 0x%02X'') (\<lambda>version.
     bind_s (must_read 0x1002 ''Read Local Supported Commands failed with 0x%02X'') (\<lambda>commands.
     bind_s (must_read 0x2003 ''LE Read Local Supported Features failed with 0x%02X'') (\<lambda>features.
     bind_s (may_read 0x201C) (\<lambda>states.
     bind_s (if command_supported commands 47 2 then may_read 0x2087 else ret None) (\<lambda>all_local.
     bind_s (if command_supported commands 48 7 then may_read 0x20A3 else ret None) (\<lambda>interval.
     bind_s (if command_supported commands 7 2 \<and> command_supported commands 7 3 then exercise_accept_timeout else ret None) (\<lambda>timeout.
     ret \<lparr>cap_version = version, cap_commands = commands, cap_features = features, cap_states = states,
       cap_all_local_features = all_local, cap_minimum_connection_interval = interval,
       cap_connection_accept_timeout = timeout\<rparr>))))))))"

end
