(* ===== verification/Core54.thy ===== *)
theory Core54
  imports Core_Conditions Phase_Rules
begin

text \<open>
  \<open>python/hcicontroller/core54_features.py\<close>: the Bluetooth 5.4 profile of a controller, and the
  advertising procedures between two of them. On the bench the scanner is the central side and the
  advertiser the peripheral side. The token of \<open>secrets.token_hex\<close> is an argument. The text of an
  exception of the standard library is left empty in a failure row.
\<close>

section \<open>The profile\<close>

abbreviation (input) CORE54_VERSION :: byte where "CORE54_VERSION \<equiv> 0x0D"

definition REQUIRED_FEATURES :: "(nat \<times> string) list" where
  "REQUIRED_FEATURES =
     [(40, ''Advertising Coding Selection''), (43, ''PAwR Advertiser''), (44, ''PAwR Scanner'')]"

definition REQUIRED_COMMANDS :: "command_row list" where
  "REQUIRED_COMMANDS =
     [(44, 1, 0x2074, ''LE Set Host Feature''),
      (46, 2, 0x207F, ''LE Set Extended Advertising Parameters v2''),
      (46, 5, 0x2082, ''LE Set Periodic Advertising Subevent Data''),
      (46, 6, 0x2083, ''LE Set Periodic Advertising Response Data''),
      (46, 7, 0x2084, ''LE Set Periodic Sync Subevent''),
      (47, 0, 0x2085, ''LE Extended Create Connection v2''),
      (47, 1, 0x2086, ''LE Set Periodic Advertising Parameters v2'')]"

definition version_errors :: "bytes \<Rightarrow> message list" where
  "version_errors version =
     (if length version < 8 \<or> version ! 0 < CORE54_VERSION \<or> version ! 3 < CORE54_VERSION
      then [(''Core version is below 5.4: '', map uint version)] else [])"

definition feature_errors :: "bytes \<Rightarrow> message list" where
  "feature_errors features =
     (if length features \<noteq> 8 then [(''LE Supported Features is %u octets, expected 8'', [int (length features)])]
      else concat (map (\<lambda>(b, name). if \<not> mask_bit (features ! (b div 8)) (b mod 8)
                          then [(name @ '' feature bit %u is clear'', [int b])] else []) REQUIRED_FEATURES))"

definition command_errors :: "bytes \<Rightarrow> message list" where
  "command_errors commands =
     (if length commands \<noteq> 64 then [(''Supported Commands is %u octets, expected 64'', [int (length commands)])]
      else concat (map (\<lambda>(oct, b, opcode, name). if \<not> mask_bit (commands ! oct) b
                          then [(name @ '' (0x%04X) missing from Supported Commands'', [int opcode])] else []) REQUIRED_COMMANDS))"

definition profile54_errors :: "capabilities \<Rightarrow> message list" where
  "profile54_errors caps =
     version_errors (cap_version caps) @ feature_errors (cap_features caps) @ command_errors (cap_commands caps)"

text \<open>\<open>str(err)\<close> of any exception, and \<open>'; '.join(errors)\<close>.\<close>

definition exception_detail :: "exn \<Rightarrow> detail" where
  "exception_detail e =
     (case e of
        HciError m args \<Rightarrow> (m, map int args) | HciGone m \<Rightarrow> (m, []) | TransportError m args \<Rightarrow> (m, map int args)
      | TransportGone m \<Rightarrow> (m, []) | SelectionError m \<Rightarrow> (m, []) | PairingError m args \<Rightarrow> (m, map int args)
      | RuntimeError m args \<Rightarrow> (m, map int args) | AssertionError m args \<Rightarrow> (m, map int args) | ValueError m \<Rightarrow> (m, [])
      | _ \<Rightarrow> ([], []))"

fun joined :: "message list \<Rightarrow> detail" where
  "joined [] = ([], [])"
| "joined [m] = m"
| "joined (m # ms) = (fst m @ ''; '' @ fst (joined ms), snd m @ snd (joined ms))"

text \<open>\<open>try: m except Exception as err: book.failed(grp, name, str(err))\<close>.\<close>

definition or_failed_any :: "string \<Rightarrow> string \<Rightarrow> ('x bench_scheme, unit) action \<Rightarrow> ('x bench_scheme, unit) action" where
  "or_failed_any grp name m = failing (\<lambda>_. True) (\<lambda>_. exception_detail) grp name m"

definition profile54_one :: "string \<Rightarrow> side \<Rightarrow> ('x bench_scheme, unit) action" where
  "profile54_one label sd =
     or_failed_any ''Bluetooth 5.4 profile'' label
       (bind_s (on_side sd (read_controller_capabilities True)) (\<lambda>caps.
        let errors = profile54_errors caps in
        if errors \<noteq> [] then write_book (failed ''Bluetooth 5.4 profile'' label (joined errors))
        else write_book (passed ''Bluetooth 5.4 profile'' label ([], []))))"

definition run_profile54_phase :: "('x bench_scheme, unit) action" where
  "run_profile54_phase = bind_s (profile54_one ''A'' Central) (\<lambda>_. profile54_one ''B'' Peripheral)"

section \<open>Advertising reports\<close>

definition advertising_params :: "byte \<Rightarrow> byte \<Rightarrow> bytes result" where
  "advertising_params addr_type option =
     bind_r (ext_adv_params 0 addr_type 0 0) (\<lambda>payload.
       let phy = (if option \<noteq> 0 then 3 else 1) in
       if length payload \<le> 22 then Inl IndexError
       else Inr (payload[20 := phy, 22 := phy] @ [option, option]))"

text \<open>Flags, address type, address, the two PHYs, the set identifier, the data.\<close>

type_synonym adv_report = "nat \<times> byte \<times> bytes \<times> byte \<times> byte \<times> byte \<times> bytes"

fun strict_loop :: "nat \<Rightarrow> nat \<Rightarrow> bytes \<Rightarrow> (adv_report list \<times> nat) result" where
  "strict_loop 0 at body = Inr ([], at)"
| "strict_loop (Suc n) at body =
     (if length body < at + 24 then Inl (HciError ''short extended advertising report'' [])
      else
        let fin = at + 24 + unat (body ! (at + 23)) in
        if length body < fin then Inl (HciError ''truncated extended advertising data'' [])
        else bind_r (strict_loop n fin body) (\<lambda>(rs, at').
          Inr ((from_le (pslice at (at + 2) body), body ! (at + 2), pslice (at + 3) (at + 9) body,
                body ! (at + 9), body ! (at + 10), body ! (at + 11), pslice (at + 24) fin body) # rs, at')))"

definition reports :: "bytes \<Rightarrow> adv_report list result" where
  "reports body =
     (if body = [] \<or> body ! 0 \<noteq> LE_EXTENDED_ADVERTISING_REPORT then Inr []
      else if length body < 2 then Inl (HciError ''short extended advertising event'' [])
      else bind_r (strict_loop (unat (body ! 1)) 2 body) (\<lambda>(result, at).
        if at \<noteq> length body then Inl (HciError ''trailing extended advertising data'' []) else Inr result))"

fun report_scan :: "bytes \<Rightarrow> byte \<Rightarrow> bytes \<Rightarrow> byte \<Rightarrow> adv_report list \<Rightarrow> unit option result" where
  "report_scan addr addr_type payload phy [] = Inr None"
| "report_scan addr addr_type payload phy ((flags, kind, a, primary, secondary, sid, data) # rs) =
     (if (kind, a, sid) \<noteq> (addr_type, addr, 0) \<or> data \<noteq> payload then report_scan addr addr_type payload phy rs
      else if flags AND 0x60 \<noteq> 0 then Inl (HciError ''advertising data was fragmented or truncated'' [])
      else if (primary, secondary) \<noteq> (phy, phy)
      then Inl (HciError ''unexpected advertising PHY: %u/%u, expected %u'' [unat primary, unat secondary, unat phy])
      else Inr (Some ()))"

definition observe_judge :: "bytes \<Rightarrow> byte \<Rightarrow> bytes \<Rightarrow> byte \<Rightarrow> packet \<Rightarrow> unit option result" where
  "observe_judge addr addr_type payload phy p =
     (case p of (kind, code, body) \<Rightarrow>
        if kind \<noteq> H4_EVENT \<or> code \<noteq> Some EVT_LE_META then Inr None
        else bind_r (reports body) (report_scan addr addr_type payload phy))"

definition observe :: "bytes \<Rightarrow> byte \<Rightarrow> bytes \<Rightarrow> byte \<Rightarrow> nat \<Rightarrow> (hci, unit) action" where
  "observe addr addr_type payload phy timeout =
     required ''no matching complete advertisement from the selected peer'' []
       (\<lambda>h. read_until False True 200000 (observe_judge addr addr_type payload phy) (clock h + timeout) [] h)"

section \<open>The advertising phase\<close>

definition EAD_SAMPLE :: bytes where
  "EAD_SAMPLE =
     [0x18, 0xe1, 0x57, 0xca, 0xde, 0x74, 0xe4, 0xdc, 0xaf, 0xdc, 0x51, 0xc7, 0x28, 0x28, 0x10, 0xc2,
      0x21, 0x7f, 0x0e, 0x4c, 0xef, 0x43, 0x43, 0x18, 0x1f, 0xba, 0x00, 0x69, 0xcc]"

text \<open>\<open>_command_ok\<close> without a name.\<close>

definition command_ok_plain :: "nat \<Rightarrow> bytes result \<Rightarrow> (hci, bytes) action" where
  "command_ok_plain opcode block =
     bind_s (request opcode block) (\<lambda>(status, data).
     if status \<noteq> 0 then throw (HciError ''opcode 0x%04X returned %s'' [opcode, unat status]) else ret data)"

definition adv54_data :: "string \<Rightarrow> bytes result" where
  "adv54_data token_hex =
     (let token = text_bytes (''HCI54-'' @ token_hex) in
      cat [bytes_of [length token + 1, 0x09], Inr token, bytes_of [length EAD_SAMPLE + 1, 0x31], Inr EAD_SAMPLE])"

type_synonym adv54_case = "byte \<times> bool \<times> byte \<times> string"

definition adv54_cases :: "adv54_case list" where
  "adv54_cases =
     [(0, True, 1, ''EAD opaque transport / 1M''),
      (3, True, 4, ''required S=2 / host reporting enabled''),
      (4, True, 3, ''required S=8 / host reporting enabled''),
      (3, False, 3, ''S=2 / legacy coded reporting'')]"

definition adv54_body :: "string \<Rightarrow> adv54_case \<Rightarrow> string \<Rightarrow> ('x bench_scheme, unit) action" where
  "adv54_body label c token_hex = (case c of (option, host_support, phy, name) \<Rightarrow>
     bind_s (on_side Peripheral (prepare_controller DEFAULT_LE_EVENT_MASK)) (\<lambda>(address, addr_type, _).
     bind_s (on_side Central (prepare_controller DEFAULT_LE_EVENT_MASK)) (\<lambda>(_, scan_type, _).
     bind_s (on_side Central (command_ok_plain 0x2074 (Inr [41, if host_support then 1 else 0]))) (\<lambda>_.
     bind_s (on_side Peripheral (command_ok_plain 0x207F (advertising_params addr_type option))) (\<lambda>_.
     bind_s (if addr_type = 1 then bind_s (on_side Peripheral (command_ok_plain 0x2035 (Inr ([0] @ address)))) (\<lambda>_. ret ())
             else ret ()) (\<lambda>_.
     bind_s (lift_r (adv54_data token_hex)) (\<lambda>data.
     bind_s (on_side Peripheral (command_ok_plain 0x2037 (cat [bytes_of [0, 3, 1, length data], Inr data]))) (\<lambda>_.
     bind_s (on_side Central (command_ok_plain 0x2041
               (cat [Inr [scan_type, 0, if option \<noteq> 0 then 4 else 1, 0], struct_pack [FH 0x60, FH 0x60]]))) (\<lambda>_.
     bind_s (on_side Central (set_sync_scan True False)) (\<lambda>_.
     bind_s (on_side Peripheral (ext_adv_enable 0 True)) (\<lambda>_.
     bind_s (on_side Central (observe address addr_type data phy 8000000)) (\<lambda>_.
     write_book (passed (''Bluetooth 5.4 '' @ label) name ([], []))))))))))))))"

definition adv54_reset :: "string \<Rightarrow> string \<Rightarrow> string \<Rightarrow> side \<Rightarrow> ('x bench_scheme, unit) action" where
  "adv54_reset label name role sd =
     or_failed_any (''Bluetooth 5.4 '' @ label) (name @ '' / '' @ role @ '' reset'')
       (bind_s (on_side sd (command_ok_plain 0x0C03 (Inr []))) (\<lambda>_. ret ()))"

definition adv54_one :: "string \<Rightarrow> adv54_case \<Rightarrow> string \<Rightarrow> ('x bench_scheme, unit) action" where
  "adv54_one label c token_hex = (case c of (_, _, _, name) \<Rightarrow>
     finally_s (or_failed_any (''Bluetooth 5.4 '' @ label) name (adv54_body label c token_hex))
       (bind_s (adv54_reset label name ''advertiser'' Peripheral) (\<lambda>_. adv54_reset label name ''scanner'' Central)))"

fun adv54_loop :: "string \<Rightarrow> (adv54_case \<times> string) list \<Rightarrow> ('x bench_scheme, unit) action" where
  "adv54_loop label [] = ret ()"
| "adv54_loop label ((c, token_hex) # cs) = bind_s (adv54_one label c token_hex) (\<lambda>_. adv54_loop label cs)"

text \<open>\<open>tokens\<close>: what \<open>secrets.token_hex(4)\<close> returns in each case.\<close>

definition run_advertising54_phase :: "string \<Rightarrow> (nat \<Rightarrow> string) \<Rightarrow> ('x bench_scheme, unit) action" where
  "run_advertising54_phase label tokens = adv54_loop label (zip adv54_cases (map tokens [0 ..< length adv54_cases]))"

section \<open>The strict decoder\<close>

text \<open>A report record: the seven decoded fields, and between the set identifier and the length the eleven
  octets that are not used (power, signal strength, interval, direct address).\<close>

type_synonym report_record = "adv_report \<times> bytes"

fun encode_report :: "report_record \<Rightarrow> bytes" where
  "encode_report ((flags, kind, addr, primary, secondary, sid, data), rest) =
     to_le 2 flags @ [kind] @ addr @ [primary, secondary, sid] @ rest @ [of_nat (length data)] @ data"

fun valid_report :: "report_record \<Rightarrow> bool" where
  "valid_report ((flags, kind, addr, primary, secondary, sid, data), rest) \<longleftrightarrow>
     flags < 65536 \<and> length addr = 6 \<and> length rest = 11 \<and> length data < 256"

lemma encode_report_fields:
  assumes "valid_report (r, rest)" "r = (flags, kind, addr, primary, secondary, sid, data)"
  defines "e \<equiv> encode_report (r, rest)"
  shows "length e = 24 + length data" "unat (e ! 23) = length data" "from_le (take 2 e) = flags" "e ! 2 = kind"
    "pslice 3 9 e = addr" "e ! 9 = primary" "e ! 10 = secondary" "e ! 11 = sid" "drop 24 e = data"
proof -
  have len: "length (to_le 2 flags) = 2" "length addr = 6" "length rest = 11" using assms(1,2) by simp_all
  have e: "e = to_le 2 flags @ [kind] @ addr @ [primary, secondary, sid] @ rest @ [of_nat (length data)] @ data"
    by (simp add: e_def assms(2))
  have "from_le (to_le 2 flags) = flags" using from_to_le [of 2 flags] assms(1,2) by simp
  moreover have "unat (of_nat (length data) :: byte) = length data" using assms(1,2) by (simp add: unat_of_nat_byte)
  ultimately show "length e = 24 + length data" "unat (e ! 23) = length data" "from_le (take 2 e) = flags" "e ! 2 = kind"
    "pslice 3 9 e = addr" "e ! 9 = primary" "e ! 10 = secondary" "e ! 11 = sid" "drop 24 e = data"
    using len by (simp_all add: e nth_append pslice_def)
qed

lemma pslice_join:
  assumes "a \<le> b" "b \<le> c"
  shows "pslice a b xs @ pslice b c xs = pslice a c xs"
proof -
  have "c - a = (b - a) + (c - b)" "drop (b - a) (drop a xs) = drop b xs" using assms by simp_all
  then show ?thesis unfolding pslice_def by (simp only: take_add)
qed

lemma pslice_one: "k < length xs \<Longrightarrow> j = k + 1 \<Longrightarrow> [xs ! k] = pslice k j xs"
  by (simp add: pslice_def hd_drop_conv_nth take_Suc)

lemma decode_report:
  assumes "at + 24 \<le> length body" "fin = at + 24 + unat (body ! (at + 23))" "fin \<le> length body"
  shows "\<exists>rest. let r = ((from_le (pslice at (at + 2) body), body ! (at + 2), pslice (at + 3) (at + 9) body,
      body ! (at + 9), body ! (at + 10), body ! (at + 11), pslice (at + 24) fin body), rest)
    in valid_report r \<and> encode_report r = pslice at fin body"
proof -
  have two: "to_le 2 (from_le (pslice at (at + 2) body)) = pslice at (at + 2) body"
    using to_from_le [of "pslice at (at + 2) body"] assms(1) by simp
  have flags: "from_le (pslice at (at + 2) body) < 65536"
    using from_le_less [of "pslice at (at + 2) body"] assms(1) by simp
  have data: "length (pslice (at + 24) fin body) = unat (body ! (at + 23))" using assms by simp
  have len: "[of_nat (length (pslice (at + 24) fin body))] = [body ! (at + 23)]" unfolding data by simp
  have three: "[a, b, c] = [a] @ [b] @ [c]" for a b c :: byte by simp
  have "encode_report ((from_le (pslice at (at + 2) body), body ! (at + 2), pslice (at + 3) (at + 9) body,
      body ! (at + 9), body ! (at + 10), body ! (at + 11), pslice (at + 24) fin body), pslice (at + 12) (at + 23) body) =
    pslice at (at + 2) body @ pslice (at + 2) (at + 3) body @ pslice (at + 3) (at + 9) body @
    pslice (at + 9) (at + 10) body @ pslice (at + 10) (at + 11) body @ pslice (at + 11) (at + 12) body @
    pslice (at + 12) (at + 23) body @ pslice (at + 23) (at + 24) body @ pslice (at + 24) fin body"
    unfolding encode_report.simps two len three
    using assms(1) by (simp only: append_assoc pslice_one [of "at + 2" body "at + 3"] pslice_one [of "at + 9" body "at + 10"]
      pslice_one [of "at + 10" body "at + 11"] pslice_one [of "at + 11" body "at + 12"] pslice_one [of "at + 23" body "at + 24"])
  also have "\<dots> = pslice at fin body" using assms(2) by (simp add: pslice_join)
  finally show ?thesis using assms(1) flags data unat_byte_less [of "body ! (at + 23)"]
    unfolding Let_def by (intro exI [of _ "pslice (at + 12) (at + 23) body"]) simp
qed

lemma strict_loop_sound:
  assumes "strict_loop n at body = Inr (rs, at')" "at \<le> length body"
  shows "\<exists>recs. length recs = n \<and> list_all valid_report recs \<and> rs = map fst recs \<and> at \<le> at' \<and> at' \<le> length body \<and>
    pslice at at' body = concat (map encode_report recs)"
  using assms
proof (induction n arbitrary: at rs)
  case (Suc n)
  let ?fin = "at + 24 + unat (body ! (at + 23))"
  have ok: "at + 24 \<le> length body" "?fin \<le> length body"
    using Suc.prems(1) by (auto simp: Let_def split: if_splits)
  let ?r = "(from_le (pslice at (at + 2) body), body ! (at + 2), pslice (at + 3) (at + 9) body,
      body ! (at + 9), body ! (at + 10), body ! (at + 11), pslice (at + 24) ?fin body)"
  obtain qs where qs: "strict_loop n ?fin body = Inr (qs, at')" "rs = ?r # qs"
    using Suc.prems(1) ok by (auto simp: Let_def bind_r_Inr_iff split: if_splits)
  from Suc.IH [OF qs(1) ok(2)] obtain recs where recs: "length recs = n" "list_all valid_report recs" "qs = map fst recs"
    "?fin \<le> at'" "at' \<le> length body" "pslice ?fin at' body = concat (map encode_report recs)" by blast
  obtain rest where rest: "valid_report (?r, rest)" "encode_report (?r, rest) = pslice at ?fin body"
    using decode_report [OF ok(1) refl ok(2)] unfolding Let_def by blast
  have "pslice at at' body = pslice at ?fin body @ pslice ?fin at' body" using recs(4) by (simp add: pslice_join)
  then show ?case
    by (intro exI [of _ "(?r, rest) # recs"]) (use recs rest qs(2) in \<open>auto simp del: valid_report.simps encode_report.simps\<close>)
qed (simp add: pslice_def)

lemma pslice_middle: "j \<le> length e \<Longrightarrow> pslice (length pre + i) (length pre + j) (pre @ e @ post) = pslice i j e"
  by simp

lemma strict_loop_complete:
  "list_all valid_report recs \<Longrightarrow> strict_loop (length recs) (length pre) (pre @ concat (map encode_report recs)) =
    Inr (map fst recs, length pre + length (concat (map encode_report recs)))"
proof (induction recs arbitrary: pre)
  case (Cons r recs)
  obtain flags kind addr primary secondary sid data rest where
    r: "r = ((flags, kind, addr, primary, secondary, sid, data), rest)" by (metis surj_pair)
  have valid: "valid_report ((flags, kind, addr, primary, secondary, sid, data), rest)" using Cons.prems r by simp
  define e where "e = encode_report r"
  note f = encode_report_fields [OF valid refl, folded r, folded e_def]
  let ?post = "concat (map encode_report recs)" and ?n = "length pre"
  let ?body = "pre @ e @ ?post"
  have at: "?body ! (?n + k) = e ! k" if "k < 24" for k using that f(1) by (simp add: nth_append)
  have fin: "?n + 24 + unat (?body ! (?n + 23)) = ?n + length e" using at [of 23] f(1,2) by simp
  have parts: "from_le (pslice ?n (?n + 2) ?body) = flags" "pslice (?n + 3) (?n + 9) ?body = addr"
    "pslice (?n + 24) (?n + length e) ?body = data"
    using pslice_middle [of 2 e pre 0 ?post] pslice_middle [of 9 e pre 3 ?post] pslice_middle [of "length e" e pre 24 ?post] f(1,3,5,9)
    by (simp_all add: pslice_def)
  have "strict_loop (length recs) (length (pre @ e)) ((pre @ e) @ ?post) =
    Inr (map fst recs, length (pre @ e) + length ?post)" by (rule Cons.IH) (use Cons.prems in simp)
  then have rest: "strict_loop (length recs) (?n + length e) ?body = Inr (map fst recs, ?n + length e + length ?post)" by simp
  have "strict_loop (Suc (length recs)) ?n ?body =
    Inr ((flags, kind, addr, primary, secondary, sid, data) # map fst recs, ?n + length e + length ?post)"
    unfolding strict_loop.simps fin Let_def
    using rest parts at [of 2] at [of 9] at [of 10] at [of 11] f by simp
  then show ?case unfolding list.map concat.simps r [symmetric] e_def [symmetric] by (simp add: r add.assoc)
qed simp

text \<open>C36. The report decoder is exact. It decodes an extended advertising event if and only if the event
  consists of its two header octets and as many complete report records as it announces, with nothing
  after them, and it returns the fields of exactly those records, in order. Everything else is refused:
  no truncated record and no trailing octet ever reaches the comparison with the expected data.\<close>

theorem reports_exact:
  "reports (0x0D # body) = Inr rs \<longleftrightarrow> (\<exists>recs. list_all valid_report recs \<and> length recs < 256 \<and> rs = map fst recs \<and>
     body = of_nat (length recs) # concat (map encode_report recs))"
proof
  assume r: "reports (0x0D # body) = Inr rs"
  then obtain n rest where body: "body = n # rest" by (cases body) (auto simp: reports_def)
  with r have l: "strict_loop (unat n) 2 (0x0D # body) = Inr (rs, length (0x0D # body))"
    by (auto simp: reports_def bind_r_Inr_iff split: if_splits)
  have "2 \<le> length (0x0D # body)" using body by simp
  from strict_loop_sound [OF l this] obtain recs where recs: "length recs = unat n" "list_all valid_report recs" "rs = map fst recs"
    "pslice 2 (length (0x0D # body)) (0x0D # body) = concat (map encode_report recs)" by blast
  moreover have "pslice 2 (length (0x0D # body)) (0x0D # body) = rest" by (simp add: body pslice_def)
  moreover have "n = of_nat (length recs)" using recs(1) by simp
  ultimately show "\<exists>recs. list_all valid_report recs \<and> length recs < 256 \<and> rs = map fst recs \<and>
     body = of_nat (length recs) # concat (map encode_report recs)"
    using body unat_byte_less [of n] by auto
next
  assume "\<exists>recs. list_all valid_report recs \<and> length recs < 256 \<and> rs = map fst recs \<and>
     body = of_nat (length recs) # concat (map encode_report recs)"
  then obtain recs where recs: "list_all valid_report recs" "length recs < 256" "rs = map fst recs"
    "body = of_nat (length recs) # concat (map encode_report recs)" by blast
  have "unat (of_nat (length recs) :: byte) = length recs" using recs(2) by (simp add: unat_of_nat_byte)
  then show "reports (0x0D # body) = Inr rs"
    using strict_loop_complete [OF recs(1), of "[0x0D, of_nat (length recs)]"] recs(3,4)
    by (simp add: reports_def numeral_2_eq_2)
qed

section \<open>What a pass of an advertising case rests on\<close>

definition heard_adv :: "packet multiset \<Rightarrow> bytes \<Rightarrow> byte \<Rightarrow> bytes \<Rightarrow> byte \<Rightarrow> bool" where
  "heard_adv ps addr addr_type payload phy \<longleftrightarrow> (\<exists>body rs flags. meta body \<in># ps \<and> reports body = Inr rs \<and>
     (flags, addr_type, addr, phy, phy, 0, payload) \<in> set rs \<and> flags AND 0x60 = 0)"

lemma report_scan_found:
  "report_scan addr addr_type payload phy rs = Inr (Some u) \<Longrightarrow>
   \<exists>flags. (flags, addr_type, addr, phy, phy, 0, payload) \<in> set rs \<and> flags AND 0x60 = 0"
  by (induction addr addr_type payload phy rs rule: report_scan.induct) (auto split: if_splits)

lemma observed: "received I (observe addr addr_type payload phy timeout) u \<Longrightarrow> heard_adv I addr addr_type payload phy"
proof -
  assume "received I (observe addr addr_type payload phy timeout) u"
  then obtain h h' where h: "inbox h \<subseteq># I"
    "read_until False True 200000 (observe_judge addr addr_type payload phy) (clock h + timeout) [] h = (Inr (Some u), h')"
    by (auto simp: received_def observe_def required_iff)
  from read_until_end [OF h(2)] obtain p where p: "observe_judge addr addr_type payload phy p = Inr (Some u)" "p \<in># inbox h"
    by (elim wait_end_foundE) (simp add: inbox_def)
  obtain kind code body where k: "p = (kind, code, body)" by (metis prod_cases3)
  with p(1) obtain rs where rs: "kind = H4_EVENT" "code = Some EVT_LE_META" "reports body = Inr rs"
    "report_scan addr addr_type payload phy rs = Inr (Some u)"
    by (auto simp: observe_judge_def bind_r_Inr_iff split: if_splits)
  obtain flags where flags: "(flags, addr_type, addr, phy, phy, 0, payload) \<in> set rs" "flags AND 0x60 = 0"
    using report_scan_found [OF rs(4)] by blast
  have "meta body \<in># I" using p(2) mset_subset_eqD [OF h(1)] unfolding k rs(1,2) by blast
  with rs(3) flags show ?thesis unfolding heard_adv_def by blast
qed

definition adv54_evidence :: "'x bench_scheme \<Rightarrow> byte \<Rightarrow> string \<Rightarrow> bool" where
  "adv54_evidence b phy token_hex \<longleftrightarrow> (\<exists>own addr_type source data.
     received (adv_inbox b) (prepare_controller DEFAULT_LE_EVENT_MASK) (own, addr_type, source) \<and>
     adv54_data token_hex = Inr data \<and> heard_adv (scan_inbox b) own addr_type data phy)"

lemma heard_adv_mono: "heard_adv I addr addr_type payload phy \<Longrightarrow> I \<subseteq># I' \<Longrightarrow> heard_adv I' addr addr_type payload phy"
  unfolding heard_adv_def by (blast dest: mset_subset_eqD)

lemma adv54_evidence_mono:
  assumes "adv54_evidence b phy token_hex" "scan_inbox b \<subseteq># scan_inbox b0" "adv_inbox b \<subseteq># adv_inbox b0"
  shows "adv54_evidence b0 phy token_hex"
  using assms(1) unfolding adv54_evidence_def by (blast intro: received_mono [OF _ assms(3)] heard_adv_mono [OF _ assms(2)])

lemma reader_plain: "reader inbox (command_ok_plain opcode block)"
  unfolding command_ok_plain_def by (intro reader_steps)

lemma reader_observe: "reader inbox (observe addr addr_type payload phy timeout)"
  unfolding observe_def by (intro reader_required reader_wait)

lemma step_maybe:
  assumes "reader inbox m" "yields (within I J) (f ()) Q"
  shows "yields (within I J) (bind_s (if c then bind_s (on_side Peripheral m) (\<lambda>_. ret ()) else ret ()) f) Q"
proof (rule yields_bind [where R = "\<lambda>_. within I J"])
  show "yields (within I J) (if c then bind_s (on_side Peripheral m) (\<lambda>_. ret ()) else ret ()) (\<lambda>_. within I J)"
    by (intro yields_cases step_peripheral assms(1)) (simp_all add: yields_def)
qed (simp add: assms(2))

lemma adv54_body_yields:
  "yields (\<lambda>s. s = b) (adv54_body label (option, host_support, phy, name) token_hex) (\<lambda>_ _. adv54_evidence b phy token_hex)"
  unfolding adv54_body_def prod.case
proof (intro yields_start step_central step_peripheral step_lift step_maybe yields_cases yields_write
    prepares.reader_axioms reader_plain sync_scan.reader_axioms ext_enable.reader_axioms reader_observe)
qed (auto simp: adv54_evidence_def dest!: observed)

interpretation adv54_test: scored "''Bluetooth 5.4 '' @ label" name "adv54_body label (option, host_support, phy, name) token_hex"
  "\<lambda>b. adv54_evidence b phy token_hex" for label name option host_support phy token_hex
proof
  show "scores (''Bluetooth 5.4 '' @ label) name (adv54_body label (option, host_support, phy, name) token_hex)"
    unfolding adv54_body_def prod.case
    by (intro scores_intros silent_if(1) silent_bind silent_with(2)) (simp add: silent_def)
  show "adv54_body label (option, host_support, phy, name) token_hex b = (Inr (), b') \<Longrightarrow> adv54_evidence b phy token_hex"
    for b :: "'a bench_scheme" and b'
    by (rule yieldsD [OF adv54_body_yields refl])
qed

section \<open>The verdict of the advertising phase\<close>

text \<open>The rows of one case: its verdict, and a failure for every reset that did not work.\<close>

definition adv54_judged :: "string \<Rightarrow> 'x bench_scheme \<Rightarrow> adv54_case \<times> string \<Rightarrow> book \<Rightarrow> bool" where
  "adv54_judged label b c rows \<longleftrightarrow> (case c of ((_, _, phy, name), token_hex) \<Rightarrow>
     (\<exists>row resets. rows = row # resets \<and> key row = (''Bluetooth 5.4 '' @ label, name) \<and>
        (if r_status row = PASS then adv54_evidence b phy token_hex else r_status row = FAIL) \<and>
        list_all (\<lambda>r. r_status r = FAIL) resets))"

lemma reset_rows: "\<exists>b'. adv54_reset label name role sd b = (Inr (), b') \<and>
    (\<exists>rows. bn_book b' = bn_book b @ rows \<and> list_all (\<lambda>r. r_status r = FAIL) rows)"
proof -
  obtain r b1 where b1: "on_side sd (command_ok_plain 0x0C03 (Inr [])) b = (r, b1)" by (metis surj_pair)
  have "bn_book b1 = bn_book b" using book_on_pair(2) [of sd "command_ok_plain 0x0C03 (Inr [])" b] b1 by simp
  with b1 show ?thesis
    by (cases r) (auto simp: adv54_reset_def or_failed_any_def failing_def catch_s_def bind_s_def write_book_def
        failed_def book_add_def)
qed

lemma adv54_one_reader: "reader scan_inbox (adv54_one label c token_hex)" "reader adv_inbox (adv54_one label c token_hex)"
  unfolding adv54_one_def adv54_body_def adv54_reset_def or_failed_any_def
  by (intro reader_split reader_finally reader_failing reader_bind reader_if reader_quiet reader_book reader_side
      prepares.reader_axioms reader_plain sync_scan.reader_axioms ext_enable.reader_axioms reader_observe)+

lemma adv54_one_rows:
  "\<exists>b' rows. adv54_one label c token_hex b = (Inr (), b') \<and> bn_book b' = bn_book b @ rows \<and> adv54_judged label b (c, token_hex) rows"
proof -
  obtain option host_support phy name where c: "c = (option, host_support, phy, name)" by (metis prod_cases4)
  obtain r b1 where b1: "or_failed_any (''Bluetooth 5.4 '' @ label) name (adv54_body label c token_hex) b = (r, b1)" by (metis surj_pair)
  from adv54_test.caught [OF b1 [unfolded or_failed_any_def c]]
  obtain row where row: "r = Inr ()" "bn_book b1 = bn_book b @ [row]" "key row = (''Bluetooth 5.4 '' @ label, name)"
    "if r_status row = PASS then adv54_evidence b phy token_hex else r_status row = FAIL" unfolding judged_def by blast
  obtain b2 rows1 where b2: "adv54_reset label name ''advertiser'' Peripheral b1 = (Inr (), b2)" "bn_book b2 = bn_book b1 @ rows1"
    "list_all (\<lambda>r. r_status r = FAIL) rows1" using reset_rows by blast
  obtain b3 rows2 where b3: "adv54_reset label name ''scanner'' Central b2 = (Inr (), b3)" "bn_book b3 = bn_book b2 @ rows2"
    "list_all (\<lambda>r. r_status r = FAIL) rows2" using reset_rows by blast
  have "adv54_one label c token_hex b = (Inr (), b3)"
    unfolding adv54_one_def c prod.case finally_s_def using b1 [unfolded c] row(1) b2(1) b3(1) by (simp add: bind_s_def)
  moreover have "bn_book b3 = bn_book b @ row # rows1 @ rows2" using row(2) b2(2) b3(2) by simp
  moreover have "adv54_judged label b (c, token_hex) (row # rows1 @ rows2)"
    unfolding adv54_judged_def c prod.case
    by (rule exI [of _ row], rule exI [of _ "rows1 @ rows2"]) (use row(3,4) b2(3) b3(3) in simp)
  ultimately show ?thesis by blast
qed

lemma adv54_judged_mono:
  assumes "adv54_judged label b c rows" "scan_inbox b \<subseteq># scan_inbox b0" "adv_inbox b \<subseteq># adv_inbox b0"
  shows "adv54_judged label b0 c rows"
  using assms(1) adv54_evidence_mono [OF _ assms(2,3)] unfolding adv54_judged_def by (auto split: prod.splits if_splits)

lemma adv54_loop_rows:
  "\<exists>b' groups. adv54_loop label cs b = (Inr (), b') \<and> bn_book b' = bn_book b @ concat groups \<and> list_all2 (adv54_judged label b) cs groups"
proof (induction cs arbitrary: b)
  case Nil
  show ?case by (intro exI [of _ b] exI [of _ "[]"]) simp
next
  case (Cons x cs)
  obtain c token_hex where x: "x = (c, token_hex)" by (metis surj_pair)
  obtain b1 rows where b1: "adv54_one label c token_hex b = (Inr (), b1)" "bn_book b1 = bn_book b @ rows"
    "adv54_judged label b (c, token_hex) rows" using adv54_one_rows by blast
  obtain b2 groups where b2: "adv54_loop label cs b1 = (Inr (), b2)" "bn_book b2 = bn_book b1 @ concat groups"
    "list_all2 (adv54_judged label b1) cs groups" using Cons by blast
  have "list_all2 (adv54_judged label b) cs groups"
    using b2(3) adv54_judged_mono [OF _ reader.takes [OF adv54_one_reader(1) b1(1)] reader.takes [OF adv54_one_reader(2) b1(1)]]
    by (rule list_all2_mono)
  with b1 b2 show ?case unfolding x by (intro exI [of _ b2] exI [of _ "rows # groups"]) (simp add: bind_s_def)
qed

text \<open>The Bluetooth 5.4 advertising phase always returns, whatever the controllers do, and records each
  of its four cases: one row with the verdict of the case and one failure for each controller that could
  not be reset afterwards. A case passes only if the scanner received an extended advertising event that
  decodes strictly and holds an unfragmented report from the address and address type the advertiser was
  prepared with, on set 0, with the primary and secondary PHY the case demands, whose data is the
  local name with the token of this case followed by the sample of encrypted data.\<close>

lemma advertising54_phase_verdict:
  "\<exists>b' groups. run_advertising54_phase label tokens b = (Inr (), b') \<and> bn_book b' = bn_book b @ concat groups \<and>
     list_all2 (adv54_judged label b) (zip adv54_cases (map tokens [0 ..< 4])) groups"
proof -
  have "length adv54_cases = 4" by (simp add: adv54_cases_def)
  then show ?thesis unfolding run_advertising54_phase_def using adv54_loop_rows by metis
qed

section \<open>The verdict of the profile phase\<close>

definition profile54_ok :: "capabilities \<Rightarrow> bool" where
  "profile54_ok caps \<longleftrightarrow> 8 \<le> length (cap_version caps) \<and> CORE54_VERSION \<le> cap_version caps ! 0 \<and>
     CORE54_VERSION \<le> cap_version caps ! 3 \<and> length (cap_features caps) = 8 \<and>
     list_all (\<lambda>(b, _). has_feature (cap_features caps) b) REQUIRED_FEATURES \<and> length (cap_commands caps) = 64 \<and>
     list_all (\<lambda>(oct, b, _). bit (cap_commands caps ! oct) b) REQUIRED_COMMANDS"

lemma concat_errors: "concat (map f xs) = [] \<longleftrightarrow> list_all (\<lambda>x. f x = []) xs"
  by (induction xs) auto

lemma profile54_errors_iff: "profile54_errors caps = [] \<longleftrightarrow> profile54_ok caps"
proof -
  have "version_errors v = [] \<longleftrightarrow> 8 \<le> length v \<and> CORE54_VERSION \<le> v ! 0 \<and> CORE54_VERSION \<le> v ! 3" for v
    by (auto simp: version_errors_def not_less)
  moreover have "feature_errors fs = [] \<longleftrightarrow> length fs = 8 \<and> list_all (\<lambda>(b, _). has_feature fs b) REQUIRED_FEATURES" for fs
    by (simp add: feature_errors_def concat_errors has_feature_def mask_bit_iff REQUIRED_FEATURES_def)
  moreover have "command_errors cs = [] \<longleftrightarrow> length cs = 64 \<and> list_all (\<lambda>(oct, b, _). bit (cs ! oct) b) REQUIRED_COMMANDS" for cs
    by (simp add: command_errors_def concat_errors mask_bit_iff REQUIRED_COMMANDS_def)
  ultimately show ?thesis by (simp add: profile54_errors_def profile54_ok_def)
qed

text \<open>The profile of a controller always gets one row, and it is a pass exactly when the capabilities could
  be read and hold the version, the features and the commands of Bluetooth 5.4.\<close>

lemma profile54_row:
  "\<exists>b' row. profile54_one label sd b = (Inr (), b') \<and> bn_book b' = bn_book b @ [row] \<and>
     key row = (''Bluetooth 5.4 profile'', label) \<and>
     r_status row = (case fst (on_side sd (read_controller_capabilities True) b) of
        Inl _ \<Rightarrow> FAIL | Inr caps \<Rightarrow> if profile54_ok caps then PASS else FAIL)"
proof -
  obtain r b1 where b1: "on_side sd (read_controller_capabilities True) b = (r, b1)" by (metis surj_pair)
  have "bn_book b1 = bn_book b" using book_on_pair(2) [of sd "read_controller_capabilities True" b] b1 by simp
  with b1 show ?thesis
    by (cases r) (auto simp: profile54_one_def or_failed_any_def failing_def catch_s_def bind_s_def write_book_def
        failed_def passed_def book_add_def key_def Let_def profile54_errors_iff)
qed

end
