(* ===== verification/Core_Advanced.thy ===== *)
theory Core_Advanced
  imports Phase_Rules
begin

text \<open>
  \<open>python/hcicontroller/core_advanced.py\<close>: the connected procedures of Core 6.0 and 6.2 on one link
  between two controllers: the complete feature exchange, frame space updates initiated by either role,
  and the shortest connection interval. The phase has three steps; the step that fails is a failure, the
  ones that were not reached are recorded as incomplete.
\<close>

section \<open>Features\<close>

abbreviation (input) LE_FEATURE_PAGE_MAX :: nat where "LE_FEATURE_PAGE_MAX \<equiv> 10"
abbreviation (input) SCI_HOST_SUPPORT_BIT :: nat where "SCI_HOST_SUPPORT_BIT \<equiv> 73"

definition read_all_local_features :: "(hci, nat \<times> bytes) action" where
  "read_all_local_features =
     bind_s (command_ok 0x2087 (Inr []) ''LE Read All Local Supported Features'') (\<lambda>data.
     if length data \<noteq> 249
     then throw (HciError ''LE Read All Local Supported Features returned %d bytes, expected 249'' [length data])
     else ret (unat (data ! 0), drop 1 data))"

definition valid_feature_bytes :: "nat \<Rightarrow> nat result" where
  "valid_feature_bytes max_page =
     (if LE_FEATURE_PAGE_MAX < max_page
      then Inl (HciError ''feature Max_Page %u exceeds Core maximum %u'' [max_page, LE_FEATURE_PAGE_MAX])
      else Inr (8 + 24 * max_page))"

definition check_all_features :: "bytes \<Rightarrow> bytes \<Rightarrow> (nat \<times> nat \<times> bytes) result" where
  "check_all_features page0_expected body =
     (if body ! 1 \<noteq> 0 then Inl (HciError ''LE Read All Remote Features Complete returned %s'' [unat (body ! 1)])
      else if length body < 254
      then Inl (HciError ''LE Read All Remote Features Complete returned %d bytes, expected at least 254'' [length body])
      else
        let max_remote_page = unat (body ! 4); max_valid_page = unat (body ! 5); features = pslice 6 254 body in
        if LE_FEATURE_PAGE_MAX < max_remote_page
        then Inl (HciError ''remote Max_Page %u exceeds Core maximum'' [max_remote_page])
        else if max_remote_page < max_valid_page
        then Inl (HciError ''Max_Valid_Page %u exceeds Max_Remote_Page %u'' [max_valid_page, max_remote_page])
        else if max_valid_page < 1 then Inl (HciError ''extended feature exchange did not retrieve page 1'' [])
        else if take 8 features \<noteq> page0_expected
        then Inl (HciError ''all-remote page 0 %s differs from LE Read Remote Features Page 0 %s''
                    (map unat (take 8 features @ page0_expected)))
        else Inr (max_remote_page, max_valid_page, features))"

definition read_all_remote_features :: "nat \<Rightarrow> bytes \<Rightarrow> (hci, nat \<times> nat \<times> bytes) action" where
  "read_all_remote_features handle page0_expected =
     bind_s (command_ok 0x2088 (struct_pack [FH handle, FB 1]) ''LE Read All Remote Features'') (\<lambda>_.
     bind_s (required ''no LE Read All Remote Features Complete event'' []
               (wait_le_subevent 0x2B (Some handle) (Some 2) (\<lambda>event. 4 \<le> length event) 8000000)) (\<lambda>body.
     lift_r (check_all_features page0_expected body)))"

section \<open>Frame space\<close>

abbreviation (input) FRAME_SPACE_1M :: nat where "FRAME_SPACE_1M \<equiv> 200"
abbreviation (input) FRAME_SPACE_DEFAULT :: nat where "FRAME_SPACE_DEFAULT \<equiv> 150"
abbreviation (input) FRAME_SPACE_PHY_1M :: byte where "FRAME_SPACE_PHY_1M \<equiv> 0x01"
abbreviation (input) FRAME_SPACE_PHY_2M :: byte where "FRAME_SPACE_PHY_2M \<equiv> 0x02"
abbreviation (input) FRAME_SPACE_ACL_IFS :: nat where "FRAME_SPACE_ACL_IFS \<equiv> 0x0003"

definition frame_space_event :: "nat \<Rightarrow> nat \<Rightarrow> byte \<Rightarrow> byte \<Rightarrow> bytes \<Rightarrow> bool" where
  "frame_space_event frame_space_min frame_space_max phys expected_initiator event \<longleftrightarrow>
     \<not> (length event < 10 \<or> event ! 1 \<noteq> 0) \<and> event ! 4 = expected_initiator \<and>
     frame_space_min \<le> from_le (pslice 5 7 event) \<and> from_le (pslice 5 7 event) \<le> frame_space_max \<and>
     event ! 7 AND phys \<noteq> 0 \<and> from_le (pslice 8 10 event) AND FRAME_SPACE_ACL_IFS = FRAME_SPACE_ACL_IFS"

text \<open>\<open>_wait_frame_space\<close> has the exact value; it is the range of that one value.\<close>

definition wait_frame_space :: "nat \<Rightarrow> nat \<Rightarrow> byte \<Rightarrow> (hci, unit) action" where
  "wait_frame_space handle frame_space expected_initiator =
     bind_s (required ''no matching LE Frame Space Update Complete event'' []
       (wait_le_subevent 0x35 (Some handle) (Some 2)
          (frame_space_event frame_space frame_space FRAME_SPACE_PHY_1M expected_initiator) 8000000)) (\<lambda>_. ret ())"

definition frame_space_command :: "string \<Rightarrow> nat \<Rightarrow> nat \<Rightarrow> nat \<Rightarrow> byte \<Rightarrow> (hci, bytes) action" where
  "frame_space_command name handle frame_space_min frame_space_max phys =
     command_ok 0x209D (struct_pack [FH handle, FH frame_space_min, FH frame_space_max, FB (unat phys), FH FRAME_SPACE_ACL_IFS]) name"

definition frame_space_request :: "side \<Rightarrow> nat \<Rightarrow> side \<Rightarrow> nat \<Rightarrow> nat \<Rightarrow> ('x bench_scheme, unit) action" where
  "frame_space_request initiator initiator_handle peer peer_handle frame_space =
     bind_s (on_side initiator (frame_space_command ''LE Frame Space Update'' initiator_handle frame_space frame_space FRAME_SPACE_PHY_1M)) (\<lambda>_.
     bind_s (on_side initiator (wait_frame_space initiator_handle frame_space 0)) (\<lambda>_.
     on_side peer (wait_frame_space peer_handle frame_space 2)))"

definition wait_frame_space_range :: "nat \<Rightarrow> nat \<Rightarrow> nat \<Rightarrow> byte \<Rightarrow> byte \<Rightarrow> (hci, nat) action" where
  "wait_frame_space_range handle frame_space_min frame_space_max phys expected_initiator =
     bind_s (required ''no matching LE Frame Space Update Complete event for SCI'' []
       (wait_le_subevent 0x35 (Some handle) (Some 2)
          (frame_space_event frame_space_min frame_space_max phys expected_initiator) 8000000)) (\<lambda>body.
     ret (from_le (pslice 5 7 body)))"

definition frame_space_range_request ::
  "side \<Rightarrow> nat \<Rightarrow> side \<Rightarrow> nat \<Rightarrow> nat \<Rightarrow> nat \<Rightarrow> byte \<Rightarrow> ('x bench_scheme, nat) action" where
  "frame_space_range_request initiator initiator_handle peer peer_handle frame_space_min frame_space_max phys =
     bind_s (on_side initiator (frame_space_command ''LE Frame Space Update for SCI'' initiator_handle frame_space_min frame_space_max phys)) (\<lambda>_.
     bind_s (on_side initiator (wait_frame_space_range initiator_handle frame_space_min frame_space_max phys 0)) (\<lambda>local_space.
     bind_s (on_side peer (wait_frame_space_range peer_handle frame_space_min frame_space_max phys 2)) (\<lambda>peer_space.
     if local_space \<noteq> peer_space
     then throw (HciError ''SCI frame-space result differs across peers: %u vs %u us'' [local_space, peer_space])
     else ret local_space)))"

section \<open>Connection rate\<close>

abbreviation (input) SCI_INTERVAL :: nat where "SCI_INTERVAL \<equiv> 6"
abbreviation (input) SCI_REQUEST_MAX_INTERVAL :: nat where "SCI_REQUEST_MAX_INTERVAL \<equiv> 80"
abbreviation (input) SCI_SUPERVISION_TIMEOUT :: nat where "SCI_SUPERVISION_TIMEOUT \<equiv> 400"

definition set_sci_host_support :: "bool \<Rightarrow> (hci, unit) action" where
  "set_sci_host_support enable =
     bind_s (request 0x2097 (struct_pack [FH SCI_HOST_SUPPORT_BIT, FB (if enable then 1 else 0)])) (\<lambda>(status, _).
     if status \<noteq> 0 then throw (HciError ''LE Set Host Feature v2 bit %u returned %s'' [SCI_HOST_SUPPORT_BIT, unat status])
     else ret ())"

definition rate_parameters :: "nat option \<Rightarrow> nat \<Rightarrow> nat \<Rightarrow> bytes result" where
  "rate_parameters with_handle interval_min interval_max =
     struct_pack ((case with_handle of None \<Rightarrow> [] | Some hnd \<Rightarrow> [FH hnd]) @
       [FH interval_min, FH interval_max, FH 1, FH 1, FH 0, FH 0, FH SCI_SUPERVISION_TIMEOUT, FH 0x0001, FH 0x3E7F])"

definition set_default_rate_parameters :: "(hci, unit) action" where
  "set_default_rate_parameters =
     bind_s (command_ok 0x20A2 (rate_parameters None SCI_INTERVAL SCI_INTERVAL) ''LE Set Default Rate Parameters'') (\<lambda>_. ret ())"

definition rate_event :: "bytes \<Rightarrow> bool" where
  "rate_event event \<longleftrightarrow>
     \<not> (length event < 14 \<or> event ! 1 \<noteq> 0) \<and> from_le (pslice 4 6 event) = SCI_INTERVAL \<and> from_le (pslice 6 8 event) = 1 \<and>
     from_le (pslice 8 10 event) = 0 \<and> from_le (pslice 10 12 event) = 0 \<and> from_le (pslice 12 14 event) = SCI_SUPERVISION_TIMEOUT"

definition wait_rate_change :: "nat \<Rightarrow> (hci, unit) action" where
  "wait_rate_change handle =
     bind_s (required ''no matching LE Connection Rate Change event'' []
       (wait_le_subevent 0x37 (Some handle) (Some 2) rate_event 8000000)) (\<lambda>_. ret ())"

section \<open>The phase\<close>

text \<open>The step that runs; the controllers on which host support was enabled are in \<open>bn_prepared\<close>.\<close>

record core_bench = bench +
  cb_step :: nat

definition core_steps :: "(string \<times> string) list" where
  "core_steps =
     [(''Core 6.0'', ''LE Read All Remote Features completion''),
      (''Core 6.0'', ''Frame Space Update positive procedure''),
      (''Core 6.2'', ''Connection Rate / Shorter Connection Intervals'')]"

definition step_passed :: "nat \<Rightarrow> detail \<Rightarrow> ('x core_bench_scheme, unit) action" where
  "step_passed k det =
     bind_s (write_book (passed (fst (core_steps ! k)) (snd (core_steps ! k)) det)) (\<lambda>_.
     modify_s (\<lambda>b. b\<lparr>cb_step := k + 1\<rparr>))"

definition enable_sci :: "side \<Rightarrow> ('x bench_scheme, unit) action" where
  "enable_sci sd =
     bind_s (on_side sd (set_sci_host_support True)) (\<lambda>_.
     bind_s (modify_s (\<lambda>b. b\<lparr>bn_prepared := bn_prepared b @ [sd]\<rparr>)) (\<lambda>_.
     on_side sd set_default_rate_parameters))"

definition compare_features :: "nat \<Rightarrow> nat \<Rightarrow> nat \<times> nat \<times> bytes \<Rightarrow> nat \<times> nat \<times> bytes \<Rightarrow> unit result" where
  "compare_features central_local_max peripheral_local_max c_remote p_remote =
     (case (c_remote, p_remote) of ((c_max, c_valid, c_features), (p_max, p_valid, p_features)) \<Rightarrow>
        if c_max \<noteq> peripheral_local_max
        then Inl (HciError ''Central sees peer Max_Page %u, Peripheral reports local Max_Page %u'' [c_max, peripheral_local_max])
        else if p_max \<noteq> central_local_max
        then Inl (HciError ''Peripheral sees peer Max_Page %u, Central reports local Max_Page %u'' [p_max, central_local_max])
        else bind_r (valid_feature_bytes (min c_valid p_valid)) (\<lambda>compare_len.
          if take compare_len c_features \<noteq> take compare_len p_features
          then Inl (HciError ''reciprocal all-remote feature pages differ'' []) else Inr ()))"

text \<open>The connection and the feature exchange, up to the first pass; then the two other steps.\<close>

definition core_features :: "('x core_bench_scheme, nat \<times> nat) action" where
  "core_features =
     bind_s (on_side Peripheral (prepare_controller DEFAULT_LE_EVENT_MASK)) (\<lambda>(peripheral_id, peripheral_type, _).
     bind_s (on_side Central (prepare_controller DEFAULT_LE_EVENT_MASK)) (\<lambda>(_, central_type, _).
     bind_s (enable_sci Central) (\<lambda>_.
     bind_s (enable_sci Peripheral) (\<lambda>_.
     bind_s (on_side Central read_all_local_features) (\<lambda>(central_local_max, _).
     bind_s (on_side Peripheral read_all_local_features) (\<lambda>(peripheral_local_max, _).
     bind_s (on_side Peripheral (start_legacy_advertising peripheral_type True)) (\<lambda>_.
     bind_s (on_side Central (start_legacy_connection central_type peripheral_id peripheral_type)) (\<lambda>_.
     bind_s (on_pair (wait_acl_pair 10000000)) (\<lambda>(c, p).
     bind_s (modify_s (\<lambda>b. b\<lparr>bn_handles := Some (c, p)\<rparr>)) (\<lambda>_.
     bind_s (on_side Central (read_remote_features c)) (\<lambda>central_page0.
     bind_s (on_side Peripheral (read_remote_features p)) (\<lambda>peripheral_page0.
     bind_s (on_side Central (read_all_remote_features c central_page0)) (\<lambda>c_remote.
     bind_s (on_side Peripheral (read_all_remote_features p peripheral_page0)) (\<lambda>p_remote.
     bind_s (lift_r (compare_features central_local_max peripheral_local_max c_remote p_remote)) (\<lambda>_.
     bind_s (step_passed 0 (''Max_Page %u / Max_Valid_Page %u'', [int (fst c_remote), int (fst (snd c_remote))])) (\<lambda>_.
     ret (c, p)))))))))))))))))"

definition core_frame_space :: "nat \<Rightarrow> nat \<Rightarrow> ('x core_bench_scheme, unit) action" where
  "core_frame_space c p =
     bind_s (frame_space_request Central c Peripheral p FRAME_SPACE_1M) (\<lambda>_.
     bind_s (frame_space_request Peripheral p Central c FRAME_SPACE_DEFAULT) (\<lambda>_.
     step_passed 1 (''Central 200 us, Peripheral restore 150 us'', [])))"

definition core_rate :: "nat \<Rightarrow> nat \<Rightarrow> ('x core_bench_scheme, unit) action" where
  "core_rate c p =
     bind_s (on_side Peripheral (set_phy p PHY_2M)) (\<lambda>_.
     bind_s (frame_space_range_request Peripheral p Central c 0 FRAME_SPACE_DEFAULT FRAME_SPACE_PHY_2M) (\<lambda>sci_frame_space.
     bind_s (on_side Peripheral (command_ok 0x20A1 (rate_parameters (Some p) SCI_INTERVAL SCI_REQUEST_MAX_INTERVAL)
               ''LE Connection Rate Request'')) (\<lambda>_.
     bind_s (on_side Peripheral (wait_rate_change p)) (\<lambda>_.
     bind_s (on_side Central (wait_rate_change c)) (\<lambda>_.
     step_passed 2 (''750 us, subrate 1, 2M PHY, %u us frame space'', [int sci_frame_space]))))))"

definition core_body :: "('x core_bench_scheme, unit) action" where
  "core_body =
     bind_s core_features (\<lambda>(c, p). bind_s (core_frame_space c p) (\<lambda>_. core_rate c p))"

text \<open>The handler: the running step failed, the later ones are incomplete.\<close>

fun mark_incomplete :: "(string \<times> string) list \<Rightarrow> book \<Rightarrow> book" where
  "mark_incomplete [] bk = bk"
| "mark_incomplete ((grp, name) # steps) bk =
     mark_incomplete steps (incomplete grp name (''not reached after prior Core procedure failure'', []) bk)"

definition mark_steps :: "nat \<Rightarrow> exn \<Rightarrow> book \<Rightarrow> book" where
  "mark_steps current_step e bk =
     (if current_step < length core_steps then
        (case core_steps ! current_step of (grp, name) \<Rightarrow>
           mark_incomplete (drop (current_step + 1) core_steps) (failed grp name (error_detail e) bk))
      else bk)"

fun disable_sci :: "side list \<Rightarrow> ('x bench_scheme, unit) action" where
  "disable_sci [] = ret ()"
| "disable_sci (sd # sds) = bind_s (quietly (on_side sd (set_sci_host_support False))) (\<lambda>_. disable_sci sds)"

definition run_core_advanced_phase :: "('x core_bench_scheme, unit) action" where
  "run_core_advanced_phase =
     bind_s (modify_s (\<lambda>b. b\<lparr>bn_handles := None, bn_prepared := [], cb_step := 0\<rparr>)) (\<lambda>_.
     finally_s
       (catch_s core_body (\<lambda>e. if engine_error e then with_s (\<lambda>b. write_book (mark_steps (cb_step b) e)) else throw e))
       (bind_s disconnect_handles (\<lambda>_. with_s (\<lambda>b. disable_sci (bn_prepared b)))))"

section \<open>Runs that can stop at any step\<close>

definition staged :: "('s \<Rightarrow> bool) \<Rightarrow> ('s, 'a) action \<Rightarrow> ('a \<Rightarrow> 's \<Rightarrow> bool) \<Rightarrow> ('s \<Rightarrow> bool) \<Rightarrow> bool" where
  "staged P m Q E \<longleftrightarrow> (\<forall>s r s'. P s \<longrightarrow> m s = (r, s') \<longrightarrow> (case r of Inl _ \<Rightarrow> E s' | Inr x \<Rightarrow> Q x s'))"

lemma stagedI: "(\<And>s r s'. P s \<Longrightarrow> m s = (r, s') \<Longrightarrow> case r of Inl _ \<Rightarrow> E s' | Inr x \<Rightarrow> Q x s') \<Longrightarrow> staged P m Q E"
  unfolding staged_def by blast

lemma stagedD: "staged P m Q E \<Longrightarrow> P s \<Longrightarrow> m s = (r, s') \<Longrightarrow> case r of Inl _ \<Rightarrow> E s' | Inr x \<Rightarrow> Q x s'"
  unfolding staged_def by blast

lemma staged_bind:
  assumes "staged P m R E" "\<And>x. staged (R x) (f x) Q E"
  shows "staged P (bind_s m f) Q E"
proof (rule stagedI)
  fix s r s' assume s: "P s" "bind_s m f s = (r, s')"
  obtain rm s1 where m: "m s = (rm, s1)" by (metis surj_pair)
  show "case r of Inl _ \<Rightarrow> E s' | Inr x \<Rightarrow> Q x s'"
  proof (cases rm)
    case (Inl e)
    with stagedD [OF assms(1) s(1) m] s(2) m show ?thesis by (auto simp: bind_s_def)
  next
    case (Inr x)
    with stagedD [OF assms(1) s(1) m] s(2) m stagedD [OF assms(2)] show ?thesis by (auto simp: bind_s_def)
  qed
qed

lemma staged_pure: "(F \<Longrightarrow> staged P m Q E) \<Longrightarrow> staged (\<lambda>s. P s \<and> F) m Q E"
  unfolding staged_def by blast

lemma staged_call:
  assumes "staged P m (\<lambda>x s. P s \<and> F x) E" "\<And>x. F x \<Longrightarrow> staged P (f x) Q E"
  shows "staged P (bind_s m f) Q E"
  using assms(1) by (rule staged_bind) (auto intro: staged_pure assms(2))

lemma staged_cases:
  "(c \<Longrightarrow> staged P m Q E) \<Longrightarrow> (\<not> c \<Longrightarrow> staged P n Q E) \<Longrightarrow> staged P (if c then m else n) Q E"
  "(\<And>x y. z = (x, y) \<Longrightarrow> staged P (g x y) Q E) \<Longrightarrow> staged P (case z of (x, y) \<Rightarrow> g x y) Q E"
  by (simp_all split: prod.split)

lemma staged_ret: "(\<And>s. P s \<Longrightarrow> Q x s) \<Longrightarrow> staged P (ret x) Q E" "(\<And>s. P s \<Longrightarrow> E s) \<Longrightarrow> staged P (throw e) Q E"
  "(\<And>s. P s \<Longrightarrow> E s) \<Longrightarrow> staged P (lift_r v) (\<lambda>x s. P s \<and> v = Inr x) E"
  by (auto simp: staged_def split: sum.splits)

text \<open>The bench during step \<open>k\<close>: the earlier steps have their passes in the book, and nothing else was
  written since the phase began.\<close>

definition stage :: "book \<Rightarrow> packet multiset \<Rightarrow> packet multiset \<Rightarrow> nat \<Rightarrow> 'x core_bench_scheme \<Rightarrow> bool" where
  "stage B I J k s \<longleftrightarrow> within I J s \<and> cb_step s = k \<and>
     (\<exists>rows. bn_book s = B @ rows \<and> map key rows = take k core_steps \<and> list_all (\<lambda>r. r_status r = PASS) rows)"

text \<open>Stopped during some step, with what the passes before it rest on.\<close>

definition may_stop :: "(nat \<Rightarrow> bool) \<Rightarrow> nat \<Rightarrow> bool" where
  "may_stop Ev k \<longleftrightarrow> k \<le> 3 \<and> Ev k"

definition stopped :: "book \<Rightarrow> packet multiset \<Rightarrow> packet multiset \<Rightarrow> (nat \<Rightarrow> bool) \<Rightarrow> 'x core_bench_scheme \<Rightarrow> bool" where
  "stopped B I J Ev s \<longleftrightarrow> (\<exists>k. may_stop Ev k \<and> stage B I J k s)"

lemma stage_stopped: "may_stop Ev k \<Longrightarrow> stage B I J k s \<Longrightarrow> stopped B I J Ev s"
  unfolding stopped_def by blast

lemma staged_reader:
  assumes "reader scan_inbox m" "reader adv_inbox m" "\<And>s. bn_book (snd (m s)) = bn_book s" "\<And>s. cb_step (snd (m s)) = cb_step s"
    and "may_stop Ev k" "\<And>s x s'. within I J s \<Longrightarrow> m s = (Inr x, s') \<Longrightarrow> F x"
  shows "staged (stage B I J k) m (\<lambda>x s. stage B I J k s \<and> F x) (stopped B I J Ev)"
proof (rule stagedI)
  fix s r s' assume s: "stage B I J k s" "m s = (r, s')"
  have "scan_inbox s' \<subseteq># scan_inbox s" "adv_inbox s' \<subseteq># adv_inbox s"
    using reader.takes [OF assms(1) s(2)] reader.takes [OF assms(2) s(2)] by auto
  then have "within I J s'" using s(1) unfolding stage_def within_def by (blast intro: subset_mset.order_trans)
  moreover have "bn_book s' = bn_book s" "cb_step s' = cb_step s" using assms(3,4) [of s] s(2) by simp_all
  ultimately have st: "stage B I J k s'" using s(1) by (simp add: stage_def)
  show "case r of Inl _ \<Rightarrow> stopped B I J Ev s' | Inr x \<Rightarrow> stage B I J k s' \<and> F x"
  proof (cases r)
    case (Inr x)
    with assms(6) s st show ?thesis by (auto simp: stage_def)
  qed (use st assms(5) in \<open>auto intro: stage_stopped\<close>)
qed

lemma step_on_pair [simp]: "cb_step (snd (on_pair m b)) = cb_step b" "cb_step (snd (on_side sd m' b)) = cb_step b"
  by (simp_all add: on_pair_def on_side_def split: prod.split)

lemma staged_side:
  assumes "reader inbox m" "may_stop Ev k"
  shows "staged (stage B I J k) (on_side sd m)
    (\<lambda>x s. stage B I J k s \<and> received (case sd of Central \<Rightarrow> I | Peripheral \<Rightarrow> J) m x) (stopped B I J Ev)"
proof (intro staged_reader reader_side assms book_on_pair step_on_pair)
  show "received (case sd of Central \<Rightarrow> I | Peripheral \<Rightarrow> J) m x" if "within I J s" "on_side sd m s = (Inr x, s')"
    for s s' :: "'b core_bench_scheme" and x
    using yieldsD [OF yields_side [OF assms(1)] that] by simp
qed

lemma staged_pair:
  assumes "may_stop Ev k"
  shows "staged (stage B I J k) (on_pair (wait_acl_pair timeout))
    (\<lambda>(c, p) s. stage B I J k s \<and> connected_as 0 c I \<and> connected_as 1 p J) (stopped B I J Ev)"
proof -
  note rd = read_connection_reader [THEN reader_pair_side(1)] read_connection_reader [THEN reader_pair_side(3)]
    read_connection_reader [THEN reader_pair_side(2)] read_connection_reader [THEN reader_pair_side(4)]
  have r: "reader scan_inbox (on_pair (wait_acl_pair timeout))" "reader adv_inbox (on_pair (wait_acl_pair timeout))"
    by (rule readerI, auto simp: on_pair_def split: prod.splits
        dest: reader.takes [OF wait_acl_pair_reader [OF rd(1,2)]] reader.takes [OF wait_acl_pair_reader [OF rd(3,4)]])+
  have ev: "connected_as 0 c I \<and> connected_as 1 p J" if w: "within I J s" and run: "on_pair (wait_acl_pair timeout) s = (Inr (c, p), s')"
    for s c p s'
  proof -
    obtain t where "wait_acl_pair timeout (bn_pair s) = (Inr (c, p), t)" using run by (auto simp: on_pair_def split: prod.splits)
    from wait_acl_pair_heard(3,4) [OF this] w show ?thesis by (auto simp: within_def intro: connected_as_mono)
  qed
  have "staged (stage B I J k) (on_pair (wait_acl_pair timeout))
    (\<lambda>x s. stage B I J k s \<and> (case x of (c, p) \<Rightarrow> connected_as 0 c I \<and> connected_as 1 p J)) (stopped B I J Ev)"
    using ev by (intro staged_reader r assms) auto
  then show ?thesis by (simp add: case_prod_unfold)
qed

lemma staged_modify:
  "(\<And>s. bn_pair (g s) = bn_pair s \<and> bn_book (g s) = bn_book s \<and> cb_step (g s) = cb_step s) \<Longrightarrow>
   staged (stage B I J k) (modify_s g) (\<lambda>x s. stage B I J k s \<and> True) E"
  unfolding staged_def stage_def within_def by auto

lemma staged_pass:
  fixes E :: "'x core_bench_scheme \<Rightarrow> bool"
  assumes "k < 3"
  shows "staged (stage B I J k) (step_passed k det) (\<lambda>_. stage B I J (k + 1)) E"
proof (rule stagedI)
  fix s s' :: "'x core_bench_scheme" and r
  assume s: "stage B I J k s" "step_passed k det s = (r, s')"
  let ?row = "\<lparr>r_group = fst (core_steps ! k), r_name = snd (core_steps ! k), r_status = PASS, r_detail = det\<rparr>"
  from s(1) obtain rows where rows: "bn_book s = B @ rows" "map key rows = take k core_steps" "list_all (\<lambda>r. r_status r = PASS) rows"
    unfolding stage_def by blast
  have len: "k < length core_steps" using assms by (simp add: core_steps_def)
  have s': "r = Inr ()" "s' = s\<lparr>bn_book := bn_book s @ [?row], cb_step := k + 1\<rparr>"
    using s(2) by (auto simp: step_passed_def write_book_def passed_def book_add_def)
  have "map key (rows @ [?row]) = take (k + 1) core_steps"
    using rows(2) len by (simp add: key_def take_Suc_conv_app_nth)
  then have "stage B I J (k + 1) s'"
    using s(1) rows(1,3) unfolding stage_def within_def s'(2) by (auto intro!: exI [of _ "rows @ [?row]"])
  then show "case r of Inl _ \<Rightarrow> E s' | Inr x \<Rightarrow> stage B I J (k + 1) s'" using s'(1) by simp
qed

section \<open>What the passes rest on\<close>

lemma received_wait:
  assumes "received I (bind_s (required msg args (wait_le_subevent subevent (Some hnd) (Some 2) predicate timeout)) f) x"
  shows "\<exists>body. meta body \<in># I \<and> body ! 0 = subevent \<and> from_le (pslice 2 4 body) mod 4096 = hnd \<and> predicate body \<and> received I (f body) x"
proof -
  from assms obtain body where b: "received I (required msg args (wait_le_subevent subevent (Some hnd) (Some 2) predicate timeout)) body"
    "received I (f body) x" by (rule received_bind [OF _ reader_required [OF reader_subevent]])
  from received_subevent [OF b(1)] b(2) show ?thesis by (intro exI [of _ body]) simp
qed

lemma received_ret: "received I (ret x) y \<Longrightarrow> y = x"
  by (auto simp: received_def)

definition link_event :: "packet multiset \<Rightarrow> byte \<Rightarrow> nat \<Rightarrow> (bytes \<Rightarrow> bool) \<Rightarrow> bool" where
  "link_event ps subevent hnd q \<longleftrightarrow> (\<exists>body. meta body \<in># ps \<and> body ! 0 = subevent \<and> from_le (pslice 2 4 body) mod 4096 = hnd \<and> q body)"

lemma received_frame_space:
  "received I (wait_frame_space hnd space initiator) u \<Longrightarrow> link_event I 0x35 hnd (frame_space_event space space FRAME_SPACE_PHY_1M initiator)"
  unfolding wait_frame_space_def link_event_def by (drule received_wait) blast

lemma received_frame_range:
  "received I (wait_frame_space_range hnd lo hi phys initiator) x \<Longrightarrow>
   link_event I 0x35 hnd (\<lambda>e. frame_space_event lo hi phys initiator e \<and> x = from_le (pslice 5 7 e))"
  unfolding wait_frame_space_range_def link_event_def by (drule received_wait) (blast dest: received_ret)

lemma received_rate: "received I (wait_rate_change hnd) u \<Longrightarrow> link_event I 0x37 hnd rate_event"
  unfolding wait_rate_change_def link_event_def by (drule received_wait) blast

definition all_features_event :: "nat \<Rightarrow> nat \<Rightarrow> bytes \<Rightarrow> bytes \<Rightarrow> bool" where
  "all_features_event max_remote max_valid features e \<longleftrightarrow> e ! 1 = 0 \<and> 254 \<le> length e \<and> unat (e ! 4) = max_remote \<and>
     unat (e ! 5) = max_valid \<and> pslice 6 254 e = features"

lemma received_all_features:
  assumes "received I (read_all_remote_features hnd page0) (max_remote, max_valid, features)"
  shows "link_event I 0x2B hnd (all_features_event max_remote max_valid features) \<and> max_remote \<le> LE_FEATURE_PAGE_MAX \<and>
    1 \<le> max_valid \<and> max_valid \<le> max_remote \<and> take 8 features = page0"
proof -
  from assms obtain d where "received I (bind_s (required ''no LE Read All Remote Features Complete event'' []
               (wait_le_subevent 0x2B (Some hnd) (Some 2) (\<lambda>event. 4 \<le> length event) 8000000)) (\<lambda>body.
     lift_r (check_all_features page0 body))) (max_remote, max_valid, features)"
    unfolding read_all_remote_features_def by (rule received_bind [OF _ reader_command_ok])
  from received_wait [OF this] obtain body where body: "meta body \<in># I" "body ! 0 = 0x2B" "from_le (pslice 2 4 body) mod 4096 = hnd"
    "check_all_features page0 body = Inr (max_remote, max_valid, features)" by (auto simp: received_def)
  from body(4) have "all_features_event max_remote max_valid features body" "max_remote \<le> LE_FEATURE_PAGE_MAX"
    "1 \<le> max_valid" "max_valid \<le> max_remote" "take 8 features = page0"
    by (auto simp: check_all_features_def all_features_event_def Let_def split: if_splits)
  with body(1-3) show ?thesis unfolding link_event_def by blast
qed

text \<open>Both sides read all features of the other: as many pages as the other has, the same page 0 as the
  older command returns, and the same pages in both directions.\<close>

definition features_evidence :: "packet multiset \<Rightarrow> packet multiset \<Rightarrow> nat \<Rightarrow> nat \<Rightarrow> bool" where
  "features_evidence I J c p \<longleftrightarrow> connected_as 0 c I \<and> connected_as 1 p J \<and>
     (\<exists>c_max c_valid c_features p_max p_valid p_features c_local p_local.
        received I read_all_local_features (p_max, c_local) \<and> received J read_all_local_features (c_max, p_local) \<and>
        link_event I 0x2B c (all_features_event c_max c_valid c_features) \<and>
        link_event J 0x2B p (all_features_event p_max p_valid p_features) \<and>
        received I (read_remote_features c) (take 8 c_features) \<and> received J (read_remote_features p) (take 8 p_features) \<and>
        1 \<le> min c_valid p_valid \<and>
        take (8 + 24 * min c_valid p_valid) c_features = take (8 + 24 * min c_valid p_valid) p_features)"

definition frame_evidence :: "packet multiset \<Rightarrow> packet multiset \<Rightarrow> nat \<Rightarrow> nat \<Rightarrow> bool" where
  "frame_evidence I J c p \<longleftrightarrow>
     link_event I 0x35 c (frame_space_event 200 200 FRAME_SPACE_PHY_1M 0) \<and> link_event J 0x35 p (frame_space_event 200 200 FRAME_SPACE_PHY_1M 2) \<and>
     link_event J 0x35 p (frame_space_event 150 150 FRAME_SPACE_PHY_1M 0) \<and> link_event I 0x35 c (frame_space_event 150 150 FRAME_SPACE_PHY_1M 2)"

definition rate_evidence :: "packet multiset \<Rightarrow> packet multiset \<Rightarrow> nat \<Rightarrow> nat \<Rightarrow> bool" where
  "rate_evidence I J c p \<longleftrightarrow> received J (set_phy p PHY_2M) () \<and>
     (\<exists>space. link_event J 0x35 p (\<lambda>e. frame_space_event 0 150 FRAME_SPACE_PHY_2M 0 e \<and> space = from_le (pslice 5 7 e)) \<and>
        link_event I 0x35 c (\<lambda>e. frame_space_event 0 150 FRAME_SPACE_PHY_2M 2 e \<and> space = from_le (pslice 5 7 e))) \<and>
     link_event J 0x37 p rate_event \<and> link_event I 0x37 c rate_event"

definition core_evidence :: "packet multiset \<Rightarrow> packet multiset \<Rightarrow> nat \<Rightarrow> bool" where
  "core_evidence I J k \<longleftrightarrow> k = 0 \<or> (\<exists>c p. features_evidence I J c p \<and> (2 \<le> k \<longrightarrow> frame_evidence I J c p) \<and>
     (3 \<le> k \<longrightarrow> rate_evidence I J c p))"

lemma core_readers: "reader inbox (set_sci_host_support enable)" "reader inbox set_default_rate_parameters"
  "reader inbox read_all_local_features" "reader inbox (read_remote_features hnd)" "reader inbox (read_all_remote_features hnd page0)"
  "reader inbox (frame_space_command name hnd lo hi phys)" "reader inbox (wait_frame_space hnd space initiator)"
  "reader inbox (wait_frame_space_range hnd lo hi phys initiator)" "reader inbox (wait_rate_change hnd)" "reader inbox (set_phy hnd phy)"
  unfolding set_sci_host_support_def set_default_rate_parameters_def read_all_local_features_def read_remote_features_def
    read_all_remote_features_def frame_space_command_def wait_frame_space_def wait_frame_space_range_def wait_rate_change_def set_phy_def
  by (intro reader_steps)+

lemma staged_weaken: "staged P m Q E \<Longrightarrow> (\<And>x s. Q x s \<Longrightarrow> Q' x s) \<Longrightarrow> staged P m Q' E"
  unfolding staged_def by (simp split: sum.splits) blast

lemma staged_links:
  assumes "may_stop Ev k"
  shows "staged (stage B I J k) (frame_space_request initiator hi peer hp space)
    (\<lambda>_ s. stage B I J k s \<and> link_event (case initiator of Central \<Rightarrow> I | Peripheral \<Rightarrow> J) 0x35 hi (frame_space_event space space FRAME_SPACE_PHY_1M 0) \<and>
       link_event (case peer of Central \<Rightarrow> I | Peripheral \<Rightarrow> J) 0x35 hp (frame_space_event space space FRAME_SPACE_PHY_1M 2)) (stopped B I J Ev)"
  unfolding frame_space_request_def
  by (intro staged_call [OF staged_side [OF _ assms]] core_readers)
    (rule staged_weaken [OF staged_side [OF core_readers(7) assms]], blast dest: received_frame_space)

lemma staged_range:
  assumes "may_stop Ev k"
  shows "staged (stage B I J k) (frame_space_range_request initiator hi peer hp lo up phys)
    (\<lambda>space s. stage B I J k s \<and>
       (link_event (case initiator of Central \<Rightarrow> I | Peripheral \<Rightarrow> J) 0x35 hi (\<lambda>e. frame_space_event lo up phys 0 e \<and> space = from_le (pslice 5 7 e)) \<and>
        link_event (case peer of Central \<Rightarrow> I | Peripheral \<Rightarrow> J) 0x35 hp (\<lambda>e. frame_space_event lo up phys 2 e \<and> space = from_le (pslice 5 7 e)))) (stopped B I J Ev)"
  unfolding frame_space_range_request_def
  by (intro staged_call [OF staged_side [OF _ assms]] core_readers staged_cases staged_ret)
    (auto dest!: received_frame_range intro: stage_stopped assms)

lemma staged_enable:
  assumes "may_stop Ev k"
  shows "staged (stage B I J k) (enable_sci sd) (\<lambda>_ s. stage B I J k s \<and> True) (stopped B I J Ev)"
  unfolding enable_sci_def
  by (intro staged_call [OF staged_side [OF _ assms]] staged_call [OF staged_modify] core_readers
      staged_weaken [OF staged_side [OF core_readers(2) assms]]) simp_all

lemma features_staged:
  "staged (stage B I J 0) core_features (\<lambda>x s. stage B I J 1 s \<and> features_evidence I J (fst x) (snd x)) (stopped B I J (core_evidence I J))"
proof -
  have ev: "may_stop (core_evidence I J) 0" by (simp add: may_stop_def core_evidence_def)
  note side = staged_call [OF staged_side [OF _ ev]]
  have pair: "staged (stage B I J 0) (on_pair (wait_acl_pair timeout))
    (\<lambda>x s. stage B I J 0 s \<and> (connected_as 0 (fst x) I \<and> connected_as 1 (snd x) J)) (stopped B I J (core_evidence I J))" for timeout
    using staged_pair [OF ev] by (simp add: case_prod_unfold)
  have lift: "staged (stage B I J 0) (lift_r v) (\<lambda>x s. stage B I J 0 s \<and> v = Inr x) (stopped B I J (core_evidence I J))" for v :: "unit result"
    by (rule staged_ret(3)) (rule stage_stopped [OF ev])
  show ?thesis
    unfolding core_features_def
  proof (intro side staged_call [OF staged_enable [OF ev]] staged_call [OF pair] staged_call [OF staged_modify]
      staged_call [OF lift] staged_cases prepares.reader_axioms core_readers legacy_adv.reader_axioms legacy_conn.reader_axioms
      staged_bind [OF staged_pass])
  qed (auto intro!: staged_ret simp: features_evidence_def compare_features_def bind_r_Inr_iff valid_feature_bytes_def
      split: if_splits dest!: received_all_features, blast)
qed

lemma frames_staged:
  assumes "features_evidence I J c p"
  shows "staged (stage B I J 1) (core_frame_space c p) (\<lambda>_ s. stage B I J 2 s \<and> frame_evidence I J c p) (stopped B I J (core_evidence I J))"
proof -
  have ev: "may_stop (core_evidence I J) 1" using assms by (auto simp: may_stop_def core_evidence_def)
  have "staged (stage B I J 1) (step_passed 1 det) (\<lambda>_ s. stage B I J 2 s \<and> frame_evidence I J c p) (stopped B I J (core_evidence I J))"
    if "frame_evidence I J c p" for det
    by (rule staged_weaken [OF staged_pass]) (use that in \<open>simp_all add: numeral_2_eq_2\<close>)
  then show ?thesis
    unfolding core_frame_space_def
    by (intro staged_call [OF staged_links [OF ev]]) (simp add: frame_evidence_def)
qed

lemma rate_staged:
  assumes "features_evidence I J c p" "frame_evidence I J c p"
  shows "staged (stage B I J 2) (core_rate c p) (\<lambda>_ s. stage B I J 3 s \<and> rate_evidence I J c p) (stopped B I J (core_evidence I J))"
proof -
  have ev: "may_stop (core_evidence I J) 2" using assms by (auto simp: may_stop_def core_evidence_def)
  have pass: "staged (stage B I J 2) (step_passed 2 det) (\<lambda>_ s. stage B I J 3 s \<and> rate_evidence I J c p) (stopped B I J (core_evidence I J))"
    if "rate_evidence I J c p" for det
    by (rule staged_weaken [OF staged_pass]) (use that in simp_all)
  show ?thesis
    unfolding core_rate_def
    by (intro staged_call [OF staged_side [OF _ ev]] staged_call [OF staged_range [OF ev]] core_readers reader_command_ok pass)
      (auto simp: rate_evidence_def dest!: received_rate)
qed

lemma core_body_staged:
  "staged (stage B I J 0) core_body (\<lambda>_ s. stopped B I J (core_evidence I J) s \<and> cb_step s = 3) (stopped B I J (core_evidence I J))"
  unfolding core_body_def
proof (rule staged_bind [OF features_staged])
  fix x
  show "staged (\<lambda>s. stage B I J 1 s \<and> features_evidence I J (fst x) (snd x))
     (case x of (c, p) \<Rightarrow> bind_s (core_frame_space c p) (\<lambda>_. core_rate c p))
     (\<lambda>_ s. stopped B I J (core_evidence I J) s \<and> cb_step s = 3) (stopped B I J (core_evidence I J))"
  proof (rule staged_pure, rule staged_cases(2))
    fix c p assume "features_evidence I J (fst x) (snd x)" "x = (c, p)"
    then have f: "features_evidence I J c p" by simp
    show "staged (stage B I J 1) (bind_s (core_frame_space c p) (\<lambda>_. core_rate c p))
       (\<lambda>_ s. stopped B I J (core_evidence I J) s \<and> cb_step s = 3) (stopped B I J (core_evidence I J))"
    proof (rule staged_bind [OF frames_staged [OF f]], rule staged_pure)
      assume fr: "frame_evidence I J c p"
      show "staged (stage B I J 2) (core_rate c p) (\<lambda>_ s. stopped B I J (core_evidence I J) s \<and> cb_step s = 3) (stopped B I J (core_evidence I J))"
      proof (rule staged_weaken [OF rate_staged [OF f fr]], elim conjE)
        fix s assume "stage B I J 3 s" "rate_evidence I J c p"
        then show "stopped B I J (core_evidence I J) s \<and> cb_step s = 3"
          using f fr by (auto simp: stage_def core_evidence_def may_stop_def intro!: stage_stopped [where k = 3], blast)
      qed
    qed
  qed
qed

section \<open>The verdict\<close>

definition step_verdicts :: "nat \<Rightarrow> verdict list" where
  "step_verdicts k = replicate k PASS @ (if k < 3 then FAIL # replicate (2 - k) INCOMPLETE else [])"

lemma mark_rows:
  assumes "k \<le> 3"
  shows "\<exists>rows. mark_steps k e bk = bk @ rows \<and> map key rows = drop k core_steps \<and> map r_status rows = drop k (step_verdicts k)"
proof -
  consider "k = 0" | "k = 1" | "k = 2" | "k = 3" using assms by linarith
  then show ?thesis
    by cases (simp_all add: mark_steps_def core_steps_def step_verdicts_def failed_def incomplete_def book_add_def key_def numeral_2_eq_2)
qed

lemma stopped_rows:
  assumes "stopped B I J Ev s"
  shows "\<exists>rows. may_stop Ev (cb_step s) \<and> mark_steps (cb_step s) e (bn_book s) = B @ rows \<and> map key rows = core_steps \<and>
    map r_status rows = step_verdicts (cb_step s)" "\<exists>rows. bn_book s = B @ rows"
proof -
  from assms obtain k rows where k: "may_stop Ev k" "cb_step s = k" "bn_book s = B @ rows" "map key rows = take k core_steps"
    "list_all (\<lambda>r. r_status r = PASS) rows" by (auto simp: stopped_def stage_def)
  have "k \<le> 3" using k(1) by (simp add: may_stop_def)
  have len: "length rows = k" using arg_cong [OF k(4), of length] \<open>k \<le> 3\<close> by (simp add: core_steps_def)
  have "map r_status rows = replicate k PASS" using k(5) len by (auto simp: list_all_iff intro!: replicate_eqI)
  moreover have "take k (step_verdicts k) = replicate k PASS" by (simp add: step_verdicts_def)
  moreover obtain more where more: "mark_steps k e (bn_book s) = bn_book s @ more" "map key more = drop k core_steps"
    "map r_status more = drop k (step_verdicts k)" using mark_rows [OF \<open>k \<le> 3\<close>] by blast
  ultimately have "map key (rows @ more) = core_steps" "map r_status (rows @ more) = step_verdicts k"
    using k(4) by (simp_all, metis append_take_drop_id)
  then show "\<exists>rows. may_stop Ev (cb_step s) \<and> mark_steps (cb_step s) e (bn_book s) = B @ rows \<and> map key rows = core_steps \<and>
    map r_status rows = step_verdicts (cb_step s)"
    using k(1-3) more(1) by (intro exI [of _ "rows @ more"]) simp
  show "\<exists>rows. bn_book s = B @ rows" using k(3) by blast
qed

lemma disable_clean: "silent (disable_sci sds)" "polite (disable_sci sds)"
proof (induction sds)
  case (Cons sd sds)
  { case 1 show ?case unfolding disable_sci.simps by (intro cleanup_intros Cons) }
  { case 2 show ?case unfolding disable_sci.simps by (intro cleanup_intros Cons) }
qed (simp_all add: silent_with(2) polite_ret)

text \<open>C34. The phase of the Core 6.0 and 6.2 procedures never raises an exception of the engine, and when it
  returns it has recorded all three of its rows, in order, whatever happened: a number of passes, then one
  failure, then incomplete for every step that was not reached. A pass of the feature exchange means that
  over one connection both sides received all features of the other with the same pages in both
  directions, as many as the other reports of itself; a pass of the frame space step means that both
  sides reported both updates, each with the role that initiated it; and a pass of the rate step means
  that both reported one common frame space on the 2M PHY and the shortest interval.\<close>

theorem core_advanced_phase_verdict:
  "case run_core_advanced_phase b of
     (Inl e, b') \<Rightarrow> \<not> is_HciError e \<and> \<not> is_HciGone e \<and> (\<exists>rows. bn_book b' = bn_book b @ rows)
   | (Inr _, b') \<Rightarrow> \<exists>k rows. k \<le> 3 \<and> bn_book b' = bn_book b @ rows \<and> map key rows = core_steps \<and>
       map r_status rows = step_verdicts k \<and> core_evidence (scan_inbox b) (adv_inbox b) k"
proof -
  let ?I = "scan_inbox b" and ?J = "adv_inbox b" and ?b0 = "b\<lparr>bn_handles := None, bn_prepared := [], cb_step := 0\<rparr>"
  let ?guarded = "catch_s core_body (\<lambda>e. if engine_error e then with_s (\<lambda>b. write_book (mark_steps (cb_step b) e)) else throw e)"
  let ?clean = "bind_s disconnect_handles (\<lambda>_. with_s (\<lambda>b. disable_sci (bn_prepared b)))"
  obtain r b1 where b1: "core_body ?b0 = (r, b1)" by (cases "core_body ?b0")
  obtain rt b2 where b2: "?guarded ?b0 = (rt, b2)" by (cases "?guarded ?b0")
  obtain rc b3 where b3: "?clean b2 = (rc, b3)" by (cases "?clean b2")
  have clean: "silent ?clean" "polite ?clean" by (intro cleanup_intros disable_clean)+
  have book: "bn_book b3 = bn_book b2" using clean(1) b3 by (metis silent_def snd_conv)
  have out: "run_core_advanced_phase b = (case rc of Inl e \<Rightarrow> (Inl e, b3) | Inr _ \<Rightarrow> (rt, b3))"
    using b2 b3 by (auto simp: run_core_advanced_phase_def finally_s_def split: sum.splits)
  have "stage (bn_book b) ?I ?J 0 ?b0" by (simp add: stage_def within_def)
  from stagedD [OF core_body_staged this b1] have st: "stopped (bn_book b) ?I ?J (core_evidence ?I ?J) b1"
    and full: "\<And>u. r = Inr u \<Longrightarrow> cb_step b1 = 3" by (auto split: sum.splits)
  have rt: "case rt of Inl e \<Rightarrow> \<not> engine_error e \<and> (\<exists>rows. bn_book b2 = bn_book b @ rows)
    | Inr _ \<Rightarrow> \<exists>rows. may_stop (core_evidence ?I ?J) (cb_step b1) \<and> bn_book b2 = bn_book b @ rows \<and> map key rows = core_steps \<and>
        map r_status rows = step_verdicts (cb_step b1)"
  proof (cases r)
    case (Inl e)
    with b1 b2 stopped_rows(1) [OF st, of e] stopped_rows(2) [OF st] show ?thesis
      by (cases "engine_error e") (auto simp: catch_s_def write_book_def)
  next
    case (Inr u)
    have "mark_steps 3 e bk = bk" for e bk by (simp add: mark_steps_def core_steps_def)
    with Inr b1 b2 stopped_rows(1) [OF st] full [OF Inr] show ?thesis by (auto simp: catch_s_def)
  qed
  show ?thesis
  proof (cases rc)
    case (Inl e)
    with politeD [OF clean(2) b3 [unfolded Inl]] out book rt show ?thesis by (auto split: sum.splits)
  next
    case (Inr u)
    with out book rt show ?thesis by (cases rt) (auto simp: engine_error_def may_stop_def)
  qed
qed

end
