(* ===== verification/Cis_Link.thy ===== *)
theory Cis_Link
  imports Bis_Phase Pair_Phases Commands_Profile
begin

text \<open>
  The procedures of \<open>python/hcicontroller/hci_cis_pair_test.py\<close> that set up a connected isochronous stream
  between two controllers, as the stress phase calls them. Its \<open>start_advertising\<close>, \<open>start_connection\<close>,
  \<open>send_iso\<close>, \<open>setup_iso_path\<close>, \<open>read_iso_buffers\<close> and \<open>wait_iso\<close> send and check exactly what the functions of
  \<open>hci_pair.py\<close> and \<open>hci_iso.py\<close> do, so the definitions of these are used for them.
\<close>

section \<open>The procedures\<close>

definition cis_prepare :: "(hci, bytes \<times> byte \<times> string) action" where
  "cis_prepare =
     bind_s hci_setup (\<lambda>_.
     bind_s (command3 OP_LE_SET_EVENT_MASK DEFAULT_LE_EVENT_MASK) (\<lambda>_.
     bind_s (request 0x2074 (Inr [32, 1])) (\<lambda>(status, _).
     if status \<noteq> 0 then throw (HciError ''LE Set Host Feature bit 32 returned 0x%02X'' [unat status])
     else
       bind_s (identity None) (\<lambda>(own, addr_type, source).
       bind_s (if addr_type = 0x01 then bind_s (command3 OP_LE_SET_RANDOM_ADDRESS own) (\<lambda>_. ret ()) else ret ()) (\<lambda>_.
       ret (own, addr_type, source))))))"

text \<open>The messages of its \<open>wait_acl_pair\<close>, the first with the text of the status.\<close>

definition cis_words :: "string \<Rightarrow> acl_words" where
  "cis_words label = (\<lambda>status. HciError (label @ '' ACL connection failed: '' @ status_text status) [],
     label @ '' ACL connection reported role %u, expected %u'')"

definition cis_wait_acl_pair :: "nat \<Rightarrow> (pair, nat \<times> nat) action" where
  "cis_wait_acl_pair = wait_acl_by (cis_words ''central'') (cis_words ''peripheral'')"

definition parse_cig_return :: "bytes \<Rightarrow> (byte \<times> nat list) result" where
  "parse_cig_return data =
     (if length data < 2 then Inl (HciError ''LE Set CIG Parameters returned only %d bytes'' [length data])
      else
        let cig_id = data ! 0; count = unat (data ! 1) in
        if length data \<noteq> 2 + count * 2
        then Inl (HciError ''CIG return says %d CIS but returned %d bytes'' [count, length data])
        else Inr (cig_id, map (\<lambda>i. from_le (pslice (2 + 2 * i) (4 + 2 * i) data) AND 0x0FFF) [0 ..< count]))"

text \<open>\<open>hci_commands.BY_OPCODE[OP_LE_SET_CIG_PARAMS].build(None)\<close>. The row holds octets; a callable would have
  been given no context.\<close>

definition cig_payload :: "bytes result" where
  "cig_payload =
     bind_r BY_OPCODE (\<lambda>rows.
     case rows 0x2062 of
       None \<Rightarrow> Inl KeyError
     | Some row \<Rightarrow> (case c_payload row of Octets bs \<Rightarrow> bs | Callable _ \<Rightarrow> Inl TypeError))"

definition create_cig :: "(hci, byte \<times> nat \<times> byte) action" where
  "create_cig =
     bind_s (lift_r cig_payload) (\<lambda>payload.
     if length payload < 16 \<or> payload ! 14 \<noteq> 1
     then throw (HciError ''CIG test row does not describe exactly one CIS'' [])
     else
       bind_s (request 0x2062 (Inr payload)) (\<lambda>(status, data).
       if status \<noteq> 0 then throw (HciError ''LE Set CIG Parameters returned 0x%02X'' [unat status])
       else
         bind_s (lift_r (parse_cig_return data)) (\<lambda>(cig_id, handles).
         case handles of
           [cis] \<Rightarrow> ret (cig_id, cis, payload ! 15)
         | _ \<Rightarrow> throw (HciError ''expected one CIS handle, got %d'' [length handles]))))"

definition cis_request_judge :: "nat \<Rightarrow> byte \<Rightarrow> byte \<Rightarrow> packet \<Rightarrow> nat option result" where
  "cis_request_judge expected_acl expected_cig expected_cis_id p =
     (case p of (kind, code, body) \<Rightarrow>
        if kind = H4_EVENT \<and> code = Some EVT_DISCONNECTION_COMPLETE
        then Inl (HciError ''ACL disconnected while waiting for CIS Request'' [])
        else if kind \<noteq> H4_EVENT \<or> code \<noteq> Some EVT_LE_META then Inr None
        else if length body < 7 \<or> body ! 0 \<noteq> 0x1A then Inr None
        else if from_le (pslice 1 3 body) AND 0x0FFF \<noteq> expected_acl then Inr None
        else if body ! 5 \<noteq> expected_cig \<or> body ! 6 \<noteq> expected_cis_id
        then Inl (HciError ''CIS Request reported CIG %u CIS_ID %u, expected %u/%u''
               [unat (body ! 5), unat (body ! 6), unat expected_cig, unat expected_cis_id])
        else Inr (Some (from_le (pslice 3 5 body) AND 0x0FFF)))"

definition wait_cis_request :: "nat \<Rightarrow> byte \<Rightarrow> byte \<Rightarrow> (hci, nat) action" where
  "wait_cis_request expected_acl expected_cig expected_cis_id =
     bind_s (\<lambda>h. read_until False False 100000 (cis_request_judge expected_acl expected_cig expected_cis_id)
                   (clock h + 5000000) [] h) (\<lambda>found.
     case found of
       Some cis \<Rightarrow> ret cis
     | None \<Rightarrow> throw (HciError ''timed out waiting for LE CIS Request'' []))"

definition cis_established_judge :: "string \<Rightarrow> nat \<Rightarrow> packet \<Rightarrow> unit option result" where
  "cis_established_judge label expected_cis p =
     (case p of (kind, code, body) \<Rightarrow>
        if kind = H4_EVENT \<and> code = Some EVT_DISCONNECTION_COMPLETE
        then Inl (HciError (label @ '' disconnected while establishing CIS'') [])
        else if kind \<noteq> H4_EVENT \<or> code \<noteq> Some EVT_LE_META then Inr None
        else if length body < 4 \<or> body ! 0 \<notin> {0x19, 0x2A} then Inr None
        else if from_le (pslice 2 4 body) AND 0x0FFF \<noteq> expected_cis then Inr None
        else if body ! 1 \<noteq> 0
        then Inl (HciError (label @ '' LE CIS Established returned 0x%02X'') [unat (body ! 1)])
        else Inr (Some ()))"

definition wait_cis_established :: "string \<Rightarrow> nat \<Rightarrow> (hci, unit) action" where
  "wait_cis_established label expected_cis =
     bind_s (\<lambda>h. read_until False False 100000 (cis_established_judge label expected_cis)
                   (clock h + 5000000) [] h) (\<lambda>found.
     case found of
       Some _ \<Rightarrow> ret ()
     | None \<Rightarrow> throw (HciError (''timed out waiting for '' @ label @ '' LE CIS Established'') []))"

section \<open>The row that is sent\<close>

text \<open>The table does describe one stream, so the group is always asked for.\<close>

lemma cig_payload_eq:
  "cig_payload = Inr ([0, 0x10, 0x27, 0, 0x10, 0x27, 0, 0, 0, 0, 20, 0, 20, 0] @ [1, 0] @ [40, 0, 40, 0, 1, 1, 2, 2])"
proof -
  let ?p = "Octets (cat [bytes_of [PROBE_CIG_ID], u24 10000, u24 10000, bytes_of [0, 0, 0], struct_pack [FH 20, FH 20], bytes_of [1],
    bytes_of [PROBE_CIS_ID], struct_pack [FH 40, FH 40], bytes_of [1, 1, 2, 2]])"
  let ?r = "Command 0x2062 ''LE Set CIG Parameters'' COMPLETE ?p"
  have "?r \<in> set ISO" unfolding ISO_def by (simp only: list.set insert_iff simp_thms)
  then have "?r \<in> set COMMANDS_catalog" unfolding COMMANDS_catalog_def by (simp only: set_append Un_iff simp_thms)
  then have "adjust ?r \<in> set (COMMANDS @ TEARDOWN)" unfolding COMMANDS_def set_append set_map by blast
  from by_opcode_Some [OF opcodes_distinct this]
  have "by_opcode (COMMANDS @ TEARDOWN) 0x2062 = Some (adjust ?r)" by (simp add: Command_def)
  moreover have "c_payload (adjust ?r) = ?p" by (simp add: adjust_def EXTENDED_PHASE_OPCODES_def Command_def)
  ultimately have "map_option c_payload (by_opcode (COMMANDS @ TEARDOWN) 0x2062) = Some ?p" by (simp only: option.map)
  then obtain row where row: "by_opcode (COMMANDS @ TEARDOWN) 0x2062 = Some row" "c_payload row = ?p" by auto
  have u24: "to_le 4 10000 = [16, 39, 0, 0]"
    using to_le.simps(2) [of 3 10000] to_le.simps(2) [of 2 39] to_le_2 [of 0] by simp
  show ?thesis unfolding cig_payload_def profile_index [THEN conjunct1] bind_r_simps row option.case row(2) payload.case
    by (simp add: cat.simps bytes_of_def octet_def u24_def struct_pack_def pack_le_def to_le_2 u24)
qed

section \<open>What the procedures take and have seen\<close>

interpretation cis_prep: reader inbox cis_prepare
  unfolding cis_prepare_def by (intro reader_steps reader_setup reader_identity)

lemma reader_list: "(\<And>x. reader view (f x)) \<Longrightarrow> (\<And>x y xs. reader view (g x y xs)) \<Longrightarrow> reader view n \<Longrightarrow>
    reader view (case zs of [] \<Rightarrow> n | [x] \<Rightarrow> f x | x # y # xs \<Rightarrow> g x y xs)"
  by (simp split: list.split)

interpretation cig_create: reader inbox create_cig
  unfolding create_cig_def by (intro reader_steps reader_list)

interpretation cis_requested: reader inbox "wait_cis_request acl cig cis_id" for acl cig cis_id
  unfolding wait_cis_request_def by (intro reader_steps reader_wait)

interpretation cis_established: reader inbox "wait_cis_established label cis" for label cis
  unfolding wait_cis_established_def by (intro reader_steps reader_wait)

text \<open>The stream was reported as established on this handle.\<close>

definition stream_up :: "nat \<Rightarrow> packet \<Rightarrow> bool" where
  "stream_up cis p \<longleftrightarrow> (\<exists>body. p = meta body \<and> body ! 0 \<in> {0x19, 0x2A} \<and> body ! 1 = 0 \<and> from_le (pslice 2 4 body) mod 4096 = cis)"

lemma wait_drops_match:
  assumes "read_until False bounded cap judge deadline [] h = (Inr (Some x), h')"
  shows "\<exists>p. judge p = Inr (Some x) \<and> p \<in># inbox h"
  using read_until_end [OF assms]
proof cases
  case (found skipped p left)
  have "p \<in># inbox h" unfolding inbox_def found(1) by simp
  with found(3) show ?thesis by blast
qed

lemma established_seen:
  assumes "wait_cis_established label cis h = (Inr x, h')"
  shows "\<exists>p. stream_up cis p \<and> p \<in># inbox h"
proof -
  from assms obtain u where "read_until False False 100000 (cis_established_judge label cis) (clock h + 5000000) [] h = (Inr (Some u), h')"
    by (auto simp: wait_cis_established_def bind_s_Inr_iff split: option.splits)
  from wait_drops_match [OF this] obtain p where p: "cis_established_judge label cis p = Inr (Some u)" "p \<in># inbox h" by blast
  from p(1) have "stream_up cis p" by (cases p) (auto simp: cis_established_judge_def stream_up_def split: if_splits)
  with p(2) show ?thesis by blast
qed

lemma iso_seen:
  assumes "wait_iso label cis sdu timeout h = (Inr x, h')"
  shows "heard_iso (inbox h) cis sdu"
proof -
  from assms obtain u where "read_until False False 100000 (wait_iso_judge label cis sdu) (clock h + timeout) [] h = (Inr (Some u), h')"
    by (auto simp: wait_iso_def bind_s_Inr_iff split: option.splits)
  from wait_drops_match [OF this] obtain p where "wait_iso_judge label cis sdu p = Inr (Some ())" "p \<in># inbox h" by auto
  then show ?thesis unfolding wait_iso_judge_found heard_iso_def by blast
qed

end
