(* ===== verification/Cis_Teardown.thy ===== *)
theory Cis_Teardown
  imports Mute Hci_Inbox
begin

text \<open>
  \<open>python/hcicontroller/hci_cis_cleanup.py\<close>: the teardown after a run with a connected isochronous stream
  between two controllers. It is there because a clear of the host feature that is sent into a live link
  is refused; what it writes to each controller, and in which order, is shown to depend on the handles
  only and never on what the controllers answer.
\<close>

section \<open>Reading whatever comes\<close>

lemma read_wire_budget:
  assumes "read_wire t h = (r, h')" "0 < t" "clock h < deadline"
  shows "budget deadline h' < budget deadline h" "length (pending h') + length (wire h') \<le> length (pending h) + length (wire h)"
    "clock h \<le> clock h'"
proof -
  have "budget deadline h' < budget deadline h \<and> length (pending h') + length (wire h') \<le> length (pending h) + length (wire h) \<and> clock h \<le> clock h'"
  proof (cases "wire h")
    case Nil
    with assms show ?thesis by (auto simp: read_wire_def budget_def)
  next
    case (Cons x rest)
    obtain d out where x: "x = (d, out)" by fastforce
    have ev: "pending g' = pending g \<and> wire g' = wire g \<and> clock g' = clock g" if "on_event c body g = (re, g')" for c body g re g'
      using on_event_frame(1-3) [of c body g] that by simp
    show ?thesis
    proof (cases "t < d")
      case True
      with assms Cons x show ?thesis by (auto simp: read_wire_def budget_def)
    next
      case False
      let ?g = "h\<lparr>clock := clock h + d, wire := rest\<rparr>"
      have "pending h' = pending ?g \<and> wire h' = wire ?g \<and> clock h' = clock ?g"
        using assms(1) False Cons x
        by (auto simp: read_wire_def Let_def bind_s_def dest: ev split: sum.splits prod.splits option.splits bool.splits if_splits)
      then show ?thesis using Cons x by (auto simp: budget_def)
    qed
  qed
  then show "budget deadline h' < budget deadline h" "length (pending h') + length (wire h') \<le> length (pending h) + length (wire h)"
    "clock h \<le> clock h'" by simp_all
qed

lemma read_any_budget:
  assumes "hci_read_packet t h = (r, h')" "0 < t" "clock h < deadline"
  shows "budget deadline h' < budget deadline h"
proof (cases "pending h")
  case Nil
  with assms(1) have "read_wire t h = (r, h')" by (simp add: hci_read_packet_def)
  from read_wire_budget(1) [OF this assms(2,3)] show ?thesis .
next
  case (Cons q qs)
  with assms show ?thesis by (auto simp: hci_read_packet_def budget_def)
qed

lemma read_any_lengths:
  assumes "hci_read_packet t h = (r, h')" "0 < t"
  shows "length (pending h') + length (wire h') \<le> length (pending h) + length (wire h)" "clock h \<le> clock h'"
proof -
  have "length (pending h') + length (wire h') \<le> length (pending h) + length (wire h) \<and> clock h \<le> clock h'"
  proof (cases "pending h")
    case Nil
    with assms(1) have "read_wire t h = (r, h')" by (simp add: hci_read_packet_def)
    from read_wire_budget(2,3) [OF this assms(2), of "Suc (clock h)"] show ?thesis by simp
  next
    case (Cons q qs)
    with assms show ?thesis by (auto simp: hci_read_packet_def)
  qed
  then show "length (pending h') + length (wire h') \<le> length (pending h) + length (wire h)" "clock h \<le> clock h'" by simp_all
qed

text \<open>A read on either side, with an exception of the engine swallowed.\<close>

definition sip :: "(pair, unit) action" where
  "sip = bind_s (quietly (on_central (hci_read_packet 20000))) (\<lambda>_. quietly (on_peripheral (hci_read_packet 20000)))"

lemma quietly_state: "snd (quietly m s) = snd (m s)"
  by (auto simp: quietly_def catch_s_def bind_s_def split: prod.splits sum.splits)

lemma sip_budget:
  assumes "sip s = (Inr u, s')" "clock (fst s) < deadline"
  shows "pair_budget deadline s' < pair_budget deadline s"
proof -
  obtain rc c where c: "hci_read_packet 20000 (fst s) = (rc, c)" by fastforce
  let ?s1 = "(c, catch_up (clock c - clock (fst s)) (snd s))"
  obtain rp p where p: "hci_read_packet 20000 (snd ?s1) = (rp, p)" by fastforce
  have "snd (quietly (on_central (hci_read_packet 20000)) s) = ?s1" by (simp add: quietly_state on_central_def c)
  then have "quietly (on_peripheral (hci_read_packet 20000)) ?s1 = (Inr u, s')"
    using assms(1) by (auto simp: sip_def bind_s_Inr_iff)
  then have "s' = (catch_up (clock p - clock (snd ?s1)) c, p)"
    using quietly_state [of "on_peripheral (hci_read_packet 20000)" ?s1] p by (simp add: on_peripheral_def)
  moreover have "budget deadline c < budget deadline (fst s)" using read_any_budget [OF c] assms(2) by simp
  moreover have "length (pending p) + length (wire p) \<le> length (pending (snd s)) + length (wire (snd s))"
    using read_any_lengths(1) [OF p] by (simp add: catch_up_def)
  ultimately show ?thesis by (simp add: pair_budget_def budget_def catch_up_def)
qed

function drain :: "nat \<Rightarrow> (pair, unit) action" where
  "drain fin s =
     (if clock (fst s) < fin then
        (case sip s of (Inl e, s') \<Rightarrow> (Inl e, s') | (Inr _, s') \<Rightarrow> drain fin s')
      else (Inr (), s))"
  by pat_completeness auto
termination
  by (relation "measure (\<lambda>(fin, s). pair_budget fin s)") (simp, metis sip_budget in_measure case_prod_conv)

declare drain.simps [simp del]

section \<open>The teardown\<close>

abbreviation (input) DISCONNECT_REASON :: nat where "DISCONNECT_REASON \<equiv> 0x13"
abbreviation (input) CIS_HOST_SUPPORT_BIT :: byte where "CIS_HOST_SUPPORT_BIT \<equiv> 32"

definition remove_iso_paths :: "nat \<Rightarrow> (hci, byte \<times> bytes) action" where
  "remove_iso_paths cis = request 0x206F (struct_pack [FH cis, FB 0x03])"

text \<open>\<open>wait_disconnected\<close> of this file gives up, without raising, when a read fails.\<close>

definition wait_gone :: "nat \<Rightarrow> (hci, bool) action" where
  "wait_gone handle =
     catch_s (wait_disconnected handle 5000000) (\<lambda>e. if is_HciError e \<or> is_HciGone e then ret False else throw e)"

definition if_some :: "'a option \<Rightarrow> ('a \<Rightarrow> (pair, 'b) action) \<Rightarrow> (pair, unit) action" where
  "if_some x m = (case x of None \<Rightarrow> ret () | Some v \<Rightarrow> bind_s (m v) (\<lambda>_. ret ()))"

definition cleanup :: "byte option \<Rightarrow> nat option \<Rightarrow> nat option \<Rightarrow> nat option \<Rightarrow> nat option \<Rightarrow> (pair, unit) action" where
  "cleanup cig_id central_cis peripheral_cis central_acl peripheral_acl =
     bind_s (if_some central_cis (\<lambda>cis. quietly (on_central (remove_iso_paths cis)))) (\<lambda>_.
     bind_s (if_some peripheral_cis (\<lambda>cis. quietly (on_peripheral (remove_iso_paths cis)))) (\<lambda>_.
     bind_s (if_some central_cis (\<lambda>cis. quietly (on_central (request OP_DISCONNECT (struct_pack [FH cis, FB DISCONNECT_REASON]))))) (\<lambda>_.
     bind_s (\<lambda>s. drain (clock (fst s) + 500000) s) (\<lambda>_.
     bind_s (if_some cig_id (\<lambda>cig. quietly (on_central (request 0x2065 (Inr [cig]))))) (\<lambda>_.
     bind_s (if_some central_acl (\<lambda>acl. quietly (on_central (request OP_DISCONNECT (struct_pack [FH acl, FB DISCONNECT_REASON]))))) (\<lambda>_.
     bind_s (if_some peripheral_acl (\<lambda>acl. quietly (on_peripheral (request OP_DISCONNECT (struct_pack [FH acl, FB DISCONNECT_REASON]))))) (\<lambda>_.
     bind_s (quietly (on_peripheral (request 0x200A (Inr [0x00])))) (\<lambda>_.
     bind_s (if_some central_acl (\<lambda>acl. on_central (wait_gone acl))) (\<lambda>_.
     bind_s (if_some peripheral_acl (\<lambda>acl. on_peripheral (wait_gone acl))) (\<lambda>_.
     bind_s (quietly (on_central (request 0x2074 (Inr [CIS_HOST_SUPPORT_BIT, 0])))) (\<lambda>_.
     quietly (on_peripheral (request 0x2074 (Inr [CIS_HOST_SUPPORT_BIT, 0]))))))))))))))"

section \<open>What is written\<close>

text \<open>On a transport that takes what is written, an action that returns has written \<open>cs\<close> to the central and
  \<open>ps\<close> to the peripheral, whatever was received, and no exception of the engine escapes.\<close>

definition takes_all :: "pair \<Rightarrow> bool" where
  "takes_all s \<longleftrightarrow> tx_faults (fst s) = [] \<and> tx_faults (snd s) = []"

locale sender =
  fixes cs ps :: "bytes list" and act :: "(pair, 'a) action"
  assumes sends: "act s = (r, s') \<Longrightarrow> takes_all s \<Longrightarrow> (case r of
      Inl e \<Rightarrow> \<not> is_HciError e \<and> \<not> is_HciGone e
    | Inr _ \<Rightarrow> sent (fst s') = sent (fst s) @ cs \<and> sent (snd s') = sent (snd s) @ ps \<and> takes_all s')"

lemma sender_ret: "sender [] [] (ret x)"
  by unfold_locales auto

lemma sender_bind:
  assumes "sender cs ps m" "\<And>x. sender cs' ps' (f x)"
  shows "sender (cs @ cs') (ps @ ps') (bind_s m f)"
proof
  fix s r s' assume run: "bind_s m f s = (r, s')" and t: "takes_all s"
  obtain rm s1 where m: "m s = (rm, s1)" by (metis surj_pair)
  note first = sender.sends [OF assms(1) m t]
  show "case r of Inl e \<Rightarrow> \<not> is_HciError e \<and> \<not> is_HciGone e
    | Inr _ \<Rightarrow> sent (fst s') = sent (fst s) @ cs @ cs' \<and> sent (snd s') = sent (snd s) @ ps @ ps' \<and> takes_all s'"
  proof (cases rm)
    case (Inl e)
    with run m first show ?thesis by (auto simp: bind_s_def)
  next
    case (Inr x)
    with run m have "f x s1 = (r, s')" by (simp add: bind_s_def)
    from sender.sends [OF assms(2) this] first Inr show ?thesis by (cases r) auto
  qed
qed

lemma sender_option:
  assumes "\<And>v. sender (cs v) (ps v) (m v)"
  shows "sender (case x of None \<Rightarrow> [] | Some v \<Rightarrow> cs v) (case x of None \<Rightarrow> [] | Some v \<Rightarrow> ps v) (if_some x m)"
proof (cases x)
  case None
  then show ?thesis by (simp add: if_some_def sender_ret)
next
  case (Some v)
  from sender_bind [OF assms sender_ret] Some show ?thesis by (simp add: if_some_def)
qed

lemma quietly_outcome: "quietly m s = (r, s') \<Longrightarrow> s' = snd (m s) \<and> (case r of Inl e \<Rightarrow> \<not> is_HciError e \<and> \<not> is_HciGone e | Inr _ \<Rightarrow> True)"
  by (auto simp: quietly_def catch_s_def bind_s_def split: prod.splits sum.splits if_splits)

lemma sender_quietly:
  assumes "\<And>s s' r. m s = (r, s') \<Longrightarrow> takes_all s \<Longrightarrow>
    sent (fst s') = sent (fst s) @ cs \<and> sent (snd s') = sent (snd s) @ ps \<and> takes_all s'"
  shows "sender cs ps (quietly m)"
proof
  fix s r s' assume run: "quietly m s = (r, s')" and t: "takes_all s"
  from quietly_outcome [OF run] assms [OF surjective_pairing t] show "case r of Inl e \<Rightarrow> \<not> is_HciError e \<and> \<not> is_HciGone e
    | Inr _ \<Rightarrow> sent (fst s') = sent (fst s) @ cs \<and> sent (snd s') = sent (snd s) @ ps \<and> takes_all s'"
    by (auto split: sum.splits)
qed

lemma sender_command:
  assumes "opcode < 65536" "length load < 256"
  shows "sender [command_packet opcode load] [] (quietly (on_central (request opcode (Inr load))))"
    "sender [] [command_packet opcode load] (quietly (on_peripheral (request opcode (Inr load))))"
proof -
  have w: "sent h' = sent h @ [command_packet opcode load] \<and> tx_faults h' = []"
    if "command opcode load 3000000 True h = (r, h')" "tx_faults h = []" for h r h'
    using command_writes_once [OF that(2) assms, of 3000000 True] that(1) by simp
  show "sender [command_packet opcode load] [] (quietly (on_central (request opcode (Inr load))))"
    "sender [] [command_packet opcode load] (quietly (on_peripheral (request opcode (Inr load))))"
    by (rule sender_quietly; auto simp: on_central_def on_peripheral_def request_def takes_all_def catch_up_def bind_s_def
        dest!: w split: prod.splits)+
qed

lemma sender_link:
  assumes "n < 65536" "v < 256" "opcode < 65536"
  shows "sender [command_packet opcode (to_le 2 n @ to_le 1 v)] [] (quietly (on_central (request opcode (struct_pack [FH n, FB v]))))"
    "sender [] [command_packet opcode (to_le 2 n @ to_le 1 v)] (quietly (on_peripheral (request opcode (struct_pack [FH n, FB v]))))"
proof -
  have "struct_pack [FH n, FB v] = Inr (to_le 2 n @ to_le 1 v)" using assms(1,2) by (simp add: struct_pack_def pack_le_def cat.simps)
  then show "sender [command_packet opcode (to_le 2 n @ to_le 1 v)] [] (quietly (on_central (request opcode (struct_pack [FH n, FB v]))))"
    "sender [] [command_packet opcode (to_le 2 n @ to_le 1 v)] (quietly (on_peripheral (request opcode (struct_pack [FH n, FB v]))))"
    using sender_command [OF assms(3)] by simp_all
qed

lemma sender_mute: "mute m \<Longrightarrow> sender [] [] (quietly (on_central m))" "mute m \<Longrightarrow> sender [] [] (quietly (on_peripheral m))"
  by (rule sender_quietly; auto simp: on_central_def on_peripheral_def mute_def takes_all_def catch_up_def split: prod.splits; metis snd_conv)+

interpretation drained: sender "[]" "[]" "drain fin" for fin
proof
  have sip: "sender [] [] sip" using sender_bind [OF sender_mute(1) [OF mute_read] sender_mute(2) [OF mute_read]] by (simp add: sip_def)
  fix s r s' assume "drain fin s = (r, s')" "takes_all s"
  then show "case r of Inl e \<Rightarrow> \<not> is_HciError e \<and> \<not> is_HciGone e
    | Inr _ \<Rightarrow> sent (fst s') = sent (fst s) @ [] \<and> sent (snd s') = sent (snd s) @ [] \<and> takes_all s'"
  proof (induction fin s arbitrary: r s' rule: drain.induct)
    case (1 fin s)
    obtain rs s1 where s1: "sip s = (rs, s1)" by (metis surj_pair)
    note first = sender.sends [OF sip s1 1(3)]
    show ?case
    proof (cases "clock (fst s) < fin")
      case True
      show ?thesis
      proof (cases rs)
        case (Inl e)
        with True s1 first 1(2) show ?thesis by (auto simp: drain.simps [of fin s])
      next
        case (Inr u)
        with True s1 1(2) have "drain fin s1 = (r, s')" by (simp add: drain.simps [of fin s])
        with 1(1) [OF True s1 [symmetric] Inr] first Inr show ?thesis by (cases r) auto
      qed
    qed (use 1(2,3) in \<open>auto simp: drain.simps [of fin s]\<close>)
  qed
qed

lemma wait_gone_outcome:
  assumes "wait_gone handle h = (r, h')"
  shows "sent h' = sent h \<and> tx_faults h' = tx_faults h \<and> (case r of Inl e \<Rightarrow> \<not> is_HciError e \<and> \<not> is_HciGone e | Inr _ \<Rightarrow> True)"
proof -
  obtain rw h1 where w: "read_until False False 100000 (disconnected_judge handle) (clock h + 5000000) [] h = (rw, h1)" by fastforce
  have "sent h1 = sent h" "tx_faults h1 = tx_faults h"
    using mute_wait [of False False 100000 "disconnected_judge handle" 5000000 "[]"] w unfolding mute_def by (metis snd_conv)+
  with assms w show ?thesis
    by (cases rw) (auto simp: wait_gone_def wait_disconnected_def catch_s_def bind_s_def split: if_splits)
qed

lemma sender_gone: "sender [] [] (on_central (wait_gone handle))" "sender [] [] (on_peripheral (wait_gone handle))"
  by (unfold_locales, auto simp: on_central_def on_peripheral_def takes_all_def catch_up_def split: prod.splits sum.splits
      dest!: wait_gone_outcome)+

section \<open>The commands of a teardown\<close>

definition per :: "'a option \<Rightarrow> ('a \<Rightarrow> bytes list) \<Rightarrow> bytes list" where
  "per x f = (case x of None \<Rightarrow> [] | Some v \<Rightarrow> f v)"

definition link_command :: "nat \<Rightarrow> nat \<Rightarrow> 16 word \<Rightarrow> bytes" where
  "link_command opcode v handle = command_packet opcode (to_le 2 (unat handle) @ to_le 1 v)"

definition clear_host_feature :: bytes where
  "clear_host_feature = command_packet 0x2074 [CIS_HOST_SUPPORT_BIT, 0]"

definition central_teardown :: "byte option \<Rightarrow> 16 word option \<Rightarrow> 16 word option \<Rightarrow> bytes list" where
  "central_teardown cig cis acl =
     per cis (\<lambda>x. [link_command 0x206F 0x03 x, link_command OP_DISCONNECT DISCONNECT_REASON x]) @
     per cig (\<lambda>x. [command_packet 0x2065 [x]]) @ per acl (\<lambda>x. [link_command OP_DISCONNECT DISCONNECT_REASON x]) @ [clear_host_feature]"

definition peripheral_teardown :: "16 word option \<Rightarrow> 16 word option \<Rightarrow> bytes list" where
  "peripheral_teardown cis acl =
     per cis (\<lambda>x. [link_command 0x206F 0x03 x]) @ per acl (\<lambda>x. [link_command OP_DISCONNECT DISCONNECT_REASON x]) @
     [command_packet 0x200A [0x00], clear_host_feature]"

lemma sender_per:
  assumes "\<And>v. sender (cs v) (ps v) (m v)"
  shows "sender (per x cs) (per x ps) (if_some x m)"
  using sender_option [OF assms] by (simp add: per_def)

lemma per_nil: "per x (\<lambda>_. []) = []" "per x f @ per x g = per x (\<lambda>v. f v @ g v)"
  by (simp_all add: per_def split: option.split)

lemma if_some_map: "if_some (map_option f x) m = if_some x (\<lambda>v. m (f v))"
  by (simp add: if_some_def split: option.split)

lemma sender_word:
  fixes x :: "16 word"
  assumes "v < 256" "opcode < 65536"
  shows "sender [link_command opcode v x] [] (quietly (on_central (request opcode (struct_pack [FH (unat x), FB v]))))"
    "sender [] [link_command opcode v x] (quietly (on_peripheral (request opcode (struct_pack [FH (unat x), FB v]))))"
  using sender_link [OF _ assms, of "unat x"] unsigned_less [of x, where ?'a = nat] by (simp_all add: link_command_def)

lemma teardown_sends:
  "sender (central_teardown cig c_cis c_acl) (peripheral_teardown p_cis p_acl)
     (cleanup cig (map_option unat c_cis) (map_option unat p_cis) (map_option unat c_acl) (map_option unat p_acl))"
proof -
  have drain: "sender [] [] (\<lambda>s. drain (clock (fst s) + 500000) s)" by unfold_locales (rule drained.sends)
  note steps = sender_bind sender_per sender_word sender_command sender_gone drain
  have "sender (per c_cis (\<lambda>x. [link_command 0x206F 0x03 x]) @ per p_cis (\<lambda>x. []) @ per c_cis (\<lambda>x. [link_command OP_DISCONNECT DISCONNECT_REASON x]) @
      [] @ per cig (\<lambda>x. [command_packet 0x2065 [x]]) @ per c_acl (\<lambda>x. [link_command OP_DISCONNECT DISCONNECT_REASON x]) @ per p_acl (\<lambda>x. []) @
      [] @ per c_acl (\<lambda>x. []) @ per p_acl (\<lambda>x. []) @ [clear_host_feature] @ [])
    (per c_cis (\<lambda>x. []) @ per p_cis (\<lambda>x. [link_command 0x206F 0x03 x]) @ per c_cis (\<lambda>x. []) @
      [] @ per cig (\<lambda>x. []) @ per c_acl (\<lambda>x. []) @ per p_acl (\<lambda>x. [link_command OP_DISCONNECT DISCONNECT_REASON x]) @
      [command_packet 0x200A [0x00]] @ per c_acl (\<lambda>x. []) @ per p_acl (\<lambda>x. []) @ [] @ [clear_host_feature])
    (cleanup cig (map_option unat c_cis) (map_option unat p_cis) (map_option unat c_acl) (map_option unat p_acl))"
    unfolding cleanup_def if_some_map remove_iso_paths_def clear_host_feature_def by (intro steps) simp_all
  then show ?thesis unfolding central_teardown_def peripheral_teardown_def by (simp add: per_nil append_assoc [symmetric] del: append_assoc)
qed


end
