(* ===== verification/Completed_Packets.thy ===== *)
theory Completed_Packets
  imports Acl_Reassembly
begin

text \<open>
  \<open>_wait_completed\<close> of \<open>python/hcicontroller/stress_features.py\<close>: waiting for the credits of one connection.
  One event can report completions of several connections, so the wait takes out the entries of its own
  connection and puts the rest of the event back. The completions of every other connection are shown
  to be conserved exactly.
\<close>

section \<open>The wait\<close>

abbreviation (input) EVT_NUM_COMPLETED_PACKETS :: byte where "EVT_NUM_COMPLETED_PACKETS \<equiv> 0x13"

text \<open>The entries of an event: the connection, the count, and the octets of the entry.\<close>

fun entries :: "bytes \<Rightarrow> (nat \<times> nat \<times> bytes) list" where
  "entries (a # b # c # d # rest) = (from_le [a, b] AND 0x0FFF, from_le [c, d], [a, b, c, d]) # entries rest"
| "entries _ = []"

definition completed_step :: "nat \<Rightarrow> packet list \<Rightarrow> packet \<Rightarrow> packet list \<times> bool" where
  "completed_step target deferred p =
     (case p of (kind, code, body) \<Rightarrow>
        if kind = H4_EVENT \<and> code = Some EVT_NUM_COMPLETED_PACKETS \<and> body \<noteq> [] then
          if length body \<noteq> 1 + 4 * unat (body ! 0) then (deferred @ [p], False)
          else
            let es = entries (drop 1 body);
                others = filter (\<lambda>(handle, _). handle \<noteq> target) es;
                completed = list_ex (\<lambda>(handle, done, _). handle = target \<and> done \<noteq> 0) es
            in (if others \<noteq> [] then deferred @ [(kind, code, of_nat (length others) # concat (map (\<lambda>(_, _, raw). raw) others))]
                else deferred, completed)
        else if kind \<noteq> H4_ISO then (deferred @ [p], False)
        else (deferred, False))"

text \<open>The loop of \<open>gather\<close> in a \<open>try\<close> whose \<open>finally\<close> uses the state: it is returned with an exception too.\<close>

function gather_all :: "('t \<Rightarrow> packet \<Rightarrow> 't \<times> bool) \<Rightarrow> nat \<Rightarrow> 't \<Rightarrow> hci \<Rightarrow> bool result \<times> 't \<times> hci" where
  "gather_all step deadline t h =
     (if clock h < deadline then
        (case hci_read_packet (min 200000 (deadline - clock h)) h of
           (Inl e, h') \<Rightarrow> (Inl e, t, h')
         | (Inr None, h') \<Rightarrow> gather_all step deadline t h'
         | (Inr (Some p), h') \<Rightarrow>
             if snd (step t p) then (Inr True, fst (step t p), h')
             else gather_all step deadline (fst (step t p)) h')
      else (Inr False, t, h))"
  by pat_completeness auto
termination
  by (relation "measure (\<lambda>(_, deadline, _, h). budget deadline h)") (auto intro!: hci_read_packet_budget [OF sym])

declare gather_all.simps [simp del]

definition wait_completed :: "nat \<Rightarrow> nat \<Rightarrow> (hci, unit) action" where
  "wait_completed expected_handle timeout h =
     (let target = expected_handle AND 0x0FFF in
      case gather_all (completed_step target) (clock h + timeout) [] h of
        (r, deferred, h') \<Rightarrow>
          (case r of
             Inl e \<Rightarrow> Inl e
           | Inr found \<Rightarrow> if found then Inr () else Inl (HciError ''no Number Of Completed Packets for handle 0x%04X'' [target]),
           restore deferred h'))"

section \<open>Completions that are reported\<close>

text \<open>What a packet reports as completed for a connection.\<close>

definition credits :: "nat \<Rightarrow> packet \<Rightarrow> nat" where
  "credits handle p =
     (case p of (kind, code, body) \<Rightarrow>
        if kind = H4_EVENT \<and> code = Some EVT_NUM_COMPLETED_PACKETS \<and> body \<noteq> [] \<and> length body = 1 + 4 * unat (body ! 0)
        then sum_list (map (\<lambda>(hnd, done, _). if hnd = handle then done else 0) (entries (drop 1 body))) else 0)"

definition credits_in :: "packet multiset \<Rightarrow> nat \<Rightarrow> nat" where
  "credits_in ps handle = (\<Sum>p\<in>#ps. credits handle p)"

definition entry_ok :: "nat \<times> nat \<times> bytes \<Rightarrow> bool" where
  "entry_ok e = (case e of (hnd, done, raw) \<Rightarrow> length raw = 4 \<and> entries raw = [(hnd, done, raw)])"

lemma entries_ok: "list_all entry_ok (entries bs)"
  by (induction bs rule: entries.induct) (simp_all add: entry_ok_def)

lemma entries_append:
  assumes "length raw = 4"
  shows "entries (raw @ bs) = entries raw @ entries bs"
proof -
  have "4 \<le> length raw" using assms by simp
  then obtain a b c d xs where "raw = [a, b, c, d] @ xs" by (rule four_octets)
  with assms show ?thesis by simp
qed

lemma entries_concat: "list_all entry_ok es \<Longrightarrow> entries (concat (map (\<lambda>(_, _, raw). raw) es)) = es"
proof (induction es)
  case (Cons e es)
  then show ?case by (auto simp: entry_ok_def entries_append split: prod.splits)
qed simp

lemma length_concat_raw: "list_all entry_ok es \<Longrightarrow> length (concat (map (\<lambda>(_, _, raw). raw) es)) = 4 * length es"
  by (induction es) (auto simp: entry_ok_def split: prod.splits)

lemma length_entries: "length bs = 4 * n \<Longrightarrow> length (entries bs) = n"
proof (induction bs arbitrary: n rule: entries.induct)
  case (1 a b c d rest)
  then obtain m where "n = Suc m" by (cases n) auto
  with 1 show ?case by simp
qed auto

section \<open>Nothing of the others is lost\<close>

lemma credits_in_simps [simp]:
  "credits_in {#} hnd = 0" "credits_in (add_mset p ps) hnd = credits hnd p + credits_in ps hnd"
  "credits_in (ps + qs) hnd = credits_in ps hnd + credits_in qs hnd"
  by (simp_all add: credits_in_def)

lemma credits_in_mono: "ps \<subseteq># qs \<Longrightarrow> credits_in ps hnd \<le> credits_in qs hnd"
  by (auto simp: subset_mset.le_iff_add)

lemma sum_filter_other:
  "sum_list (map (\<lambda>(hnd, done, _). if hnd = handle then done else 0) (filter (\<lambda>(hnd, _). hnd \<noteq> target) es)) =
   (if handle = target then 0 else sum_list (map (\<lambda>(hnd, done, _). if hnd = handle then done else 0) es))"
  for es :: "(nat \<times> nat \<times> bytes) list"
  by (induction es) auto

lemma sum_target:
  "list_ex (\<lambda>(hnd, done, _). hnd = target \<and> done \<noteq> 0) es \<Longrightarrow>
   0 < sum_list (map (\<lambda>(hnd, done, _). if hnd = target then done else 0) es)" for es :: "(nat \<times> nat \<times> bytes) list"
  by (induction es) auto

lemma credits_entries:
  assumes "list_all entry_ok es" "length es < 256"
  shows "credits hnd (H4_EVENT, Some EVT_NUM_COMPLETED_PACKETS, of_nat (length es) # concat (map (\<lambda>(_, _, raw). raw) es)) =
    sum_list (map (\<lambda>(h', done, _). if h' = hnd then done else 0) es)"
  using assms(2) by (simp add: credits_def length_concat_raw [OF assms(1)] entries_concat [OF assms(1)] unat_of_nat_byte)

lemma completed_step_credits:
  assumes "completed_step target ds p = (ds', found)"
  shows "credits_in (mset ds') hnd = credits_in (mset ds) hnd + (if hnd = target then 0 else credits hnd p)"
    "found \<Longrightarrow> 0 < credits target p"
proof -
  obtain kind code body where p: "p = (kind, code, body)" by (metis prod_cases3)
  let ?ev = "kind = H4_EVENT \<and> code = Some EVT_NUM_COMPLETED_PACKETS \<and> body \<noteq> []"
  have "credits_in (mset ds') hnd = credits_in (mset ds) hnd + (if hnd = target then 0 else credits hnd p) \<and> (found \<longrightarrow> 0 < credits target p)"
  proof (cases "?ev \<and> length body = 1 + 4 * unat (body ! 0)")
    case False
    then have "credits h' p = 0" for h' by (auto simp: credits_def p)
    with False assms show ?thesis by (auto simp: completed_step_def p split: if_splits)
  next
    case True
    let ?es = "entries (drop 1 body)"
    let ?others = "filter (\<lambda>(handle, _). handle \<noteq> target) ?es"
    let ?q = "(kind, code, of_nat (length ?others) # concat (map (\<lambda>(_, _, raw). raw) ?others))"
    have ok: "list_all entry_ok ?others" using entries_ok by (auto simp: list_all_iff)
    have "length ?es = unat (body ! 0)" using True by (intro length_entries) simp
    then have "length ?others \<le> unat (body ! 0)" using length_filter_le [of _ ?es] by simp
    then have len: "length ?others < 256" using unat_byte_less [of "body ! 0"] by (rule le_less_trans)
    have q: "credits h' ?q = (if h' = target then 0 else credits h' p)" for h'
    proof -
      have "credits h' ?q = sum_list (map (\<lambda>(hnd, done, _). if hnd = h' then done else 0) ?others)"
        using True credits_entries [OF ok len] by (simp only: simp_thms)
      also have "\<dots> = (if h' = target then 0 else credits h' p)" unfolding sum_filter_other using True by (simp add: credits_def p)
      finally show ?thesis .
    qed
    have none: "credits h' p = 0" if "?others = []" "h' \<noteq> target" for h'
    proof -
      have "sum_list (map (\<lambda>(hnd, done, _). if hnd = h' then done else 0) ?es) = 0"
        using sum_filter_other [of h' target ?es] that by (simp only: list.map sum_list.Nil if_False)
      then show ?thesis using True by (simp add: credits_def p)
    qed
    have "completed_step target ds p = (if ?others \<noteq> [] then ds @ [?q] else ds, list_ex (\<lambda>(handle, done, _). handle = target \<and> done \<noteq> 0) ?es)"
      using True by (simp add: completed_step_def p Let_def)
    then have "found \<longleftrightarrow> list_ex (\<lambda>(handle, done, _). handle = target \<and> done \<noteq> 0) ?es" "ds' = (if ?others \<noteq> [] then ds @ [?q] else ds)"
      unfolding assms by blast+
    moreover have "found \<Longrightarrow> 0 < credits target p" using calculation(1) sum_target [of target ?es] True by (simp add: credits_def p)
    ultimately show ?thesis using q [of hnd] none [of hnd] by (cases "?others = []") simp_all
  qed
  then show "credits_in (mset ds') hnd = credits_in (mset ds) hnd + (if hnd = target then 0 else credits hnd p)" "found \<Longrightarrow> 0 < credits target p"
    by simp_all
qed

lemma gather_completed:
  "gather_all (completed_step target) deadline ds h = (r, ds', h') \<Longrightarrow> (case r of
     Inr found \<Rightarrow> (\<forall>hnd. hnd \<noteq> target \<longrightarrow> credits_in (mset ds' + inbox h') hnd = credits_in (mset ds + inbox h) hnd) \<and>
       credits_in (mset ds' + inbox h') target + (if found then 1 else 0) \<le> credits_in (mset ds + inbox h) target
   | Inl e \<Rightarrow> (\<forall>hnd. credits_in (mset ds' + inbox h') hnd \<le> credits_in (mset ds + inbox h) hnd) \<and> (\<exists>t g g'. hci_read_packet t g = (Inl e, g')))"
proof (induction "completed_step target" deadline ds h rule: gather_all.induct)
  case (1 deadline ds h)
  show ?case
  proof (cases "clock h < deadline")
    case False
    with 1(3) show ?thesis by (auto simp: gather_all.simps [of _ deadline ds h])
  next
    case True
    obtain out h1 where rd: "hci_read_packet (min 200000 (deadline - clock h)) h = (out, h1)" by fastforce
    show ?thesis
    proof (cases out)
      case (Inl e)
      with 1(3) True rd have "r = Inl e" "ds' = ds" "h' = h1" by (auto simp: gather_all.simps [of _ deadline ds h])
      moreover have "credits_in (inbox h1) hnd \<le> credits_in (inbox h) hnd" for hnd by (rule credits_in_mono [OF reads.takes [OF rd]])
      ultimately show ?thesis using rd Inl by auto
    next
      case (Inr po)
      note i = read_packet_inbox [OF rd [unfolded Inr]]
      show ?thesis
      proof (cases po)
        case None
        with 1(3) True rd Inr have "gather_all (completed_step target) deadline ds h1 = (r, ds', h')" by (simp add: gather_all.simps [of _ deadline ds h])
        note ih = 1(1) [OF True rd [symmetric] Inr None this]
        have "inbox h = inbox h1" using i None by simp
        then show ?thesis using ih by (simp only:)
      next
        case (Some p)
        obtain d1 found where step: "completed_step target ds p = (d1, found)" by fastforce
        note c = completed_step_credits [OF step]
        have i: "inbox h = add_mset p (inbox h1)" using i Some by simp
        show ?thesis
        proof (cases found)
          case hit: True
          with 1(3) True rd Inr Some step have "r = Inr True" "ds' = d1" "h' = h1" by (auto simp: gather_all.simps [of _ deadline ds h])
          with c hit i show ?thesis by simp
        next
          case False
          with 1(3) True rd Inr Some step have "gather_all (completed_step target) deadline (fst (completed_step target ds p)) h1 = (r, ds', h')"
            by (simp add: gather_all.simps [of _ deadline ds h])
          from 1(2) [OF True rd [symmetric] Inr Some _ this] step False c(1) i show ?thesis
            by (cases r) (auto intro: order_trans)
        qed
      qed
    qed
  qed
qed


end
