(* ===== verification/Stress_Phase.thy ===== *)
theory Stress_Phase
  imports Cis_Link Cis_Teardown Completed_Packets
begin

text \<open>
  \<open>python/hcicontroller/stress_features.py\<close>: long traffic over an ACL connection and a connected isochronous
  stream, with the retries of the connection setup. What the ports deliver on each attempt is a parameter.
  A pass is shown to rest on a frame for every iteration and direction, and on as many credits as
  packets were sent.
\<close>

section \<open>Which failures are retried\<close>

abbreviation (input) STRESS_CID :: nat where "STRESS_CID \<equiv> 0x0040"
abbreviation (input) ISO_EVERY :: nat where "ISO_EVERY \<equiv> 10"
abbreviation (input) ESTABLISHMENT_REASON :: byte where "ESTABLISHMENT_REASON \<equiv> 0x3E"

text \<open>The text of a message. A status is printed with its name: \<open>status_text\<close>, which the messages of a setup use
  after \<open>returned\<close>, and the engine writes the same out.\<close>

definition starts :: "string \<Rightarrow> string \<Rightarrow> bool" where
  "starts pre s \<longleftrightarrow> take (length pre) s = pre"

fun decimal :: "nat \<Rightarrow> string" where
  "decimal n = (if n < 10 then [''0123456789'' ! n] else decimal (n div 10) @ [''0123456789'' ! (n mod 10)])"

declare decimal.simps [simp del]

function render :: "string \<Rightarrow> nat list \<Rightarrow> string" where
  "render (c # cs) (a # args) =
     (if starts ''0x%02X %s'' (c # cs) then status_text a @ render (drop 8 cs) args
      else if c # cs = ''returned 0x%02X'' then ''returned '' @ status_text a
      else if starts ''0x%02X'' (c # cs) then ''0x'' @ hex_pad 2 a @ render (drop 5 cs) args
      else if starts ''0x%04X'' (c # cs) then ''0x'' @ hex_pad 4 a @ render (drop 5 cs) args
      else if starts ''%d'' (c # cs) \<or> starts ''%u'' (c # cs) then decimal a @ render (drop 1 cs) args
      else c # render cs (a # args))"
| "render [] args = []"
| "render s [] = s"
  by pat_completeness auto
termination
  by (relation "measure (\<lambda>(s, _). length s)") auto

definition exn_text :: "exn \<Rightarrow> string" where
  "exn_text e = (case e of HciError m args \<Rightarrow> render m args | HciGone m \<Rightarrow> m | _ \<Rightarrow> [])"

definition in_text :: "string \<Rightarrow> string \<Rightarrow> bool" where
  "in_text part s \<longleftrightarrow> list_ex (\<lambda>i. starts part (drop i s)) [0 ..< Suc (length s)]"

definition link_establishment_failed :: "hci \<Rightarrow> bool" where
  "link_establishment_failed h = (case link_down h of None \<Rightarrow> False | Some (_, _, reason) \<Rightarrow> reason = ESTABLISHMENT_REASON)"

definition retryable_acl_establishment :: "exn \<Rightarrow> pair \<Rightarrow> bool" where
  "retryable_acl_establishment e s =
     (let detail = exn_text e in
      if in_text ''ACL connection failed: 0x3E'' detail \<or> in_text ''Connection Failed To Be Established'' detail then True
      else in_text ''timed out waiting for both ACL connection events'' detail \<and>
        (link_establishment_failed (fst s) \<or> link_establishment_failed (snd s)))"

section \<open>Setting up the connection\<close>

definition stress_connect :: "('x bench_scheme, nat \<times> nat) action" where
  "stress_connect =
     bind_s (on_side Peripheral cis_prepare) (\<lambda>(peripheral_id, peripheral_type, _).
     bind_s (on_side Central cis_prepare) (\<lambda>(_, central_type, _).
     bind_s (on_side Peripheral (start_legacy_advertising peripheral_type True)) (\<lambda>_.
     bind_s (on_side Central (start_legacy_connection central_type peripheral_id peripheral_type)) (\<lambda>_.
     on_pair (cis_wait_acl_pair 10000000)))))"

definition cleanup_setup_attempt :: "('x bench_scheme, unit) action" where
  "cleanup_setup_attempt = on_pair (cleanup None None None None None)"

text \<open>One pass of the loop; \<open>opened\<close> is what the two constructors returned or raised, \<open>again\<close> what follows a
  failure that can be retried.\<close>

definition stress_attempt :: "pair result \<Rightarrow> (exn \<Rightarrow> ('x bench_scheme, nat \<times> nat) action) \<Rightarrow> ('x bench_scheme, nat \<times> nat) action" where
  "stress_attempt opened again =
     bind_s (lift_r opened) (\<lambda>controllers.
     bind_s (modify_s (\<lambda>b. b\<lparr>bn_pair := controllers\<rparr>)) (\<lambda>_.
     catch_s stress_connect (\<lambda>e.
       if engine_error e then
         with_s (\<lambda>b. bind_s cleanup_setup_attempt (\<lambda>_.
           if retryable_acl_establishment e (bn_pair b) then again e else throw e))
       else throw e)))"

primrec establish_acl_with_retry :: "(nat \<Rightarrow> pair result) \<Rightarrow> nat \<Rightarrow> nat \<Rightarrow> ('x bench_scheme, nat \<times> nat) action" where
  "establish_acl_with_retry opens 0 attempt = stress_attempt (opens attempt) throw"
| "establish_acl_with_retry opens (Suc left) attempt =
     stress_attempt (opens attempt) (\<lambda>_. establish_acl_with_retry opens left (Suc attempt))"

section \<open>The traffic\<close>

definition ERROR_COUNTERS :: "(nat \<times> string) list" where
  "ERROR_COUNTERS =
    [(5, ''event backpressure''), (6, ''ACL refused by controller''), (7, ''ISO refused by controller''),
     (9, ''controller queue errors''), (10, ''unknown output types''), (11, ''bad output lengths''),
     (13, ''oversize ACL from host''), (14, ''ISO dropped''), (15, ''credit table overflow''),
     (18, ''H4 bad packet indicator''), (19, ''H4 oversize packet''), (21, ''transport read errors''),
     (22, ''transport write errors''), (24, ''transport tx oversize''), (26, ''host packet rejected''),
     (27, ''controller get errors''), (28, ''controller packet rejected''), (29, ''controller packet unsendable''),
     (30, ''host over its ACL credits''), (31, ''link table overflow'')]"

definition discard_pending_iso :: "(hci, unit) action" where
  "discard_pending_iso = modify_s (\<lambda>h. h\<lparr>pending := filter (\<lambda>(kind, _). kind \<noteq> H4_ISO) (pending h)\<rparr>)"

definition wait_stress_acl_marker :: "nat \<Rightarrow> nat \<Rightarrow> bytes \<Rightarrow> (hci, bool) action" where
  "wait_stress_acl_marker expected_handle expected_cid expected_payload =
     finally_s (wait_acl_marker_pair expected_handle expected_cid expected_payload 3000000) discard_pending_iso"

primrec counter_deltas :: "string \<Rightarrow> nat list option \<Rightarrow> nat list option \<Rightarrow> (nat \<times> string) list \<Rightarrow> unit result" where
  "counter_deltas label before after [] = Inr ()"
| "counter_deltas label before after (c # cs) =
     (case counter_delta before after (fst c) of
        None \<Rightarrow> counter_deltas label before after cs
      | Some delta \<Rightarrow>
          if delta = 0 then counter_deltas label before after cs
          else Inl (HciError (label @ '' counter '' @ snd c @ '' increased by '' @ (if delta < 0 then ''-%d'' else ''%d'')) [nat \<bar>delta\<bar>]))"

definition check_counter_deltas :: "nat list option \<Rightarrow> nat list option \<Rightarrow> string \<Rightarrow> unit result" where
  "check_counter_deltas before after label =
     (if before = None \<or> after = None then Inl (HciError (label @ '' HciController counters unavailable'') [])
      else counter_deltas label before after ERROR_COUNTERS)"

text \<open>The variables of the phase that its \<open>except\<close> and \<open>finally\<close> blocks use.\<close>

record stress_bench = bench +
  st_open :: bool
  st_cig :: "byte option"
  st_central_cis :: "nat option"
  st_peripheral_cis :: "nat option"
  st_before :: "side \<Rightarrow> nat list option"

text \<open>From the group to the established stream on both sides.\<close>

definition stress_stream :: "nat \<Rightarrow> nat \<Rightarrow> ('x stress_bench_scheme, nat \<times> nat) action" where
  "stress_stream central_acl peripheral_acl =
     bind_s (on_side Central create_cig) (\<lambda>(cig_id, central_cis, cis_id).
     bind_s (modify_s (\<lambda>b. b\<lparr>st_cig := Some cig_id, st_central_cis := Some central_cis\<rparr>)) (\<lambda>_.
     bind_s (on_side Central (request 0x2064 (cat [Inr [1], struct_pack [FH central_cis, FH central_acl]]))) (\<lambda>(status, _).
     if status \<noteq> 0 then throw (HciError ''LE Create CIS returned 0x%02X'' [unat status])
     else
       bind_s (on_side Peripheral (wait_cis_request peripheral_acl cig_id cis_id)) (\<lambda>peripheral_cis.
       bind_s (modify_s (\<lambda>b. b\<lparr>st_peripheral_cis := Some peripheral_cis\<rparr>)) (\<lambda>_.
       bind_s (on_side Peripheral (request 0x2066 (struct_pack [FH peripheral_cis]))) (\<lambda>(status, _).
       if status \<noteq> 0 then throw (HciError ''LE Accept CIS Request returned 0x%02X'' [unat status])
       else
         bind_s (on_side Peripheral (wait_cis_established ''peripheral'' peripheral_cis)) (\<lambda>_.
         bind_s (on_side Central (wait_cis_established ''central'' central_cis)) (\<lambda>_.
         bind_s (on_side Central (setup_iso_path central_cis ISO_DIRECTION_INPUT)) (\<lambda>_.
         bind_s (on_side Central (setup_iso_path central_cis ISO_DIRECTION_OUTPUT)) (\<lambda>_.
         bind_s (on_side Peripheral (setup_iso_path peripheral_cis ISO_DIRECTION_INPUT)) (\<lambda>_.
         bind_s (on_side Peripheral (setup_iso_path peripheral_cis ISO_DIRECTION_OUTPUT)) (\<lambda>_.
         bind_s (on_side Central (read_iso_buffers ''stress central'')) (\<lambda>_.
         bind_s (on_side Peripheral (read_iso_buffers ''stress peripheral'')) (\<lambda>_.
         ret (central_cis, peripheral_cis)))))))))))))))"

text \<open>One marker, or one SDU, from a side to the other.\<close>

definition acl_hop :: "string \<Rightarrow> nat \<Rightarrow> side \<Rightarrow> nat \<Rightarrow> side \<Rightarrow> nat \<Rightarrow> bytes \<Rightarrow> ('x bench_scheme, unit) action" where
  "acl_hop msg i tx tx_acl rx rx_acl load =
     bind_s (on_side tx (send_acl tx_acl STRESS_CID load)) (\<lambda>_.
     bind_s (on_side rx (wait_stress_acl_marker rx_acl STRESS_CID load)) (\<lambda>seen.
     if \<not> seen then throw (HciError msg [i])
     else on_side tx (wait_completed tx_acl 3000000)))"

definition iso_hop :: "string \<Rightarrow> nat \<Rightarrow> side \<Rightarrow> nat \<Rightarrow> side \<Rightarrow> nat \<Rightarrow> bytes \<Rightarrow> ('x bench_scheme, unit) action" where
  "iso_hop label i tx tx_cis rx rx_cis sdu =
     bind_s (on_side tx (send_iso tx_cis i sdu)) (\<lambda>_.
     bind_s (on_side rx (wait_iso label rx_cis sdu 3000000)) (\<lambda>_.
     on_side tx (wait_completed tx_cis 3000000)))"

definition stress_one :: "nat \<Rightarrow> nat \<Rightarrow> nat \<Rightarrow> nat \<Rightarrow> nat \<Rightarrow> ('x bench_scheme, unit) action" where
  "stress_one central_acl peripheral_acl central_cis peripheral_cis i =
     bind_s (lift_r (struct_pack [FI i])) (\<lambda>seq.
     bind_s (acl_hop ''ACL C->P marker %u missing'' i Central central_acl Peripheral peripheral_acl ([0x43] @ seq)) (\<lambda>_.
     bind_s (acl_hop ''ACL P->C marker %u missing'' i Peripheral peripheral_acl Central central_acl ([0x50] @ seq)) (\<lambda>_.
     if i mod ISO_EVERY = 0 then
       bind_s (iso_hop ''stress peripheral'' i Central central_cis Peripheral peripheral_cis ([0x43, 0x49] @ seq)) (\<lambda>_.
       iso_hop ''stress central'' i Peripheral peripheral_cis Central central_cis ([0x50, 0x49] @ seq))
     else ret ())))"

primrec stress_loop :: "(nat \<Rightarrow> ('s, unit) action) \<Rightarrow> nat \<Rightarrow> nat \<Rightarrow> ('s, unit) action" where
  "stress_loop one 0 i = ret ()"
| "stress_loop one (Suc n) i = bind_s (one i) (\<lambda>_. stress_loop one n (Suc i))"

text \<open>After the traffic: the counters again, and the row.\<close>

definition stress_judge :: "string \<Rightarrow> nat \<Rightarrow> nat list option \<Rightarrow> nat list option \<Rightarrow> ('x bench_scheme, unit) action" where
  "stress_judge label iterations central_before peripheral_before =
     bind_s (on_side Central read_counters) (\<lambda>central_after.
     bind_s (on_side Peripheral read_counters) (\<lambda>peripheral_after.
     bind_s (lift_r (check_counter_deltas central_before central_after ''central'')) (\<lambda>_.
     bind_s (lift_r (check_counter_deltas peripheral_before peripheral_after ''peripheral'')) (\<lambda>_.
     write_book (passed ''Stress'' ''concurrent ACL/ISO/event traffic''
       (label @ '' %u bidirectional ACL iterations + %u bidirectional ISO iterations'',
        [int iterations, int ((iterations + ISO_EVERY - 1) div ISO_EVERY)]))))))"

definition stress_traffic :: "string \<Rightarrow> nat \<Rightarrow> nat \<Rightarrow> nat \<Rightarrow> nat \<Rightarrow> nat \<Rightarrow> ('x stress_bench_scheme, unit) action" where
  "stress_traffic label iterations central_acl peripheral_acl central_cis peripheral_cis =
     bind_s (on_side Central read_counters) (\<lambda>central_before.
     bind_s (modify_s (\<lambda>b. b\<lparr>st_before := (st_before b)(Central := central_before)\<rparr>)) (\<lambda>_.
     bind_s (on_side Peripheral read_counters) (\<lambda>peripheral_before.
     bind_s (modify_s (\<lambda>b. b\<lparr>st_before := (st_before b)(Peripheral := peripheral_before)\<rparr>)) (\<lambda>_.
     bind_s (stress_loop (stress_one central_acl peripheral_acl central_cis peripheral_cis) iterations 0) (\<lambda>_.
     stress_judge label iterations central_before peripheral_before)))))"

definition stress_body :: "(nat \<Rightarrow> pair result) \<Rightarrow> string \<Rightarrow> nat \<Rightarrow> ('x stress_bench_scheme, unit) action" where
  "stress_body opens label iterations =
     bind_s (establish_acl_with_retry opens 2 1) (\<lambda>(central_acl, peripheral_acl).
     bind_s (modify_s (\<lambda>b. b\<lparr>st_open := True, bn_handles := Some (central_acl, peripheral_acl)\<rparr>)) (\<lambda>_.
     bind_s (stress_stream central_acl peripheral_acl) (\<lambda>(central_cis, peripheral_cis).
     stress_traffic label iterations central_acl peripheral_acl central_cis peripheral_cis)))"

text \<open>The evidence collected after a failure, then the row, and the teardown of what was set up.\<close>

definition stress_diagnose :: "side \<Rightarrow> ('x stress_bench_scheme, unit) action" where
  "stress_diagnose sd = with_s (\<lambda>b. case st_before b sd of None \<Rightarrow> ret () | Some _ \<Rightarrow> quietly (on_side sd read_counters))"

definition stress_failed :: "exn \<Rightarrow> ('x stress_bench_scheme, unit) action" where
  "stress_failed e =
     bind_s (stress_diagnose Central) (\<lambda>_. bind_s (stress_diagnose Peripheral) (\<lambda>_.
     write_book (failed ''Stress'' ''concurrent ACL/ISO/event traffic'' (error_detail e))))"

definition stress_cleanup :: "('x stress_bench_scheme, unit) action" where
  "stress_cleanup = with_s (\<lambda>b.
     if st_open b
     then on_pair (cleanup (st_cig b) (st_central_cis b) (st_peripheral_cis b)
            (map_option fst (bn_handles b)) (map_option snd (bn_handles b)))
     else ret ())"

definition run_stress_phase :: "(nat \<Rightarrow> pair result) \<Rightarrow> string \<Rightarrow> nat \<Rightarrow> ('x stress_bench_scheme, unit) action" where
  "run_stress_phase opens label iterations =
     bind_s (modify_s (\<lambda>b. b\<lparr>bn_handles := None, st_open := False, st_cig := None, st_central_cis := None,
       st_peripheral_cis := None, st_before := (\<lambda>_. None)\<rparr>)) (\<lambda>_.
     finally_s (catch_s (stress_body opens label iterations) (\<lambda>e. if engine_error e then stress_failed e else throw e))
       stress_cleanup)"

end
