(* ===== verification/Stress_Verdict.thy ===== *)
theory Stress_Verdict
  imports Stress_Phase
begin

text \<open>
  What a pass of the stress phase means. The wait for credits puts rewritten events back, so a procedure of
  this phase may change the events that report completions but not their sum; everything else it can only
  take. The locale \<open>trimmer\<close> is that contract.
\<close>

section \<open>Procedures that spend credits\<close>

definition completion :: "packet \<Rightarrow> bool" where
  "completion p = (case p of (kind, code, _) \<Rightarrow> kind = H4_EVENT \<and> code = Some EVT_NUM_COMPLETED_PACKETS)"

definition others :: "hci \<Rightarrow> packet multiset" where
  "others h = filter_mset (\<lambda>p. \<not> completion p) (inbox h)"

definition trimmed :: "hci \<Rightarrow> hci \<Rightarrow> bool" where
  "trimmed h h' \<longleftrightarrow> others h' \<subseteq># others h \<and> credits_in (inbox h') \<le> credits_in (inbox h)"

locale trimmer =
  fixes act :: "(hci, 'a) action"
  assumes trims: "trimmed h (snd (act h))"

lemma trimmerI: "(\<And>h r h'. act h = (r, h') \<Longrightarrow> trimmed h h') \<Longrightarrow> trimmer act"
  by unfold_locales (metis surj_pair snd_conv)

lemma trimmerD: "trimmer act \<Longrightarrow> act h = (r, h') \<Longrightarrow> trimmed h h'"
  using trimmer.trims [of act h] by simp

lemma trimmed_trans: "trimmed h h1 \<Longrightarrow> trimmed h1 h2 \<Longrightarrow> trimmed h h2"
  unfolding trimmed_def by (blast intro: subset_mset.order_trans order_trans)

lemma trimmed_inbox: "inbox h' \<subseteq># inbox h \<Longrightarrow> trimmed h h'"
  unfolding trimmed_def others_def by (simp add: multiset_filter_mono credits_in_mono le_fun_def)

lemma reader_trims: "reader inbox m \<Longrightarrow> trimmer m"
  by (rule trimmerI) (rule trimmed_inbox, rule reader.takes)

lemma completed_step_others:
  assumes "completed_step target ds p = (ds', found)"
  shows "filter_mset (\<lambda>p. \<not> completion p) (mset ds') \<subseteq># filter_mset (\<lambda>p. \<not> completion p) (add_mset p (mset ds))"
proof -
  obtain kind code body where p: "p = (kind, code, body)" by (metis prod_cases3)
  from assms consider "ds' = ds" | "ds' = ds @ [p]" | q where "completion q" "ds' = ds @ [q]"
    unfolding completed_step_def p by (auto simp: completion_def Let_def split: if_splits)
  then show ?thesis by cases (auto simp: subset_mset.add_increasing2)
qed

lemma gather_others:
  "gather_all (completed_step target) deadline ds h = (r, ds', h') \<Longrightarrow>
   filter_mset (\<lambda>p. \<not> completion p) (mset ds') + others h' \<subseteq># filter_mset (\<lambda>p. \<not> completion p) (mset ds) + others h"
proof (induction "completed_step target" deadline ds h rule: gather_all.induct)
  case (1 deadline ds h)
  let ?F = "filter_mset (\<lambda>p. \<not> completion p)"
  show ?case
  proof (cases "clock h < deadline")
    case False
    with 1(3) show ?thesis by (auto simp: gather_all.simps [of _ deadline ds h])
  next
    case True
    obtain out h1 where rd: "hci_read_packet (min 200000 (deadline - clock h)) h = (out, h1)" by fastforce
    have h1: "others h1 \<subseteq># others h" using trimmed_inbox [OF reads.takes [OF rd]] by (simp add: trimmed_def)
    show ?thesis
    proof (cases out)
      case (Inl e)
      with 1(3) True rd h1 show ?thesis by (auto simp: gather_all.simps [of _ deadline ds h])
    next
      case (Inr po)
      note i = read_packet_inbox [OF rd [unfolded Inr]]
      show ?thesis
      proof (cases po)
        case None
        with 1(3) True rd Inr have "gather_all (completed_step target) deadline ds h1 = (r, ds', h')" by (simp add: gather_all.simps [of _ deadline ds h])
        from 1(1) [OF True rd [symmetric] Inr None this] h1 show ?thesis by (meson subset_mset.add_left_mono subset_mset.order_trans)
      next
        case (Some p)
        obtain d1 found where step: "completed_step target ds p = (d1, found)" by fastforce
        have "?F (mset d1) + others h1 \<subseteq># ?F (add_mset p (mset ds)) + others h1"
          using completed_step_others [OF step] by simp
        also have "\<dots> = ?F (mset ds) + others h" using i Some by (simp add: others_def)
        finally have d1: "?F (mset d1) + others h1 \<subseteq># ?F (mset ds) + others h" .
        show ?thesis
        proof (cases found)
          case hit: True
          with 1(3) True rd Inr Some step d1 show ?thesis by (auto simp: gather_all.simps [of _ deadline ds h])
        next
          case False
          with 1(3) True rd Inr Some step have "gather_all (completed_step target) deadline (fst (completed_step target ds p)) h1 = (r, ds', h')"
            by (simp add: gather_all.simps [of _ deadline ds h])
          from 1(2) [OF True rd [symmetric] Inr Some _ this] step False
          have "?F (mset ds') + others h' \<subseteq># ?F (mset d1) + others h1" by simp
          then show ?thesis using d1 by (rule subset_mset.order_trans)
        qed
      qed
    qed
  qed
qed

lemma wait_completed_spends:
  assumes "wait_completed handle timeout h = (r, h')"
  shows "trimmed h h'" "r = Inr u \<Longrightarrow> credits_in (inbox h') (handle mod 4096) < credits_in (inbox h) (handle mod 4096)"
proof -
  let ?t = "handle AND 0x0FFF"
  obtain rg ds h1 where g: "gather_all (completed_step ?t) (clock h + timeout) [] h = (rg, ds, h1)" by (metis prod_cases3)
  have h': "h' = restore ds h1" and r: "r = (case rg of Inl e \<Rightarrow> Inl e
      | Inr found \<Rightarrow> if found then Inr () else Inl (HciError ''no Number Of Completed Packets for handle 0x%04X'' [?t]))"
    using assms unfolding wait_completed_def Let_def g by simp_all
  have inbox: "inbox h' = mset ds + inbox h1" unfolding h' by (simp add: inbox_def add.assoc)
  have "others h' \<subseteq># others h" using gather_others [OF g] inbox by (simp add: others_def)
  moreover have "credits_in (inbox h') hnd \<le> credits_in (inbox h) hnd" for hnd
    using gather_completed [OF g] unfolding inbox
    by (cases rg; cases "hnd = ?t") (auto split: if_splits)
  ultimately show "trimmed h h'" by (simp add: trimmed_def le_fun_def)
  show "credits_in (inbox h') (handle mod 4096) < credits_in (inbox h) (handle mod 4096)" if "r = Inr u"
    using gather_completed [OF g] r that inbox by (auto split: sum.splits if_splits)
qed

section \<open>What the bench has left\<close>

text \<open>On both sides only what was there at the start is left, and at least \<open>a\<close> credits of each connection are used.\<close>

primrec side_of :: "side \<Rightarrow> 'x bench_scheme \<Rightarrow> hci" where
  "side_of Central b = fst (bn_pair b)"
| "side_of Peripheral b = snd (bn_pair b)"

definition traffic :: "(side \<Rightarrow> packet multiset) \<Rightarrow> (side \<Rightarrow> nat \<Rightarrow> nat) \<Rightarrow> (side \<Rightarrow> nat \<Rightarrow> nat) \<Rightarrow> 'x bench_scheme \<Rightarrow> bool" where
  "traffic I N a b \<longleftrightarrow> (\<forall>sd. others (side_of sd b) \<subseteq># I sd \<and> (\<forall>t. credits_in (inbox (side_of sd b)) t + a sd t \<le> N sd t))"

definition did :: "packet multiset \<Rightarrow> (hci, 'a) action \<Rightarrow> 'a \<Rightarrow> bool" where
  "did I m x \<longleftrightarrow> (\<exists>h h'. others h \<subseteq># I \<and> m h = (Inr x, h'))"

lemma on_side_runs:
  assumes "on_side sd m b = (r, b')"
  shows "m (side_of sd b) = (r, side_of sd b')" "sd' \<noteq> sd \<Longrightarrow> inbox (side_of sd' b') = inbox (side_of sd' b)"
  using assms by (cases sd; cases sd'; auto simp: on_side_def on_pair_def on_central_def on_peripheral_def split: prod.splits)+

lemma traffic_trimmed:
  assumes "traffic I N a b" "trimmed (side_of sd b) (side_of sd b')"
    "\<And>sd'. sd' \<noteq> sd \<Longrightarrow> inbox (side_of sd' b') = inbox (side_of sd' b)"
  shows "traffic I N a b'"
  unfolding traffic_def
proof
  fix sd'
  have "trimmed (side_of sd' b) (side_of sd' b')" using assms(2,3) by (cases "sd' = sd") (simp_all add: trimmed_inbox)
  then have "others (side_of sd' b') \<subseteq># others (side_of sd' b)" "credits_in (inbox (side_of sd' b')) t \<le> credits_in (inbox (side_of sd' b)) t" for t
    by (simp_all add: trimmed_def le_fun_def)
  moreover have "others (side_of sd' b) \<subseteq># I sd'" "credits_in (inbox (side_of sd' b)) t + a sd' t \<le> N sd' t" for t
    using assms(1) by (simp_all add: traffic_def)
  ultimately show "others (side_of sd' b') \<subseteq># I sd' \<and> (\<forall>t. credits_in (inbox (side_of sd' b')) t + a sd' t \<le> N sd' t)"
    by (meson add_le_mono1 order_trans subset_mset.order_trans)
qed

lemma trim_step:
  assumes "trimmer m" "\<And>x. did (I sd) m x \<Longrightarrow> yields (traffic I N a) (f x) Q"
  shows "yields (traffic I N a) (bind_s (on_side sd m) f) Q"
proof (rule yieldsI)
  fix b y b' assume t: "traffic I N a b" and "bind_s (on_side sd m) f b = (Inr y, b')"
  then obtain x b1 where x: "on_side sd m b = (Inr x, b1)" "f x b1 = (Inr y, b')" by (auto simp: bind_s_Inr_iff)
  note run = on_side_runs [OF x(1)]
  have "did (I sd) m x" using run(1) t by (auto simp: did_def traffic_def)
  moreover have "traffic I N a b1" using traffic_trimmed [OF t trimmerD [OF assms(1) run(1)] run(2)] .
  ultimately show "Q y b'" using yieldsD [OF assms(2)] x(2) by blast
qed

lemma trim_last:
  assumes "trimmer m"
  shows "yields (traffic I N a) (on_side sd m) (\<lambda>_. traffic I N a)"
proof (rule yieldsI)
  fix b x b' assume t: "traffic I N a b" and run: "on_side sd m b = (Inr x, b')"
  show "traffic I N a b'" using traffic_trimmed [OF t trimmerD [OF assms on_side_runs(1) [OF run]] on_side_runs(2) [OF run]] .
qed

text \<open>Waiting for a credit uses one.\<close>

definition use :: "side \<Rightarrow> nat \<Rightarrow> (side \<Rightarrow> nat \<Rightarrow> nat) \<Rightarrow> side \<Rightarrow> nat \<Rightarrow> nat" where
  "use sd hnd a = a(sd := (a sd)(hnd mod 4096 := Suc (a sd (hnd mod 4096))))"

lemma credit_used:
  "yields (traffic I N a) (on_side sd (wait_completed hnd timeout)) (\<lambda>_. traffic I N (use sd hnd a))"
proof (rule yieldsI)
  fix b :: "'x bench_scheme" and u b' assume t: "traffic I N a b" and run: "on_side sd (wait_completed hnd timeout) b = (Inr u, b')"
  note r = on_side_runs [OF run]
  note s = wait_completed_spends [OF r(1)]
  have t': "traffic I N a b'" using traffic_trimmed [OF t s(1) r(2)] .
  have "credits_in (inbox (side_of sd b')) (hnd mod 4096) + Suc (a sd (hnd mod 4096)) \<le> N sd (hnd mod 4096)"
  proof -
    have "credits_in (inbox (side_of sd b)) (hnd mod 4096) + a sd (hnd mod 4096) \<le> N sd (hnd mod 4096)" using t by (simp add: traffic_def)
    with s(2) [OF refl] show ?thesis by simp
  qed
  with t' show "traffic I N (use sd hnd a) b'" by (auto simp: traffic_def use_def)
qed

lemma traffic_modify:
  assumes "\<And>b. bn_pair (g b) = bn_pair b" "yields (traffic I N a) (f ()) Q"
  shows "yields (traffic I N a) (bind_s (modify_s g) f) Q"
proof (rule yieldsI)
  fix b y b' assume w: "traffic I N a b" and run: "bind_s (modify_s g) f b = (Inr y, b')"
  have "side_of sd (g b) = side_of sd b" for sd using assms(1) by (cases sd) simp_all
  then have "traffic I N a (g b)" using w by (simp add: traffic_def)
  moreover have "f () (g b) = (Inr y, b')" using run by (simp add: bind_s_def)
  ultimately show "Q y b'" using yieldsD [OF assms(2)] by blast
qed

section \<open>One iteration\<close>

lemma finally_Inr: "finally_s m f s = (Inr x, s') \<Longrightarrow> \<exists>s1. m s = (Inr x, s1)"
  by (cases "m s"; cases "f (snd (m s))") (auto simp: finally_s_def split: sum.splits)

lemma did_frame:
  assumes "did I (wait_stress_acl_marker hnd cid load) True"
  shows "heard_frame I hnd cid load"
proof -
  obtain h h' where run: "others h \<subseteq># I" "wait_stress_acl_marker hnd cid load h = (Inr True, h')"
    using assms unfolding did_def by (elim exE conjE)
  obtain h1 where h: "others h \<subseteq># I" "wait_acl_marker_pair hnd cid load 3000000 h = (Inr True, h1)"
    using run(1) finally_Inr [OF run(2) [unfolded wait_stress_acl_marker_def]] by (elim exE)
  from h(2) obtain frame data where f: "frame_of hnd frame data" "marker_in cid load data" "inbox h = mset frame + inbox h1"
    using acl_marker_taken [where hnd = hnd and cid = cid and load = load and timeout = 3000000 and h = h] by auto
  have "list_all (acl_mine hnd) frame" using f(1) by (auto simp: frame_of_def)
  then have "\<forall>p\<in>set frame. \<not> completion p" by (auto simp: list_all_iff acl_mine_def completion_def split: prod.splits)
  then have "filter_mset (\<lambda>p. \<not> completion p) (mset frame) = mset frame"
    by (simp flip: mset_filter)
  then have "mset frame \<subseteq># others h" unfolding others_def f(3) by simp
  with h(1) f(1,2) show ?thesis unfolding heard_frame_def by (blast intro: subset_mset.order_trans)
qed

lemma did_iso: "did I (wait_iso label cis sdu timeout) x \<Longrightarrow> heard_iso I cis sdu"
proof -
  assume "did I (wait_iso label cis sdu timeout) x"
  then obtain h h' where h: "others h \<subseteq># I" "wait_iso label cis sdu timeout h = (Inr x, h')" by (auto simp: did_def)
  then obtain code body i where p: "(H4_ISO, code, body) \<in># inbox h" "parse_iso body = Inr i" "iso_handle i = cis"
    "iso_pb i = ISO_PB_COMPLETE" "iso_fragment i = sdu" using iso_seen [OF h(2)] unfolding heard_iso_def by blast
  have "(H4_ISO, code, body) \<in># others h" using p(1) by (simp add: others_def completion_def)
  with h(1) have "(H4_ISO, code, body) \<in># I" by (rule mset_subset_eqD)
  with p show ?thesis unfolding heard_iso_def by blast
qed

interpretation stress_marker: trimmer "wait_stress_acl_marker hnd cid load" for hnd cid load
  unfolding wait_stress_acl_marker_def discard_pending_iso_def
  by (intro reader_trims reader_finally acl_marker.reader_axioms reader_discard)

lemma acl_hop_yields:
  "yields (traffic I N a) (acl_hop msg i tx tx_acl rx rx_acl load)
     (\<lambda>_ b. traffic I N (use tx tx_acl a) b \<and> heard_frame (I rx) rx_acl STRESS_CID load)"
  unfolding acl_hop_def
proof (intro trim_step reader_trims [OF acl_send.reader_axioms] stress_marker.trimmer_axioms yields_cases yields_throw)
  fix seen assume "did (I rx) (wait_stress_acl_marker rx_acl STRESS_CID load) seen" "\<not> \<not> seen"
  then have "heard_frame (I rx) rx_acl STRESS_CID load" using did_frame by simp
  with credit_used show "yields (traffic I N a) (on_side tx (wait_completed tx_acl 3000000))
     (\<lambda>_ b. traffic I N (use tx tx_acl a) b \<and> heard_frame (I rx) rx_acl STRESS_CID load)"
    unfolding yields_def by blast
qed

lemma iso_hop_yields:
  "yields (traffic I N a) (iso_hop label i tx tx_cis rx rx_cis sdu)
     (\<lambda>_ b. traffic I N (use tx tx_cis a) b \<and> heard_iso (I rx) rx_cis sdu)"
  unfolding iso_hop_def
proof (intro trim_step reader_trims [OF iso_send_reader.reader_axioms] reader_trims [OF iso_wait_reader.reader_axioms])
  fix x assume "did (I rx) (wait_iso label rx_cis sdu 3000000) x"
  then have "heard_iso (I rx) rx_cis sdu" by (rule did_iso)
  with credit_used show "yields (traffic I N a) (on_side tx (wait_completed tx_cis 3000000))
     (\<lambda>_ b. traffic I N (use tx tx_cis a) b \<and> heard_iso (I rx) rx_cis sdu)"
    unfolding yields_def by blast
qed

primrec pick :: "'a \<Rightarrow> 'a \<Rightarrow> side \<Rightarrow> 'a" where
  "pick c p Central = c"
| "pick c p Peripheral = p"

text \<open>The credits that \<open>i\<close> iterations use, and what is heard in one.\<close>

definition used :: "(side \<Rightarrow> nat) \<Rightarrow> (side \<Rightarrow> nat) \<Rightarrow> nat \<Rightarrow> side \<Rightarrow> nat \<Rightarrow> nat" where
  "used acl cis i sd t = (if t = acl sd mod 4096 then i else 0) + (if t = cis sd mod 4096 then (i + 9) div 10 else 0)"

definition iteration_heard :: "(side \<Rightarrow> packet multiset) \<Rightarrow> (side \<Rightarrow> nat) \<Rightarrow> (side \<Rightarrow> nat) \<Rightarrow> nat \<Rightarrow> bool" where
  "iteration_heard I acl cis i \<longleftrightarrow> i < 2 ^ 32 \<and>
     heard_frame (I Peripheral) (acl Peripheral) STRESS_CID ([0x43] @ to_le 4 i) \<and>
     heard_frame (I Central) (acl Central) STRESS_CID ([0x50] @ to_le 4 i) \<and>
     (if i mod 10 = 0 then heard_iso (I Peripheral) (cis Peripheral) ([0x43, 0x49] @ to_le 4 i) \<and>
        heard_iso (I Central) (cis Central) ([0x50, 0x49] @ to_le 4 i) else True)"

lemma traffic_less: "traffic I N a b \<Longrightarrow> (\<And>sd t. a' sd t \<le> a sd t) \<Longrightarrow> traffic I N a' b"
  unfolding traffic_def by (meson add_le_mono le_refl order_trans)

lemma used_acl:
  "i mod 10 \<noteq> 0 \<Longrightarrow> used acl cis (Suc i) sd t \<le> use Peripheral (acl Peripheral) (use Central (acl Central) (used acl cis i)) sd t"
proof -
  assume "i mod 10 \<noteq> 0"
  then have "1 \<le> i mod 10" "i mod 10 < 10" "i = i div 10 * 10 + i mod 10" by simp_all
  then obtain q r where r: "1 \<le> r" "r < 10" "i = q * 10 + r" by blast
  then have "(i + 9) div 10 = Suc q" "(Suc i + 9) div 10 = Suc q" by (intro div_nat_eqI; simp)+
  then have "(Suc i + 9) div 10 = (i + 9) div 10" by simp
  moreover obtain d where "(i + 9) div 10 = d" by blast
  ultimately have d: "(i + 9) div 10 = d" "(Suc i + 9) div 10 = d" by simp_all
  show ?thesis unfolding used_def use_def d by (cases sd) auto
qed

lemma used_iso:
  "used acl cis (Suc i) sd t \<le> use Peripheral (cis Peripheral) (use Central (cis Central)
     (use Peripheral (acl Peripheral) (use Central (acl Central) (used acl cis i)))) sd t"
proof -
  have "(Suc i + 9) div 10 \<le> Suc ((i + 9) div 10)" by presburger
  moreover obtain d d' where d: "(i + 9) div 10 = d" "(Suc i + 9) div 10 = d'" by blast
  ultimately have "d' \<le> Suc d" by (simp only:)
  then show ?thesis unfolding used_def use_def d by (cases sd) auto
qed

lemma pack_index: "struct_pack [FI i] = Inr seq \<Longrightarrow> seq = to_le 4 i \<and> i < 2 ^ 32"
  by (auto simp: struct_pack_def pack_le_def cat.simps split: if_splits)

lemma stress_one_yields:
  fixes acl cis :: "side \<Rightarrow> nat"
  shows "yields (traffic I N (used acl cis i)) (stress_one (acl Central) (acl Peripheral) (cis Central) (cis Peripheral) i)
    (\<lambda>_ b. traffic I N (used acl cis (Suc i)) b \<and> iteration_heard I acl cis i)"
  unfolding stress_one_def
proof (intro step_lift yields_bind [OF acl_hop_yields] yields_pure yields_cases)
  fix seq assume "struct_pack [FI i] = Inr seq"
  from pack_index [OF this] have seq: "seq = to_le 4 i" "i < 2 ^ 32" by simp_all
  assume acl: "heard_frame (I Peripheral) (acl Peripheral) STRESS_CID ([0x43] @ seq)"
    "heard_frame (I Central) (acl Central) STRESS_CID ([0x50] @ seq)"
  let ?a = "use Peripheral (acl Peripheral) (use Central (acl Central) (used acl cis i))"
  let ?Q = "\<lambda>_ b. traffic I N (used acl cis (Suc i)) b \<and> iteration_heard I acl cis i"
  show "yields (traffic I N ?a) (ret ()) ?Q" if "i mod ISO_EVERY \<noteq> 0"
    using that acl seq used_acl by (auto simp: yields_def iteration_heard_def elim!: traffic_less)
  assume "i mod ISO_EVERY = 0"
  then have heard: "iteration_heard I acl cis i" if "heard_iso (I Peripheral) (cis Peripheral) ([0x43, 0x49] @ seq)"
    "heard_iso (I Central) (cis Central) ([0x50, 0x49] @ seq)" using that acl seq by (simp add: iteration_heard_def)
  show "yields (traffic I N ?a)
     (bind_s (iso_hop ''stress peripheral'' i Central (cis Central) Peripheral (cis Peripheral) ([0x43, 0x49] @ seq)) (\<lambda>_.
       iso_hop ''stress central'' i Peripheral (cis Peripheral) Central (cis Central) ([0x50, 0x49] @ seq))) ?Q"
  proof (rule yields_bind [OF iso_hop_yields yields_pure])
    assume first: "heard_iso (I Peripheral) (cis Peripheral) ([0x43, 0x49] @ seq)"
    show "yields (traffic I N (use Central (cis Central) ?a))
       (iso_hop ''stress central'' i Peripheral (cis Peripheral) Central (cis Central) ([0x50, 0x49] @ seq)) ?Q"
      using iso_hop_yields [of I N "use Central (cis Central) ?a" "''stress central''" i Peripheral "cis Peripheral" Central "cis Central"]
        heard [OF first] used_iso unfolding yields_def by (blast intro: traffic_less)
  qed
qed

lemma stress_loop_yields:
  fixes acl cis :: "side \<Rightarrow> nat"
  shows "yields (traffic I N (used acl cis i)) (stress_loop (stress_one (acl Central) (acl Peripheral) (cis Central) (cis Peripheral)) n i)
    (\<lambda>_ b. traffic I N (used acl cis (i + n)) b \<and> list_all (iteration_heard I acl cis) [i ..< i + n])"
proof (induction n arbitrary: i)
  case 0
  then show ?case by (simp add: yields_def)
next
  case (Suc n)
  have upt: "[i ..< i + Suc n] = i # [Suc i ..< Suc i + n]" by (simp add: upt_conv_Cons)
  show ?case unfolding stress_loop.simps upt list.pred_inject
    by (rule yields_bind [OF stress_one_yields yields_pure])
      (use Suc.IH [of "Suc i"] in \<open>simp only: add_Suc add_Suc_right simp_thms\<close>)
qed

section \<open>The setup\<close>

definition linked :: "pair \<Rightarrow> nat \<times> nat \<Rightarrow> 'x bench_scheme \<Rightarrow> bool" where
  "linked s = (\<lambda>(c, p) b. within (inbox (fst s)) (inbox (snd s)) b \<and> connected_as 0 c (inbox (fst s)) \<and> connected_as 1 p (inbox (snd s)))"

lemma connect_yields: "yields (within (inbox (fst s)) (inbox (snd s))) stress_connect (linked s)"
  unfolding stress_connect_def
proof (intro step_peripheral step_central yields_cases cis_prep.reader_axioms legacy_adv.reader_axioms legacy_conn.reader_axioms)
  show "yields (within (inbox (fst s)) (inbox (snd s))) (on_pair (cis_wait_acl_pair 10000000)) (linked s)"
  proof (rule yieldsI)
    fix b x b' assume w: "within (inbox (fst s)) (inbox (snd s)) b" and run: "on_pair (cis_wait_acl_pair 10000000) b = (Inr x, b')"
    obtain c p where x: "x = (c, p)" by (metis surj_pair)
    obtain t where t: "cis_wait_acl_pair 10000000 (bn_pair b) = (Inr (c, p), t)" "bn_pair b' = t"
      using run x by (auto simp: on_pair_def split: prod.splits)
    note heard = wait_acl_by_heard [OF t(1) [unfolded cis_wait_acl_pair_def]]
    have "within (inbox (fst s)) (inbox (snd s)) b'"
      using heard(1,2) w t(2) unfolding within_def by (blast intro: subset_mset.order_trans)
    moreover have "connected_as 0 c (inbox (fst s))" "connected_as 1 p (inbox (snd s))"
      using heard(3,4) w unfolding within_def by (blast intro: connected_as_mono)+
    ultimately show "linked s x b'" by (simp add: linked_def x)
  qed
qed

lemma yields_weaken: "yields P m Q \<Longrightarrow> (\<And>x s. Q x s \<Longrightarrow> Q' x s) \<Longrightarrow> yields P m Q'"
  unfolding yields_def by blast

lemma attempt_yields:
  assumes "\<And>e. yields (\<lambda>_. True) (again e) Q" "\<And>s x b. opened = Inr s \<Longrightarrow> linked s x b \<Longrightarrow> Q x b"
  shows "yields (\<lambda>_. True) (stress_attempt opened again) Q"
  unfolding stress_attempt_def
proof (rule step_lift, rule yieldsI)
  fix s b x b' assume s: "opened = Inr s" and
    run: "bind_s (modify_s (\<lambda>b. b\<lparr>bn_pair := s\<rparr>)) (\<lambda>_. catch_s stress_connect (\<lambda>e.
       if engine_error e then with_s (\<lambda>b. bind_s cleanup_setup_attempt (\<lambda>_.
           if retryable_acl_establishment e (bn_pair b) then again e else throw e)) else throw e)) b = (Inr x, b')"
  let ?b = "b\<lparr>bn_pair := s\<rparr>"
  obtain rc b1 where c: "stress_connect ?b = (rc, b1)" by (metis surj_pair)
  show "Q x b'"
  proof (cases rc)
    case (Inr y)
    with run c have "y = x" "b1 = b'" by (simp_all add: bind_s_def catch_s_def)
    moreover have "within (inbox (fst s)) (inbox (snd s)) ?b" by (simp add: within_def)
    ultimately show ?thesis using yieldsD [OF connect_yields _ c [unfolded Inr]] assms(2) [OF s] by blast
  next
    case (Inl e)
    with run c obtain b2 where "again e b2 = (Inr x, b')"
      by (auto simp: bind_s_def catch_s_def split: if_splits prod.splits sum.splits)
    then show ?thesis by (rule yieldsD [OF assms(1) TrueI])
  qed
qed

lemma establish_yields:
  "yields (\<lambda>_. True) (establish_acl_with_retry opens left attempt)
     (\<lambda>x b. \<exists>a s. attempt \<le> a \<and> a \<le> attempt + left \<and> opens a = Inr s \<and> linked s x b)"
proof (induction left arbitrary: attempt)
  case 0
  show ?case unfolding establish_acl_with_retry.simps by (rule attempt_yields) (auto intro: yields_throw)
next
  case (Suc left)
  show ?case unfolding establish_acl_with_retry.simps
  proof (rule attempt_yields, goal_cases)
    case (1 e)
    from Suc.IH [of "Suc attempt"] show ?case by (rule yields_weaken) (metis Suc_leD add_Suc add_Suc_right)
  next
    case (2 s x b)
    then show ?case by (intro exI [of _ attempt] exI [of _ s]) simp
  qed
qed

lemma did_stream: "did I (wait_cis_established label cis) x \<Longrightarrow> \<exists>p. p \<in># I \<and> stream_up cis p"
proof -
  assume "did I (wait_cis_established label cis) x"
  then obtain h h' where h: "others h \<subseteq># I" "wait_cis_established label cis h = (Inr x, h')" by (auto simp: did_def)
  from established_seen [OF h(2)] obtain p where p: "stream_up cis p" "p \<in># inbox h" by blast
  then have "p \<in># others h" by (auto simp: others_def completion_def stream_up_def)
  with h(1) p(1) show ?thesis by (blast dest: mset_subset_eqD)
qed

lemma stream_yields:
  "yields (traffic I N a) (stress_stream c p) (\<lambda>(cc, pc) b. traffic I N a b \<and>
     (\<exists>e. e \<in># I Central \<and> stream_up cc e) \<and> (\<exists>e. e \<in># I Peripheral \<and> stream_up pc e))"
  unfolding stress_stream_def
proof (intro trim_step traffic_modify reader_trims yields_cases yields_throw cig_create.reader_axioms cis_requested.reader_axioms
    cis_established.reader_axioms path_reader.reader_axioms buffers_reader.reader_axioms reader_request)
  fix pc x y cc
  assume "did (I Peripheral) (wait_cis_established ''peripheral'' pc) x" "did (I Central) (wait_cis_established ''central'' cc) y"
  then have "\<exists>e. e \<in># I Peripheral \<and> stream_up pc e" "\<exists>e. e \<in># I Central \<and> stream_up cc e" by (blast dest: did_stream)+
  then show "yields (traffic I N a) (ret (cc, pc)) (\<lambda>(cc, pc) b. traffic I N a b \<and>
     (\<exists>e. e \<in># I Central \<and> stream_up cc e) \<and> (\<exists>e. e \<in># I Peripheral \<and> stream_up pc e))"
    unfolding yields_def by (simp del: split_paired_Ex)
qed simp_all

section \<open>What a pass rests on\<close>

definition stable_counters :: "packet multiset \<Rightarrow> bool" where
  "stable_counters I \<longleftrightarrow> (\<exists>before after. did I read_counters (Some before) \<and> did I read_counters (Some after) \<and>
     list_all (\<lambda>(i, _). counter_delta (Some before) (Some after) i \<in> {None, Some 0}) ERROR_COUNTERS)"

definition stress_heard :: "(side \<Rightarrow> packet multiset) \<Rightarrow> (side \<Rightarrow> nat) \<Rightarrow> (side \<Rightarrow> nat) \<Rightarrow> nat \<Rightarrow> bool" where
  "stress_heard I acl cis n \<longleftrightarrow>
     connected_as 0 (acl Central) (I Central) \<and> connected_as 1 (acl Peripheral) (I Peripheral) \<and>
     (\<forall>sd. (\<exists>e. e \<in># I sd \<and> stream_up (cis sd) e) \<and> stable_counters (I sd) \<and> (\<forall>t. used acl cis n sd t \<le> credits_in (I sd) t)) \<and>
     list_all (iteration_heard I acl cis) [0 ..< n]"

definition stress_evidence :: "(nat \<Rightarrow> pair result) \<Rightarrow> nat \<Rightarrow> bool" where
  "stress_evidence opens n \<longleftrightarrow> (\<exists>a s acl cis. a \<in> {1, 2, 3} \<and> opens a = Inr s \<and>
     stress_heard (pick (inbox (fst s)) (inbox (snd s))) acl cis n)"

lemma counter_deltas_ok:
  "counter_deltas label b a cs = Inr () \<longleftrightarrow> list_all (\<lambda>(i, _). counter_delta b a i \<in> {None, Some 0}) cs"
  by (induction cs) (auto split: option.splits)

lemma check_deltas_ok:
  "check_counter_deltas before after label = Inr u \<Longrightarrow> did I read_counters before \<Longrightarrow> did I read_counters after \<Longrightarrow> stable_counters I"
  unfolding check_counter_deltas_def stable_counters_def by (cases before; cases after) (auto simp: counter_deltas_ok)

lemma start_traffic:
  assumes "within (inbox (fst s)) (inbox (snd s)) b"
  shows "traffic (pick (inbox (fst s)) (inbox (snd s))) (\<lambda>sd. credits_in (pick (inbox (fst s)) (inbox (snd s)) sd)) (used acl cis 0) b"
  unfolding traffic_def
proof
  fix sd
  have i: "inbox (side_of sd b) \<subseteq># pick (inbox (fst s)) (inbox (snd s)) sd" using assms by (cases sd) (simp_all add: within_def)
  have "others (side_of sd b) \<subseteq># inbox (side_of sd b)" by (simp add: others_def)
  with i credits_in_mono [OF i] show "others (side_of sd b) \<subseteq># pick (inbox (fst s)) (inbox (snd s)) sd \<and>
      (\<forall>t. credits_in (inbox (side_of sd b)) t + used acl cis 0 sd t \<le> credits_in (pick (inbox (fst s)) (inbox (snd s)) sd) t)"
    by (auto simp: used_def intro: subset_mset.order_trans)
qed

lemma traffic_bound: "traffic I N a b \<Longrightarrow> a sd t \<le> N sd t"
  unfolding traffic_def by (meson le_add2 order_trans)

lemma judge_yields:
  assumes "list_all (iteration_heard I acl cis) [0 ..< n]" "did (I Central) read_counters cb" "did (I Peripheral) read_counters pb"
  shows "yields (traffic I N (used acl cis n)) (stress_judge label n cb pb)
    (\<lambda>_ b. list_all (iteration_heard I acl cis) [0 ..< n] \<and> (\<forall>sd. stable_counters (I sd) \<and> (\<forall>t. used acl cis n sd t \<le> N sd t)))"
  unfolding stress_judge_def
proof (intro trim_step reader_trims counters_reader.reader_axioms step_lift)
  fix ca pa u v
  assume "did (I Central) read_counters ca" "did (I Peripheral) read_counters pa"
    "check_counter_deltas cb ca ''central'' = Inr u" "check_counter_deltas pb pa ''peripheral'' = Inr v"
  then have "stable_counters (I sd)" for sd using assms(2,3) check_deltas_ok by (cases sd) blast+
  then show "yields (traffic I N (used acl cis n)) (write_book f)
    (\<lambda>_ b. list_all (iteration_heard I acl cis) [0 ..< n] \<and> (\<forall>sd. stable_counters (I sd) \<and> (\<forall>t. used acl cis n sd t \<le> N sd t)))" for f
    using assms(1) traffic_bound by (fastforce simp: yields_def)
qed

lemma used_0: "used acl cis 0 = (\<lambda>_ _. 0)"
  by (auto simp: used_def fun_eq_iff)

lemma traffic_yields:
  "yields (traffic I N (\<lambda>_ _. 0)) (stress_traffic label n (acl Central) (acl Peripheral) (cis Central) (cis Peripheral))
    (\<lambda>_ b. list_all (iteration_heard I acl cis) [0 ..< n] \<and> (\<forall>sd. stable_counters (I sd) \<and> (\<forall>t. used acl cis n sd t \<le> N sd t)))"
  unfolding stress_traffic_def
  by (intro trim_step traffic_modify reader_trims counters_reader.reader_axioms
      yields_bind [OF stress_loop_yields [of I N acl cis 0 n, unfolded used_0 add_0]] yields_pure judge_yields) simp_all

lemma rest_yields:
  assumes link: "connected_as 0 c (I Central)" "connected_as 1 p (I Peripheral)"
  shows "yields (traffic I (\<lambda>sd. credits_in (I sd)) (\<lambda>_ _. 0))
    (bind_s (stress_stream c p) (\<lambda>(cc, pc). stress_traffic label n c p cc pc)) (\<lambda>_ _. \<exists>acl cis. stress_heard I acl cis n)"
proof (rule yields_bind [OF stream_yields], rule yields_cases, goal_cases)
  case (1 z cc pc)
  let ?acl = "pick c p" and ?cis = "pick cc pc"
  have up: "\<forall>sd. \<exists>e. e \<in># I sd \<and> stream_up (?cis sd) e"
    if "(\<exists>e. e \<in># I Central \<and> stream_up cc e) \<and> (\<exists>e. e \<in># I Peripheral \<and> stream_up pc e)"
  proof
    fix sd show "\<exists>e. e \<in># I sd \<and> stream_up (?cis sd) e" using that by (cases sd) (simp_all del: split_paired_Ex)
  qed
  have heard: "\<exists>acl cis. stress_heard I acl cis n" if "\<forall>sd. \<exists>e. e \<in># I sd \<and> stream_up (?cis sd) e"
      "list_all (iteration_heard I ?acl ?cis) [0 ..< n] \<and> (\<forall>sd. stable_counters (I sd) \<and> (\<forall>t. used ?acl ?cis n sd t \<le> credits_in (I sd) t))"
    using that link unfolding stress_heard_def by (intro exI [of _ ?acl] exI [of _ ?cis]) (simp del: split_paired_Ex)
  show ?case unfolding 1 prod.case
    by (rule yields_pure, drule up, rule yields_weaken [OF traffic_yields [of I _ label n ?acl ?cis, unfolded pick.simps]], rule heard)
qed

lemma stress_body_evidence:
  assumes "stress_body opens label n b = (Inr (), b')"
  shows "stress_evidence opens n"
proof -
  from assms obtain c p b1 where b1: "establish_acl_with_retry opens 2 1 b = (Inr (c, p), b1)"
    and rest: "bind_s (stress_stream c p) (\<lambda>(cc, pc). stress_traffic label n c p cc pc)
      (b1\<lparr>st_open := True, bn_handles := Some (c, p)\<rparr>) = (Inr (), b')"
    by (auto simp: stress_body_def bind_s_Inr_iff)
  let ?b = "b1\<lparr>st_open := True, bn_handles := Some (c, p)\<rparr>"
  obtain a s where a: "1 \<le> a" "a \<le> 3" "opens a = Inr s" "linked s (c, p) b1"
    using yieldsD [OF establish_yields TrueI b1] by auto
  let ?I = "pick (inbox (fst s)) (inbox (snd s))"
  have "within (inbox (fst s)) (inbox (snd s)) ?b" using a(4) by (simp add: linked_def within_def)
  from start_traffic [OF this, unfolded used_0] have "traffic ?I (\<lambda>sd. credits_in (?I sd)) (\<lambda>_ _. 0) ?b" .
  moreover have "connected_as 0 c (?I Central)" "connected_as 1 p (?I Peripheral)" using a(4) by (simp_all add: linked_def)
  ultimately have "\<exists>acl cis. stress_heard ?I acl cis n" using yieldsD [OF rest_yields _ rest] by blast
  moreover have "a \<in> {1, 2, 3}" using a(1,2) by auto
  ultimately show ?thesis using a(3) unfolding stress_evidence_def by blast
qed

section \<open>The verdict\<close>

text \<open>A test whose handler does more than write the failure.\<close>

context scored
begin

lemma handled_verdict:
  assumes run: "finally_s (catch_s body (\<lambda>e. if c e then handler e else throw e)) tidy b = (r, b')"
    and handler: "\<And>e s r' s'. handler e s = (r', s') \<Longrightarrow> (case r' of
        Inl e' \<Rightarrow> \<not> c e' \<and> bn_book s' = bn_book s | Inr _ \<Rightarrow> \<exists>det. bn_book s' = failed grp name det (bn_book s))"
    and tidy: "silent tidy" "\<And>s e s'. tidy s = (Inl e, s') \<Longrightarrow> \<not> c e"
  shows "case r of
      Inl e \<Rightarrow> \<not> c e \<and> (\<exists>rows. bn_book b' = bn_book b @ rows)
    | Inr _ \<Rightarrow> judged grp name (evidence b) (bn_book b) (bn_book b')"
proof -
  obtain rb b1 where b1: "body b = (rb, b1)" by (metis surj_pair)
  obtain rc b2 where b2: "catch_s body (\<lambda>e. if c e then handler e else throw e) b = (rc, b2)" by (metis surj_pair)
  obtain rf b3 where b3: "tidy b2 = (rf, b3)" by (metis surj_pair)
  have book: "bn_book b3 = bn_book b2" using tidy(1) b3 by (metis silent_def snd_conv)
  have b': "b' = b3" "r = (case rf of Inl e \<Rightarrow> Inl e | Inr _ \<Rightarrow> rc)"
    using run b2 b3 by (auto simp: finally_s_def split: sum.splits)
  have rc: "case rc of Inl e \<Rightarrow> \<not> c e \<and> bn_book b2 = bn_book b
    | Inr _ \<Rightarrow> judged grp name (evidence b) (bn_book b) (bn_book b2)"
  proof (cases rb)
    case (Inl e)
    with scoresD(1) [OF scores] b1 have old: "bn_book b1 = bn_book b" by simp
    show ?thesis
    proof (cases "c e")
      case True
      with Inl b1 b2 have "handler e b1 = (rc, b2)" by (simp add: catch_s_def)
      from handler [OF this] old show ?thesis by (cases rc) (auto simp: judged_failed)
    qed (use Inl b1 b2 old in \<open>auto simp: catch_s_def\<close>)
  next
    case (Inr u)
    with scoresD(2) [OF scores] b1 obtain det' where "bn_book b1 = passed grp name det' (bn_book b)" by blast
    with Inr b1 b2 earned [of b b1] show ?thesis by (auto simp: catch_s_def judged_passed)
  qed
  show ?thesis
  proof (cases rf)
    case (Inl e)
    with tidy(2) [OF b3 [unfolded Inl]] rc book b' show ?thesis by (auto simp: judged_def split: sum.splits)
  next
    case (Inr u)
    with rc book b' show ?thesis by (auto split: sum.splits)
  qed
qed

end

lemma silent_catch: "silent m \<Longrightarrow> (\<And>e. silent (f e)) \<Longrightarrow> silent (catch_s m f)"
  unfolding silent_def
proof
  fix b assume m: "\<forall>b. bn_book (snd (m b)) = bn_book b" and f: "\<And>e. \<forall>b. bn_book (snd (f e b)) = bn_book b"
  obtain r b1 where b1: "m b = (r, b1)" by (metis surj_pair)
  have "bn_book b1 = bn_book b" using m b1 by (metis snd_conv)
  with f b1 show "bn_book (snd (catch_s m f b)) = bn_book b" by (cases r) (simp_all add: catch_s_def)
qed

lemma silent_lift: "silent (lift_r v)"
  by (simp add: silent_def)

lemma silent_attempt: "(\<And>e. silent (again e)) \<Longrightarrow> silent (stress_attempt opened again)"
  unfolding stress_attempt_def stress_connect_def cleanup_setup_attempt_def
  by (intro silent_bind silent_lift silent_modify silent_catch silent_side silent_if silent_with silent_throw) simp_all

lemma silent_establish: "silent (establish_acl_with_retry opens left attempt)"
  by (induction left arbitrary: attempt) (simp_all add: silent_attempt silent_throw)

lemma silent_hops: "silent (acl_hop msg i tx tx_acl rx rx_acl load)" "silent (iso_hop label i tx tx_cis rx rx_cis sdu)"
  unfolding acl_hop_def iso_hop_def by (intro silent_bind silent_side silent_if silent_throw)+

lemma silent_stress_one: "silent (stress_one c p cc pc i)"
  unfolding stress_one_def by (intro silent_bind silent_lift silent_hops silent_if silent_with)

lemma silent_stress_loop: "(\<And>i. silent (one i)) \<Longrightarrow> silent (stress_loop one n i)"
  by (induction n arbitrary: i) (simp_all add: silent_with silent_bind)

lemma silent_stream: "silent (stress_stream c p)"
  unfolding stress_stream_def
  by (intro silent_bind silent_side silent_if silent_modify silent_throw silent_with) simp_all

interpretation stress_test: scored "''Stress''" "''concurrent ACL/ISO/event traffic''" "stress_body opens label n" "\<lambda>_. stress_evidence opens n"
  for opens label n
proof
  show "scores ''Stress'' ''concurrent ACL/ISO/event traffic'' (stress_body opens label n)"
    unfolding stress_body_def stress_traffic_def stress_judge_def
    by (intro scores_intros silent_modify silent_lift silent_establish silent_stream silent_stress_loop silent_stress_one) simp_all
  show "stress_body opens label n b = (Inr (), b') \<Longrightarrow> stress_evidence opens n" for b :: "'a stress_bench_scheme" and b'
    by (rule stress_body_evidence)
qed

lemma polite_one_side: "polite m \<Longrightarrow> polite (on_central m)" "polite m \<Longrightarrow> polite (on_peripheral m)"
  by (rule politeI, auto simp: on_central_def on_peripheral_def split: prod.splits dest: politeD)+

lemma polite_sip: "polite sip"
  unfolding sip_def by (intro polite_bind polite_ret)

lemma polite_drain: "polite (drain fin)"
proof (rule politeI)
  fix s e s' assume "drain fin s = (Inl e, s')"
  then show "\<not> is_HciError e \<and> \<not> is_HciGone e"
  proof (induction fin s rule: drain.induct)
    case (1 fin s)
    then show ?case
      by (subst (asm) (2) drain.simps) (auto split: if_splits prod.splits sum.splits dest: politeD [OF polite_sip])
  qed
qed

lemma polite_some: "(\<And>v. polite (m v)) \<Longrightarrow> polite (if_some x m)"
  unfolding if_some_def by (intro polite_option polite_bind polite_ret)

lemma polite_gone: "polite (wait_gone hnd)"
  by (rule politeI) (auto dest!: wait_gone_outcome)

lemma polite_cleanup: "polite (cleanup cig c_cis p_cis c_acl p_acl)"
  unfolding cleanup_def
  by (intro polite_bind polite_some polite_one_side polite_gone polite_ret) (intro politeI, drule politeD [OF polite_drain], simp)

lemma stress_cleanup_clean: "silent stress_cleanup" "polite stress_cleanup"
  unfolding stress_cleanup_def
  by (intro silent_with silent_if silent_side) (intro polite_with polite_if polite_pair polite_cleanup polite_ret)

lemma diagnose_clean: "silent (stress_diagnose sd)" "polite (stress_diagnose sd)"
  unfolding stress_diagnose_def
  by (intro silent_with silent_quietly silent_side) (intro polite_with polite_option polite_ret)

lemma stress_failed_outcome:
  assumes "stress_failed e b = (r, b')"
  shows "case r of Inl e' \<Rightarrow> \<not> engine_error e' \<and> bn_book b' = bn_book b
    | Inr _ \<Rightarrow> \<exists>det. bn_book b' = failed ''Stress'' ''concurrent ACL/ISO/event traffic'' det (bn_book b)"
proof -
  let ?d = "bind_s (stress_diagnose Central) (\<lambda>_. stress_diagnose Peripheral)"
  have d: "silent ?d" "polite ?d" by (intro silent_bind polite_bind diagnose_clean)+
  have eq: "stress_failed e = bind_s ?d (\<lambda>_. write_book (failed ''Stress'' ''concurrent ACL/ISO/event traffic'' (error_detail e)))"
    unfolding stress_failed_def by (rule ext) (auto simp: bind_s_def split: prod.splits sum.splits)
  obtain rd b1 where b1: "?d b = (rd, b1)" by (metis surj_pair)
  have "bn_book b1 = bn_book b" using d(1) b1 by (metis silent_def snd_conv)
  with assms b1 politeD [OF d(2), of b] show ?thesis
    unfolding eq by (cases rd) (auto simp: bind_s_def write_book_def engine_error_def simp del: split_paired_Ex)
qed


end
