(* ===== verification/Tool_Connect.thy ===== *)
theory Tool_Connect
  imports Mute Att_Server
begin

text \<open>
  The commands of the test program that make a connection and look at the controller
  (\<open>python/hcicontroller/hci_ble_test_impl.py\<close>): \<open>cmd_connect\<close>, \<open>flood_acl\<close>, \<open>print_counters\<close>,
  \<open>cmd_counters\<close> and the direct test mode. What they print is modelled where it is the result: the lines of
  the counters and the verdict of a flood. Times are microseconds.
\<close>

section \<open>Counters\<close>

definition COUNTER_NAMES :: "string list" where
  "COUNTER_NAMES =
     [''commands accepted'', ''unknown opcodes'', ''malformed packets'', ''wrong parameter length'', ''handler errors'',
      ''event backpressure'', ''ACL refused by controller'', ''ISO refused by controller'', ''controller asked for retry'',
      ''controller queue errors'', ''unknown output types'', ''bad output lengths'', ''command responses deferred'',
      ''oversize ACL from host'', ''ISO dropped'', ''credit table overflow'', ''ACL taken by controller'',
      ''ISO taken by controller'', ''H4 bad packet indicator'', ''H4 oversize packet'', ''H4 delivery retried'',
      ''transport read errors'', ''transport write errors'', ''transport write deferred'', ''transport tx oversize'',
      ''host packet retried'', ''host packet rejected'', ''controller get errors'', ''controller packet rejected'',
      ''controller packet unsendable'', ''host over its ACL credits'', ''link table overflow'']"

abbreviation (input) POOL_FIRST_INDEX :: nat where "POOL_FIRST_INDEX \<equiv> 32"

definition item :: "nat list \<Rightarrow> nat \<Rightarrow> int result" where
  "item xs i = (if i < length xs then Inr (int (xs ! i)) else Inl IndexError)"

text \<open>The lines printed: a name, the value and, against a baseline, how far it moved.\<close>

fun counter_lines :: "string list \<Rightarrow> nat \<Rightarrow> nat list \<Rightarrow> nat list option \<Rightarrow> (string \<times> int \<times> int option) list result" where
  "counter_lines [] i values baseline = Inr []"
| "counter_lines (name # names) i values baseline =
     (if length values \<le> i then Inr []
      else
        bind_r (item values i) (\<lambda>v.
        bind_r (case baseline of
                  Some b \<Rightarrow> bind_r (item b i) (\<lambda>w. Inr (if v - w = 0 then [] else [(name, v, Some (v - w))]))
                | None \<Rightarrow> Inr (if v \<noteq> 0 then [(name, v, None)] else [])) (\<lambda>line.
        bind_r (counter_lines names (Suc i) values baseline) (\<lambda>rest. Inr (line @ rest)))))"

text \<open>The two memory figures with what is left, or nothing when there are none.\<close>

definition print_pool :: "nat list \<Rightarrow> (nat \<times> nat \<times> int option) option" where
  "print_pool values =
     (if length values < POOL_FIRST_INDEX + 2 then None
      else
        let required = values ! POOL_FIRST_INDEX; reserved = values ! (POOL_FIRST_INDEX + 1) in
        if required = 0 \<and> reserved = 0 then None
        else Some (required, reserved, if required \<le> reserved then Some (int reserved - int required) else None))"

definition print_counters ::
  "nat list option \<Rightarrow> nat list option \<Rightarrow> ((string \<times> int \<times> int option) list \<times> bool \<times> (nat \<times> nat \<times> int option) option) option result"
  where
  "print_counters values baseline =
     (case values of
        None \<Rightarrow> Inr None
      | Some vs \<Rightarrow>
          bind_r (counter_lines COUNTER_NAMES 0 vs baseline) (\<lambda>rows.
          Inr (Some (rows, baseline = None \<and> \<not> list_ex (\<lambda>v. v \<noteq> 0) (take (length COUNTER_NAMES) vs), print_pool vs))))"

definition cmd_counters :: "(hci, nat) action" where
  "cmd_counters =
     bind_s read_counters (\<lambda>values.
     case values of
       None \<Rightarrow> bind_s (modify_s (\<lambda>h. h\<lparr>unsupported := unsupported h @ [(''0xFFF0'', ''VS Read Counters'')]\<rparr>)) (\<lambda>_. ret 1)
     | Some _ \<Rightarrow> bind_s (lift_r (print_counters values None)) (\<lambda>_. ret 0))"

section \<open>Flooding\<close>

datatype buffers = Link_Dropped byte | Never_Back nat bool | All_Back | None_Spent

datatype route =
    Dropped_Above int "(string \<times> int) list"
  | Asked_Retry int
  | Refused_By_Controller int
  | Over_Credits int nat
  | Nothing_Refused nat

record flood_report =
  f_reached :: int
  f_taken :: int
  f_stopped :: int
  f_completed :: nat
  f_drained :: nat
  f_buffers :: buffers
  f_route :: route
  f_oversize :: int

primrec send_many :: "nat \<Rightarrow> nat \<Rightarrow> bytes \<Rightarrow> (hci, unit) action" where
  "send_many 0 handle payload = ret ()"
| "send_many (Suc n) handle payload = bind_s (send_acl handle CID_ATT payload) (\<lambda>_. send_many n handle payload)"

text \<open>Drain until the completions have been quiet for a while, or up to a limit.\<close>

function flood_drain :: "nat \<Rightarrow> nat \<Rightarrow> nat \<Rightarrow> nat \<Rightarrow> (hci, unit) action" where
  "flood_drain quiet limit started last_progress h =
     (if clock h < last_progress + quiet \<and> clock h < started + limit then
        (case hci_read_packet 200000 h of
           (Inl e, h') \<Rightarrow> (Inl e, h')
         | (Inr _, h') \<Rightarrow>
             flood_drain quiet limit started (if acl_completed h' \<noteq> acl_completed h then clock h' else last_progress) h')
      else (Inr (), h))"
  by pat_completeness auto
termination
  by (relation "measure (\<lambda>(_, limit, started, _, h). budget (started + limit) h)") (auto intro: hci_read_packet_budget [OF sym])

declare flood_drain.simps [simp del]

text \<open>The counters 18 to 29 that moved.\<close>

fun moved :: "nat list \<Rightarrow> nat list \<Rightarrow> nat list \<Rightarrow> (string \<times> int) list result" where
  "moved after prior [] = Inr []"
| "moved after prior (i # is) =
     bind_r (item after i) (\<lambda>a.
     bind_r (item prior i) (\<lambda>b.
     bind_r (moved after prior is) (\<lambda>rest.
     Inr (if a \<noteq> b then (COUNTER_NAMES ! i, a - b) # rest else rest))))"

text \<open>Where the packets that did not reach the controller went. \<open>lost\<close>: sent and not seen by the routing layer.\<close>

definition flood_cause :: "int \<Rightarrow> int \<Rightarrow> int \<Rightarrow> int \<Rightarrow> nat \<Rightarrow> nat list \<Rightarrow> nat list \<Rightarrow> route result" where
  "flood_cause lost retries refused overrun advertised prior after =
     (if 0 < lost then bind_r (moved after prior [18..<min 30 (length after)]) (\<lambda>up. Inr (Dropped_Above lost up))
      else if retries \<noteq> 0 then Inr (Asked_Retry retries)
      else if refused \<noteq> 0 then Inr (Refused_By_Controller refused)
      else if overrun \<noteq> 0 then Inr (Over_Credits overrun advertised)
      else Inr (Nothing_Refused advertised))"

definition delta :: "nat list \<Rightarrow> nat list \<Rightarrow> nat \<Rightarrow> int result" where
  "delta prior after i = bind_r (item after i) (\<lambda>a. bind_r (item prior i) (\<lambda>b. Inr (a - b)))"

definition flood_route :: "nat \<Rightarrow> nat \<Rightarrow> nat list \<Rightarrow> nat list \<Rightarrow> (int \<times> int \<times> int \<times> route \<times> int) result" where
  "flood_route num advertised prior after =
     bind_r (delta prior after 16) (\<lambda>taken.
     bind_r (delta prior after 6) (\<lambda>refused.
     bind_r (if 30 < length after then delta prior after 30 else Inr 0) (\<lambda>overrun.
     bind_r (delta prior after 8) (\<lambda>retries.
     bind_r (delta prior after 13) (\<lambda>oversize.
     let reached = taken + refused + oversize + overrun in
     bind_r (flood_cause (int num - reached) retries refused overrun advertised prior after) (\<lambda>r.
     Inr (reached, taken, refused + oversize + overrun, r, oversize)))))))"

definition flood_buffers :: "nat \<Rightarrow> nat \<Rightarrow> nat \<Rightarrow> nat \<Rightarrow> (byte \<times> nat \<times> byte) option \<Rightarrow> buffers" where
  "flood_buffers num completed drained limit down =
     (case down of
        Some (_, _, reason) \<Rightarrow> Link_Dropped reason
      | None \<Rightarrow>
          if completed < num then Never_Back (num - completed) (limit \<le> drained + 1000000)
          else if 0 < num then All_Back else None_Spent)"

definition flood_payload :: "nat \<Rightarrow> bytes" where
  "flood_payload peer_mtu = [ATT_WRITE_CMD, 0xFF, 0xFF] @ replicate (max 1 (min peer_mtu 247 - 3)) 0xA5"

definition flood_verdict ::
  "nat \<Rightarrow> nat \<Rightarrow> nat list \<Rightarrow> nat list \<Rightarrow> nat \<Rightarrow> nat \<Rightarrow> nat \<Rightarrow> (byte \<times> nat \<times> byte) option \<Rightarrow> flood_report result" where
  "flood_verdict num limit prior after completed drained advertised down =
     bind_r (print_counters (Some after) (Some prior)) (\<lambda>_.
     bind_r (flood_route num advertised prior after) (\<lambda>(reached, taken, stopped, r, oversize).
     Inr \<lparr>f_reached = reached, f_taken = taken, f_stopped = stopped, f_completed = completed, f_drained = drained,
       f_buffers = flood_buffers num completed drained limit down, f_route = r, f_oversize = oversize\<rparr>))"

definition drain_limit :: "nat \<Rightarrow> nat" where
  "drain_limit link_timeout = max 60000000 (link_timeout * 60000)"

text \<open>\<open>None\<close>: the controller has no counters, before or after.\<close>

definition flood_acl :: "nat \<Rightarrow> nat \<Rightarrow> nat \<Rightarrow> nat \<Rightarrow> (hci, flood_report option) action" where
  "flood_acl handle num peer_mtu link_timeout =
     bind_s read_counters (\<lambda>prior0.
     case prior0 of
       None \<Rightarrow> ret None
     | Some prior \<Rightarrow> with_s (\<lambda>h0.
         bind_s (send_many num handle (flood_payload peer_mtu)) (\<lambda>_. with_s (\<lambda>h1.
         bind_s (flood_drain (max 6000000 (link_timeout * 15000)) (drain_limit link_timeout) (clock h1) (clock h1)) (\<lambda>_. with_s (\<lambda>h2.
         bind_s read_counters (\<lambda>after0.
         case after0 of
           None \<Rightarrow> ret None
         | Some after \<Rightarrow> with_s (\<lambda>h3.
             bind_s (lift_r (flood_verdict num (drain_limit link_timeout) prior after (acl_completed h2 - acl_completed h0)
               (clock h2 - clock h1) (acl_advertised h3) (link_down h3))) (\<lambda>rep.
             ret (Some rep))))))))))"

section \<open>Connecting\<close>

record connect_args =
  ca_address :: string
  ca_random :: bool
  ca_seconds :: nat
  ca_flood :: nat

abbreviation (input) OP_LE_CREATE_CONNECTION :: nat where "OP_LE_CREATE_CONNECTION \<equiv> 0x200D"
abbreviation (input) OP_LE_CREATE_CONNECTION_CANCEL :: nat where "OP_LE_CREATE_CONNECTION_CANCEL \<equiv> 0x200E"

definition connect_params :: "bool \<Rightarrow> bytes \<Rightarrow> byte \<Rightarrow> bytes result" where
  "connect_params random peer addr_type =
     cat [struct_pack [FH 0x0060, FH 0x0030], Inr [0x00, if random then 0x01 else 0x00], Inr peer, Inr [addr_type],
          struct_pack [FH 0x0018, FH 0x0028], struct_pack [FH 0, FH 400], struct_pack [FH 0, FH 0]]"

definition connected_judge :: "packet \<Rightarrow> connection option result" where
  "connected_judge p = (case p of (kind, code, body) \<Rightarrow>
     if kind = H4_EVENT \<and> code = Some EVT_LE_META then parse_connection body else Inr None)"

definition mtu_judge :: "packet \<Rightarrow> nat option result" where
  "mtu_judge p = (case p of (kind, _, body) \<Rightarrow>
     if kind \<noteq> H4_ACL then Inr None
     else
       bind_r (unpack_le 2 (pslice 2 4 body)) (\<lambda>len.
       let l2cap = pslice 4 (4 + len) body in
       if length l2cap < 5 then Inr None
       else if from_le (pslice 2 4 l2cap) = CID_ATT \<and> l2cap ! 4 = ATT_EXCHANGE_MTU_RSP
       then bind_r (unpack_le 2 (pslice 5 7 l2cap)) (\<lambda>mtu. Inr (Some mtu))
       else Inr None))"

definition disconnect_packet :: "nat \<Rightarrow> bytes" where
  "disconnect_packet handle = command_packet OP_DISCONNECT (to_le 2 handle @ [0x13])"

text \<open>What is done with the link: the MTU request, the flood, the disconnection.\<close>

definition use_link :: "nat \<Rightarrow> nat \<Rightarrow> (hci, nat) action" where
  "use_link handle num =
     bind_s (lift_r (struct_pack [FB (unat ATT_EXCHANGE_MTU_REQ), FH 247])) (\<lambda>req.
     bind_s (send_acl handle CID_ATT req) (\<lambda>_.
     bind_s (\<lambda>h. read_until False False 200000 mtu_judge (clock h + 5000000) [] h) (\<lambda>got.
     bind_s (if num \<noteq> 0 then bind_s (flood_acl handle num (case got of None \<Rightarrow> 23 | Some mtu \<Rightarrow> mtu) 400) (\<lambda>_. ret ()) else ret ()) (\<lambda>_.
     bind_s (lift_r (struct_pack [FH handle, FB 0x13])) (\<lambda>bs.
     bind_s (command OP_DISCONNECT bs 3000000 True) (\<lambda>_.
     bind_s (sleep 300000) (\<lambda>_. with_s (\<lambda>h.
     ret (if got = None then 1 else if link_down h \<noteq> None then 1 else 0)))))))))"

definition cmd_connect :: "connect_args \<Rightarrow> (hci, nat) action" where
  "cmd_connect args =
     bind_s hci_setup (\<lambda>_.
     bind_s (lift_r (addr_bytes (ca_address args))) (\<lambda>peer.
     bind_s (identity None) (\<lambda>(own, addr_type, _).
     bind_s (if addr_type = 0x01 then bind_s (command3 OP_LE_SET_RANDOM_ADDRESS own) (\<lambda>_. ret ()) else ret ()) (\<lambda>_.
     bind_s (lift_r (connect_params (ca_random args) peer addr_type)) (\<lambda>params.
     bind_s (command OP_LE_CREATE_CONNECTION params 3000000 True) (\<lambda>(status, _).
     if status = 0x01 then
       bind_s (modify_s (\<lambda>h. h\<lparr>unsupported := unsupported h @ [(''0x200D'', ''LE Create Connection'')]\<rparr>)) (\<lambda>_. ret 1)
     else if status \<noteq> 0 then throw (HciError ''LE Create Connection returned 0x%02X'' [unat status])
     else
       bind_s (\<lambda>h. read_until False False 200000 connected_judge (clock h + ca_seconds args * 1000000) [] h) (\<lambda>info.
       case info of
         None \<Rightarrow> bind_s (command OP_LE_CREATE_CONNECTION_CANCEL [] 3000000 True) (\<lambda>_. ret 1)
       | Some c \<Rightarrow>
           if conn_status c \<noteq> 0 then ret 1 else use_link (conn_handle c) (ca_flood args))))))))"

section \<open>Direct test mode\<close>

definition cmd_dtm_tx :: "nat \<Rightarrow> nat \<Rightarrow> nat \<Rightarrow> nat \<Rightarrow> (hci, nat \<times> nat) action" where
  "cmd_dtm_tx channel len payload seconds =
     bind_s (command3 OP_RESET []) (\<lambda>_.
     bind_s (lift_r (bytes_of [channel, len, payload])) (\<lambda>bs.
     bind_s (command3 0x201E bs) (\<lambda>_.
     bind_s (sleep (seconds * 1000000)) (\<lambda>_.
     bind_s (command3 0x201F []) (\<lambda>(_, data).
     bind_s (lift_r (unpack_le 2 (take 2 data))) (\<lambda>packets. ret (0, packets)))))))"

text \<open>The packet error rate \<open>100 * (expected - received) / expected\<close> is above 30 percent.\<close>

definition per_high :: "nat \<Rightarrow> nat \<Rightarrow> bool" where
  "per_high expected received \<longleftrightarrow> 100 * (int expected - int received) > 30 * int expected"

definition cmd_dtm_rx :: "nat \<Rightarrow> nat \<Rightarrow> nat \<Rightarrow> (hci, nat \<times> nat) action" where
  "cmd_dtm_rx channel seconds expected =
     bind_s (command3 OP_RESET []) (\<lambda>_.
     bind_s (lift_r (bytes_of [channel])) (\<lambda>bs.
     bind_s (command3 0x201D bs) (\<lambda>_.
     bind_s (sleep (seconds * 1000000)) (\<lambda>_.
     bind_s (command3 0x201F []) (\<lambda>(_, data).
     bind_s (lift_r (unpack_le 2 (take 2 data))) (\<lambda>received.
     ret (if expected \<noteq> 0 then (if per_high expected received then 1 else 0)
          else if received = 0 then 1 else 0, received)))))))"

section \<open>What is on the wire afterwards\<close>

lemma command_wrote:
  assumes "command opcode payload timeout af h = (Inr x, h')"
  shows "sent h' = sent h @ [command_packet opcode payload]"
proof -
  obtain pkt h1 where pkt: "command_header opcode payload = Inr pkt" and w: "hci_write_packet pkt h = (Inr (), h1)"
    and l: "command_loop opcode af (clock h1 + timeout) [] h1 = (Inr x, h')"
    using assms by (auto simp: command_def bind_s_Inr_iff lift_r_def)
  have "pkt = command_packet opcode payload"
    using pkt by (auto simp: command_header_def bind_r_iff pack_le_def command_packet_def split: if_splits)
  moreover have "sent h1 = sent h @ [pkt]" using w by (auto simp: hci_write_packet_def split: list.splits option.splits)
  moreover have "sent h' = sent h1" using command_loop_sent [of opcode af "clock h1 + timeout" "[]" h1] l by simp
  ultimately show ?thesis by simp
qed

lemma acl_sent_command: "command opcode payload timeout af h = (Inr x, h') \<Longrightarrow> acl_sent h' = acl_sent h"
  by (auto dest!: command_wrote simp: acl_sent_def command_packet_def)

lemma write_sent: "hci_write_packet data h = (Inr u, h') \<Longrightarrow> sent h' = sent h @ [data]"
  by (auto simp: hci_write_packet_def split: list.splits option.splits)

lemma send_acl_sent: "send_acl handle cid payload h = (Inr (), h') \<Longrightarrow> acl_sent h' = acl_sent h + 1"
  by (auto simp: send_acl_def bind_s_Inr_iff Let_def acl_sent_def dest!: write_sent)

lemma send_many_sent: "send_many n handle payload h = (Inr (), h') \<Longrightarrow> acl_sent h' = acl_sent h + n"
  by (induction n arbitrary: h) (auto simp: bind_s_Inr_iff dest!: send_acl_sent)

lemma counters_sent: "read_counters h = (Inr x, h') \<Longrightarrow> acl_sent h' = acl_sent h"
  by (auto simp: read_counters_def bind_s_Inr_iff split: if_splits prod.splits dest: acl_sent_command)

lemma flood_drain_end:
  assumes "flood_drain quiet limit started last_progress h = (r, h')"
  shows "sent h' = sent h \<and> later h h'"
  using assms
proof (induction quiet limit started last_progress h rule: flood_drain.induct)
  case (1 quiet limit started last_progress h)
  show ?case
  proof (cases "clock h < last_progress + quiet \<and> clock h < started + limit")
    case True
    obtain y h1 where rd: "hci_read_packet 200000 h = (y, h1)" by fastforce
    have one: "sent h1 = sent h" "later h h1" using mute_read [of 200000] rd.later [of h 200000] rd by (auto simp: mute_def dest!: spec [of _ h])
    show ?thesis
    proof (cases y)
      case (Inl e)
      with 1(2) True rd one show ?thesis by (simp add: flood_drain.simps [of quiet limit started last_progress h])
    next
      case (Inr x)
      with 1(2) True rd have
        "flood_drain quiet limit started (if acl_completed h1 \<noteq> acl_completed h then clock h1 else last_progress) h1 = (r, h')"
        by (simp add: flood_drain.simps [of quiet limit started last_progress h])
      with 1(1) [OF True rd [symmetric] Inr] one show ?thesis by (auto intro: later_trans)
    qed
  qed (use 1(2) in \<open>auto simp: flood_drain.simps [of quiet limit started last_progress h]\<close>)
qed

interpretation many: hci_procedure "send_many n handle payload" for n handle payload
proof -
  have "hci_procedure (send_many n handle payload)"
    by (induction n) (simp_all only: send_many.simps, (intro procedure_intros acl.hci_procedure_axioms; assumption)+)
  then show "hci_procedure (send_many n handle payload)" .
qed

interpretation flood: hci_procedure "flood_acl handle num peer_mtu link_timeout" for handle num peer_mtu link_timeout
proof -
  have drain: "hci_procedure (flood_drain quiet limit started last_progress)" for quiet limit started last_progress
    by unfold_locales (metis flood_drain_end prod.collapse)
  have look: "hci_procedure (with_s f)" if "\<And>h. hci_procedure (f h)" for f :: "hci \<Rightarrow> (hci, flood_report option) action"
    using that by (simp add: hci_procedure_def)
  show "hci_procedure (flood_acl handle num peer_mtu link_timeout)"
    unfolding flood_acl_def by (intro procedure_intros look drain counters.hci_procedure_axioms many.hci_procedure_axioms)
qed

lemma credits_later: "later h h' \<Longrightarrow> acl_sent h' = acl_sent h + n \<Longrightarrow>
  acl_credits h' = acl_credits h - int n + (int (acl_completed h') - int (acl_completed h)) \<and> acl_completed h \<le> acl_completed h'"
  by (simp add: later_def acl_balance_def)

lemma flood_run:
  assumes "flood_acl handle num peer_mtu link_timeout h = (Inr (Some rep), h')"
  obtains prior after h0 h1 h2 where
    "read_counters h = (Inr (Some prior), h0)" "send_many num handle (flood_payload peer_mtu) h0 = (Inr (), h1)"
    "flood_drain (max 6000000 (link_timeout * 15000)) (drain_limit link_timeout) (clock h1) (clock h1) h1 = (Inr (), h2)"
    "read_counters h2 = (Inr (Some after), h')"
    "flood_verdict num (drain_limit link_timeout) prior after (acl_completed h2 - acl_completed h0) (clock h2 - clock h1)
       (acl_advertised h') (link_down h') = Inr rep"
  using assms unfolding flood_acl_def by (auto simp: bind_s_Inr_iff lift_r_def split: option.splits)

lemma flood_cause_lost:
  "flood_cause lost retries refused overrun advertised prior after = Inr r \<Longrightarrow>
     (case r of Dropped_Above l _ \<Rightarrow> l = lost \<and> 0 < lost | _ \<Rightarrow> lost \<le> 0)"
  by (auto simp: flood_cause_def bind_r_Inr_iff split: if_split_asm)

lemma flood_route_sum:
  assumes "flood_route num advertised prior after = Inr (reached, taken, stopped, r, oversize)"
  shows "reached = taken + stopped \<and> (case r of Dropped_Above lost _ \<Rightarrow> lost = int num - reached \<and> 0 < lost | _ \<Rightarrow> int num \<le> reached)"
proof -
  from assms obtain refused overrun retries where
    "reached = taken + refused + oversize + overrun" "stopped = refused + oversize + overrun"
    "flood_cause (int num - reached) retries refused overrun advertised prior after = Inr r"
    unfolding flood_route_def Let_def bind_r_Inr_iff by blast
  with flood_cause_lost [OF this(3)] show ?thesis by (cases r) simp_all
qed


text \<open>A link that gives no buffer back: the counters stand still, and a flood of one packet waits six seconds and
  reports the packet as dropped on the way and its buffer as missing.\<close>

definition still_counters :: bytes where
  "still_counters = 0 # 31 # zeros 123"

lemma still_words: "counter_words 0 31 still_counters = Inr (31 # replicate 30 0)"
  unfolding still_counters_def by code_simp

lemma read_still:
  assumes "pending h = []" "tx_faults h = []" "wire h = (d, Inr (reply_to OP_VS_READ_COUNTERS still_counters)) # rest" "d < 3000000"
  shows "read_counters h = (Inr (Some (31 # replicate 30 0)),
    h\<lparr>sent := sent h @ [command_packet OP_VS_READ_COUNTERS []], clock := clock h + d, wire := rest\<rparr>)"
  using assms command_replied [OF assms(1-3), of "[]" 3000000 True] still_words
  by (simp add: read_counters_def bind_s_def still_counters_def)

lemma idle_drain:
  assumes "pending h = []" "wire h = (Suc d + n * 200000, x) # rest" "last_progress + quiet = clock h + n * 200000"
    "clock h + n * 200000 < started + limit"
  shows "flood_drain quiet limit started last_progress h = (Inr (), h\<lparr>clock := clock h + n * 200000, wire := (Suc d, x) # rest\<rparr>)"
  using assms
proof (induction n arbitrary: h)
  case 0
  then show ?case by (simp add: flood_drain.simps [of quiet limit started last_progress h])
next
  case (Suc n)
  let ?h = "h\<lparr>clock := clock h + 200000, wire := (Suc d + n * 200000, x) # rest\<rparr>"
  have "hci_read_packet 200000 h = (Inr None, ?h)" using Suc.prems by (simp add: hci_read_packet_def read_wire_def)
  then have "flood_drain quiet limit started last_progress h = flood_drain quiet limit started last_progress ?h"
    using Suc.prems by (simp add: flood_drain.simps [of quiet limit started last_progress h])
  with Suc.IH [of ?h] Suc.prems show ?case by (simp add: add.assoc)
qed

lemma still_verdict:
  "flood_verdict 1 60000000 (31 # replicate 30 0) (31 # replicate 30 0) 0 6000000 0 None =
     Inr \<lparr>f_reached = 0, f_taken = 0, f_stopped = 0, f_completed = 0, f_drained = 6000000, f_buffers = Never_Back 1 False,
       f_route = Dropped_Above 1 [], f_oversize = 0\<rparr>"
proof -
  have "print_counters (Some (31 # replicate 30 0)) (Some (31 # replicate 30 0)) = Inr (Some ([], False, None))" by code_simp
  moreover have "flood_route 1 0 (31 # replicate 30 0) (31 # replicate 30 0) = Inr (0, 0, 0, Dropped_Above 1 [], 0)" by code_simp
  ultimately show ?thesis by (simp add: flood_verdict_def flood_buffers_def)
qed

lemma still_flood:
  defines "h \<equiv> hci_init [(5, Inr (reply_to OP_VS_READ_COUNTERS still_counters)), (6000001, Inr (reply_to OP_VS_READ_COUNTERS still_counters))] [] 0"
  shows "\<exists>h'. flood_acl 0x40 1 23 400 h =
     (Inr (Some \<lparr>f_reached = 0, f_taken = 0, f_stopped = 0, f_completed = 0, f_drained = 6000000, f_buffers = Never_Back 1 False,
       f_route = Dropped_Above 1 [], f_oversize = 0\<rparr>), h') \<and> acl_credits h' = - 1 \<and> acl_credits h = 0"
proof -
  let ?r = "Inr (reply_to OP_VS_READ_COUNTERS still_counters)"
  let ?h0 = "h\<lparr>sent := [command_packet OP_VS_READ_COUNTERS []], clock := 5, wire := [(6000001, ?r)]\<rparr>"
  let ?acl = "[H4_ACL, 0x40, 0, 27, 0, 23, 0, 4, 0] @ flood_payload 23"
  let ?h1 = "?h0\<lparr>sent := sent ?h0 @ [?acl], acl_credits := - 1\<rparr>"
  let ?h2 = "?h1\<lparr>clock := 6000005, wire := [(1, ?r)]\<rparr>"
  have "read_counters h = (Inr (Some (31 # replicate 30 0)), ?h0)"
    using read_still [of h 5] by (simp add: h_def hci_init_def)
  moreover have "send_many 1 0x40 (flood_payload 23) ?h0 = (Inr (), ?h1)"
    by (simp add: h_def hci_init_def send_acl_def flood_payload_def bind_s_def pack_le_def to_le_2 hci_write_packet_def Let_def)
  moreover have "flood_drain 6000000 60000000 5 5 ?h1 = (Inr (), ?h2)"
    using idle_drain [of ?h1 0 30 ?r "[]" 5 6000000 5 60000000] by (simp add: h_def hci_init_def)
  moreover have "read_counters ?h2 = (Inr (Some (31 # replicate 30 0)), ?h2\<lparr>sent := sent ?h2 @ [command_packet OP_VS_READ_COUNTERS []], clock := 6000006, wire := []\<rparr>)"
    using read_still [of ?h2 1] by (simp add: h_def hci_init_def)
  ultimately show ?thesis using still_verdict
    by (simp add: flood_acl_def bind_s_def drain_limit_def h_def hci_init_def)
qed


lemma later_acl_sent: "later h h' \<Longrightarrow> acl_sent h \<le> acl_sent h'"
  by (auto simp: later_def prefix_def acl_sent_def)

lemma use_link_end:
  assumes "use_link handle num h = (Inr r, h')"
  shows "last (sent h') = disconnect_packet handle \<and> (r = 0 \<longrightarrow> link_down h' = None) \<and> acl_sent h < acl_sent h'"
proof -
  let ?wait = "\<lambda>h. read_until False False 200000 mtu_judge (clock h + 5000000) [] h"
  let ?flood = "\<lambda>got. if num \<noteq> 0 then bind_s (flood_acl handle num (case got of None \<Rightarrow> 23 | Some mtu \<Rightarrow> mtu) 400) (\<lambda>_. ret ()) else ret ()"
  from assms obtain req h1 got h2 h3 bs x h4 where run:
    "send_acl handle CID_ATT req h = (Inr (), h1)" "?wait h1 = (Inr got, h2)" "?flood got h2 = (Inr (), h3)"
    "struct_pack [FH handle, FB 0x13] = Inr bs" "command OP_DISCONNECT bs 3000000 True h3 = (Inr x, h4)"
    "bind_s (sleep 300000) (\<lambda>_. with_s (\<lambda>h. ret (if got = None then 1 else if link_down h \<noteq> None then 1 else 0))) h4 = (Inr r, h')"
    unfolding use_link_def bind_s_Inr_iff lift_r_def by auto
  have "bs = to_le 2 handle @ [0x13]"
    using run(4) by (auto simp: struct_pack_def pack_le_def bind_r_iff cat.simps split: if_splits)
  with command_wrote [OF run(5)] run(6) have out: "sent h' = sent h3 @ [disconnect_packet handle]" "r = 0 \<longrightarrow> link_down h' = None"
    by (auto simp: sleep_def disconnect_packet_def bind_s_def simp del: not_None_eq split_paired_All split_paired_Ex split: if_splits)
  have "hci_procedure (?flood got)" by (intro procedure_intros flood.hci_procedure_axioms)
  then have "later h2 h3" using run(3) by (metis hci_procedure.later snd_conv)
  moreover have "later h1 h2" using read_until_later [of h1 False False 200000 mtu_judge "clock h1 + 5000000" "[]"] run(2) by simp
  ultimately have "acl_sent h1 \<le> acl_sent h3" using later_acl_sent later_trans by blast
  moreover have "acl_sent h3 \<le> acl_sent h'" using out(1) by (simp add: acl_sent_def)
  ultimately show ?thesis using out send_acl_sent [OF run(1)] by simp
qed

text \<open>What a run leaves behind, by the packet it wrote last.\<close>

definition connect_closed :: "nat \<Rightarrow> hci \<Rightarrow> bool" where
  "connect_closed r h \<longleftrightarrow> (\<exists>handle. last (sent h) = disconnect_packet handle \<and> (r = 0 \<longrightarrow> link_down h = None) \<and> 0 < acl_sent h) \<or>
     r = 1 \<and> last (sent h) = command_packet OP_LE_CREATE_CONNECTION_CANCEL [] \<or>
     r = 1 \<and> (\<exists>params. last (sent h) = command_packet OP_LE_CREATE_CONNECTION params)"


text \<open>Nobody answers: the initiator is cancelled.\<close>

definition lonely :: hci where
  "lonely = hci_init (map (\<lambda>(op, data). (5, Inr (reply_to op data)))
     [(OP_RESET, []), (OP_SET_EVENT_MASK, []), (OP_LE_SET_EVENT_MASK, []), (OP_LE_READ_BUFFER_SIZE, [27, 0, 3]),
      (OP_READ_BD_ADDR, [1, 2, 3, 4, 5, 6]), (OP_LE_CREATE_CONNECTION, []), (OP_LE_CREATE_CONNECTION_CANCEL, [])]) [] 0"

lemma lonely_run: "\<exists>h'. cmd_connect \<lparr>ca_address = ''060504030201'', ca_random = True, ca_seconds = 0, ca_flood = 0\<rparr> lonely = (Inr 1, h')"
proof -
  have "addr_bytes ''060504030201'' = Inr [1, 2, 3, 4, 5, 6]" by code_simp
  moreover have "[1, 2, 3, 4, 5, 6] \<noteq> zeros 6" by (simp add: eval_nat_numeral)
  moreover obtain params where "connect_params True [1, 2, 3, 4, 5, 6] 0 = Inr params" "length params < 256"
    by (simp add: connect_params_def struct_pack_def cat.simps pack_le_def)
  ultimately show ?thesis
    by (simp add: cmd_connect_def lonely_def hci_init_def hci_setup_def identity_def bind_s_def command_replied read_until.simps restore_def)
qed


end
