(* ===== verification/Tool_Scan.thy ===== *)
theory Tool_Scan
  imports Tool_Connect "HOL-Library.AList"
begin

text \<open>
  The scanner of the test program (\<open>cmd_scan\<close>, the advertising reports and the local name, in
  \<open>python/hcicontroller/hci_ble_test_impl.py\<close>). A name is the octets that the program decodes for printing,
  which is empty exactly when the decoded text is.
\<close>

section \<open>Reports\<close>

type_synonym report = "string \<times> int \<times> bytes"

definition parse_ext_report :: "bytes \<Rightarrow> report option" where
  "parse_ext_report body =
     (if length body < 26 then None
      else Some (addr_str (pslice 5 11 body), sint (body ! 15), pslice 26 (26 + unat (body ! 25)) body))"

definition parse_legacy_report :: "bytes \<Rightarrow> report option" where
  "parse_legacy_report body =
     (if length body < 12 then None
      else
        let data_len = unat (body ! 10) in
        if length body < 11 + data_len + 1 then None
        else Some (addr_str (pslice 4 10 body), sint (body ! (11 + data_len)), pslice 11 (11 + data_len) body))"

function local_name_from :: "nat \<Rightarrow> bytes \<Rightarrow> bytes" where
  "local_name_from i data =
     (if i + 1 < length data then
        let field_len = unat (data ! i) in
        if field_len = 0 \<or> length data < i + 1 + field_len then []
        else if data ! (i + 1) \<in> {0x08, 0x09} then pslice (i + 2) (i + 1 + field_len) data
        else local_name_from (i + (field_len + 1)) data
      else [])"
  by pat_completeness auto
termination
  by (relation "measure (\<lambda>(i, data). length data - i)") auto

declare local_name_from.simps [simp del]

definition local_name :: "bytes \<Rightarrow> bytes" where
  "local_name data = local_name_from 0 data"

section \<open>The table\<close>

record entry =
  e_count :: nat
  e_rssi :: int
  e_name :: bytes

text \<open>A dict: in the order of the first report of each address.\<close>

type_synonym seen = "(string \<times> entry) list"

definition note_report :: "report \<Rightarrow> seen \<Rightarrow> seen" where
  "note_report r seen =
     (case r of (addr, rssi, data) \<Rightarrow>
        let old = (case map_of seen addr of None \<Rightarrow> \<lparr>e_count = 0, e_rssi = rssi, e_name = []\<rparr> | Some e \<Rightarrow> e);
            name = local_name data in
        AList.update addr
          \<lparr>e_count = e_count old + 1, e_rssi = max (e_rssi old) rssi, e_name = (if name \<noteq> [] then name else e_name old)\<rparr> seen)"

definition report_of :: "packet \<Rightarrow> report option result" where
  "report_of p = (case p of (kind, code, body) \<Rightarrow>
     if kind \<noteq> H4_EVENT \<or> code \<noteq> Some EVT_LE_META then Inr None
     else
       bind_r (byte_at body 0) (\<lambda>sub.
       Inr (if sub = 0x0D then parse_ext_report body else if sub = 0x02 then parse_legacy_report body else None)))"

definition note_packet :: "packet \<Rightarrow> seen \<Rightarrow> seen result" where
  "note_packet p seen = bind_r (report_of p) (\<lambda>r. Inr (case r of None \<Rightarrow> seen | Some r \<Rightarrow> note_report r seen))"

function scan_loop :: "nat \<Rightarrow> seen \<Rightarrow> (hci, seen) action" where
  "scan_loop fin seen h =
     (if clock h < fin then
        (case hci_read_packet 200000 h of
           (Inl e, h') \<Rightarrow> (Inl e, h')
         | (Inr None, h') \<Rightarrow> scan_loop fin seen h'
         | (Inr (Some p), h') \<Rightarrow>
             (case note_packet p seen of
                Inl e \<Rightarrow> (Inl e, h')
              | Inr seen' \<Rightarrow> scan_loop fin seen' h'))
      else (Inr seen, h))"
  by pat_completeness auto
termination
  by (relation "measure (\<lambda>(fin, _, h). budget fin h)") (auto intro: hci_read_packet_budget [OF sym])

declare scan_loop.simps [simp del]

text \<open>Turning scanning on; whether the controller has extended scanning.\<close>

definition scan_start :: "bool \<Rightarrow> (hci, bool) action" where
  "scan_start active =
     bind_s hci_setup (\<lambda>_.
     bind_s (identity None) (\<lambda>(own, addr_type, _).
     bind_s (if addr_type = 0x01 then bind_s (command3 OP_LE_SET_RANDOM_ADDRESS own) (\<lambda>_. ret ()) else ret ()) (\<lambda>_.
     let kind = (if active then 0x01 else 0x00) in
     bind_s (lift_r (cat [Inr [addr_type, 0x00, 0x01, kind], struct_pack [FH 0x0060], struct_pack [FH 0x0030]])) (\<lambda>params.
     bind_s (command 0x2041 params 3000000 True) (\<lambda>(status, _).
     if status = 0 then bind_s (command3 0x2042 [0x01, 0x00, 0, 0, 0, 0]) (\<lambda>_. ret True)
     else
       bind_s (modify_s (\<lambda>h. h\<lparr>unsupported := unsupported h @ [(''0x2041'', ''LE Set Extended Scan Parameters'')]\<rparr>)) (\<lambda>_.
       bind_s (lift_r (cat [Inr [kind], struct_pack [FH 0x0060, FH 0x0030], Inr [addr_type, 0x00]])) (\<lambda>legacy.
       bind_s (command3 0x200B legacy) (\<lambda>_.
       bind_s (command3 0x200C [0x01, 0x00]) (\<lambda>_. ret False)))))))))"

definition scan_stop :: "bool \<Rightarrow> (hci, byte \<times> bytes) action" where
  "scan_stop extended =
     (if extended then command 0x2042 [0x00, 0x00, 0, 0, 0, 0] 3000000 True else command 0x200C [0x00, 0x00] 3000000 True)"

definition cmd_scan :: "nat \<Rightarrow> bool \<Rightarrow> (hci, nat \<times> seen) action" where
  "cmd_scan seconds active =
     bind_s (scan_start active) (\<lambda>extended.
     bind_s (\<lambda>h. scan_loop (clock h + seconds * 1000000) [] h) (\<lambda>seen.
     bind_s (scan_stop extended) (\<lambda>_.
     ret (if seen \<noteq> [] then 0 else 1, seen))))"

section \<open>The table is exact\<close>

definition name_of :: "report \<Rightarrow> bytes" where
  "name_of r = local_name (snd (snd r))"

text \<open>What the reports of one address amount to.\<close>

definition summary :: "report list \<Rightarrow> entry option" where
  "summary rs =
     (if rs = [] then None
      else Some \<lparr>e_count = length rs, e_rssi = Max (set (map (fst \<circ> snd) rs)),
        e_name = (let ns = filter (\<lambda>n. n \<noteq> []) (map name_of rs) in if ns = [] then [] else last ns)\<rparr>)"

lemma summary_snoc:
  "summary (rs @ [r]) = Some (case summary rs of
     None \<Rightarrow> \<lparr>e_count = 1, e_rssi = fst (snd r), e_name = name_of r\<rparr>
   | Some e \<Rightarrow> \<lparr>e_count = e_count e + 1, e_rssi = max (e_rssi e) (fst (snd r)),
       e_name = (if name_of r \<noteq> [] then name_of r else e_name e)\<rparr>)"
  by (auto simp: summary_def Let_def max.commute filter_empty_conv)

definition reports_for :: "string \<Rightarrow> report list \<Rightarrow> report list" where
  "reports_for addr rs = filter (\<lambda>r. fst r = addr) rs"

lemma note_report_exact:
  assumes "\<And>addr. map_of seen addr = summary (reports_for addr rs)"
  shows "map_of (note_report r seen) addr = summary (reports_for addr (rs @ [r]))"
proof -
  obtain a rssi data where r: "r = (a, rssi, data)" by (rule prod_cases3)
  show ?thesis
  proof (cases "addr = a")
    case True
    with assms [of a] r summary_snoc [of "reports_for a rs" r] show ?thesis
      by (auto simp: note_report_def Let_def reports_for_def update_conv' name_of_def split: option.splits)
  next
    case False
    with assms [of addr] r show ?thesis by (simp add: note_report_def Let_def reports_for_def update_conv')
  qed
qed

text \<open>The reports among packets.\<close>

definition reports :: "packet list \<Rightarrow> report list" where
  "reports ps = List.map_filter (\<lambda>p. case report_of p of Inr r \<Rightarrow> r | Inl _ \<Rightarrow> None) ps"

lemma reports_append: "reports (ps @ qs) = reports ps @ reports qs"
  by (simp add: reports_def List.map_filter_def)

lemma scan_loop_exact:
  assumes "scan_loop fin seen h = (Inr seen', h')" "\<And>addr. map_of seen addr = summary (reports_for addr (reports ps))"
  shows "\<exists>qs. pending h @ packets_of (wire h) = qs @ pending h' @ packets_of (wire h') \<and>
    (\<forall>addr. map_of seen' addr = summary (reports_for addr (reports (ps @ qs)))) \<and> fin \<le> clock h'"
  using assms
proof (induction fin seen h arbitrary: ps rule: scan_loop.induct)
  case (1 fin seen h)
  show ?case
  proof (cases "clock h < fin")
    case False
    with 1(3,4) show ?thesis by (auto simp: scan_loop.simps [of fin seen h])
  next
    case True
    obtain y h1 where rd: "hci_read_packet 200000 h = (y, h1)" by fastforce
    have "\<not> isl y" using 1(3) True rd by (cases y) (simp_all add: scan_loop.simps [of fin seen h])
    then consider "y = Inr None" | p where "y = Inr (Some p)" by (metis isl_def obj_sumE option.exhaust)
    then show ?thesis
    proof cases
      case 1
      with \<open>scan_loop fin seen h = (Inr seen', h')\<close> True rd have run: "scan_loop fin seen h1 = (Inr seen', h')"
        by (simp add: scan_loop.simps [of fin seen h])
      have "pending h1 @ packets_of (wire h1) = pending h @ packets_of (wire h)"
        using hci_read_packet_None [of 200000 h h1] rd 1 by simp
      with "1.IH"(1) [OF True rd [symmetric] 1 refl run] "1.prems"(2) show ?thesis by metis
    next
      case 2
      with \<open>scan_loop fin seen h = (Inr seen', h')\<close> True rd obtain seen1 where n: "note_packet p seen = Inr seen1"
        and run: "scan_loop fin seen1 h1 = (Inr seen', h')" by (auto simp: scan_loop.simps [of fin seen h] split: sum.splits)
      have eq: "pending h @ packets_of (wire h) = p # pending h1 @ packets_of (wire h1)"
        using hci_read_packet_Some(1) [of 200000 h p h1] rd 2 by simp
      from n obtain r where rp: "report_of p = Inr r" and s1: "seen1 = (case r of None \<Rightarrow> seen | Some r \<Rightarrow> note_report r seen)"
        by (auto simp: note_packet_def bind_r_Inr_iff)
      have "map_of seen1 addr = summary (reports_for addr (reports (ps @ [p])))" for addr
      proof (cases r)
        case None
        with rp s1 "1.prems"(2) show ?thesis by (simp add: reports_append) (simp add: reports_def List.map_filter_def)
      next
        case (Some r')
        then have "reports (ps @ [p]) = reports ps @ [r']"
          using rp by (simp add: reports_append) (simp add: reports_def List.map_filter_def del: split_paired_Ex)
        with s1 Some note_report_exact [OF "1.prems"(2)] show ?thesis by simp
      qed
      from "1.IH"(2) [OF True rd [symmetric] 2 refl n run this] obtain qs where
        "pending h1 @ packets_of (wire h1) = qs @ pending h' @ packets_of (wire h')"
        "\<forall>addr. map_of seen' addr = summary (reports_for addr (reports ((ps @ [p]) @ qs)))" "fin \<le> clock h'" by blast
      with eq show ?thesis by (intro exI [of _ "p # qs"]) simp
    qed
  qed
qed

lemma summary_None: "summary rs = None \<longleftrightarrow> rs = []"
  by (simp add: summary_def)

lemma zeros_eq: "[0, 0, 0, 0, 0, 0] = zeros 6" "[0, 0] = zeros 2"
  by (simp_all add: eval_nat_numeral)

lemma scan_outcome:
  assumes "cmd_scan seconds active h = (Inr (code, seen), h')"
  obtains h1 h2 where "scan_loop (clock h1 + seconds * 1000000) [] h1 = (Inr seen, h2)" "code = (if seen \<noteq> [] then 0 else 1)"
    "last (sent h') \<in> {command_packet 0x2042 (zeros 6), command_packet 0x200C (zeros 2)}"
proof -
  from assms obtain on h1 h2 x where run: "scan_loop (clock h1 + seconds * 1000000) [] h1 = (Inr seen, h2)"
      "scan_stop on h2 = (Inr x, h')" "code = (if seen \<noteq> [] then 0 else 1)"
    unfolding cmd_scan_def by (auto simp: bind_s_Inr_iff simp del: split_paired_Ex)
  have "last (sent h') \<in> {command_packet 0x2042 (zeros 6), command_packet 0x200C (zeros 2)}"
    using run(2) command_wrote zeros_eq by (cases on) (auto simp: scan_stop_def)
  with run(1,3) that show thesis by blast
qed


section \<open>Names\<close>

text \<open>Advertising data as the advertiser writes it: a length, a type and the contents of each field.\<close>

definition ad_fields :: "(byte \<times> bytes) list \<Rightarrow> bytes" where
  "ad_fields fs = concat (map (\<lambda>(t, d). of_nat (length d + 1) # t # d) fs)"

lemma local_name_fields:
  "list_all (\<lambda>(t, d). length d < 255) fs \<Longrightarrow>
     local_name_from (length pre) (pre @ ad_fields fs) =
       (case find (\<lambda>(t, d). t \<in> {0x08, 0x09}) fs of None \<Rightarrow> [] | Some (_, d) \<Rightarrow> d)"
proof (induction fs arbitrary: pre)
  case Nil
  show ?case by (subst local_name_from.simps) (simp add: ad_fields_def)
next
  case (Cons f fs)
  obtain t d where f: "f = (t, d)" by fastforce
  let ?data = "pre @ ad_fields (f # fs)"
  have data: "?data = (pre @ of_nat (length d + 1) # t # d) @ ad_fields fs" by (simp add: ad_fields_def f)
  have len: "unat (of_nat (length d + 1) :: byte) = length d + 1" using Cons.prems f by (simp only: unat_of_nat_byte) simp
  have at: "?data ! length pre = of_nat (length d + 1)" "?data ! (length pre + 1) = t" "length pre + 2 + length d \<le> length ?data"
    unfolding data by (simp_all add: nth_append)
  have body: "pslice (length pre + 2) (length pre + 1 + (length d + 1)) ?data = d" unfolding data by (simp add: pslice_def)
  show ?case
  proof (cases "t \<in> {0x08, 0x09}")
    case True
    with at len body f show ?thesis by (subst local_name_from.simps) (simp add: Let_def)
  next
    case False
    with at len have "local_name_from (length pre) ?data = local_name_from (length pre + (length d + 2)) ?data"
      by (subst local_name_from.simps) (simp add: Let_def)
    also have "\<dots> = local_name_from (length (pre @ of_nat (length d + 1) # t # d)) ((pre @ of_nat (length d + 1) # t # d) @ ad_fields fs)"
      unfolding data by simp
    also have "\<dots> = (case find (\<lambda>(t, d). t \<in> {0x08, 0x09}) fs of None \<Rightarrow> [] | Some (_, d) \<Rightarrow> d)"
      using Cons.prems f by (intro Cons.IH) simp
    finally show ?thesis using False f by simp
  qed
qed

lemma local_name_decodes:
  "list_all (\<lambda>(t, d). length d < 255) fs \<Longrightarrow>
     local_name (ad_fields fs) = (case find (\<lambda>(t, d). t \<in> {0x08, 0x09}) fs of None \<Rightarrow> [] | Some (_, d) \<Rightarrow> d)"
  using local_name_fields [of fs "[]"] by (simp add: local_name_def)

text \<open>One advertiser, heard once in a second.\<close>

definition one_report :: packet where
  "one_report = (H4_EVENT, Some EVT_LE_META, [0x02, 1, 0, 0, 1, 2, 3, 4, 5, 6, 4, 3, 0x09, 65, 66, 0xD0])"

definition one_advertiser :: hci where
  "one_advertiser = hci_init (map (\<lambda>(op, data). (5, Inr (reply_to op data)))
     [(OP_RESET, []), (OP_SET_EVENT_MASK, []), (OP_LE_SET_EVENT_MASK, []), (OP_LE_READ_BUFFER_SIZE, [27, 0, 3]),
      (OP_READ_BD_ADDR, [1, 2, 3, 4, 5, 6]), (0x2041, []), (0x2042, [])] @
     [(100000, Inr one_report), (1000001, Inr (reply_to 0x2042 []))]) [] 0"

lemma one_report_of: "report_of one_report = Inr (Some (''06:05:04:03:02:01'', - 48, [3, 9, 65, 66]))"
  by code_simp

lemma one_name: "local_name [3, 9, 65, 66] = [65, 66]"
  by code_simp

lemma read_report:
  assumes "pending h = []" "wire h = (d, Inr one_report) # rest" "d \<le> t"
  shows "hci_read_packet t h = (Inr (Some one_report), h\<lparr>clock := clock h + d, wire := rest\<rparr>)"
  using assms by (simp add: one_report_def hci_read_packet_def read_wire_def on_event_def bind_s_def Let_def)

lemma read_idle:
  "pending h = [] \<Longrightarrow> wire h = (d, x) # rest \<Longrightarrow> t < d \<Longrightarrow>
     hci_read_packet t h = (Inr None, h\<lparr>clock := clock h + t, wire := (d - t, x) # rest\<rparr>)"
  by (simp add: hci_read_packet_def read_wire_def)

lemma one_scan: "\<exists>h'. cmd_scan 1 False one_advertiser =
    (Inr (0, [(''06:05:04:03:02:01'', \<lparr>e_count = 1, e_rssi = - 48, e_name = [65, 66]\<rparr>)]), h')"
proof -
  have "[1, 2, 3, 4, 5, 6] \<noteq> zeros 6" by (simp add: eval_nat_numeral)
  moreover obtain params where "cat [Inr [0, 0x00, 0x01, 0], struct_pack [FH 0x0060], struct_pack [FH 0x0030]] = Inr params" "length params < 256"
    by (simp add: struct_pack_def cat.simps pack_le_def)
  ultimately have "\<exists>ps. scan_start False one_advertiser = (Inr True,
      one_advertiser\<lparr>sent := ps, clock := 35, wire := [(100000, Inr one_report), (1000001, Inr (reply_to 0x2042 []))],
        acl_size := 27, acl_credits := 3, acl_advertised := 3\<rparr>)"
    by (simp add: scan_start_def one_advertiser_def hci_init_def hci_setup_def identity_def bind_s_def command_replied Let_def)
  then obtain ps where start: "scan_start False one_advertiser = (Inr True,
      one_advertiser\<lparr>sent := ps, clock := 35, wire := [(100000, Inr one_report), (1000001, Inr (reply_to 0x2042 []))],
        acl_size := 27, acl_credits := 3, acl_advertised := 3\<rparr>)" by blast
  then show ?thesis
    by (simp add: cmd_scan_def bind_s_def one_advertiser_def hci_init_def scan_loop.simps read_report note_packet_def one_report_of
        note_report_def one_name read_idle scan_stop_def command_replied)
qed


end
