(* ===== verification/Tool_Advertise.thy ===== *)
theory Tool_Advertise
  imports Tool_Connect Frugal Stress_Phase
begin

text \<open>
  The advertiser of the test program (\<open>cmd_advertise\<close> in \<open>python/hcicontroller/hci_ble_test_impl.py\<close>): advertising with
  the extended or the legacy commands, serving the peer that connects and notifying it, and closing the
  link. Times are microseconds; the name is given as octets.
\<close>

section \<open>Going on air\<close>

definition adv_start :: "string option \<Rightarrow> bytes \<Rightarrow> (hci, bool) action" where
  "adv_start addr name =
     bind_s hci_setup (\<lambda>_.
     bind_s (lift_r (case addr of None \<Rightarrow> Inr None
                     | Some a \<Rightarrow> if a = '''' then Inr None else bind_r (addr_bytes a) (\<lambda>raw. Inr (Some raw)))) (\<lambda>override.
     bind_s (identity override) (\<lambda>(own, addr_type, _).
     bind_s (lift_r (cat [Inr [2, 0x01, 0x06], bytes_of [length name + 1, 0x09], Inr name])) (\<lambda>adv.
     bind_s (lift_r (cat [Inr [0], struct_pack [FH 0x0013], Inr ([0xA0, 0, 0] @ [0xA0, 0, 0] @ [0x07, addr_type, 0x00] @ zeros 6 @
       [0x00, 0x7F, 0x01, 0x00, 0x01, 0x00, 0x00])])) (\<lambda>params.
     bind_s (command 0x2036 params 3000000 True) (\<lambda>(status, _).
     if status = 0 then
       bind_s (if addr_type = 0x01 then bind_s (command3 0x2035 ([0] @ own)) (\<lambda>_. ret ()) else ret ()) (\<lambda>_.
       bind_s (lift_r (cat [bytes_of [0, 0x03, 0x01, length adv], Inr adv])) (\<lambda>data.
       bind_s (command3 0x2037 data) (\<lambda>_.
       bind_s (command3 0x2038 [0, 0x03, 0x01, 0]) (\<lambda>_.
       bind_s (command3 0x2039 [0x01, 0x01, 0, 0, 0, 0]) (\<lambda>_. ret True)))))
     else
       bind_s (modify_s (\<lambda>h. h\<lparr>unsupported := unsupported h @ [(''0x2036'', ''LE Set Extended Advertising Parameters'')]\<rparr>)) (\<lambda>_.
       bind_s (if addr_type = 0x01 then bind_s (command3 OP_LE_SET_RANDOM_ADDRESS own) (\<lambda>_. ret ()) else ret ()) (\<lambda>_.
       bind_s (lift_r (cat [struct_pack [FH 0x00A0, FH 0x00A0], Inr ([0x00] @ [addr_type, 0x00] @ zeros 6 @ [0x07, 0x00])])) (\<lambda>legacy.
       bind_s (command3 0x2006 legacy) (\<lambda>_.
       bind_s (lift_r (cat [bytes_of [length adv], Inr (adv @ zeros (31 - length adv))])) (\<lambda>data.
       bind_s (command3 0x2008 data) (\<lambda>_.
       bind_s (command3 0x2009 (zeros 32)) (\<lambda>_.
       bind_s (command3 0x200A [0x01]) (\<lambda>_. ret False))))))))))))))"

section \<open>The loop\<close>

record adv =
  ad_hci :: hci
  ad_name :: bytes
  ad_att :: "att option"
  ad_conn :: "nat option"
  ad_rx :: nat
  ad_notify :: nat
  ad_counter :: nat

definition on_adv :: "(hci, 'a) action \<Rightarrow> (adv, 'a) action" where
  "on_adv m s = (case m (ad_hci s) of (r, h) \<Rightarrow> (r, s\<lparr>ad_hci := h\<rparr>))"

definition on_server :: "att \<Rightarrow> (att \<times> hci, 'a) action \<Rightarrow> (adv, 'a) action" where
  "on_server a m s = (case m (a, ad_hci s) of (r, a', h) \<Rightarrow> (r, s\<lparr>ad_att := Some a', ad_hci := h\<rparr>))"

definition tick :: "nat \<Rightarrow> bytes" where
  "tick n = map of_char (''tick '' @ decimal n @ [CHR 0x0D, CHR 0x0A])"

text \<open>A counter that was not sent is taken back.\<close>

definition adv_tick :: "(adv, unit) action" where
  "adv_tick = with_s (\<lambda>s.
     case ad_att s of
       None \<Rightarrow> ret ()
     | Some a \<Rightarrow>
         if ad_notify s \<le> clock (ad_hci s) \<and> 0 < acl_credits (ad_hci s) then
           bind_s (on_server a (att_notify (tick (ad_counter s + 1)))) (\<lambda>told.
           modify_s (\<lambda>s. if told then s\<lparr>ad_counter := ad_counter s + 1, ad_notify := clock (ad_hci s) + 1000000\<rparr>
                         else s\<lparr>ad_notify := clock (ad_hci s) + 500000\<rparr>))
         else ret ())"

text \<open>The other LE events are decoded for printing, which raises on a short one.\<close>

definition meta_shown :: "bytes \<Rightarrow> unit result" where
  "meta_shown body =
     bind_r (byte_at body 0) (\<lambda>sub.
     if sub = 0x04 then bind_r (byte_at body 1) (\<lambda>_. Inr ())
     else if sub = 0x07 then bind_r (unpack_le 2 (pslice 3 5 body)) (\<lambda>_. Inr ())
     else if sub = 0x0C then
       bind_r (byte_at body 1) (\<lambda>st.
       if st = 0 then bind_r (byte_at body 4) (\<lambda>_. bind_r (byte_at body 5) (\<lambda>_. Inr ())) else Inr ())
     else if sub = 0x03 then
       bind_r (byte_at body 1) (\<lambda>st.
       if st = 0 then bind_r (unpack_le 2 (pslice 4 6 body)) (\<lambda>_. bind_r (unpack_le 2 (pslice 6 8 body)) (\<lambda>_.
         bind_r (unpack_le 2 (pslice 8 10 body)) (\<lambda>_. Inr ()))) else Inr ())
     else Inr ())"

text \<open>One packet; true ends the loop.\<close>

definition adv_packet :: "packet \<Rightarrow> (adv, bool) action" where
  "adv_packet p =
     (case p of (kind, code, body) \<Rightarrow>
        if kind = H4_ACL then
          bind_s (lift_r (unpack_le 2 (pslice 0 2 body))) (\<lambda>_.
          bind_s (lift_r (unpack_le 2 (pslice 2 4 body))) (\<lambda>len.
          let l2cap = pslice 4 (4 + len) body in
          if length l2cap < 4 then ret False
          else
            bind_s (modify_s (\<lambda>s. s\<lparr>ad_rx := ad_rx s + 1\<rparr>)) (\<lambda>_. with_s (\<lambda>s.
            case ad_att s of
              None \<Rightarrow> ret False
            | Some a \<Rightarrow>
                bind_s (on_server a (att_feed (pslice 4 (4 + from_le (pslice 0 2 l2cap)) l2cap) (from_le (pslice 2 4 l2cap)))) (\<lambda>_. ret False)))))
        else if kind \<noteq> H4_EVENT then ret False
        else if code = Some EVT_LE_META then
          bind_s (lift_r (parse_connection body)) (\<lambda>info.
          case info of
            Some c \<Rightarrow>
              if conn_status c \<noteq> 0 then bind_s (modify_s (\<lambda>s. s\<lparr>ad_conn := None\<rparr>)) (\<lambda>_. ret False)
              else
                bind_s (modify_s (\<lambda>s. s\<lparr>ad_conn := Some (conn_handle c), ad_att := Some (att_init (conn_handle c) (ad_name s))\<rparr>)) (\<lambda>_.
                bind_s (lift_r (pack_le 2 (conn_handle c))) (\<lambda>hd16.
                bind_s (on_adv (command 0x2016 hd16 3000000 True)) (\<lambda>_. ret False)))
          | None \<Rightarrow> bind_s (lift_r (meta_shown body)) (\<lambda>_. ret False))
        else if code = Some EVT_DISCONNECTION_COMPLETE then
          bind_s (lift_r (byte_at body 3)) (\<lambda>_.
          bind_s (modify_s (\<lambda>s. s\<lparr>ad_conn := None, ad_att := None\<rparr>)) (\<lambda>_. ret True))
        else ret False)"

definition adv_read :: "(adv, bool) action" where
  "adv_read = bind_s (on_adv (hci_read_packet 200000)) (\<lambda>packet. case packet of None \<Rightarrow> ret False | Some p \<Rightarrow> adv_packet p)"

lemma frugal_on_adv: "frugal (\<lambda>h. h) m \<Longrightarrow> frugal ad_hci (on_adv m)"
  by (rule frugalI) (auto simp: on_adv_def split: prod.splits dest: frugalD)

lemma frugal_on_server: "frugal snd m \<Longrightarrow> frugal ad_hci (on_server a m)"
  by (rule frugalI) (auto simp: on_server_def split: prod.splits dest: frugalD)

lemma frugal_tick: "frugal ad_hci adv_tick"
proof -
  have "frugal snd (att_notify data)" for data
    unfolding att_notify_def by (intro frugal_intros frugal_modify) simp_all
  then show ?thesis unfolding adv_tick_def by (intro frugal_intros frugal_on_server frugal_modify) simp_all
qed

lemma frugal_adv_packet: "frugal ad_hci (adv_packet p)"
  unfolding adv_packet_def Let_def
  by (intro frugal_intros frugal_on_server frugal_on_adv frugal_att frugal_modify) simp_all

lemma adv_round:
  assumes "bind_s adv_tick (\<lambda>_. adv_read) s = (Inr x, s')" "clock (ad_hci s) < fin"
  shows "left_over fin (ad_hci s') < left_over fin (ad_hci s)"
proof -
  from assms(1) obtain s1 po h where tick: "adv_tick s = (Inr (), s1)" and rd: "hci_read_packet 200000 (ad_hci s1) = (Inr po, h)"
    and rest: "(case po of None \<Rightarrow> ret False | Some p \<Rightarrow> adv_packet p) (s1\<lparr>ad_hci := h\<rparr>) = (Inr x, s')"
  proof -
    from assms(1) obtain s1 where s1: "adv_tick s = (Inr (), s1)" "adv_read s1 = (Inr x, s')" by (auto simp: bind_s_Inr_iff)
    obtain y h where rd: "hci_read_packet 200000 (ad_hci s1) = (y, h)" by fastforce
    with s1(2) obtain po where "y = Inr po" "(case po of None \<Rightarrow> ret False | Some p \<Rightarrow> adv_packet p) (s1\<lparr>ad_hci := h\<rparr>) = (Inr x, s')"
      by (cases y) (auto simp: adv_read_def bind_s_def on_adv_def)
    with s1(1) rd that show thesis by blast
  qed
  have "frugal ad_hci (case po of None \<Rightarrow> ret False | Some p \<Rightarrow> adv_packet p)" by (intro frugal_cases frugal_ret frugal_adv_packet)
  from frugalD [OF this rest] have after: "left_over fin (ad_hci s') \<le> left_over fin h" by (intro left_over_mono) simp_all
  from frugalD [OF frugal_tick tick] have first: "left_over fin (ad_hci s1) \<le> left_over fin (ad_hci s)" by (intro left_over_mono) simp_all
  show ?thesis
  proof (cases "clock (ad_hci s1) < fin")
    case True
    from read_left_over [OF rd _ True] after first show ?thesis by simp
  next
    case False
    with frugalD [OF frugal_read rd] have "left_over fin h = 0" by (simp add: left_over_def)
    with after assms(2) show ?thesis by (simp add: left_over_def)
  qed
qed

function adv_loop :: "nat \<Rightarrow> (adv, unit) action" where
  "adv_loop fin s =
     (if clock (ad_hci s) < fin then
        (case bind_s adv_tick (\<lambda>_. adv_read) s of
           (Inl e, s') \<Rightarrow> (Inl e, s')
         | (Inr True, s') \<Rightarrow> (Inr (), s')
         | (Inr False, s') \<Rightarrow> adv_loop fin s')
      else (Inr (), s))"
  by pat_completeness auto
termination
  by (relation "measure (\<lambda>(fin, s). left_over fin (ad_hci s))") (auto intro: adv_round [OF sym])

declare adv_loop.simps [simp del]

section \<open>The run\<close>

definition adv_close :: "(adv, unit) action" where
  "adv_close = with_s (\<lambda>s.
     case ad_conn s of
       None \<Rightarrow> ret ()
     | Some handle \<Rightarrow>
         bind_s (lift_r (struct_pack [FH handle, FB 0x13])) (\<lambda>bs.
         bind_s (on_adv (command OP_DISCONNECT bs 3000000 True)) (\<lambda>(status, _).
         bind_s (if status = 0x01 then on_adv (modify_s (\<lambda>h. h\<lparr>unsupported := unsupported h @ [(''0x0406'', ''Disconnect'')]\<rparr>)) else ret ()) (\<lambda>_.
         bind_s (on_adv (sleep 300000)) (\<lambda>_. on_adv (drop_stale 200000))))))"

definition adv_stop :: "bool \<Rightarrow> (hci, byte \<times> bytes) action" where
  "adv_stop extended =
     (if extended then command 0x2039 [0x00, 0x01, 0, 0, 0, 0] 3000000 True else command 0x200A [0x00] 3000000 True)"

definition adv_code :: "adv \<Rightarrow> nat" where
  "adv_code s =
     (case ad_att s of
        None \<Rightarrow> 1
      | Some a \<Rightarrow> if att_responses a \<noteq> 0 \<and> 0 < acl_credits (ad_hci s) then 0 else 1)"

definition cmd_advertise :: "string option \<Rightarrow> bytes \<Rightarrow> nat \<Rightarrow> (hci, nat) action" where
  "cmd_advertise addr name seconds =
     bind_s (adv_start addr name) (\<lambda>extended. \<lambda>h.
     case bind_s (adv_loop (clock h + seconds * 1000000)) (\<lambda>_.
          bind_s adv_close (\<lambda>_.
          bind_s (on_adv (adv_stop extended)) (\<lambda>_. with_s (\<lambda>s. ret (adv_code s)))))
        \<lparr>ad_hci = h, ad_name = name, ad_att = None, ad_conn = None, ad_rx = 0, ad_notify = 0, ad_counter = 0\<rparr> of
       (r, s) \<Rightarrow> (r, ad_hci s))"

text \<open>A run that returns has turned advertising off last, and closed the link before that when one was up.\<close>

lemma advertise_turns_off:
  assumes "cmd_advertise addr name seconds h = (Inr code, h')"
  shows "last (sent h') \<in> {command_packet 0x2039 [0x00, 0x01, 0, 0, 0, 0], command_packet 0x200A [0x00]}"
proof -
  from assms obtain extended h0 where start: "adv_start addr name h = (Inr extended, h0)"
    unfolding cmd_advertise_def bind_s_Inr_iff by blast
  let ?s = "\<lparr>ad_hci = h0, ad_name = name, ad_att = None, ad_conn = None, ad_rx = 0, ad_notify = 0, ad_counter = 0\<rparr>"
  let ?rest = "bind_s (adv_loop (clock h0 + seconds * 1000000)) (\<lambda>_. bind_s adv_close (\<lambda>_.
          bind_s (on_adv (adv_stop extended)) (\<lambda>_. with_s (\<lambda>s. ret (adv_code s)))))"
  obtain r s where run: "?rest ?s = (r, s)" by (rule prod.exhaust)
  with assms start have s: "r = Inr code" "h' = ad_hci s" by (simp_all add: cmd_advertise_def bind_s_def)
  from run s(1) obtain s1 x where "on_adv (adv_stop extended) s1 = (Inr x, s)" by (auto simp: bind_s_Inr_iff simp del: split_paired_Ex)
  then have "adv_stop extended (ad_hci s1) = (Inr x, h')" using s(2) by (auto simp: on_adv_def split: prod.splits)
  then show ?thesis using command_wrote by (cases extended) (auto simp: adv_stop_def)
qed

end
