(* ===== verification/Spec2Isabelle.thy ===== *)
theory Spec2Isabelle
  imports Usb_Transport Smp_Pairing Smp_Legacy Att_Refinement Probe_Wire Pawr_Phase Bis_Phase Recovery_Phase
    Core54 Core_Advanced Stress_Verdict Tool_Scan
    Tool_Advertise
begin

text \<open>
  Verification of the Python host library of HciController (\<open>src/python/hcicontroller/\<close>), the
  programs that drive and release-test a Bluetooth controller over HCI.

  \<^bold>\<open>The program\<close>. A transport (a serial port with H:4 framing, or the native USB endpoints read by
  threads) delivers packets. The HCI engine, class \<open>Hci\<close>, writes commands and waits for their answers
  while it keeps every other packet, counts ACL credits and records link state. On the engine run
  procedures of one controller (waits for events and ISO data, connection features), a small
  attribute server and two pairing implementations that share the ACL link, and the probe, which sends
  every command of a table and undoes what it started. Two controllers on a bench are connected and
  exercised by phases that write their verdicts into a result book.

  \<^bold>\<open>Modelling\<close>. An octet is an \<open>8 word\<close>; \<open>struct.pack\<close> and \<open>bytes([n])\<close> raise out of range. Exceptions are
  values (\<open>exn\<close>), fallible code is \<open>exn + 'a\<close>, stateful code an action that also returns the state it
  reached when it raised. Time is microseconds. The controller is the environment: the field \<open>wire\<close>
  of the engine holds, with delays, every packet or transport failure it will deliver, and
  \<open>tx_faults\<close> what happens to writes, both arbitrary. A statement about every wire is a statement
  about every controller. Waits end by their deadline or by running out of what they read: each loop
  is a terminating function with a measure over queued packets, wire entries and time left, so no
  fuel is used anywhere. Cryptographic primitives of the pairing (AES-CMAC, P-256) come from a
  package outside the repository and are a parameter record; what is used of them is named where it
  is used. Text that is only printed is left out; messages of exceptions keep the format string and
  its numbers.

  \<^bold>\<open>Theories\<close>.
  \<^item> \<open>Prelude\<close>: octets, exceptions, actions, slices, little-endian numbers. \<open>Struct_Codec\<close>: parameter
    blocks and their sizes.
  \<^item> \<open>Hci_Events\<close> (\<open>hci_events.py\<close>): error names, the connection event decoder and its round trips.
  \<^item> \<open>Framing\<close>, \<open>Serial_H4\<close> (\<open>hci_transport.py\<close>, serial part): cutting packets out of a stream; the reader
    returns exactly the packets that were sent, in any chunks, and every packet that is there in time.
  \<^item> \<open>Usb_Framing\<close>, \<open>Usb_Transport\<close> (\<open>hci_transport.py\<close>, native USB): reassembly per endpoint, the reader
    threads and the client as a step relation; order, completeness and the reporting of the first
    failure as invariants of every interleaving.
  \<^item> \<open>Hci_Engine\<close> (\<open>Hci\<close> of \<open>hci_ble_test_impl.py\<close> and its wrapper): \<open>read_packet\<close>, \<open>command\<close>, \<open>send_acl\<close>,
    \<open>on_event\<close>, identity, counters, address text. How every command can end, that an answer in time is
    heard, that credits are exact. The locale \<open>hci_procedure\<close> is the contract every procedure keeps.
  \<^item> \<open>Hci_Replies\<close>: the exact state after an answered command, and the inbox as a multiset: what a
    command or a wait takes out of it. \<open>Hci_Waits\<close>: the deadline loop all procedures share.
  \<^item> \<open>Hci_Iso\<close> (\<open>hci_iso.py\<close>): ISO packets, data paths, the marker wait.
  \<^item> \<open>Smp\<close>, \<open>Smp_Safety\<close>, \<open>Smp_Responder\<close>, \<open>Smp_Pairing\<close> (\<open>smp_central.py\<close>): Secure Connections pairing of both
    roles; completion only after every check against an arbitrary peer, agreement of two honest
    sides, no exception on any PDU.
  \<^item> \<open>Commands_Catalog\<close>, \<open>Commands_Profile\<close> (\<open>hci_commands_catalog.py\<close>, \<open>hci_commands.py\<close>): every row of the
    command table, the index, and that every parameter block is built and fits.
  \<^item> \<open>Att_Server\<close>, \<open>Att_Refinement\<close> (\<open>AttServer\<close>): every request; one answer per request, write then read,
    maximal discovery responses, refinement of an abstract store, and the type of its state. Locales
    \<open>link_procedure\<close> and \<open>l2cap_handler\<close> are the contract of a user of the link.
  \<^item> \<open>Smp_Legacy\<close> (\<open>SmpPeripheral\<close>): legacy pairing with the controller's AES.
  \<^item> \<open>Probe\<close>, \<open>Probe_Books\<close>, \<open>Probe_Consent\<close> (\<open>cmd_probe\<close> up to the wait for a peer): rows, retries, undo,
    phases and bisection; the bisection ends at the row that matters, every row is counted once and the
    unwind is last in first out. \<open>Probe_Peer\<close>, \<open>Probe_Wire\<close> (the wait for a peer and \<open>cmd_probe\<close> as a whole):
    serving the peer ends because every round reads a packet or lets time pass; without consent a run sends
    none of the commands that need it but the answers to key requests and the closing disconnection.
  \<^item> \<open>Auracast_Data\<close> (\<open>auracast.py\<close>, encoders): announcements and periodic data decode, with reference
    decoders, to what was asked for. \<open>Auracast_Source\<close> (\<open>AuracastSource\<close>): starting, streaming and
    stopping a broadcast; a stream writes each frame on its BIS with the right sequence number.
  \<^item> \<open>Periodic\<close> (\<open>periodic_features.py\<close>): the procedures of one controller for periodic advertising, its
    synchronization and transfer, and advertising with responses. \<open>Hci_Inbox\<close>: procedures only take packets
    out of what the controller delivers, the locale \<open>reader\<close>. \<open>Acl_Reassembly\<close> (\<open>wait_acl_marker\<close> of
    \<open>connected_features_pair.py\<close>): fragments are put together, exactly and always.
  \<^item> \<open>Connected_Features\<close> (\<open>connected_features.py\<close>): waits that keep every other packet and the
    connection procedures. \<open>Hci_Pair\<close> (\<open>hci_pair.py\<close>): two controllers that share time.
    \<open>Result_Book\<close> (\<open>results.py\<close>) and \<open>Feature_Phases\<close>: the phases and what a release verdict means; the
    locale \<open>records\<close> is what a step of a phase promises about the book.

  \<^item> \<open>Phase_Rules\<close>: triples that collect what a run that returns has received, and the locale \<open>scored\<close>, a
    test that writes its pass last and only with evidence. \<open>Periodic_Phases\<close>, \<open>Pawr_Phase\<close>, \<open>Bis_Phase\<close>
    (\<open>periodic_features.py\<close>, \<open>bis_features.py\<close>) and \<open>Pair_Phases\<close> (\<open>connected_features_pair.py\<close>): the phases of
    the release run; one row each, no exception, and a pass only when the events it stands for were
    received. The reader thread of PAwR runs under an arbitrary schedule, a list that says how many of its
    iterations fall before each point where the main thread looks at it. \<open>Recovery_Phase\<close>
    (\<open>recovery_features.py\<close>): resets in the middle of active procedures; a pass rests on events that are
    all different. \<open>Core54\<close> (\<open>core54_features.py\<close>): the strict report decoder and the 5.4 profile and
    advertising phases. \<open>Core_Advanced\<close> (\<open>core_advanced.py\<close>): three steps over one link, the rows of which
    are always complete. \<open>Core_Conditions\<close> (\<open>hci_core_conditions.py\<close>, \<open>profile.py\<close>): the commands a feature
    makes mandatory, and what a controller says of itself.

  \<^item> \<open>Cis_Teardown\<close> (\<open>hci_cis_cleanup.py\<close>): what the teardown after a run with a stream writes never depends on
    what the controllers answer; the locale \<open>sender\<close> is an action with a fixed output. \<open>Completed_Packets\<close>
    (\<open>_wait_completed\<close> of \<open>stress_features.py\<close>): the completions of other connections are conserved.
    \<open>Cis_Link\<close> (\<open>hci_cis_pair_test.py\<close>): setting up a stream. \<open>Stress_Phase\<close>, \<open>Stress_Verdict\<close>
    (\<open>stress_features.py\<close>): the retries of the setup, the traffic loop and the phase; the locale \<open>trimmer\<close> is a
    procedure that may rewrite the events that report credits but not their sum, and a pass rests on a
    frame for each iteration and on as many credits as packets.

  \<^item> \<open>Tool_Connect\<close>, \<open>Tool_Scan\<close>, \<open>Tool_Advertise\<close> (\<open>cmd_connect\<close>, \<open>flood_acl\<close>, the counters, the direct test
    mode, \<open>cmd_scan\<close>, \<open>cmd_advertise\<close>): a connect leaves no link behind, the verdict of a flood is what the
    credits say, the table of a scan is exact, and scanning and advertising are off at the end. \<open>Mute\<close> and
    \<open>Frugal\<close> are the contracts of loops that only read and of handlers that add nothing to what is to be read;
    the second is the measure that ends every loop that serves a peer.

  \<^bold>\<open>Not modelled\<close>: the sequencing that \<open>hci_ble_test.py\<close> wraps around \<open>cmd_probe\<close> (the model is the probe of
  \<open>hci_ble_test_impl.py\<close>), opening ports and
  enumerating devices, \<open>argparse\<close> front ends and printing, the example programs, and the C++ firmware.
\<close>

end
